(* ===== verification/Prelude.thy ===== *)
theory Prelude
  imports Complex_Main "HOL-Library.AList" "HOL-Library.Word"
begin

text \<open>
  Shared vocabulary of the development: the types the components name (bytes, Python
  strings, insertion-ordered dictionaries), results of code that can raise, Python's
  slices, and the interfaces (locales) that several components implement: decoders and
  codecs over a byte frame, and state machines with an invariant or a step order.
\<close>

section \<open>Types and hint collections\<close>

named_theorems result_simps \<open>how results of raising code compose\<close>
named_theorems frame_simps \<open>fields an operation leaves alone\<close>

type_synonym byte = "8 word"
type_synonym bytes = "byte list"

text \<open>A Python \<open>str\<close> is a sequence of code points; surrogates are allowed in it.\<close>
type_synonym pystr = "nat list"

definition py :: "string \<Rightarrow> pystr" where
  "py s = map of_char s"

lemma py_simps [simp]:
  "py [] = []" "py (c # s) = of_char c # py s" "py (s @ t) = py s @ py t" "length (py s) = length s"
  by (simp_all add: py_def)

section \<open>Results of code that can raise\<close>

text \<open>A result is a value of \<open>'e + 'a\<close>: \<open>Inl\<close> carries the exception, \<open>Inr\<close> the value.
  \<open>rbind\<close> runs the rest of a function body only when the first part returned.\<close>

definition rbind :: "'e + 'a \<Rightarrow> ('a \<Rightarrow> 'e + 'b) \<Rightarrow> 'e + 'b" where
  "rbind m f = (case m of Inl e \<Rightarrow> Inl e | Inr x \<Rightarrow> f x)"

definition ensure :: "bool \<Rightarrow> 'e \<Rightarrow> 'e + unit" where
  "ensure ok e = (if ok then Inr () else Inl e)"

definition of_opt :: "'e \<Rightarrow> 'a option \<Rightarrow> 'e + 'a" where
  "of_opt e m = (case m of None \<Rightarrow> Inl e | Some x \<Rightarrow> Inr x)"

lemma rbind_simps [simp, result_simps]:
  "rbind (Inl e) f = Inl e" "rbind (Inr x) f = f x"
  by (simp_all add: rbind_def)

lemma rbind_Inr_iff [result_simps]:
  "rbind m f = Inr y \<longleftrightarrow> (\<exists>x. m = Inr x \<and> f x = Inr y)"
  by (cases m) auto

lemma rbind_Inl_iff:
  "rbind m f = Inl e \<longleftrightarrow> m = Inl e \<or> (\<exists>x. m = Inr x \<and> f x = Inl e)"
  by (cases m) auto

lemma rbind_InrE [elim]:
  assumes "rbind m f = Inr y"
  obtains x where "m = Inr x" "f x = Inr y"
  using assms by (auto simp: rbind_Inr_iff)

lemma ensure_simps [simp, result_simps]:
  "ensure True e = Inr ()" "ensure False e = Inl e"
  "ensure b e = Inr u \<longleftrightarrow> b" "ensure b e = Inl e' \<longleftrightarrow> \<not> b \<and> e' = e"
  by (auto simp: ensure_def)

lemma of_opt_simps [simp, result_simps]:
  "of_opt e None = Inl e" "of_opt e (Some x) = Inr x"
  "of_opt e m = Inr y \<longleftrightarrow> m = Some y" "of_opt e m = Inl e' \<longleftrightarrow> m = None \<and> e' = e"
  by (auto simp: of_opt_def split: option.splits)

text \<open>\<open>try: m / except ...: raise e from ...\<close>\<close>

definition reraise :: "'f \<Rightarrow> 'e + 'a \<Rightarrow> 'f + 'a" where
  "reraise e m = (case m of Inl _ \<Rightarrow> Inl e | Inr x \<Rightarrow> Inr x)"

lemma reraise_simps [simp, result_simps]:
  "reraise e (Inl e') = Inl e" "reraise e (Inr x) = Inr x"
  "reraise e m = Inr x \<longleftrightarrow> m = Inr x" "reraise e m = Inl f \<longleftrightarrow> (\<exists>e'. m = Inl e') \<and> f = e"
  by (auto simp: reraise_def split: sum.splits)

section \<open>Awaited calls to a store\<close>

text \<open>How a call to Redis, the database or Docker ended. \<open>Io_failed\<close> and \<open>Io_cancelled\<close> say whether it took
  effect before the exception.\<close>
datatype io = Io_ok | Io_failed bool | Io_cancelled bool

fun takes_effect :: "io \<Rightarrow> bool" where
  "takes_effect Io_ok = True"
| "takes_effect (Io_failed b) = b"
| "takes_effect (Io_cancelled b) = b"

section \<open>Python slices\<close>

text \<open>\<open>data[a:b]\<close> for offsets that are not negative; out-of-range ends are cut.\<close>

definition pyslice :: "'a list \<Rightarrow> int \<Rightarrow> int \<Rightarrow> 'a list" where
  "pyslice xs a b = take (nat b - nat a) (drop (nat a) xs)"

lemma pyslice_mid [simp]:
  "pyslice (pre @ mid @ suf) (int (length pre)) (int (length pre) + int (length mid)) = mid"
  by (simp add: pyslice_def nat_add_distrib)

lemma pyslice_append:
  "0 \<le> a \<Longrightarrow> b \<le> int (length xs) \<Longrightarrow> pyslice (xs @ ys) a b = pyslice xs a b"
  by (auto simp: pyslice_def)

lemma length_pyslice:
  "0 \<le> a \<Longrightarrow> a \<le> b \<Longrightarrow> b \<le> int (length xs) \<Longrightarrow> int (length (pyslice xs a b)) = b - a"
  by (auto simp: pyslice_def)

section \<open>Python dictionaries\<close>

text \<open>
  A dict iterates in insertion order: it is an association list with distinct keys.
  \<^item> \<open>d.get(k)\<close> is \<open>map_of d k\<close>;
  \<^item> \<open>d[k] = v\<close> is \<open>AList.update k v d\<close>: an existing key keeps its place, a new one is
    appended at the end;
  \<^item> \<open>d.pop(k, None)\<close> is \<open>AList.delete k d\<close>.
\<close>

type_synonym ('k, 'v) dict = "('k \<times> 'v) list"

abbreviation dget :: "('k, 'v) dict \<Rightarrow> 'k \<Rightarrow> 'v option" where
  "dget \<equiv> map_of"

abbreviation dset :: "'k \<Rightarrow> 'v \<Rightarrow> ('k, 'v) dict \<Rightarrow> ('k, 'v) dict" where
  "dset \<equiv> AList.update"

abbreviation dpop :: "'k \<Rightarrow> ('k, 'v) dict \<Rightarrow> ('k, 'v) dict" where
  "dpop \<equiv> AList.delete"

definition dict_ok :: "('k, 'v) dict \<Rightarrow> bool" where
  "dict_ok d \<longleftrightarrow> distinct (map fst d)"

lemma dget_dset [simp]: "dget (dset k v d) = (dget d)(k \<mapsto> v)"
  by (rule update_conv')

lemma dget_dpop [simp]: "dget (dpop k d) = (dget d)(k := None)"
  by (rule delete_conv')

lemma dict_ok_simps [simp]:
  "dict_ok []" "dict_ok d \<Longrightarrow> dict_ok (dset k v d)" "dict_ok d \<Longrightarrow> dict_ok (dpop k d)"
  by (simp_all add: dict_ok_def distinct_update distinct_delete)

text \<open>Rewriting every value of a dict in place, as a loop over \<open>d.items()\<close> that
  assigns to the stored objects does.\<close>

definition dmap :: "('k \<Rightarrow> 'v \<Rightarrow> 'v) \<Rightarrow> ('k, 'v) dict \<Rightarrow> ('k, 'v) dict" where
  "dmap f d = map (\<lambda>(k, v). (k, f k v)) d"

lemma dget_dmap [simp]: "dget (dmap f d) k = map_option (f k) (dget d k)"
  by (induction d) (auto simp: dmap_def)

lemma keys_dmap [simp]: "map fst (dmap f d) = map fst d"
  by (induction d) (auto simp: dmap_def)

lemma dict_ok_dmap [simp]: "dict_ok (dmap f d) \<longleftrightarrow> dict_ok d"
  by (simp add: dict_ok_def)

section \<open>Interfaces shared by the components\<close>

text \<open>
  A decoder reads one value of a frame at an offset and returns it with the offset behind
  it. Its promises: it reads inside the frame and makes progress, and bytes behind what it
  read do not change the result.
\<close>

locale decoder =
  fixes dec :: "bytes \<Rightarrow> int \<Rightarrow> 'e + 'a \<times> int"
  assumes dec_progress: "dec data off = Inr (x, off') \<Longrightarrow> 0 \<le> off \<and> off < off' \<and> off' \<le> int (length data)"
    and dec_extend: "dec data off = Inr (x, off') \<Longrightarrow> dec (data @ more) off = Inr (x, off')"

text \<open>Reading \<open>n\<close> values in a row, as \<open>for _ in range(n)\<close> does.\<close>

fun decode_n :: "(bytes \<Rightarrow> int \<Rightarrow> 'e + 'a \<times> int) \<Rightarrow> nat \<Rightarrow> bytes \<Rightarrow> int \<Rightarrow> 'e + 'a list \<times> int" where
  "decode_n dec 0 data off = Inr ([], off)"
| "decode_n dec (Suc n) data off =
     rbind (dec data off) (\<lambda>(x, off).
     rbind (decode_n dec n data off) (\<lambda>(xs, off).
     Inr (x # xs, off)))"

context decoder
begin

lemma decode_n_extend:
  "decode_n dec n data off = Inr (xs, off') \<Longrightarrow> decode_n dec n (data @ more) off = Inr (xs, off')"
proof (induction n arbitrary: off xs)
  case (Suc n)
  then obtain x off1 ys where
    first: "dec data off = Inr (x, off1)" and rest: "decode_n dec n data off1 = Inr (ys, off')"
    and xs: "xs = x # ys"
    by (auto simp: rbind_Inr_iff)
  show ?case using dec_extend [OF first] Suc.IH [OF rest] xs by simp
qed simp

lemma decode_n_progress:
  "decode_n dec n data off = Inr (xs, off') \<Longrightarrow>
     length xs = n \<and> off + int n \<le> off' \<and> (n \<noteq> 0 \<longrightarrow> 0 \<le> off \<and> off' \<le> int (length data))"
proof (induction n arbitrary: off xs)
  case (Suc n)
  from Suc.prems obtain x off1 ys where
    first: "dec data off = Inr (x, off1)" and rest: "decode_n dec n data off1 = Inr (ys, off')"
    and xs: "xs = x # ys"
    by (auto simp: rbind_Inr_iff)
  from Suc.IH [OF rest] dec_progress [OF first] xs rest show ?case by (cases n) auto
qed simp

end

text \<open>
  A codec is a decoder with an encoder that it inverts, wherever in the frame the encoding
  stands. The encoder may raise; \<open>ok\<close> says for which values the round trip is promised.
\<close>

locale codec = decoder dec
  for dec :: "bytes \<Rightarrow> int \<Rightarrow> 'e + 'a \<times> int" +
  fixes enc :: "'a \<Rightarrow> 'f + bytes"
    and ok :: "'a \<Rightarrow> bool"
  assumes dec_enc: "ok x \<Longrightarrow> enc x = Inr bs \<Longrightarrow>
      dec (pre @ bs @ suf) (int (length pre)) = Inr (x, int (length pre) + int (length bs))"
begin

lemma enc_nonempty: "ok x \<Longrightarrow> enc x = Inr bs \<Longrightarrow> bs \<noteq> []"
  using dec_enc [of x bs "[]" "[]"] dec_progress [of bs 0 x] by force

lemma enc_inj: "ok x \<Longrightarrow> ok y \<Longrightarrow> enc x = Inr bs \<Longrightarrow> enc y = Inr bs \<Longrightarrow> x = y"
  using dec_enc [of x bs "[]" "[]"] dec_enc [of y bs "[]" "[]"] by simp

end

text \<open>Encoding values in a row, and the codec law lifted to it.\<close>

fun encode_all :: "('a \<Rightarrow> 'f + bytes) \<Rightarrow> 'a list \<Rightarrow> 'f + bytes" where
  "encode_all enc [] = Inr []"
| "encode_all enc (x # xs) =
     rbind (enc x) (\<lambda>b. rbind (encode_all enc xs) (\<lambda>bs. Inr (b @ bs)))"

context codec
begin

lemma decode_encode_all:
  "\<forall>x\<in>set xs. ok x \<Longrightarrow> encode_all enc xs = Inr bs \<Longrightarrow>
     decode_n dec (length xs) (pre @ bs @ suf) (int (length pre))
       = Inr (xs, int (length pre) + int (length bs))"
proof (induction xs arbitrary: pre bs)
  case (Cons x xs)
  from Cons.prems obtain b bs' where
    b: "enc x = Inr b" and bs': "encode_all enc xs = Inr bs'" and bs: "bs = b @ bs'"
    by (auto simp: rbind_Inr_iff)
  have "dec (pre @ bs @ suf) (int (length pre)) = Inr (x, int (length pre) + int (length b))"
    using dec_enc [of x b pre "bs' @ suf"] Cons.prems b bs by simp
  moreover have "decode_n dec (length xs) ((pre @ b) @ bs' @ suf) (int (length (pre @ b)))
      = Inr (xs, int (length (pre @ b)) + int (length bs'))"
    using Cons.IH [OF _ bs', of "pre @ b"] Cons.prems(1) by simp
  ultimately show ?case using bs by (simp add: algebra_simps)
qed simp

end

text \<open>
  A component whose operations are steps on a state: what holds at the start and is kept by
  every operation holds after any sequence of operations.
\<close>

fun run :: "('s \<Rightarrow> 'op \<Rightarrow> 's) \<Rightarrow> 's \<Rightarrow> 'op list \<Rightarrow> 's" where
  "run step s [] = s"
| "run step s (op # ops) = run step (step s op) ops"

lemma run_append: "run step s (xs @ ys) = run step (run step s xs) ys"
  by (induction xs arbitrary: s) auto

locale invariant_machine =
  fixes step :: "'s \<Rightarrow> 'op \<Rightarrow> 's" and inv :: "'s \<Rightarrow> bool"
  assumes step_inv: "inv s \<Longrightarrow> inv (step s op)"
begin

lemma run_inv: "inv s \<Longrightarrow> inv (run step s ops)"
  by (induction ops arbitrary: s) (auto intro: step_inv)

end

text \<open>A component whose steps only move up in an order (versions, clocks, life cycles).\<close>

locale monotone_machine = invariant_machine step inv
  for step :: "'s \<Rightarrow> 'op \<Rightarrow> 's" and inv :: "'s \<Rightarrow> bool" +
  fixes below :: "'s \<Rightarrow> 's \<Rightarrow> bool"
  assumes below_refl: "below s s"
    and below_trans: "below s t \<Longrightarrow> below t u \<Longrightarrow> below s u"
    and step_below: "inv s \<Longrightarrow> below s (step s op)"
begin

lemma run_below: "inv s \<Longrightarrow> below s (run step s ops)"
  by (induction ops arbitrary: s) (auto intro: below_refl below_trans step_below step_inv)

end

end
