(* ===== verification/Json.thy ===== *)
theory Json
  imports Prelude "HOL-Library.List_Lexorder"
begin

text \<open>
  The part of Python's \<open>json\<close> module the program uses: \<open>json.loads\<close> on a \<open>str\<close>, with or
  without a \<open>parse_constant\<close> hook that raises, and \<open>json.dumps\<close> with its separators and
  \<open>sort_keys\<close>, both with the defaults for everything else (strict strings, \<open>ensure_ascii\<close>).

  Two facts of the interpreter are parameters (\<open>json_env\<close>): how deep containers may nest
  before \<open>RecursionError\<close>, and how a float literal prints again after it was read as a
  double. The loops over the items of an array and an object carry fuel; the length of
  the remaining text is enough because every item takes at least one character.
\<close>

section \<open>Values\<close>

datatype json =
    JNull
  | JBool bool
  | JInt int
  | JFloat pystr
  | JStr pystr
  | JArr "json list"
  | JObj "(pystr \<times> json) list"

datatype json_error = Json_value_error | Json_recursion_error

record json_env =
  json_depth :: nat
  json_float :: "pystr \<Rightarrow> pystr"

section \<open>Characters and literals\<close>

definition is_ws :: "nat \<Rightarrow> bool" where
  "is_ws c \<longleftrightarrow> c = 32 \<or> c = 9 \<or> c = 10 \<or> c = 13"

definition skip_ws :: "pystr \<Rightarrow> pystr" where
  "skip_ws s = dropWhile is_ws s"

definition is_digit :: "nat \<Rightarrow> bool" where
  "is_digit c \<longleftrightarrow> 48 \<le> c \<and> c \<le> 57"

definition hex_value :: "nat \<Rightarrow> nat option" where
  "hex_value c =
     (if 48 \<le> c \<and> c \<le> 57 then Some (c - 48)
      else if 97 \<le> c \<and> c \<le> 102 then Some (c - 87)
      else if 65 \<le> c \<and> c \<le> 70 then Some (c - 55)
      else None)"

fun hex4 :: "pystr \<Rightarrow> (nat \<times> pystr) option" where
  "hex4 (a # b # c # d # s) =
     (case (hex_value a, hex_value b, hex_value c, hex_value d) of
        (Some a, Some b, Some c, Some d) \<Rightarrow> Some (a * 4096 + b * 256 + c * 16 + d, s)
      | _ \<Rightarrow> None)"
| "hex4 _ = None"

definition high_surrogate :: "nat \<Rightarrow> bool" where
  "high_surrogate c \<longleftrightarrow> 0xD800 \<le> c \<and> c \<le> 0xDBFF"

definition low_surrogate :: "nat \<Rightarrow> bool" where
  "low_surrogate c \<longleftrightarrow> 0xDC00 \<le> c \<and> c \<le> 0xDFFF"

definition join_surrogates :: "nat \<Rightarrow> nat \<Rightarrow> nat" where
  "join_surrogates h l = 0x10000 + (h - 0xD800) * 1024 + (l - 0xDC00)"

text \<open>The one-letter escapes of a JSON string.\<close>

definition unescape :: "nat \<Rightarrow> nat option" where
  "unescape e =
     (if e = 34 \<or> e = 92 \<or> e = 47 then Some e
      else if e = 98 then Some 8
      else if e = 102 then Some 12
      else if e = 110 then Some 10
      else if e = 114 then Some 13
      else if e = 116 then Some 9
      else None)"

lemma hex4_shorter: "hex4 s = Some (u, t) \<Longrightarrow> length t < length s"
  by (induction s rule: hex4.induct) (auto split: option.splits)

section \<open>Strings\<close>

text \<open>The text behind the opening quote, up to and over the closing one.\<close>

function scan_string :: "pystr \<Rightarrow> json_error + pystr \<times> pystr" where
  "scan_string s =
     (case s of [] \<Rightarrow> Inl Json_value_error
      | c # s \<Rightarrow>
        if c = 34 then Inr ([], s)
        else if c = 92 then
          (case s of [] \<Rightarrow> Inl Json_value_error
           | e # s \<Rightarrow>
             if e = 117 then
               (case hex4 s of None \<Rightarrow> Inl Json_value_error
                | Some (u, s) \<Rightarrow>
                  if high_surrogate u \<and> take 2 s = [92, 117] then
                    (case hex4 (drop 2 s) of None \<Rightarrow> Inl Json_value_error
                     | Some (v, t) \<Rightarrow>
                       if low_surrogate v
                       then rbind (scan_string t) (\<lambda>(r, t). Inr (join_surrogates u v # r, t))
                       else rbind (scan_string s) (\<lambda>(r, t). Inr (u # r, t)))
                  else rbind (scan_string s) (\<lambda>(r, t). Inr (u # r, t)))
             else
               (case unescape e of None \<Rightarrow> Inl Json_value_error
                | Some x \<Rightarrow> rbind (scan_string s) (\<lambda>(r, t). Inr (x # r, t))))
        else if c \<le> 31 then Inl Json_value_error
        else rbind (scan_string s) (\<lambda>(r, t). Inr (c # r, t)))"
  by pat_completeness auto
termination
  by (relation "measure length") (auto dest!: hex4_shorter)

declare scan_string.simps [simp del]

section \<open>Numbers\<close>

definition digits_value :: "pystr \<Rightarrow> int" where
  "digits_value ds = foldl (\<lambda>a d. 10 * a + (int d - 48)) 0 ds"

text \<open>CPython refuses to convert more than 4300 decimal digits to an \<open>int\<close>.\<close>

definition max_int_digits :: nat where
  "max_int_digits = 4300"

definition scan_frac :: "pystr \<Rightarrow> pystr \<times> pystr" where
  "scan_frac s =
     (case s of c # d # t \<Rightarrow>
        if c = 46 \<and> is_digit d
        then (c # takeWhile is_digit (d # t), dropWhile is_digit (d # t)) else ([], s)
      | _ \<Rightarrow> ([], s))"

definition scan_exp :: "pystr \<Rightarrow> pystr \<times> pystr" where
  "scan_exp s =
     (case s of [] \<Rightarrow> ([], s)
      | c # t \<Rightarrow>
        if c = 101 \<or> c = 69 then
          (let (sign, t) = (case t of p # t' \<Rightarrow> if p = 43 \<or> p = 45 then ([p], t') else ([], t)
                            | [] \<Rightarrow> ([], t));
               ds = takeWhile is_digit t
           in if ds = [] then ([], s) else (c # sign @ ds, dropWhile is_digit t))
        else ([], s))"

definition scan_number :: "json_env \<Rightarrow> pystr \<Rightarrow> json_error + json \<times> pystr" where
  "scan_number J s =
     (let (neg, t) = (case s of c # t \<Rightarrow> if c = 45 then (True, t) else (False, s) | [] \<Rightarrow> (False, s))
      in case t of [] \<Rightarrow> Inl Json_value_error
       | d # t' \<Rightarrow>
         if \<not> is_digit d then Inl Json_value_error
         else
           let (ds, r) = (if d = 48 then ([d], t') else (takeWhile is_digit t, dropWhile is_digit t));
               (fr, r) = scan_frac r;
               (ex, r) = scan_exp r
           in if fr = [] \<and> ex = [] then
                (if length ds > max_int_digits then Inl Json_value_error
                 else Inr (JInt (if neg then - digits_value ds else digits_value ds), r))
              else Inr (JFloat (json_float J ((if neg then [45] else []) @ ds @ fr @ ex)), r))"

section \<open>Containers and values\<close>

type_synonym scanner = "pystr \<Rightarrow> json_error + json \<times> pystr"

text \<open>The items of an array, behind \<open>[\<close> and white space, when it is not empty.\<close>

fun array_items :: "scanner \<Rightarrow> nat \<Rightarrow> pystr \<Rightarrow> json_error + json list \<times> pystr" where
  "array_items scan 0 s = Inl Json_value_error"
| "array_items scan (Suc n) s =
     rbind (scan s) (\<lambda>(v, s).
       case skip_ws s of [] \<Rightarrow> Inl Json_value_error
       | c # s \<Rightarrow>
         if c = 93 then Inr ([v], s)
         else if c = 44 then rbind (array_items scan n (skip_ws s)) (\<lambda>(vs, s). Inr (v # vs, s))
         else Inl Json_value_error)"

text \<open>The items of an object, behind \<open>{\<close> and white space, when it is not empty.\<close>

fun object_items :: "scanner \<Rightarrow> nat \<Rightarrow> pystr \<Rightarrow> json_error + (pystr \<times> json) list \<times> pystr" where
  "object_items scan 0 s = Inl Json_value_error"
| "object_items scan (Suc n) s =
     (case s of [] \<Rightarrow> Inl Json_value_error
      | q # s \<Rightarrow>
        if q \<noteq> 34 then Inl Json_value_error
        else rbind (scan_string s) (\<lambda>(k, s).
          case skip_ws s of [] \<Rightarrow> Inl Json_value_error
          | c # s \<Rightarrow>
            if c \<noteq> 58 then Inl Json_value_error
            else rbind (scan (skip_ws s)) (\<lambda>(v, s).
              case skip_ws s of [] \<Rightarrow> Inl Json_value_error
              | c # s \<Rightarrow>
                if c = 125 then Inr ([(k, v)], s)
                else if c = 44 then
                  rbind (object_items scan n (skip_ws s)) (\<lambda>(kvs, s). Inr ((k, v) # kvs, s))
                else Inl Json_value_error)))"

text \<open>Items go into a dict one by one: a repeated key keeps its place and takes the later value.\<close>

definition dict_of :: "(pystr \<times> json) list \<Rightarrow> (pystr, json) dict" where
  "dict_of kvs = foldl (\<lambda>d (k, v). dset k v d) [] kvs"

definition strip_prefix :: "pystr \<Rightarrow> pystr \<Rightarrow> pystr option" where
  "strip_prefix p s = (if take (length p) s = p then Some (drop (length p) s) else None)"

text \<open>
  One value. \<open>nested\<close> is the scanner for the values inside a container, or \<open>None\<close> when
  the recursion budget is used up; \<open>constants\<close> says whether \<open>NaN\<close> and the infinities are
  accepted (no \<open>parse_constant\<close> hook) or raise.
\<close>

definition scan_with :: "json_env \<Rightarrow> bool \<Rightarrow> scanner option \<Rightarrow> scanner" where
  "scan_with J constants nested s =
     (case s of [] \<Rightarrow> Inl Json_value_error
      | c # t \<Rightarrow>
        if c = 34 then rbind (scan_string t) (\<lambda>(str, r). Inr (JStr str, r))
        else if c = 123 then
          (case nested of None \<Rightarrow> Inl Json_recursion_error
           | Some scan \<Rightarrow>
             (case skip_ws t of [] \<Rightarrow> Inl Json_value_error
              | d # u \<Rightarrow>
                if d = 125 then Inr (JObj [], u)
                else rbind (object_items scan (length (d # u)) (d # u))
                  (\<lambda>(kvs, r). Inr (JObj (dict_of kvs), r))))
        else if c = 91 then
          (case nested of None \<Rightarrow> Inl Json_recursion_error
           | Some scan \<Rightarrow>
             (case skip_ws t of [] \<Rightarrow> Inl Json_value_error
              | d # u \<Rightarrow>
                if d = 93 then Inr (JArr [], u)
                else rbind (array_items scan (length (d # u)) (d # u)) (\<lambda>(vs, r). Inr (JArr vs, r))))
        else
          (case (strip_prefix (py ''null'') s, strip_prefix (py ''true'') s,
                 strip_prefix (py ''false'') s) of
             (Some r, _, _) \<Rightarrow> Inr (JNull, r)
           | (_, Some r, _) \<Rightarrow> Inr (JBool True, r)
           | (_, _, Some r) \<Rightarrow> Inr (JBool False, r)
           | _ \<Rightarrow>
             (case (strip_prefix (py ''NaN'') s, strip_prefix (py ''Infinity'') s,
                    strip_prefix (py ''-Infinity'') s) of
                (Some r, _, _) \<Rightarrow>
                  (if constants then Inr (JFloat (py ''NaN''), r) else Inl Json_value_error)
              | (_, Some r, _) \<Rightarrow>
                  (if constants then Inr (JFloat (py ''Infinity''), r) else Inl Json_value_error)
              | (_, _, Some r) \<Rightarrow>
                  (if constants then Inr (JFloat (py ''-Infinity''), r) else Inl Json_value_error)
              | _ \<Rightarrow> scan_number J s)))"

primrec scan_once :: "json_env \<Rightarrow> bool \<Rightarrow> nat \<Rightarrow> scanner" where
  "scan_once J constants 0 = scan_with J constants None"
| "scan_once J constants (Suc d) = scan_with J constants (Some (scan_once J constants d))"

definition json_loads :: "json_env \<Rightarrow> bool \<Rightarrow> pystr \<Rightarrow> json_error + json" where
  "json_loads J constants s =
     (if take 1 s = [0xFEFF] then Inl Json_value_error
      else rbind (scan_once J constants (json_depth J) (skip_ws s)) (\<lambda>(v, r).
        if skip_ws r = [] then Inr v else Inl Json_value_error))"

section \<open>Printing\<close>

definition hex_digit :: "nat \<Rightarrow> nat" where
  "hex_digit d = (if d < 10 then 48 + d else 87 + d)"

definition u_escape :: "nat \<Rightarrow> pystr" where
  "u_escape c = [92, 117, hex_digit (c div 4096 mod 16), hex_digit (c div 256 mod 16),
                 hex_digit (c div 16 mod 16), hex_digit (c mod 16)]"

definition escape_char :: "nat \<Rightarrow> pystr" where
  "escape_char c =
     (if c = 34 \<or> c = 92 then [92, c]
      else if c = 10 then [92, 110]
      else if c = 13 then [92, 114]
      else if c = 9 then [92, 116]
      else if c = 12 then [92, 102]
      else if c = 8 then [92, 98]
      else if 32 \<le> c \<and> c \<le> 126 then [c]
      else if c < 0x10000 then u_escape c
      else u_escape (0xD800 + (c - 0x10000) div 1024) @ u_escape (0xDC00 + (c - 0x10000) mod 1024))"

definition quote :: "pystr \<Rightarrow> pystr" where
  "quote s = 34 # concat (map escape_char s) @ [34]"

fun nat_digits :: "nat \<Rightarrow> pystr" where
  "nat_digits n = (if n < 10 then [48 + n] else nat_digits (n div 10) @ [48 + n mod 10])"

declare nat_digits.simps [simp del]

definition int_digits :: "int \<Rightarrow> pystr" where
  "int_digits i = (if i < 0 then 45 # nat_digits (nat (- i)) else nat_digits (nat i))"

fun join :: "pystr \<Rightarrow> pystr list \<Rightarrow> pystr" where
  "join sep [] = []"
| "join sep [x] = x"
| "join sep (x # xs) = x @ sep @ join sep xs"

text \<open>\<open>json.dumps(value, separators=(isep, ksep), sort_keys=srt)\<close>\<close>

fun json_dumps :: "pystr \<Rightarrow> pystr \<Rightarrow> bool \<Rightarrow> json \<Rightarrow> pystr" where
  "json_dumps isep ksep srt JNull = py ''null''"
| "json_dumps isep ksep srt (JBool b) = (if b then py ''true'' else py ''false'')"
| "json_dumps isep ksep srt (JInt i) = int_digits i"
| "json_dumps isep ksep srt (JFloat r) = r"
| "json_dumps isep ksep srt (JStr s) = quote s"
| "json_dumps isep ksep srt (JArr vs) =
     [91] @ join isep (map (json_dumps isep ksep srt) vs) @ [93]"
| "json_dumps isep ksep srt (JObj kvs) =
     (let items = map (\<lambda>(k, v). (k, json_dumps isep ksep srt v)) kvs;
          items = (if srt then sort_key fst items else items)
      in [123] @ join isep (map (\<lambda>(k, t). quote k @ ksep @ t) items) @ [125])"

end
