(* ===== verification/Sessions.thy ===== *)
theory Sessions
  imports Models
begin

text \<open>
  Session business logic (\<open>backend/app/sessions/service.py\<close>) on the \<open>database\<close> of \<open>Models\<close>.
  Each function is one transaction: it returns the exception it raises (nothing is
  committed then) or its value with the committed database. The new session's id and the
  current time are arguments.

  Shown: every operation keeps the referential and single-owner invariant \<open>db_ok\<close>
  (interpretation of \<open>monotone_machine\<close>); closed sessions stay closed and owners never
  change; the functional behaviour of each operation on every branch.
\<close>

section \<open>Errors and operations\<close>

datatype SessionServiceError =
    SessionResourceNotFoundError string
  | SessionConflictError string
  | SessionInactiveError string
  | IntegrityError \<comment> \<open>a primary or foreign key the database refuses\<close>

definition get_active_session :: "database \<Rightarrow> uuid \<Rightarrow> SessionServiceError + Session" where
  "get_active_session db session_id =
     (case dget (db_sessions db) session_id of
        None \<Rightarrow> Inl (SessionResourceNotFoundError ''Session not found'')
      | Some session \<Rightarrow>
          if \<not> s_is_active session then Inl (SessionInactiveError ''Session is closed'')
          else Inr session)"

definition create_session ::
    "uuid \<Rightarrow> datetime \<Rightarrow> database \<Rightarrow> pystr \<Rightarrow> LanguageEnum \<Rightarrow> User \<Rightarrow> SessionServiceError + Session \<times> database" where
  "create_session new_id now db name language creator =
     (let session = \<lparr>s_id = new_id, s_name = name, s_language = language, s_owner_id = u_id creator,
            s_is_active = True, s_yjs_state = None, s_updated_at = now\<rparr>;
          member = \<lparr>m_session_id = new_id, m_user_id = u_id creator, m_role = owner\<rparr>
      in if dget (db_sessions db) new_id \<noteq> None \<or> dget (db_users db) (u_id creator) = None \<or>
            dget (db_members db) (new_id, u_id creator) \<noteq> None
         then Inl IntegrityError
         else Inr (session,
           db\<lparr>db_sessions := dset new_id session (db_sessions db),
              db_members := dset (new_id, u_id creator) member (db_members db)\<rparr>))"

text \<open>The rows of the join, newest \<open>updated_at\<close> first (the order among equal times is the
  database's choice; this is one of them).\<close>

definition list_user_sessions :: "database \<Rightarrow> uuid \<Rightarrow> Session list" where
  "list_user_sessions db user_id =
     rev (sort_key s_updated_at
       (List.map_filter (\<lambda>(k, session).
            case dget (db_members db) (k, user_id) of None \<Rightarrow> None
            | Some m \<Rightarrow> if s_is_active session then Some session else None)
          (db_sessions db)))"

definition get_session_detail :: "database \<Rightarrow> uuid \<Rightarrow> (Session \<times> (SessionMember \<times> User option) list) option" where
  "get_session_detail db session_id =
     (case dget (db_sessions db) session_id of None \<Rightarrow> None
      | Some session \<Rightarrow>
          Some (session,
            map (\<lambda>(k, m). (m, dget (db_users db) (m_user_id m)))
              (filter (\<lambda>(k, m). m_session_id m = session_id) (db_members db))))"

definition add_member ::
    "database \<Rightarrow> uuid \<Rightarrow> uuid \<Rightarrow> RoleEnum \<Rightarrow> SessionServiceError + SessionMember \<times> database" where
  "add_member db session_id user_id role =
     rbind (get_active_session db session_id) (\<lambda>session.
     if role = owner then
       Inl (SessionConflictError ''A session can have only one owner; ownership transfer is not supported'')
     else if user_id = s_owner_id session then
       Inl (SessionConflictError ''The canonical owner membership cannot be replaced'')
     else case dget (db_users db) user_id of
       None \<Rightarrow> Inl (SessionResourceNotFoundError ''User not found'')
     | Some user \<Rightarrow>
         (case dget (db_members db) (session_id, user_id) of
            Some existing \<Rightarrow> Inl (SessionConflictError ''User is already a member of this session'')
          | None \<Rightarrow>
              let member = \<lparr>m_session_id = session_id, m_user_id = user_id, m_role = role\<rparr>
              in Inr (member, db\<lparr>db_members := dset (session_id, user_id) member (db_members db)\<rparr>)))"

definition update_member_role ::
    "database \<Rightarrow> uuid \<Rightarrow> uuid \<Rightarrow> RoleEnum \<Rightarrow> SessionServiceError + SessionMember \<times> database" where
  "update_member_role db session_id user_id new_role =
     rbind (get_active_session db session_id) (\<lambda>session.
     if user_id = s_owner_id session \<and> new_role \<noteq> owner then
       Inl (SessionConflictError ''The canonical session owner cannot be demoted'')
     else if user_id \<noteq> s_owner_id session \<and> new_role = owner then
       Inl (SessionConflictError ''A session can have only one owner; ownership transfer is not supported'')
     else case dget (db_members db) (session_id, user_id) of
       None \<Rightarrow> Inl (SessionResourceNotFoundError ''Member not found'')
     | Some member \<Rightarrow>
         if m_role member = new_role then Inr (member, db)
         else
           let member = member\<lparr>m_role := new_role\<rparr>
           in Inr (member, db\<lparr>db_members := dset (session_id, user_id) member (db_members db)\<rparr>))"

definition remove_member :: "database \<Rightarrow> uuid \<Rightarrow> uuid \<Rightarrow> SessionServiceError + database" where
  "remove_member db session_id user_id =
     rbind (get_active_session db session_id) (\<lambda>session.
     if user_id = s_owner_id session then
       Inl (SessionConflictError ''The canonical session owner cannot be removed'')
     else case dget (db_members db) (session_id, user_id) of
       None \<Rightarrow> Inl (SessionResourceNotFoundError ''Member not found'')
     | Some member \<Rightarrow> Inr (db\<lparr>db_members := dpop (session_id, user_id) (db_members db)\<rparr>))"

text \<open>Changing a session row also renews its \<open>updated_at\<close> (\<open>onupdate\<close>).\<close>

definition close_session :: "datetime \<Rightarrow> database \<Rightarrow> uuid \<Rightarrow> SessionServiceError + Session \<times> database" where
  "close_session now db session_id =
     rbind (get_active_session db session_id) (\<lambda>session.
     let session = session\<lparr>s_is_active := False, s_updated_at := now\<rparr>
     in Inr (session, db\<lparr>db_sessions := dset session_id session (db_sessions db)\<rparr>))"

section \<open>The invariant\<close>

definition db_keys_ok :: "database \<Rightarrow> bool" where
  "db_keys_ok db \<longleftrightarrow>
     (\<forall>sid s. dget (db_sessions db) sid = Some s \<longrightarrow> s_id s = sid \<and> dget (db_users db) (s_owner_id s) \<noteq> None) \<and>
     (\<forall>sid uid m. dget (db_members db) (sid, uid) = Some m \<longrightarrow>
        m_session_id m = sid \<and> m_user_id m = uid \<and>
        dget (db_sessions db) sid \<noteq> None \<and> dget (db_users db) uid \<noteq> None)"

definition role_of :: "database \<Rightarrow> uuid \<Rightarrow> uuid \<Rightarrow> RoleEnum option" where
  "role_of db sid uid = map_option m_role (dget (db_members db) (sid, uid))"

definition single_owner :: "database \<Rightarrow> bool" where
  "single_owner db \<longleftrightarrow>
     (\<forall>sid s uid. dget (db_sessions db) sid = Some s \<longrightarrow>
        (role_of db sid uid = Some owner \<longleftrightarrow> uid = s_owner_id s))"

definition db_ok :: "database \<Rightarrow> bool" where
  "db_ok db \<longleftrightarrow> db_keys_ok db \<and> single_owner db \<and> dict_ok (db_sessions db) \<and> dict_ok (db_members db)"

lemma get_active_session_Inr:
  "get_active_session db sid = Inr s \<longleftrightarrow> dget (db_sessions db) sid = Some s \<and> s_is_active s"
  by (auto simp: get_active_session_def split: option.splits)

text \<open>What a committed operation changed.\<close>

lemma create_session_Inr:
  "create_session new_id now db name language creator = Inr (s, db') \<longleftrightarrow>
     dget (db_sessions db) new_id = None \<and> dget (db_users db) (u_id creator) \<noteq> None \<and>
     dget (db_members db) (new_id, u_id creator) = None \<and>
     s = \<lparr>s_id = new_id, s_name = name, s_language = language, s_owner_id = u_id creator,
          s_is_active = True, s_yjs_state = None, s_updated_at = now\<rparr> \<and>
     db' = db\<lparr>db_sessions := dset new_id s (db_sessions db),
              db_members := dset (new_id, u_id creator)
                \<lparr>m_session_id = new_id, m_user_id = u_id creator, m_role = owner\<rparr> (db_members db)\<rparr>"
  by (auto simp: create_session_def Let_def)

lemma add_member_Inr:
  "add_member db sid uid role = Inr (m, db') \<longleftrightarrow>
     (\<exists>s. dget (db_sessions db) sid = Some s \<and> s_is_active s \<and> uid \<noteq> s_owner_id s) \<and>
     role \<noteq> owner \<and> dget (db_users db) uid \<noteq> None \<and> dget (db_members db) (sid, uid) = None \<and>
     m = \<lparr>m_session_id = sid, m_user_id = uid, m_role = role\<rparr> \<and>
     db' = db\<lparr>db_members := dset (sid, uid) m (db_members db)\<rparr>"
  by (auto simp: add_member_def rbind_Inr_iff get_active_session_Inr Let_def split: option.splits)

lemma update_member_role_Inr:
  "update_member_role db sid uid role = Inr (m, db') \<longleftrightarrow>
     (\<exists>s m0. dget (db_sessions db) sid = Some s \<and> s_is_active s \<and>
        (uid = s_owner_id s \<longleftrightarrow> role = owner) \<and> dget (db_members db) (sid, uid) = Some m0 \<and>
        m = m0\<lparr>m_role := role\<rparr> \<and>
        db' = (if m_role m0 = role then db else db\<lparr>db_members := dset (sid, uid) m (db_members db)\<rparr>))"
proof (cases "dget (db_sessions db) sid")
  case None
  then show ?thesis by (simp add: update_member_role_def get_active_session_def)
next
  case (Some s)
  show ?thesis
  proof (cases "dget (db_members db) (sid, uid)")
    case None
    with Some show ?thesis by (simp add: update_member_role_def get_active_session_def)
  next
    case (Some m0)
    with \<open>dget (db_sessions db) sid = Some s\<close> show ?thesis
      by (auto simp: update_member_role_def get_active_session_def Let_def)
  qed
qed

lemma remove_member_Inr:
  "remove_member db sid uid = Inr db' \<longleftrightarrow>
     (\<exists>s m. dget (db_sessions db) sid = Some s \<and> s_is_active s \<and> uid \<noteq> s_owner_id s \<and>
        dget (db_members db) (sid, uid) = Some m \<and>
        db' = db\<lparr>db_members := dpop (sid, uid) (db_members db)\<rparr>)"
  by (auto simp: remove_member_def rbind_Inr_iff get_active_session_Inr split: option.splits)

lemma close_session_Inr:
  "close_session now db sid = Inr (s, db') \<longleftrightarrow>
     (\<exists>s0. dget (db_sessions db) sid = Some s0 \<and> s_is_active s0 \<and>
        s = s0\<lparr>s_is_active := False, s_updated_at := now\<rparr> \<and>
        db' = db\<lparr>db_sessions := dset sid s (db_sessions db)\<rparr>)"
  by (auto simp: close_session_def rbind_Inr_iff get_active_session_Inr Let_def)

lemmas session_ops_Inr = create_session_Inr add_member_Inr update_member_role_Inr remove_member_Inr
  close_session_Inr

section \<open>Every operation keeps the invariant\<close>

text \<open>The three ways an operation writes: a membership row set or deleted, a session row set.\<close>

lemma db_ok_set_member:
  assumes "db_ok db" "dget (db_sessions db) sid = Some s" "dget (db_users db) uid \<noteq> None"
    and "m_session_id m = sid" "m_user_id m = uid" "m_role m = owner \<longleftrightarrow> uid = s_owner_id s"
  shows "db_ok (db\<lparr>db_members := dset (sid, uid) m (db_members db)\<rparr>)"
  using assms by (simp add: db_ok_def db_keys_ok_def single_owner_def role_of_def)

lemma db_ok_pop_member:
  assumes "db_ok db" "dget (db_sessions db) sid = Some s" "uid \<noteq> s_owner_id s"
  shows "db_ok (db\<lparr>db_members := dpop (sid, uid) (db_members db)\<rparr>)"
  using assms by (simp add: db_ok_def db_keys_ok_def single_owner_def role_of_def)

lemma db_ok_set_session:
  assumes "db_ok db" "dget (db_sessions db) sid = Some s0" "s_id s = sid" "s_owner_id s = s_owner_id s0"
  shows "db_ok (db\<lparr>db_sessions := dset sid s (db_sessions db)\<rparr>)"
  using assms by (auto simp: db_ok_def db_keys_ok_def single_owner_def role_of_def)

lemma db_ok_member_of: "db_ok db \<Longrightarrow> dget (db_members db) (sid, uid) = Some m \<Longrightarrow>
    m_session_id m = sid \<and> m_user_id m = uid \<and> dget (db_sessions db) sid \<noteq> None \<and> dget (db_users db) uid \<noteq> None"
  by (simp add: db_ok_def db_keys_ok_def)

lemma create_session_ok:
  assumes "db_ok db" "create_session i now db n l c = Inr (s, db')"
  shows "db_ok db'"
proof -
  from assms(2) have new: "dget (db_sessions db) i = None" "dget (db_users db) (u_id c) \<noteq> None"
    and s: "s_id s = i" "s_owner_id s = u_id c"
    and db': "db' = db\<lparr>db_sessions := dset i s (db_sessions db), db_members := dset (i, u_id c)
      \<lparr>m_session_id = i, m_user_id = u_id c, m_role = owner\<rparr> (db_members db)\<rparr>"
    by (simp_all add: create_session_Inr)
  have no_member: "dget (db_members db) (i, uid) = None" for uid
    using db_ok_member_of [OF assms(1), of i uid] new(1) by (cases "dget (db_members db) (i, uid)") auto
  show ?thesis
    using assms(1) new s no_member
    by (simp add: db' db_ok_def db_keys_ok_def single_owner_def role_of_def)
qed

lemma add_member_ok:
  assumes "db_ok db" "add_member db sid uid role = Inr (m, db')"
  shows "db_ok db'"
proof -
  from assms(2) obtain s where "dget (db_sessions db) sid = Some s" "uid \<noteq> s_owner_id s"
    by (auto simp: add_member_Inr)
  with db_ok_set_member [OF assms(1), of sid s uid m] assms(2) show ?thesis
    by (simp add: add_member_Inr)
qed

lemma update_member_role_ok:
  assumes "db_ok db" "update_member_role db sid uid role = Inr (m, db')"
  shows "db_ok db'"
proof -
  from assms(2) obtain s m0 where
    s: "dget (db_sessions db) sid = Some s" "uid = s_owner_id s \<longleftrightarrow> role = owner"
    and m0: "dget (db_members db) (sid, uid) = Some m0"
    and m: "m = m0\<lparr>m_role := role\<rparr>"
    and db': "db' = (if m_role m0 = role then db else db\<lparr>db_members := dset (sid, uid) m (db_members db)\<rparr>)"
    by (auto simp: update_member_role_Inr)
  from db_ok_set_member [OF assms(1) s(1), of uid m] db_ok_member_of [OF assms(1) m0] s m assms(1)
  show ?thesis by (auto simp: db')
qed

lemma remove_member_ok: "db_ok db \<Longrightarrow> remove_member db sid uid = Inr db' \<Longrightarrow> db_ok db'"
  by (auto simp: remove_member_Inr intro: db_ok_pop_member)

lemma close_session_ok:
  assumes "db_ok db" "close_session now db sid = Inr (s, db')"
  shows "db_ok db'"
proof -
  from assms(2) obtain s0 where s0: "dget (db_sessions db) sid = Some s0"
    "s = s0\<lparr>s_is_active := False, s_updated_at := now\<rparr>"
    and db': "db' = db\<lparr>db_sessions := dset sid s (db_sessions db)\<rparr>"
    by (auto simp: close_session_Inr)
  moreover have "s_id s0 = sid" using assms(1) s0(1) by (simp add: db_ok_def db_keys_ok_def)
  ultimately show ?thesis using db_ok_set_session [OF assms(1) s0(1), of s] by simp
qed

section \<open>Sequences of operations\<close>

datatype session_op =
    Create uuid datetime pystr LanguageEnum User
  | Add uuid uuid RoleEnum
  | Update_role uuid uuid RoleEnum
  | Remove uuid uuid
  | Close datetime uuid

text \<open>A raising operation commits nothing.\<close>

definition committed :: "database \<Rightarrow> 'e + database \<Rightarrow> database" where
  "committed db r = (case r of Inl _ \<Rightarrow> db | Inr db' \<Rightarrow> db')"

fun session_step :: "database \<Rightarrow> session_op \<Rightarrow> database" where
  "session_step db (Create i now n l c) = committed db (rbind (create_session i now db n l c) (\<lambda>(_, db). Inr db))"
| "session_step db (Add sid uid role) = committed db (rbind (add_member db sid uid role) (\<lambda>(_, db). Inr db))"
| "session_step db (Update_role sid uid role) =
     committed db (rbind (update_member_role db sid uid role) (\<lambda>(_, db). Inr db))"
| "session_step db (Remove sid uid) = committed db (remove_member db sid uid)"
| "session_step db (Close now sid) = committed db (rbind (close_session now db sid) (\<lambda>(_, db). Inr db))"

text \<open>Sessions are never dropped, closed ones stay closed, owners and languages stay.\<close>

definition db_below :: "database \<Rightarrow> database \<Rightarrow> bool" where
  "db_below db db' \<longleftrightarrow>
     (\<forall>sid s. dget (db_sessions db) sid = Some s \<longrightarrow>
        (\<exists>s'. dget (db_sessions db') sid = Some s' \<and> s_owner_id s' = s_owner_id s \<and>
           s_language s' = s_language s \<and> (s_is_active s' \<longrightarrow> s_is_active s)))"

lemma committed_cases:
  "P db \<Longrightarrow> (\<And>db'. r = Inr db' \<Longrightarrow> P db') \<Longrightarrow> P (committed db r)"
  by (simp add: committed_def split: sum.split)

lemma session_step_ok:
  assumes "db_ok db"
  shows "db_ok (session_step db op)"
  using assms
  by (cases op)
    (auto intro!: committed_cases [where P = db_ok] simp: rbind_Inr_iff
      dest: create_session_ok add_member_ok update_member_role_ok remove_member_ok close_session_ok)

lemma db_below_refl: "db_below db db"
  by (simp add: db_below_def)

lemma db_below_members [simp]: "db_below db (db\<lparr>db_members := x\<rparr>)"
  by (simp add: db_below_def)

lemma session_step_below: "db_below db (session_step db op)"
proof (cases op)
  case (Create i now n l c)
  have "db_below db db'" if "create_session i now db n l c = Inr (s, db')" for s db'
    using that by (auto simp: create_session_Inr db_below_def)
  with Create show ?thesis
    by (auto intro!: committed_cases [where P = "db_below db"] simp: rbind_Inr_iff db_below_refl)
next
  case (Close now sid)
  have "db_below db db'" if "close_session now db sid = Inr (s, db')" for s db'
    using that by (auto simp: close_session_Inr db_below_def)
  with Close show ?thesis
    by (auto intro!: committed_cases [where P = "db_below db"] simp: rbind_Inr_iff db_below_refl)
qed (auto intro!: committed_cases [where P = "db_below db"]
      simp: db_below_refl rbind_Inr_iff add_member_Inr update_member_role_Inr remove_member_Inr)

interpretation sessions: monotone_machine session_step db_ok db_below
proof unfold_locales
  show "db_ok db \<Longrightarrow> db_ok (session_step db op)" for db op by (rule session_step_ok)
  show "db_below db db" for db by (rule db_below_refl)
  show "db_below db db' \<Longrightarrow> db_below db' db'' \<Longrightarrow> db_below db db''" for db db' db''
    unfolding db_below_def by metis
  show "db_below db (session_step db op)" for db op by (rule session_step_below)
qed

section \<open>Properties\<close>

lemma run_below_session:
  assumes "db_ok db" "dget (db_sessions db) sid = Some s"
  obtains s' where "dget (db_sessions (run session_step db ops)) sid = Some s'"
    "s_owner_id s' = s_owner_id s" "s_is_active s' \<longrightarrow> s_is_active s"
  using sessions.run_below [OF assms(1), of ops] assms(2) by (auto simp: db_below_def)

text \<open>C20: Whatever sequence of session operations runs, with whatever of them failing, a session has
  exactly one owner, the user its row names as the owner, which \<open>create_session\<close> sets to its creator and nothing changes.\<close>

theorem owner_is_canonical_forever:
  assumes "db_ok db" "dget (db_sessions db) sid = Some s"
  shows "role_of (run session_step db ops) sid uid = Some owner \<longleftrightarrow> uid = s_owner_id s"
proof -
  obtain s' where s': "dget (db_sessions (run session_step db ops)) sid = Some s'" "s_owner_id s' = s_owner_id s"
    using run_below_session [OF assms] by blast
  have "db_ok (run session_step db ops)" using assms(1) by (rule sessions.run_inv)
  with s' show ?thesis by (simp add: db_ok_def single_owner_def)
qed

definition sample_user :: "uuid \<Rightarrow> User" where
  "sample_user i = \<lparr>u_id = i, u_username = [], u_email = [], u_password_hash = []\<rparr>"

definition sample_db :: database where
  "sample_db = empty_db\<lparr>
     db_users := [(1, sample_user 1), (2, sample_user 2)],
     db_sessions := [(7, \<lparr>s_id = 7, s_name = [], s_language = python, s_owner_id = 1, s_is_active = True,
                          s_yjs_state = None, s_updated_at = 0\<rparr>)],
     db_members := [((7, 1), \<lparr>m_session_id = 7, m_user_id = 1, m_role = owner\<rparr>)]\<rparr>"

lemma sample_db_ok: "db_ok sample_db"
  by (auto simp: db_ok_def db_keys_ok_def single_owner_def role_of_def sample_db_def sample_user_def
      empty_db_def dict_ok_def split: if_splits)

theorem owner_is_canonical_forever_witness:
  "role_of (run session_step sample_db [Add 7 2 editor, Update_role 7 2 owner, Remove 7 1]) 7 2 \<noteq> Some owner"
proof -
  obtain s where "dget (db_sessions sample_db) 7 = Some s" "s_owner_id s = 1"
    by (simp add: sample_db_def)
  from owner_is_canonical_forever [OF sample_db_ok this(1),
      of "[Add 7 2 editor, Update_role 7 2 owner, Remove 7 1]" 2] this(2)
  show ?thesis by (simp del: run.simps session_step.simps)
qed

text \<open>C21: Once a session is closed, no operation ever reopens it: every later attempt to add, change
  or remove a member or to close it again fails with \<open>SessionInactiveError\<close>.\<close>

theorem closed_session_is_final:
  assumes "db_ok db" "close_session now db sid = Inr (s, db1)"
    and db2: "db2 = run session_step db1 ops"
  shows "add_member db2 sid uid role = Inl (SessionInactiveError ''Session is closed'') \<and>
    update_member_role db2 sid uid role = Inl (SessionInactiveError ''Session is closed'') \<and>
    remove_member db2 sid uid = Inl (SessionInactiveError ''Session is closed'') \<and>
    close_session later db2 sid = Inl (SessionInactiveError ''Session is closed'')"
proof -
  have db1: "db_ok db1" using assms(1,2) by (rule close_session_ok)
  from assms(2) have closed: "dget (db_sessions db1) sid = Some s" "\<not> s_is_active s"
    by (auto simp: close_session_Inr)
  obtain s' where "dget (db_sessions db2) sid = Some s'" "\<not> s_is_active s'"
    unfolding db2 using run_below_session [OF db1 closed(1)] closed(2) by metis
  then have "get_active_session db2 sid = Inl (SessionInactiveError ''Session is closed'')"
    by (simp add: get_active_session_def)
  then show ?thesis
    by (simp add: add_member_def update_member_role_def remove_member_def close_session_def)
qed

theorem closed_session_is_final_witness:
  "\<exists>s db1. close_session 5 sample_db 7 = Inr (s, db1) \<and>
     add_member (run session_step db1 [Add 7 2 viewer]) 7 2 editor = Inl (SessionInactiveError ''Session is closed'')"
proof -
  obtain s db1 where c: "close_session 5 sample_db 7 = Inr (s, db1)"
    by (auto simp: close_session_Inr sample_db_def)
  from closed_session_is_final [OF sample_db_ok c refl] c show ?thesis by blast
qed

end
