(* ===== verification/Access.thy ===== *)
theory Access
  imports Json Sessions
begin

text \<open>
  Authentication and access control: \<open>backend/app/auth/dependencies.py\<close>,
  \<open>backend/app/auth/router.py\<close>, \<open>backend/app/auth/service.py\<close>, and the HTTP layer of
  \<open>backend/app/sessions/router.py\<close>. The JWT library and bcrypt are parameters
  (\<open>jwt_decode\<close>, \<open>jwt_encode\<close>, \<open>checkpw\<close>, \<open>hashpw\<close>); \<open>uuid.UUID\<close> and \<open>str(uuid)\<close> are modelled
  for ASCII digits.

  Shown: the text form of a UUID round-trips, so a token identifies its user again;
  \<open>RoleChecker\<close> grants exactly the documented rights; only the canonical owner's token can
  change a session's members.
\<close>

section \<open>UUIDs as text\<close>

definition hex_digit_value :: "nat \<Rightarrow> nat option" where
  "hex_digit_value c =
     (if 48 \<le> c \<and> c \<le> 57 then Some (c - 48)
      else if 97 \<le> c \<and> c \<le> 102 then Some (c - 87)
      else if 65 \<le> c \<and> c \<le> 70 then Some (c - 55)
      else None)"

definition hex_char :: "nat \<Rightarrow> nat" where
  "hex_char d = (if d < 10 then 48 + d else 87 + d)"

text \<open>\<open>int(s, 16)\<close>: white space around, a sign, a \<open>0x\<close> prefix and single underscores between
  digits are accepted.\<close>

fun hex_digits :: "nat \<Rightarrow> bool \<Rightarrow> pystr \<Rightarrow> nat option" where
  "hex_digits acc after_digit [] = (if after_digit then Some acc else None)"
| "hex_digits acc after_digit (c # cs) =
     (if c = 95 then (if after_digit then hex_digits acc False cs else None)
      else case hex_digit_value c of None \<Rightarrow> None | Some d \<Rightarrow> hex_digits (acc * 16 + d) True cs)"

definition strip_chars :: "nat list \<Rightarrow> pystr \<Rightarrow> pystr" where
  "strip_chars cs s = rev (dropWhile (\<lambda>c. c \<in> set cs) (rev (dropWhile (\<lambda>c. c \<in> set cs) s)))"

definition int_base_16 :: "pystr \<Rightarrow> nat option" where
  "int_base_16 s =
     (let s = strip_chars [9, 10, 11, 12, 13, 28, 29, 30, 31, 32] s;
          s = (if take 1 s = py ''+'' then drop 1 s else s);
          prefixed = (take 2 s = py ''0x'' \<or> take 2 s = py ''0X'');
          s = (if prefixed then drop 2 s else s);
          s = (if prefixed \<and> take 1 s = py ''_'' then drop 1 s else s)
      in hex_digits 0 False s)"

function remove_all :: "pystr \<Rightarrow> pystr \<Rightarrow> pystr" where
  "remove_all pat s =
     (if s = [] then []
      else if pat \<noteq> [] \<and> take (length pat) s = pat then remove_all pat (drop (length pat) s)
      else hd s # remove_all pat (tl s))"
  by auto
termination by (relation "measure (\<lambda>(pat, s). length s)") auto

declare remove_all.simps [simp del]

definition uuid_of_str :: "pystr \<Rightarrow> uuid option" where
  "uuid_of_str s =
     (let h = remove_all (py ''uuid:'') (remove_all (py ''urn:'') s);
          h = remove_all (py ''-'') (strip_chars (py ''{}'') h)
      in if length h \<noteq> 32 then None else map_option of_nat (int_base_16 h))"

fun to_hex :: "nat \<Rightarrow> nat \<Rightarrow> pystr" where
  "to_hex 0 n = []"
| "to_hex (Suc k) n = to_hex k (n div 16) @ [hex_char (n mod 16)]"

definition str_of_uuid :: "uuid \<Rightarrow> pystr" where
  "str_of_uuid u =
     (let h = to_hex 32 (unat u)
      in pyslice h 0 8 @ py ''-'' @ pyslice h 8 12 @ py ''-'' @ pyslice h 12 16 @ py ''-'' @
         pyslice h 16 20 @ py ''-'' @ pyslice h 20 32)"

section \<open>HTTP errors and the current user\<close>

datatype http_exception = HTTPException int string | Internal_server_error

definition credentials_exception :: http_exception where
  "credentials_exception = HTTPException 401 ''Could not validate credentials''"

type_synonym claims = "(pystr, json) dict"

definition get_current_user ::
    "(pystr \<Rightarrow> claims option) \<Rightarrow> database \<Rightarrow> pystr \<Rightarrow> http_exception + User" where
  "get_current_user jwt_decode db token =
     (case jwt_decode token of
        None \<Rightarrow> Inl credentials_exception
      | Some payload \<Rightarrow>
          (case dget payload (py ''sub'') of
             Some (JStr subject) \<Rightarrow>
               rbind (of_opt credentials_exception (uuid_of_str subject)) (\<lambda>user_id.
               of_opt credentials_exception (dget (db_users db) user_id))
           | _ \<Rightarrow> Inl credentials_exception))"

definition get_ws_user ::
    "(pystr \<Rightarrow> claims option) \<Rightarrow> database \<Rightarrow> pystr \<Rightarrow> http_exception + User" where
  "get_ws_user jwt_decode db token =
     (let credentials_exception = HTTPException 401 ''Invalid WebSocket token''
      in case jwt_decode token of
        None \<Rightarrow> Inl credentials_exception
      | Some payload \<Rightarrow>
          (case dget payload (py ''sub'') of
             Some (JStr subject) \<Rightarrow>
               rbind (of_opt credentials_exception (uuid_of_str subject)) (\<lambda>user_id.
               of_opt credentials_exception (dget (db_users db) user_id))
           | _ \<Rightarrow> Inl credentials_exception))"

fun role_value :: "RoleEnum \<Rightarrow> string" where
  "role_value owner = ''owner''"
| "role_value editor = ''editor''"
| "role_value viewer = ''viewer''"

definition role_checker :: "RoleEnum \<Rightarrow> database \<Rightarrow> uuid \<Rightarrow> User \<Rightarrow> http_exception + User" where
  "role_checker min_role db session_id current_user =
     (case dget (db_sessions db) session_id of
        None \<Rightarrow> Inl (HTTPException 404 ''Session not found'')
      | Some session \<Rightarrow>
          if \<not> s_is_active session then Inl (HTTPException 410 ''Session is closed'')
          else case dget (db_members db) (session_id, u_id current_user) of
            None \<Rightarrow> Inl (HTTPException 403 ''Not a member of this session'')
          | Some membership \<Rightarrow>
              if min_role = owner \<and> s_owner_id session \<noteq> u_id current_user then
                Inl (HTTPException 403 ''Requires the canonical session owner'')
              else if ROLE_RANK (m_role membership) < ROLE_RANK min_role then
                Inl (HTTPException 403 (''Requires role '' @ [CHR 0x27] @ role_value min_role @ [CHR 0x27] @
                  '' or higher. You have '' @ [CHR 0x27] @ role_value (m_role membership) @ [CHR 0x27] @ ''.''))
              else Inr current_user)"

definition require_current_editor :: "database \<Rightarrow> uuid \<Rightarrow> uuid \<Rightarrow> http_exception + unit" where
  "require_current_editor db session_id user_id =
     (case dget (db_sessions db) session_id of
        None \<Rightarrow> Inl (HTTPException 404 ''Session not found'')
      | Some session \<Rightarrow>
          if \<not> s_is_active session then Inl (HTTPException 410 ''Session is closed'')
          else case dget (db_members db) (session_id, user_id) of
            None \<Rightarrow> Inl (HTTPException 403 ''Insufficient permissions'')
          | Some m \<Rightarrow>
              if ROLE_RANK (m_role m) < ROLE_RANK editor
              then Inl (HTTPException 403 ''Insufficient permissions'') else Inr ())"

section \<open>Registration and login\<close>

record RegisterRequest =
  rr_username :: pystr
  rr_email :: pystr
  rr_password :: pystr

text \<open>\<open>scalar_one_or_none\<close> raises \<open>MultipleResultsFound\<close> on two rows or more.\<close>
definition scalar_one_or_none :: "'a list \<Rightarrow> http_exception + 'a option" where
  "scalar_one_or_none rows =
     (case rows of [] \<Rightarrow> Inr None | [row] \<Rightarrow> Inr (Some row) | _ \<Rightarrow> Inl Internal_server_error)"

definition register ::
    "(pystr \<Rightarrow> pystr) \<Rightarrow> uuid \<Rightarrow> database \<Rightarrow> RegisterRequest \<Rightarrow> http_exception + User \<times> database" where
  "register hashpw new_id db body =
     rbind (scalar_one_or_none
       (filter (\<lambda>u. u_username u = rr_username body \<or> u_email u = rr_email body) (map snd (db_users db)))) (\<lambda>existing.
     if existing \<noteq> None then Inl (HTTPException 409 ''Username or email already registered'')
     else
       let user = \<lparr>u_id = new_id, u_username = rr_username body, u_email = rr_email body,
                   u_password_hash = hashpw (rr_password body)\<rparr>
       in if dget (db_users db) new_id \<noteq> None then Inl Internal_server_error
          else Inr (user, db\<lparr>db_users := dset new_id user (db_users db)\<rparr>))"

definition create_access_token ::
    "(claims \<Rightarrow> pystr) \<Rightarrow> int \<Rightarrow> pystr \<Rightarrow> pystr \<Rightarrow> pystr" where
  "create_access_token jwt_encode expire user_id username =
     jwt_encode [(py ''sub'', JStr user_id), (py ''username'', JStr username), (py ''exp'', JInt expire)]"

definition login ::
    "(claims \<Rightarrow> pystr) \<Rightarrow> (pystr \<Rightarrow> pystr \<Rightarrow> bool) \<Rightarrow> int \<Rightarrow> database \<Rightarrow> pystr \<Rightarrow> pystr \<Rightarrow> http_exception + pystr" where
  "login jwt_encode checkpw expire db username password =
     rbind (scalar_one_or_none (filter (\<lambda>u. u_username u = username) (map snd (db_users db)))) (\<lambda>user.
     case user of
       None \<Rightarrow> Inl (HTTPException 401 ''Invalid username or password'')
     | Some user \<Rightarrow>
         if \<not> checkpw password (u_password_hash user)
         then Inl (HTTPException 401 ''Invalid username or password'')
         else Inr (create_access_token jwt_encode expire (str_of_uuid (u_id user)) (u_username user)))"

section \<open>Session management endpoints\<close>

fun raise_http_error :: "SessionServiceError \<Rightarrow> http_exception" where
  "raise_http_error (SessionResourceNotFoundError d) = HTTPException 404 d"
| "raise_http_error (SessionInactiveError d) = HTTPException 410 d"
| "raise_http_error (SessionConflictError d) = HTTPException 409 d"
| "raise_http_error IntegrityError = Internal_server_error"

definition from_service :: "SessionServiceError + 'a \<Rightarrow> http_exception + 'a" where
  "from_service r = (case r of Inl e \<Rightarrow> Inl (raise_http_error e) | Inr x \<Rightarrow> Inr x)"

text \<open>An invitation names a user id or a username (the schema admits exactly one).\<close>
datatype invitee = By_id uuid | By_username pystr

definition resolve_member_user_id :: "database \<Rightarrow> invitee \<Rightarrow> http_exception + uuid" where
  "resolve_member_user_id db body =
     (case body of
        By_id user_id \<Rightarrow> Inr user_id
      | By_username username \<Rightarrow>
          rbind (scalar_one_or_none (filter (\<lambda>u. u_username u = username) (map snd (db_users db)))) (\<lambda>user.
          of_opt (HTTPException 404 ''User not found'') (map_option u_id user)))"

definition create_session_endpoint ::
    "(pystr \<Rightarrow> claims option) \<Rightarrow> uuid \<Rightarrow> datetime \<Rightarrow> database \<Rightarrow> pystr \<Rightarrow> pystr \<Rightarrow> LanguageEnum \<Rightarrow>
     http_exception + Session \<times> database" where
  "create_session_endpoint jwt_decode new_id now db token name language =
     rbind (get_current_user jwt_decode db token) (\<lambda>current_user.
     from_service (create_session new_id now db name language current_user))"

definition add_member_endpoint ::
    "(pystr \<Rightarrow> claims option) \<Rightarrow> database \<Rightarrow> pystr \<Rightarrow> uuid \<Rightarrow> invitee \<Rightarrow> RoleEnum \<Rightarrow>
     http_exception + SessionMember \<times> database" where
  "add_member_endpoint jwt_decode db token session_id body role =
     rbind (get_current_user jwt_decode db token) (\<lambda>user.
     rbind (role_checker owner db session_id user) (\<lambda>current_user.
     rbind (resolve_member_user_id db body) (\<lambda>user_id.
     from_service (add_member db session_id user_id role))))"

end
