(* ===== verification/Utf8.thy ===== *)
theory Utf8
  imports Prelude
begin

text \<open>
  The UTF-8 codec behind \<open>str.encode("utf-8")\<close> and \<open>bytes.decode("utf-8")\<close>: Python's strict
  error handler (surrogates are refused when encoding; overlong forms, surrogates and code
  points above \<open>0x10FFFF\<close> are refused when decoding), and the \<open>"replace"\<close> handler the
  execution worker decodes program output with.
\<close>

section \<open>Encoding\<close>

definition scalar :: "nat \<Rightarrow> bool" where
  "scalar c \<longleftrightarrow> c \<le> 0x10FFFF \<and> \<not> (0xD800 \<le> c \<and> c \<le> 0xDFFF)"

definition utf8_char :: "nat \<Rightarrow> nat list option" where
  "utf8_char c =
     (if c < 0x80 then Some [c]
      else if c < 0x800 then Some [0xC0 + c div 64, 0x80 + c mod 64]
      else if 0xD800 \<le> c \<and> c \<le> 0xDFFF then None
      else if c < 0x10000 then
        Some [0xE0 + c div 4096, 0x80 + c div 64 mod 64, 0x80 + c mod 64]
      else if c \<le> 0x10FFFF then
        Some [0xF0 + c div 262144, 0x80 + c div 4096 mod 64, 0x80 + c div 64 mod 64, 0x80 + c mod 64]
      else None)"

fun utf8_encode_nat :: "pystr \<Rightarrow> nat list option" where
  "utf8_encode_nat [] = Some []"
| "utf8_encode_nat (c # s) =
     (case utf8_char c of None \<Rightarrow> None
      | Some b \<Rightarrow> (case utf8_encode_nat s of None \<Rightarrow> None | Some bs \<Rightarrow> Some (b @ bs)))"

definition utf8_encode :: "pystr \<Rightarrow> bytes option" where
  "utf8_encode s = map_option (map of_nat) (utf8_encode_nat s)"

section \<open>Decoding one code point\<close>

definition cont :: "nat \<Rightarrow> bool" where
  "cont b \<longleftrightarrow> 0x80 \<le> b \<and> b \<le> 0xBF"

text \<open>The second byte has a narrower range after \<open>E0\<close>, \<open>ED\<close>, \<open>F0\<close> and \<open>F4\<close>.\<close>

definition second_ok :: "nat \<Rightarrow> nat \<Rightarrow> bool" where
  "second_ok a b \<longleftrightarrow>
     (if a = 0xE0 then 0xA0 else if a = 0xF0 then 0x90 else 0x80) \<le> b \<and>
     b \<le> (if a = 0xED then 0x9F else if a = 0xF4 then 0x8F else 0xBF)"

fun utf8_next :: "nat list \<Rightarrow> (nat \<times> nat list) option" where
  "utf8_next [] = None"
| "utf8_next (a # r) =
     (if a < 0x80 then Some (a, r)
      else if 0xC2 \<le> a \<and> a \<le> 0xDF then
        (case r of b # r \<Rightarrow> if cont b then Some ((a - 0xC0) * 64 + (b - 0x80), r) else None
         | _ \<Rightarrow> None)
      else if 0xE0 \<le> a \<and> a \<le> 0xEF then
        (case r of b # c # r \<Rightarrow>
            if second_ok a b \<and> cont c
            then Some ((a - 0xE0) * 4096 + (b - 0x80) * 64 + (c - 0x80), r) else None
         | _ \<Rightarrow> None)
      else if 0xF0 \<le> a \<and> a \<le> 0xF4 then
        (case r of b # c # d # r \<Rightarrow>
            if second_ok a b \<and> cont c \<and> cont d
            then Some ((a - 0xF0) * 262144 + (b - 0x80) * 4096 + (c - 0x80) * 64 + (d - 0x80), r)
            else None
         | _ \<Rightarrow> None)
      else None)"

lemma utf8_next_shorter: "utf8_next bs = Some (c, r) \<Longrightarrow> length r < length bs"
  by (cases bs) (auto split: if_splits list.splits)

section \<open>Strict decoding\<close>

function utf8_decode_nat :: "nat list \<Rightarrow> pystr option" where
  "utf8_decode_nat bs =
     (if bs = [] then Some []
      else case utf8_next bs of None \<Rightarrow> None
        | Some (c, r) \<Rightarrow> map_option ((#) c) (utf8_decode_nat r))"
  by pat_completeness auto
termination
  by (relation "measure length") (auto dest: utf8_next_shorter)

declare utf8_decode_nat.simps [simp del]

definition utf8_decode :: "bytes \<Rightarrow> pystr option" where
  "utf8_decode bs = utf8_decode_nat (map unat bs)"

section \<open>Round trips\<close>

lemma base64_digits:
  fixes c :: nat
  obtains h m l where "h = c div 4096" "m = c div 64 mod 64" "l = c mod 64"
    "c = h * 4096 + m * 64 + l" "m < 64" "l < 64"
proof -
  have "c div 64 div 64 = c div 4096" by (simp add: div_mult2_eq [symmetric])
  then have "c = c div 4096 * 4096 + c div 64 mod 64 * 64 + c mod 64"
    using div_mult_mod_eq [of c 64] div_mult_mod_eq [of "c div 64" 64] by linarith
  then show ?thesis by (rule that [OF refl refl refl]) simp_all
qed

lemma base64_digits4:
  fixes c :: nat
  obtains g h m l where "g = c div 262144" "h = c div 4096 mod 64" "m = c div 64 mod 64" "l = c mod 64"
    "c = g * 262144 + h * 4096 + m * 64 + l" "h < 64" "m < 64" "l < 64"
proof -
  have "c div 4096 div 64 = c div 262144" by (simp add: div_mult2_eq [symmetric])
  then have "c div 4096 = c div 262144 * 64 + c div 4096 mod 64"
    using div_mult_mod_eq [of "c div 4096" 64] by linarith
  moreover obtain k m l where "k = c div 4096" "m = c div 64 mod 64" "l = c mod 64"
    "c = k * 4096 + m * 64 + l" "m < 64" "l < 64"
    by (rule base64_digits)
  ultimately have "c = c div 262144 * 262144 + c div 4096 mod 64 * 4096 + c div 64 mod 64 * 64 + c mod 64"
    by linarith
  then show ?thesis by (rule that [OF refl refl refl refl]) simp_all
qed

lemma utf8_next_two:
  assumes "0x80 \<le> c" "c < 0x800"
  shows "utf8_next ((0xC0 + c div 64) # (0x80 + c mod 64) # r) = Some (c, r)"
proof -
  have "c div 64 < 32" "2 \<le> c div 64" using assms by linarith+
  moreover have "c div 64 * 64 + c mod 64 = c" by (rule div_mult_mod_eq)
  moreover have "c mod 64 < 64" by simp
  ultimately show ?thesis by (simp add: cont_def)
qed

lemma utf8_next_three:
  assumes "0x800 \<le> c" "c < 0x10000" "\<not> (0xD800 \<le> c \<and> c \<le> 0xDFFF)"
  shows "utf8_next ((0xE0 + c div 4096) # (0x80 + c div 64 mod 64) # (0x80 + c mod 64) # r) = Some (c, r)"
proof -
  obtain h m l where d: "h = c div 4096" "m = c div 64 mod 64" "l = c mod 64"
    and c: "c = h * 4096 + m * 64 + l" "m < 64" "l < 64"
    by (rule base64_digits)
  have "h < 16" using c assms(2) by linarith
  moreover have "second_ok (0xE0 + h) (0x80 + m)"
    using assms c by (auto simp: second_ok_def)
  ultimately show ?thesis using c d(1,2,3) [symmetric] by (simp add: cont_def)
qed

lemma utf8_next_four:
  assumes "0x10000 \<le> c" "c \<le> 0x10FFFF"
  shows "utf8_next ((0xF0 + c div 262144) # (0x80 + c div 4096 mod 64) # (0x80 + c div 64 mod 64)
    # (0x80 + c mod 64) # r) = Some (c, r)"
proof -
  obtain g h m l where
    d: "g = c div 262144" "h = c div 4096 mod 64" "m = c div 64 mod 64" "l = c mod 64"
    and c: "c = g * 262144 + h * 4096 + m * 64 + l" "h < 64" "m < 64" "l < 64"
    by (rule base64_digits4)
  have "g < 5" using c assms(2) by linarith
  moreover have "second_ok (0xF0 + g) (0x80 + h)"
    using assms c by (auto simp: second_ok_def)
  ultimately show ?thesis using c d(1,2,3,4) [symmetric] by (simp add: cont_def)
qed

lemma utf8_next_char: "utf8_char c = Some bs \<Longrightarrow> utf8_next (bs @ r) = Some (c, r)"
  by (auto simp: utf8_char_def utf8_next_two utf8_next_three utf8_next_four
      simp del: utf8_next.simps split: if_splits) simp

lemma utf8_char_Some: "scalar c \<longleftrightarrow> (\<exists>bs. utf8_char c = Some bs)"
  by (auto simp: scalar_def utf8_char_def)

lemma utf8_char_bytes: "utf8_char c = Some bs \<Longrightarrow> bs \<noteq> [] \<and> (\<forall>b\<in>set bs. b < 256)"
  by (auto simp: utf8_char_def split: if_splits)

lemma utf8_encode_nat_bytes: "utf8_encode_nat s = Some bs \<Longrightarrow> \<forall>b\<in>set bs. b < 256"
  by (induction s arbitrary: bs) (auto split: option.splits dest!: utf8_char_bytes)

lemma utf8_decode_encode_nat: "utf8_encode_nat s = Some bs \<Longrightarrow> utf8_decode_nat bs = Some s"
proof (induction s arbitrary: bs)
  case Nil
  then show ?case by (simp add: utf8_decode_nat.simps)
next
  case (Cons c s)
  from Cons.prems obtain b bs' where
    b: "utf8_char c = Some b" and bs': "utf8_encode_nat s = Some bs'" and bs: "bs = b @ bs'"
    by (auto split: option.splits)
  show ?case
    using Cons.IH [OF bs'] utf8_next_char [OF b, of bs'] utf8_char_bytes [OF b] bs
    by (subst utf8_decode_nat.simps) simp
qed

theorem utf8_decode_encode: "utf8_encode s = Some bs \<Longrightarrow> utf8_decode bs = Some s"
proof -
  assume "utf8_encode s = Some bs"
  then obtain ns where ns: "utf8_encode_nat s = Some ns" and bs: "bs = map of_nat ns"
    by (auto simp: utf8_encode_def)
  have "map unat bs = ns"
    using utf8_encode_nat_bytes [OF ns] bs
    by (auto simp: map_idI unat_of_nat comp_def)
  then show ?thesis using utf8_decode_encode_nat [OF ns] by (simp add: utf8_decode_def)
qed

theorem utf8_encode_total: "(\<exists>bs. utf8_encode s = Some bs) \<longleftrightarrow> (\<forall>c\<in>set s. scalar c)"
proof -
  have "(\<exists>bs. utf8_encode_nat s = Some bs) \<longleftrightarrow> (\<forall>c\<in>set s. scalar c)"
    by (induction s) (auto simp: utf8_char_Some split: option.splits)
  then show ?thesis by (auto simp: utf8_encode_def)
qed

text \<open>Conversely the strict decoder accepts only the canonical encoding.\<close>

lemma utf8_char_two: "2 \<le> x \<Longrightarrow> x < 32 \<Longrightarrow> y < 64 \<Longrightarrow> utf8_char (x * 64 + y) = Some [0xC0 + x, 0x80 + y]"
  by (simp add: utf8_char_def)

lemma utf8_char_three:
  assumes "y < 64" "z < 64" "x < 16" "second_ok (0xE0 + x) (0x80 + y)"
  shows "utf8_char (x * 4096 + y * 64 + z) = Some [0xE0 + x, 0x80 + y, 0x80 + z]"
proof -
  let ?c = "x * 4096 + y * 64 + z"
  obtain h m l where d: "h = ?c div 4096" "m = ?c div 64 mod 64" "l = ?c mod 64"
    and c: "?c = h * 4096 + m * 64 + l" "m < 64" "l < 64"
    by (rule base64_digits)
  have "h = x" using c assms by linarith
  moreover from this have "m = y" using c assms by linarith
  moreover from calculation have "l = z" using c by linarith
  moreover have "0x800 \<le> ?c" "?c < 0x10000" "\<not> (0xD800 \<le> ?c \<and> ?c \<le> 0xDFFF)"
    using assms by (auto simp: second_ok_def split: if_splits)
  ultimately show ?thesis using d by (simp add: utf8_char_def)
qed

lemma utf8_char_four:
  assumes "y < 64" "z < 64" "w < 64" "x < 5" "second_ok (0xF0 + x) (0x80 + y)"
  shows "utf8_char (x * 262144 + y * 4096 + z * 64 + w) = Some [0xF0 + x, 0x80 + y, 0x80 + z, 0x80 + w]"
proof -
  let ?c = "x * 262144 + y * 4096 + z * 64 + w"
  obtain g h m l where d: "g = ?c div 262144" "h = ?c div 4096 mod 64" "m = ?c div 64 mod 64" "l = ?c mod 64"
    and c: "?c = g * 262144 + h * 4096 + m * 64 + l" "h < 64" "m < 64" "l < 64"
    by (rule base64_digits4)
  have "g = x" using c assms by linarith
  moreover from this have "h = y" using c assms by linarith
  moreover from calculation have "m = z" using c assms by linarith
  moreover from calculation have "l = w" using c by linarith
  moreover have "0x10000 \<le> ?c" "?c \<le> 0x10FFFF"
    using assms by (auto simp: second_ok_def split: if_splits)
  ultimately show ?thesis using d by (simp add: utf8_char_def)
qed

lemma contE: "cont b \<Longrightarrow> (\<And>y. b = 0x80 + y \<Longrightarrow> y < 64 \<Longrightarrow> P) \<Longrightarrow> P"
  by (auto simp: cont_def dest!: le_Suc_ex)

lemma second_okE: "second_ok a b \<Longrightarrow> (\<And>y. b = 0x80 + y \<Longrightarrow> y < 64 \<Longrightarrow> P) \<Longrightarrow> P"
  by (auto simp: second_ok_def cont_def split: if_splits elim!: contE dest!: le_Suc_ex)

lemma utf8_next_canonical:
  assumes "utf8_next bs = Some (c, r)"
  obtains b where "utf8_char c = Some b" "bs = b @ r"
proof -
  from assms obtain a t where bs: "bs = a # t" by (cases bs) auto
  consider "a < 0x80" | "0xC2 \<le> a" "a \<le> 0xDF" | "0xE0 \<le> a" "a \<le> 0xEF" | "0xF0 \<le> a" "a \<le> 0xF4"
    using assms bs by (fastforce split: if_splits)
  then show ?thesis
  proof cases
    case 1
    with assms bs show ?thesis using that [of "[a]"] by (simp add: utf8_char_def)
  next
    case 2
    then obtain x where x: "a = 0xC0 + x" "2 \<le> x" "x < 32" by (auto dest!: le_Suc_ex)
    from assms bs 2 obtain b where "t = b # r" "cont b" "c = (a - 0xC0) * 64 + (b - 0x80)"
      by (auto split: list.splits if_splits)
    with x bs show ?thesis using that by (auto elim!: contE simp: utf8_char_two)
  next
    case 3
    then obtain x where x: "a = 0xE0 + x" "x < 16" by (auto dest!: le_Suc_ex)
    from assms bs 3 obtain b d where "t = b # d # r" "second_ok a b" "cont d"
      "c = (a - 0xE0) * 4096 + (b - 0x80) * 64 + (d - 0x80)"
      by (auto split: list.splits if_splits)
    moreover from this obtain y z where "b = 0x80 + y" "y < 64" "d = 0x80 + z" "z < 64"
      by (metis contE second_okE)
    ultimately show ?thesis using that x bs by (simp add: utf8_char_three)
  next
    case 4
    then obtain x where x: "a = 0xF0 + x" "x < 5" by (auto dest!: le_Suc_ex)
    from assms bs 4 obtain b d e where "t = b # d # e # r" "second_ok a b" "cont d" "cont e"
      "c = (a - 0xF0) * 262144 + (b - 0x80) * 4096 + (d - 0x80) * 64 + (e - 0x80)"
      by (auto split: list.splits if_splits)
    moreover from this obtain y z w where
      "b = 0x80 + y" "y < 64" "d = 0x80 + z" "z < 64" "e = 0x80 + w" "w < 64"
      by (metis contE second_okE)
    ultimately show ?thesis using that x bs by (simp add: utf8_char_four)
  qed
qed

lemma utf8_encode_decode_nat: "utf8_decode_nat bs = Some s \<Longrightarrow> utf8_encode_nat s = Some bs"
proof (induction bs arbitrary: s rule: utf8_decode_nat.induct)
  case (1 bs)
  show ?case
  proof (cases "bs = []")
    case True
    with "1.prems" show ?thesis by (simp add: utf8_decode_nat.simps)
  next
    case False
    with "1.prems" obtain c r s' where
      nx: "utf8_next bs = Some (c, r)" and rest: "utf8_decode_nat r = Some s'" and s: "s = c # s'"
      by (subst (asm) utf8_decode_nat.simps) (auto split: option.splits)
    from nx obtain b where "utf8_char c = Some b" "bs = b @ r" by (rule utf8_next_canonical)
    moreover have "utf8_encode_nat s' = Some r" using "1.IH" False nx rest by blast
    ultimately show ?thesis using s by simp
  qed
qed

theorem utf8_encode_decode: "utf8_decode bs = Some s \<Longrightarrow> utf8_encode s = Some bs"
  by (auto simp: utf8_decode_def utf8_encode_def comp_def dest!: utf8_encode_decode_nat)

section \<open>Decoding with replacement\<close>

text \<open>How many bytes one replacement character stands for: the longest prefix of a well-formed sequence,
  at least one byte.\<close>
definition bad_length :: "nat list \<Rightarrow> nat" where
  "bad_length bs =
     (case bs of a # b # r \<Rightarrow>
        if 0xE0 \<le> a \<and> a \<le> 0xEF \<and> second_ok a b then 2
        else if 0xF0 \<le> a \<and> a \<le> 0xF4 \<and> second_ok a b then
          (case r of c # _ \<Rightarrow> if cont c then 3 else 2 | [] \<Rightarrow> 2)
        else 1
      | _ \<Rightarrow> 1)"

lemma bad_length_pos: "0 < bad_length bs"
  by (simp add: bad_length_def split: list.split)

function utf8_replace_nat :: "nat list \<Rightarrow> pystr" where
  "utf8_replace_nat bs =
     (if bs = [] then []
      else case utf8_next bs of
          None \<Rightarrow> 0xFFFD # utf8_replace_nat (drop (bad_length bs) bs)
        | Some (c, r) \<Rightarrow> c # utf8_replace_nat r)"
  by pat_completeness auto
termination
  by (relation "measure length") (use bad_length_pos in \<open>auto dest: utf8_next_shorter simp: Suc_le_eq\<close>)

declare utf8_replace_nat.simps [simp del]

definition utf8_decode_replace :: "bytes \<Rightarrow> pystr" where
  "utf8_decode_replace bs = utf8_replace_nat (map unat bs)"

lemma utf8_replace_length: "length (utf8_replace_nat bs) \<le> length bs"
proof (induction bs rule: utf8_replace_nat.induct)
  case (1 bs)
  show ?case
  proof (cases "bs = []")
    case False
    show ?thesis
    proof (cases "utf8_next bs")
      case None
      with 1(1) False show ?thesis using bad_length_pos [of bs] by (subst utf8_replace_nat.simps) (cases bs; simp)
    next
      case (Some p)
      obtain c r where p: "p = (c, r)" by fastforce
      with 1(2) False Some utf8_next_shorter [of bs c r] show ?thesis by (subst utf8_replace_nat.simps) force
    qed
  qed (simp add: utf8_replace_nat.simps)
qed

text \<open>The result is text without surrogates, and well-formed input is decoded as by the strict handler.\<close>
lemma utf8_replace_scalar: "list_all scalar (utf8_replace_nat bs)"
proof (induction bs rule: utf8_replace_nat.induct)
  case (1 bs)
  have "scalar c" if "utf8_next bs = Some (c, r)" for c r
  proof -
    from that obtain b where "utf8_char c = Some b" by (rule utf8_next_canonical)
    then show ?thesis by (auto simp: utf8_char_def scalar_def split: if_splits)
  qed
  moreover have "scalar 0xFFFD" by (simp add: scalar_def)
  ultimately show ?case using 1 by (subst utf8_replace_nat.simps) (auto split: option.split)
qed

lemma utf8_replace_strict: "utf8_decode_nat bs = Some s \<Longrightarrow> utf8_replace_nat bs = s"
proof (induction bs arbitrary: s rule: utf8_decode_nat.induct)
  case (1 bs)
  then show ?case
    by (subst utf8_replace_nat.simps, subst (asm) (2) utf8_decode_nat.simps) (auto split: option.splits if_splits)
qed

lemma utf8_decode_replace_encode: "utf8_encode s = Some bs \<Longrightarrow> utf8_decode_replace bs = s"
  using utf8_decode_encode [of s bs] by (auto simp: utf8_decode_def utf8_decode_replace_def intro: utf8_replace_strict)

text \<open>An ASCII byte is never part of a longer sequence, so what stands before it is decoded on its own.\<close>
lemma utf8_next_append:
  assumes "y = [] \<or> hd y < 0x80" "x \<noteq> []"
  shows "utf8_next (x @ y) = map_option (\<lambda>(c, r). (c, r @ y)) (utf8_next x)"
    and "utf8_next x = None \<Longrightarrow> bad_length (x @ y) = bad_length x \<and> bad_length x \<le> length x"
proof -
  obtain a r where x: "x = a # r" using assms(2) by (cases x) auto
  have y: "y = [] \<or> (\<exists>b z. y = b # z \<and> \<not> cont b \<and> \<not> second_ok a b)"
    using assms(1) by (cases y) (auto simp: cont_def second_ok_def)
  show "utf8_next (x @ y) = map_option (\<lambda>(c, r). (c, r @ y)) (utf8_next x)"
    using y unfolding x by (auto split: list.split)
  show "bad_length (x @ y) = bad_length x \<and> bad_length x \<le> length x"
    using y unfolding x by (auto simp: bad_length_def split: list.split)
qed

lemma utf8_replace_append:
  assumes "y = [] \<or> hd y < 0x80"
  shows "utf8_replace_nat (x @ y) = utf8_replace_nat x @ utf8_replace_nat y"
proof (induction x rule: utf8_replace_nat.induct)
  case (1 x)
  show ?case
  proof (cases "x = []")
    case False
    note next_y = utf8_next_append [OF assms False]
    show ?thesis
    proof (cases "utf8_next x")
      case None
      then have "utf8_replace_nat (x @ y) = 0xFFFD # utf8_replace_nat (drop (bad_length x) x @ y)"
        using next_y False by (subst utf8_replace_nat.simps) simp
      also have "\<dots> = (0xFFFD # utf8_replace_nat (drop (bad_length x) x)) @ utf8_replace_nat y" using 1(1) [OF False None] by simp
      also have "0xFFFD # utf8_replace_nat (drop (bad_length x) x) = utf8_replace_nat x"
        using None False by (subst (2) utf8_replace_nat.simps) simp
      finally show ?thesis .
    next
      case (Some p)
      obtain c r where p: "utf8_next x = Some (c, r)" using Some by fastforce
      then have "utf8_replace_nat (x @ y) = c # utf8_replace_nat (r @ y)" using next_y(1) False by (subst utf8_replace_nat.simps) simp
      also have "\<dots> = (c # utf8_replace_nat r) @ utf8_replace_nat y" using 1(2) [OF False p refl] by simp
      also have "c # utf8_replace_nat r = utf8_replace_nat x" using p False by (subst (2) utf8_replace_nat.simps) simp
      finally show ?thesis .
    qed
  qed (simp add: utf8_replace_nat.simps [of "[]"])
qed

text \<open>A replacement character takes three bytes when it is encoded again and stands for at least one.\<close>
lemma utf8_replace_size: "\<exists>out. utf8_encode_nat (utf8_replace_nat bs) = Some out \<and> length out \<le> 3 * length bs"
proof (induction bs rule: utf8_replace_nat.induct)
  case (1 bs)
  show ?case
  proof (cases "bs = []")
    case False
    show ?thesis
    proof (cases "utf8_next bs")
      case None
      from 1(1) [OF False None] obtain out where "utf8_encode_nat (utf8_replace_nat (drop (bad_length bs) bs)) = Some out"
        "length out \<le> 3 * length (drop (bad_length bs) bs)" by blast
      moreover have "length (drop (bad_length bs) bs) < length bs" using False bad_length_pos [of bs] by (cases bs) auto
      ultimately show ?thesis using None False by (subst utf8_replace_nat.simps) (simp add: utf8_char_def)
    next
      case (Some p)
      obtain c r where p: "utf8_next bs = Some (c, r)" using Some by fastforce
      then obtain b where b: "utf8_char c = Some b" "bs = b @ r" by (rule utf8_next_canonical)
      from 1(2) [OF False p refl] obtain out where "utf8_encode_nat (utf8_replace_nat r) = Some out" "length out \<le> 3 * length r" by blast
      with p b False show ?thesis by (subst utf8_replace_nat.simps) simp
    qed
  qed (simp add: utf8_replace_nat.simps)
qed

lemma utf8_replace_ascii: "\<forall>b\<in>set bs. b < 0x80 \<Longrightarrow> utf8_replace_nat bs = bs \<and> utf8_encode_nat bs = Some bs"
proof (induction bs)
  case (Cons b bs)
  then show ?case by (subst utf8_replace_nat.simps) (simp add: utf8_char_def)
qed (simp add: utf8_replace_nat.simps)

lemma bytes_encode: "utf8_encode s = Some out \<longleftrightarrow> (\<exists>ns. utf8_encode_nat s = Some ns \<and> out = map of_nat ns)"
  by (auto simp: utf8_encode_def)

end
