(* ===== verification/Protocol.thy ===== *)
theory Protocol
  imports Utf8 Json
begin

text \<open>
  The binary wire protocol (\<open>backend/app/collaboration/protocol.py\<close>): lib0 variable-length
  integers, length-prefixed bytes and strings, and the y-websocket frames built from them.
  Frames are \<open>byte list\<close>s, Python integers are \<open>int\<close>, offsets are checked the way the code
  checks them. Decoders return a \<open>protocol_error\<close> for each \<open>raise ProtocolError\<close>; encoders
  return an \<open>encode_error\<close> where the code raises \<open>ValueError\<close> or \<open>UnicodeEncodeError\<close>. The
  \<open>TypeError\<close> for a value that is no \<open>int\<close> is ruled out by the types.

  Shown: every encoding decodes to what was encoded wherever it stands in a frame
  (interpretations of \<open>codec\<close>), decoders stay inside the frame and in the JavaScript-safe
  range, complete frames round trip, and a valid frame with bytes behind it is refused.
\<close>

unbundle bit_operations_syntax

section \<open>Constants and messages\<close>

definition MESSAGE_SYNC :: int where "MESSAGE_SYNC = 0"
definition MESSAGE_AWARENESS :: int where "MESSAGE_AWARENESS = 1"
definition MESSAGE_AUTH :: int where "MESSAGE_AUTH = 2"
definition MESSAGE_QUERY_AWARENESS :: int where "MESSAGE_QUERY_AWARENESS = 3"
definition MESSAGE_DOCUMENT_STATUS :: int where "MESSAGE_DOCUMENT_STATUS = 4"
definition MESSAGE_EXECUTION_EVENT :: int where "MESSAGE_EXECUTION_EVENT = 5"

definition SYNC_STEP1 :: int where "SYNC_STEP1 = 0"
definition SYNC_STEP2 :: int where "SYNC_STEP2 = 1"
definition SYNC_UPDATE :: int where "SYNC_UPDATE = 2"

definition AUTH_PERMISSION_DENIED :: int where "AUTH_PERMISSION_DENIED = 0"

definition MAX_SAFE_INTEGER :: int where "MAX_SAFE_INTEGER = 2 ^ 53 - 1"
definition MAX_MESSAGE_SIZE :: int where "MAX_MESSAGE_SIZE = 16 * 1024 * 1024"
definition MAX_AWARENESS_ENTRIES :: int where "MAX_AWARENESS_ENTRIES = 10000"

lemmas message_types = MESSAGE_SYNC_def MESSAGE_AWARENESS_def MESSAGE_AUTH_def
  MESSAGE_QUERY_AWARENESS_def MESSAGE_DOCUMENT_STATUS_def MESSAGE_EXECUTION_EVENT_def
lemmas sync_types = SYNC_STEP1_def SYNC_STEP2_def SYNC_UPDATE_def

datatype protocol_error =
    Bad_offset
  | Varuint_too_long
  | Varuint_unsafe
  | Varuint_truncated
  | Payload_exceeds_frame
  | Not_utf8
  | Trailing_bytes
  | Too_many_entries
  | Not_json
  | Empty_frame
  | Frame_too_large
  | Unknown_sync_subtype int
  | Unknown_auth_subtype int
  | Unknown_message_type int

datatype encode_error = Value_out_of_range | Bad_sync_subtype int | Unicode_encode_error

record AwarenessEntry =
  ae_client_id :: int
  ae_clock :: int
  ae_state :: json
  ae_encoded_state :: pystr

datatype ParsedMessage =
    SyncMessage int bytes
  | AwarenessMessage "AwarenessEntry list"
  | AwarenessQuery
  | AuthMessage int pystr

fun modifies_document :: "ParsedMessage \<Rightarrow> bool" where
  "modifies_document (SyncMessage subtype payload) = (subtype \<in> set [SYNC_STEP2, SYNC_UPDATE])"
| "modifies_document _ = False"

section \<open>Variable-length integers\<close>

function encode_var_uint_loop :: "int \<Rightarrow> bytes" where
  "encode_var_uint_loop value =
     (if value > 0x7F
      then word_of_int ((value AND 0x7F) OR 0x80) # encode_var_uint_loop (value div 128)
      else [word_of_int value])"
  by pat_completeness auto
termination
  by (relation "measure nat") auto

definition encode_var_uint :: "int \<Rightarrow> encode_error + bytes" where
  "encode_var_uint value =
     (if value < 0 \<or> value > MAX_SAFE_INTEGER then Inl Value_out_of_range
      else Inr (encode_var_uint_loop value))"

function decode_var_uint_loop :: "bytes \<Rightarrow> int \<Rightarrow> int \<Rightarrow> int \<Rightarrow> int \<Rightarrow> protocol_error + int \<times> int" where
  "decode_var_uint_loop data offset value multiplier bytes_read =
     (if offset < int (length data) then
        let bytes_read = bytes_read + 1 in
        if bytes_read > 8 then Inl Varuint_too_long
        else
          let byte = data ! nat offset;
              offset = offset + 1;
              value = value + uint (byte AND 0x7F) * multiplier
          in if value > MAX_SAFE_INTEGER then Inl Varuint_unsafe
             else if byte < 0x80 then Inr (value, offset)
             else decode_var_uint_loop data offset value (multiplier * 128) bytes_read
      else Inl Varuint_truncated)"
  by pat_completeness auto
termination
  by (relation "measure (\<lambda>(data, offset, value, multiplier, bytes_read).
        nat (int (length data) - offset))") auto

definition decode_var_uint :: "bytes \<Rightarrow> int \<Rightarrow> protocol_error + int \<times> int" where
  "decode_var_uint data offset =
     (if offset < 0 \<or> offset > int (length data) then Inl Bad_offset
      else decode_var_uint_loop data offset 0 1 0)"

declare encode_var_uint_loop.simps [simp del] decode_var_uint_loop.simps [simp del]

section \<open>Length-prefixed bytes and strings\<close>

definition encode_var_bytes :: "bytes \<Rightarrow> encode_error + bytes" where
  "encode_var_bytes value =
     rbind (encode_var_uint (int (length value))) (\<lambda>n. Inr (n @ value))"

definition decode_var_bytes :: "bytes \<Rightarrow> int \<Rightarrow> protocol_error + bytes \<times> int" where
  "decode_var_bytes data offset =
     rbind (decode_var_uint data offset) (\<lambda>(len, offset).
       let finish = offset + len in
       if finish > int (length data) then Inl Payload_exceeds_frame
       else Inr (pyslice data offset finish, finish))"

definition encode_var_string :: "pystr \<Rightarrow> encode_error + bytes" where
  "encode_var_string value =
     rbind (of_opt Unicode_encode_error (utf8_encode value)) encode_var_bytes"

definition decode_var_string :: "bytes \<Rightarrow> int \<Rightarrow> protocol_error + pystr \<times> int" where
  "decode_var_string data offset =
     rbind (decode_var_bytes data offset) (\<lambda>(encoded, offset).
     rbind (of_opt Not_utf8 (utf8_decode encoded)) (\<lambda>s. Inr (s, offset)))"

definition ensure_finished :: "bytes \<Rightarrow> int \<Rightarrow> protocol_error + unit" where
  "ensure_finished data offset = ensure (offset = int (length data)) Trailing_bytes"

section \<open>Awareness updates\<close>

definition decode_awareness_entry :: "json_env \<Rightarrow> bytes \<Rightarrow> int \<Rightarrow> protocol_error + AwarenessEntry \<times> int" where
  "decode_awareness_entry J payload offset =
     rbind (decode_var_uint payload offset) (\<lambda>(cid, offset).
     rbind (decode_var_uint payload offset) (\<lambda>(clk, offset).
     rbind (decode_var_string payload offset) (\<lambda>(enc, offset).
     rbind (reraise Not_json (json_loads J False enc)) (\<lambda>st.
     Inr (\<lparr>ae_client_id = cid, ae_clock = clk, ae_state = st, ae_encoded_state = enc\<rparr>, offset)))))"

definition decode_awareness_entries :: "json_env \<Rightarrow> bytes \<Rightarrow> protocol_error + AwarenessEntry list" where
  "decode_awareness_entries J payload =
     rbind (decode_var_uint payload 0) (\<lambda>(count, offset).
     if count > MAX_AWARENESS_ENTRIES then Inl Too_many_entries
     else
       rbind (decode_n (decode_awareness_entry J) (nat count) payload offset) (\<lambda>(entries, offset).
       rbind (ensure_finished payload offset) (\<lambda>_. Inr entries)))"

section \<open>Frames\<close>

definition parse_message :: "json_env \<Rightarrow> bytes \<Rightarrow> protocol_error + ParsedMessage" where
  "parse_message J frame =
     (if frame = [] then Inl Empty_frame
      else if int (length frame) > MAX_MESSAGE_SIZE then Inl Frame_too_large
      else rbind (decode_var_uint frame 0) (\<lambda>(message_type, offset).
        if message_type = MESSAGE_SYNC then
          rbind (decode_var_uint frame offset) (\<lambda>(subtype, offset).
          if subtype \<notin> set [SYNC_STEP1, SYNC_STEP2, SYNC_UPDATE] then Inl (Unknown_sync_subtype subtype)
          else rbind (decode_var_bytes frame offset) (\<lambda>(payload, offset).
               rbind (ensure_finished frame offset) (\<lambda>_.
               Inr (SyncMessage subtype payload))))
        else if message_type = MESSAGE_AWARENESS then
          rbind (decode_var_bytes frame offset) (\<lambda>(payload, offset).
          rbind (ensure_finished frame offset) (\<lambda>_.
          rbind (decode_awareness_entries J payload) (\<lambda>entries.
          Inr (AwarenessMessage entries))))
        else if message_type = MESSAGE_QUERY_AWARENESS then
          rbind (ensure_finished frame offset) (\<lambda>_. Inr AwarenessQuery)
        else if message_type = MESSAGE_AUTH then
          rbind (decode_var_uint frame offset) (\<lambda>(subtype, offset).
          if subtype \<noteq> AUTH_PERMISSION_DENIED then Inl (Unknown_auth_subtype subtype)
          else rbind (decode_var_string frame offset) (\<lambda>(reason, offset).
               rbind (ensure_finished frame offset) (\<lambda>_.
               Inr (AuthMessage subtype reason))))
        else Inl (Unknown_message_type message_type)))"

definition encode_sync_message :: "int \<Rightarrow> bytes \<Rightarrow> encode_error + bytes" where
  "encode_sync_message subtype payload =
     (if subtype \<notin> set [SYNC_STEP1, SYNC_STEP2, SYNC_UPDATE] then Inl (Bad_sync_subtype subtype)
      else rbind (encode_var_uint MESSAGE_SYNC) (\<lambda>t.
           rbind (encode_var_uint subtype) (\<lambda>s.
           rbind (encode_var_bytes payload) (\<lambda>p.
           Inr (t @ s @ p)))))"

definition encode_sync_step1 :: "bytes \<Rightarrow> encode_error + bytes" where
  "encode_sync_step1 state_vector = encode_sync_message SYNC_STEP1 state_vector"

definition encode_sync_step2 :: "bytes \<Rightarrow> encode_error + bytes" where
  "encode_sync_step2 update = encode_sync_message SYNC_STEP2 update"

definition encode_sync_update :: "bytes \<Rightarrow> encode_error + bytes" where
  "encode_sync_update update = encode_sync_message SYNC_UPDATE update"

definition encode_awareness_entry :: "AwarenessEntry \<Rightarrow> encode_error + bytes" where
  "encode_awareness_entry entry =
     rbind (encode_var_uint (ae_client_id entry)) (\<lambda>a.
     rbind (encode_var_uint (ae_clock entry)) (\<lambda>b.
     rbind (encode_var_string (ae_encoded_state entry)) (\<lambda>c.
     Inr (a @ b @ c))))"

definition encode_awareness_message :: "AwarenessEntry list \<Rightarrow> encode_error + bytes" where
  "encode_awareness_message entries =
     rbind (encode_var_uint (int (length entries))) (\<lambda>n.
     rbind (encode_all encode_awareness_entry entries) (\<lambda>es.
     rbind (encode_var_uint MESSAGE_AWARENESS) (\<lambda>t.
     rbind (encode_var_bytes (n @ es)) (\<lambda>p.
     Inr (t @ p)))))"

definition encode_permission_denied :: "pystr \<Rightarrow> encode_error + bytes" where
  "encode_permission_denied reason =
     rbind (encode_var_uint MESSAGE_AUTH) (\<lambda>t.
     rbind (encode_var_uint AUTH_PERMISSION_DENIED) (\<lambda>s.
     rbind (encode_var_string reason) (\<lambda>r.
     Inr (t @ s @ r))))"

text \<open>Server-to-client events: a JSON object printed compactly with sorted keys.\<close>

definition opt_str :: "pystr option \<Rightarrow> json" where
  "opt_str m = (case m of None \<Rightarrow> JNull | Some s \<Rightarrow> JStr s)"

definition document_saved_payload ::
    "pystr option \<Rightarrow> pystr option \<Rightarrow> pystr \<Rightarrow> bool \<Rightarrow> pystr option \<Rightarrow> json" where
  "document_saved_payload saved_at state_vector state_hash dirty saved_by =
     JObj [(py ''type'', JStr (py ''document_saved'')),
           (py ''saved_at'', opt_str saved_at),
           (py ''state_vector'', opt_str state_vector),
           (py ''state_hash'', JStr state_hash),
           (py ''dirty'', JBool dirty),
           (py ''saved_by'', opt_str saved_by)]"

definition encode_document_saved ::
    "pystr option \<Rightarrow> pystr option \<Rightarrow> pystr \<Rightarrow> bool \<Rightarrow> pystr option \<Rightarrow> encode_error + bytes" where
  "encode_document_saved saved_at state_vector state_hash dirty saved_by =
     (let payload = json_dumps (py '','') (py '':'') True
            (document_saved_payload saved_at state_vector state_hash dirty saved_by)
      in rbind (encode_var_uint MESSAGE_DOCUMENT_STATUS) (\<lambda>t.
         rbind (encode_var_string payload) (\<lambda>p.
         Inr (t @ p))))"

definition encode_execution_event :: "(pystr, json) dict \<Rightarrow> encode_error + bytes" where
  "encode_execution_event event =
     (let payload = json_dumps (py '','') (py '':'') True (JObj event)
      in rbind (encode_var_uint MESSAGE_EXECUTION_EVENT) (\<lambda>t.
         rbind (encode_var_string payload) (\<lambda>p.
         Inr (t @ p))))"

section \<open>Seven-bit groups\<close>

lemma and_7F: "v AND 0x7F = v mod (128::int)"
  using take_bit_eq_mask [of 7 v] by (simp add: take_bit_eq_mod mask_eq_exp_minus_1)

lemma and_exp_eq_0: "take_bit k x = x \<Longrightarrow> x AND 2 ^ k = (0::int)"
proof (rule bit_eqI)
  fix n
  assume "take_bit k x = x"
  then have "bit x n \<Longrightarrow> n < k" using bit_take_bit_iff [of k x n] by simp
  then show "bit (x AND 2 ^ k) n = bit 0 n" by (auto simp: bit_and_iff bit_exp_iff)
qed

lemma low7_or_80:
  assumes "0 \<le> x" "x < (128::int)"
  shows "x OR 0x80 = x + 0x80"
proof -
  have "take_bit 7 x = x" using assms by (simp add: take_bit_int_eq_self_iff)
  then have "x AND 2 ^ 7 = 0" by (rule and_exp_eq_0)
  then show ?thesis using plus_and_or [of x "2 ^ 7"] by simp
qed

lemma uint_byte_and_7F: "uint ((b::byte) AND 0x7F) = uint b mod 128"
  by (simp add: uint_and and_7F)

lemma continuation_byte:
  fixes v :: int
  defines "b \<equiv> word_of_int ((v AND 0x7F) OR 0x80) :: byte"
  shows "uint (b AND 0x7F) = v mod 128" "\<not> b < 0x80"
proof -
  have "uint b = v mod 128 + 128"
  proof -
    have "b = word_of_int (v mod 128 + 128)" by (simp only: b_def and_7F low7_or_80 pos_mod_sign pos_mod_bound)
    moreover have "(v mod 128 + 128) mod 256 = v mod 128 + 128" by (rule mod_pos_pos_trivial) auto
    ultimately show ?thesis by (simp only: unsigned_of_int take_bit_eq_mod) simp
  qed
  then show "uint (b AND 0x7F) = v mod 128" "\<not> b < 0x80"
    by (simp_all add: uint_byte_and_7F word_less_def)
qed

lemma final_byte:
  fixes v :: int
  assumes "0 \<le> v" "v \<le> 0x7F"
  defines "b \<equiv> word_of_int v :: byte"
  shows "uint (b AND 0x7F) = v" "b < 0x80"
proof -
  have "uint b = v" using assms by (simp add: b_def unsigned_of_int take_bit_eq_mod)
  then show "uint (b AND 0x7F) = v" "b < 0x80"
    using assms by (simp_all add: uint_byte_and_7F word_less_def)
qed

section \<open>Variable-length integers: round trip and bounds\<close>

lemma encode_loop_length:
  "0 \<le> v \<Longrightarrow> v < 128 ^ Suc k \<Longrightarrow> length (encode_var_uint_loop v) \<le> Suc k"
proof (induction k arbitrary: v)
  case 0
  then show ?case by (subst encode_var_uint_loop.simps) simp
next
  case (Suc k)
  have "v div 128 < 128 ^ Suc k" using Suc.prems by (simp add: div_less_iff_less_mult)
  then show ?case
    using Suc.IH [of "v div 128"] Suc.prems by (subst encode_var_uint_loop.simps) simp
qed

lemma encode_loop_nonempty: "0 < length (encode_var_uint_loop v)"
  by (subst encode_var_uint_loop.simps) simp

lemma decode_loop_encode_loop:
  assumes "0 \<le> v" "0 \<le> acc" "0 < mult" "acc + v * mult \<le> MAX_SAFE_INTEGER"
    and "n + int (length (encode_var_uint_loop v)) \<le> 8"
  shows "decode_var_uint_loop (pre @ encode_var_uint_loop v @ suf) (int (length pre)) acc mult n
    = Inr (acc + v * mult, int (length pre) + int (length (encode_var_uint_loop v)))"
  using assms
proof (induction v arbitrary: pre acc mult n rule: encode_var_uint_loop.induct)
  case (1 v)
  show ?case
  proof (cases "v > 0x7F")
    case False
    then have enc: "encode_var_uint_loop v = [word_of_int v]"
      by (subst encode_var_uint_loop.simps) simp
    with False "1.prems" final_byte [of v] show ?thesis
      by (subst decode_var_uint_loop.simps) (simp add: Let_def nth_append)
  next
    case True
    let ?b = "word_of_int ((v AND 0x7F) OR 0x80) :: byte"
    let ?rest = "encode_var_uint_loop (v div 128)"
    from True have enc: "encode_var_uint_loop v = ?b # ?rest"
      by (subst encode_var_uint_loop.simps) simp
    have "(v mod 128 + v div 128 * 128) * mult = v * mult" by simp
    then have val: "acc + v mod 128 * mult + v div 128 * (mult * 128) = acc + v * mult"
      by (simp only: algebra_simps)
    have pos: "0 \<le> v div 128 * (mult * 128)" using "1.prems" by simp
    have IH: "decode_var_uint_loop ((pre @ [?b]) @ ?rest @ suf) (int (length (pre @ [?b])))
        (acc + v mod 128 * mult) (mult * 128) (n + 1)
      = Inr (acc + v mod 128 * mult + v div 128 * (mult * 128),
             int (length (pre @ [?b])) + int (length ?rest))"
      by (rule "1.IH" [OF True]) (use "1.prems" val enc in auto)
    have "acc + v mod 128 * mult \<le> MAX_SAFE_INTEGER" using val pos "1.prems" by linarith
    moreover have "n + 1 \<le> 8" using "1.prems"(5) enc by simp
    ultimately show ?thesis
      using IH val enc continuation_byte [of v]
      by (subst decode_var_uint_loop.simps) (simp add: Let_def nth_append ac_simps)
  qed
qed


lemma decode_encode_var_uint:
  assumes "encode_var_uint v = Inr bs"
  shows "decode_var_uint (pre @ bs @ suf) (int (length pre)) = Inr (v, int (length pre) + int (length bs))"
proof -
  from assms have v: "0 \<le> v" "v \<le> MAX_SAFE_INTEGER" and bs: "bs = encode_var_uint_loop v"
    by (auto simp: encode_var_uint_def split: if_splits)
  have "length bs \<le> 8"
    using encode_loop_length [of v 7] v bs by (simp add: MAX_SAFE_INTEGER_def)
  with decode_loop_encode_loop [of v 0 1 0 pre suf] v bs show ?thesis
    by (simp add: decode_var_uint_def)
qed

lemma decode_loop_bounds:
  "decode_var_uint_loop data off acc mult n = Inr (v, off') \<Longrightarrow> 0 \<le> off \<Longrightarrow> 0 \<le> acc \<Longrightarrow> 0 \<le> mult \<Longrightarrow>
     0 \<le> v \<and> v \<le> MAX_SAFE_INTEGER \<and> off < off' \<and> off' \<le> int (length data) \<and> n + (off' - off) \<le> 8"
proof (induction data off acc mult n rule: decode_var_uint_loop.induct)
  case (1 data off acc mult n)
  let ?b = "data ! nat off"
  let ?acc = "acc + uint (?b AND 0x7F) * mult"
  from "1.prems" have run: "off < int (length data)" "n + 1 \<le> 8" "?acc \<le> MAX_SAFE_INTEGER"
    by (subst (asm) decode_var_uint_loop.simps, simp add: Let_def split: if_splits)+
  show ?case
  proof (cases "?b < 0x80")
    case True
    with "1.prems" run show ?thesis
      by (subst (asm) decode_var_uint_loop.simps) (auto simp: Let_def)
  next
    case False
    with "1.prems" run have "decode_var_uint_loop data (off + 1) ?acc (mult * 128) (n + 1) = Inr (v, off')"
      by (subst (asm) decode_var_uint_loop.simps) (auto simp: Let_def)
    with "1.IH" [OF run(1) refl _ refl refl refl _ False] "1.prems" run show ?thesis by fastforce
  qed
qed

lemma decode_loop_extend:
  "decode_var_uint_loop data off acc mult n = Inr r \<Longrightarrow> 0 \<le> off \<Longrightarrow>
     decode_var_uint_loop (data @ ys) off acc mult n = Inr r"
proof (induction data off acc mult n rule: decode_var_uint_loop.induct)
  case (1 data off acc mult n)
  let ?b = "data ! nat off"
  let ?acc = "acc + uint (?b AND 0x7F) * mult"
  from "1.prems" have run: "off < int (length data)" "n + 1 \<le> 8" "?acc \<le> MAX_SAFE_INTEGER"
    by (subst (asm) decode_var_uint_loop.simps, simp add: Let_def split: if_splits)+
  then have nth: "(data @ ys) ! nat off = ?b" using "1.prems" by (simp add: nth_append nat_less_iff)
  show ?case
  proof (cases "?b < 0x80")
    case True
    with "1.prems" run have "r = (?acc, off + 1)"
      by (subst (asm) decode_var_uint_loop.simps) (auto simp: Let_def)
    with True run nth show ?thesis
      by (subst decode_var_uint_loop.simps) (simp add: Let_def)
  next
    case False
    with "1.prems" run have "decode_var_uint_loop data (off + 1) ?acc (mult * 128) (n + 1) = Inr r"
      by (subst (asm) decode_var_uint_loop.simps) (auto simp: Let_def)
    with "1.IH" [OF run(1) refl _ refl refl refl _ False] "1.prems" run
    have "decode_var_uint_loop (data @ ys) (off + 1) ?acc (mult * 128) (n + 1) = Inr r" by fastforce
    with False run nth show ?thesis
      by (subst decode_var_uint_loop.simps) (simp add: Let_def)
  qed
qed

lemma decode_var_uint_bounds:
  assumes "decode_var_uint data off = Inr (v, off')"
  shows "0 \<le> v \<and> v \<le> MAX_SAFE_INTEGER \<and> 0 \<le> off \<and> off < off' \<and> off' \<le> int (length data) \<and> off' - off \<le> 8"
  using assms decode_loop_bounds [of data off 0 1 0 v off'] by (auto simp: decode_var_uint_def split: if_splits)

interpretation var_uint: codec decode_var_uint encode_var_uint "\<lambda>_. True"
proof unfold_locales
  fix data off x off'
  assume "decode_var_uint data off = Inr (x, off')"
  then show "0 \<le> off \<and> off < off' \<and> off' \<le> int (length data)"
    using decode_var_uint_bounds by blast
next
  fix data ys off x off'
  assume "decode_var_uint data off = Inr (x, off')"
  then show "decode_var_uint (data @ ys) off = Inr (x, off')"
    by (auto simp: decode_var_uint_def decode_loop_extend split: if_splits)
next
  fix v bs pre suf
  assume "encode_var_uint v = Inr bs"
  then show "decode_var_uint (pre @ bs @ suf) (int (length pre)) = Inr (v, int (length pre) + int (length bs))"
    by (rule decode_encode_var_uint)
qed

section \<open>Bytes, strings and entries as codecs\<close>

lemma decode_var_bytes_Inr:
  "decode_var_bytes data off = Inr (p, off') \<longleftrightarrow>
     (\<exists>len off1. decode_var_uint data off = Inr (len, off1) \<and> off' = off1 + len \<and>
        off' \<le> int (length data) \<and> p = pyslice data off1 off')"
  by (fastforce simp: decode_var_bytes_def rbind_Inr_iff Let_def split: if_splits)

lemma decode_var_bytes_length:
  assumes "decode_var_bytes data off = Inr (p, off')"
  shows "int (length p) < off' \<and> int (length p) \<le> MAX_SAFE_INTEGER"
proof -
  from assms obtain len off1 where
    u: "decode_var_uint data off = Inr (len, off1)" and b: "off' = off1 + len" "off' \<le> int (length data)"
    and p: "p = pyslice data off1 off'"
    by (auto simp: decode_var_bytes_Inr)
  from decode_var_uint_bounds [OF u] b p length_pyslice [of off1 off' data] show ?thesis by simp
qed

interpretation var_bytes: codec decode_var_bytes encode_var_bytes "\<lambda>_. True"
proof unfold_locales
  fix data off p off'
  assume "decode_var_bytes data off = Inr (p, off')"
  then show "0 \<le> off \<and> off < off' \<and> off' \<le> int (length data)"
    by (auto simp: decode_var_bytes_Inr dest: decode_var_uint_bounds)
next
  fix data more off p off'
  assume "decode_var_bytes data off = Inr (p, off')"
  then obtain len off1 where
    u: "decode_var_uint data off = Inr (len, off1)" and b: "off' = off1 + len" "off' \<le> int (length data)"
    and p: "p = pyslice data off1 off'"
    by (auto simp: decode_var_bytes_Inr)
  from var_uint.dec_extend [OF u] decode_var_uint_bounds [OF u] b p pyslice_append [of off1 off' data]
  show "decode_var_bytes (data @ more) off = Inr (p, off')"
    by (auto simp: decode_var_bytes_Inr)
next
  fix x bs pre suf
  assume "encode_var_bytes x = Inr bs"
  then obtain n where n: "encode_var_uint (int (length x)) = Inr n" and bs: "bs = n @ x"
    by (auto simp: encode_var_bytes_def rbind_Inr_iff)
  show "decode_var_bytes (pre @ bs @ suf) (int (length pre)) = Inr (x, int (length pre) + int (length bs))"
    using var_uint.dec_enc [OF _ n, of pre "x @ suf"] pyslice_mid [of "pre @ n" x suf]
    by (simp add: decode_var_bytes_Inr bs add.assoc)
qed

interpretation var_string: codec decode_var_string encode_var_string "\<lambda>_. True"
proof unfold_locales
  fix data off p off'
  assume "decode_var_string data off = Inr (p, off')"
  then show "0 \<le> off \<and> off < off' \<and> off' \<le> int (length data)"
    by (auto simp: decode_var_string_def rbind_Inr_iff dest: var_bytes.dec_progress)
next
  fix data more off p off'
  assume "decode_var_string data off = Inr (p, off')"
  then show "decode_var_string (data @ more) off = Inr (p, off')"
    by (auto simp: decode_var_string_def rbind_Inr_iff dest: var_bytes.dec_extend)
next
  fix x bs pre suf
  assume "encode_var_string x = Inr bs"
  then obtain e where e: "utf8_encode x = Some e" and bs: "encode_var_bytes e = Inr bs"
    by (auto simp: encode_var_string_def rbind_Inr_iff)
  show "decode_var_string (pre @ bs @ suf) (int (length pre)) = Inr (x, int (length pre) + int (length bs))"
    using var_bytes.dec_enc [OF _ bs] utf8_decode_encode [OF e] by (simp add: decode_var_string_def)
qed

text \<open>An entry whose decoded state is what its JSON text says.\<close>

definition entry_consistent :: "json_env \<Rightarrow> AwarenessEntry \<Rightarrow> bool" where
  "entry_consistent J e \<longleftrightarrow> json_loads J False (ae_encoded_state e) = Inr (ae_state e)"

lemma decode_awareness_entry_Inr:
  "decode_awareness_entry J data off = Inr (e, off') \<longleftrightarrow>
     (\<exists>off1 off2. decode_var_uint data off = Inr (ae_client_id e, off1) \<and>
        decode_var_uint data off1 = Inr (ae_clock e, off2) \<and>
        decode_var_string data off2 = Inr (ae_encoded_state e, off') \<and> entry_consistent J e)"
  by (cases e) (fastforce simp: decode_awareness_entry_def rbind_Inr_iff entry_consistent_def)

lemma awareness_entry_codec:
  "codec (decode_awareness_entry J) encode_awareness_entry (entry_consistent J)"
proof unfold_locales
  fix data off e off'
  assume "decode_awareness_entry J data off = Inr (e, off')"
  then show "0 \<le> off \<and> off < off' \<and> off' \<le> int (length data)"
    by (fastforce simp: decode_awareness_entry_Inr
        dest: decode_var_uint_bounds var_string.dec_progress)
next
  fix data more off e off'
  assume "decode_awareness_entry J data off = Inr (e, off')"
  then show "decode_awareness_entry J (data @ more) off = Inr (e, off')"
    unfolding decode_awareness_entry_Inr
    using var_uint.dec_extend var_string.dec_extend by blast
next
  fix e bs pre suf
  assume "encode_awareness_entry e = Inr bs" and ok: "entry_consistent J e"
  then obtain a b c where enc: "encode_var_uint (ae_client_id e) = Inr a"
    "encode_var_uint (ae_clock e) = Inr b" "encode_var_string (ae_encoded_state e) = Inr c"
    and bs: "bs = a @ b @ c"
    by (auto simp: encode_awareness_entry_def rbind_Inr_iff)
  show "decode_awareness_entry J (pre @ bs @ suf) (int (length pre))
      = Inr (e, int (length pre) + int (length bs))"
    using var_uint.dec_enc [OF _ enc(1), of pre "b @ c @ suf"]
      var_uint.dec_enc [OF _ enc(2), of "pre @ a" "c @ suf"]
      var_string.dec_enc [OF _ enc(3), of "pre @ a @ b" suf] ok
    by (simp add: decode_awareness_entry_Inr bs ac_simps)
qed

interpretation awareness_entry: codec "decode_awareness_entry J" encode_awareness_entry "entry_consistent J"
  by (rule awareness_entry_codec)

section \<open>Complete frames\<close>

lemma encode_small [simp]: "0 \<le> v \<Longrightarrow> v \<le> 0x7F \<Longrightarrow> encode_var_uint v = Inr [word_of_int v]"
  by (simp add: encode_var_uint_def MAX_SAFE_INTEGER_def encode_var_uint_loop.simps)

lemma decode_small:
  assumes "b < 0x80"
  shows "decode_var_uint (pre @ b # suf) (int (length pre)) = Inr (uint b, int (length pre) + 1)"
proof -
  have "uint b < 0x80" using assms by (simp add: word_less_def)
  with assms show ?thesis
    by (subst decode_var_uint_def, subst decode_var_uint_loop.simps)
      (simp add: Let_def uint_byte_and_7F MAX_SAFE_INTEGER_def)
qed

lemma decode_small_head [simp]: "b < 0x80 \<Longrightarrow> decode_var_uint (b # suf) 0 = Inr (uint b, 1)"
  using decode_small [of b "[]" suf] by simp

lemma decode_small_second [simp]: "b < 0x80 \<Longrightarrow> decode_var_uint (a # b # suf) 1 = Inr (uint b, 2)"
  using decode_small [of b "[a]" suf] by simp

text \<open>What each kind of frame consists of.\<close>

lemma parse_message_cases:
  assumes "parse_message J frame = Inr m"
  obtains (Sync) off1 subtype off2 payload where
      "decode_var_uint frame 0 = Inr (MESSAGE_SYNC, off1)"
      "decode_var_uint frame off1 = Inr (subtype, off2)"
      "subtype \<in> {SYNC_STEP1, SYNC_STEP2, SYNC_UPDATE}"
      "decode_var_bytes frame off2 = Inr (payload, int (length frame))"
      "m = SyncMessage subtype payload"
  | (Awareness) off1 payload entries where
      "decode_var_uint frame 0 = Inr (MESSAGE_AWARENESS, off1)"
      "decode_var_bytes frame off1 = Inr (payload, int (length frame))"
      "decode_awareness_entries J payload = Inr entries"
      "m = AwarenessMessage entries"
  | (Query) "decode_var_uint frame 0 = Inr (MESSAGE_QUERY_AWARENESS, int (length frame))"
      "m = AwarenessQuery"
  | (Auth) off1 off2 reason where
      "decode_var_uint frame 0 = Inr (MESSAGE_AUTH, off1)"
      "decode_var_uint frame off1 = Inr (AUTH_PERMISSION_DENIED, off2)"
      "decode_var_string frame off2 = Inr (reason, int (length frame))"
      "m = AuthMessage AUTH_PERMISSION_DENIED reason"
proof -
  from assms obtain t off1 where t: "decode_var_uint frame 0 = Inr (t, off1)"
    by (auto simp: parse_message_def rbind_Inr_iff split: if_splits)
  have size: "frame \<noteq> []" "int (length frame) \<le> MAX_MESSAGE_SIZE"
    using assms by (auto simp: parse_message_def split: if_splits)
  consider "t = MESSAGE_SYNC" | "t = MESSAGE_AWARENESS" | "t = MESSAGE_QUERY_AWARENESS" | "t = MESSAGE_AUTH"
    using assms t size by (fastforce simp: parse_message_def split: if_splits)
  then show thesis
  proof cases
    case 1
    with assms t size show thesis
      by (auto simp: parse_message_def rbind_Inr_iff ensure_finished_def split: if_splits intro!: Sync)
  next
    case 2
    with assms t size show thesis
      by (auto simp: parse_message_def rbind_Inr_iff ensure_finished_def message_types
          split: if_splits intro!: Awareness)
  next
    case 3
    with assms t size show thesis
      by (auto simp: parse_message_def rbind_Inr_iff ensure_finished_def message_types
          split: if_splits intro!: Query)
  next
    case 4
    with assms t size show thesis
      by (auto simp: parse_message_def rbind_Inr_iff ensure_finished_def message_types
          split: if_splits intro!: Auth)
  qed
qed

section \<open>Properties of the wire protocol\<close>

text \<open>Every JavaScript-safe non-negative integer encodes, in at most eight bytes, and
  decodes to itself wherever the encoding stands in a frame.\<close>
lemma var_uint_roundtrip:
  assumes "0 \<le> v" "v \<le> MAX_SAFE_INTEGER"
  shows "\<exists>bs. encode_var_uint v = Inr bs \<and> length bs \<le> 8 \<and>
    decode_var_uint (pre @ bs @ suf) (int (length pre)) = Inr (v, int (length pre) + int (length bs))"
proof -
  let ?bs = "encode_var_uint_loop v"
  have enc: "encode_var_uint v = Inr ?bs" using assms by (simp add: encode_var_uint_def)
  have "length ?bs \<le> 8"
    using encode_loop_length [of v 7] assms by (simp add: MAX_SAFE_INTEGER_def)
  with enc var_uint.dec_enc [OF _ enc] show ?thesis by blast
qed

text \<open>A sync frame the encoder builds is parsed back to the same subtype and payload,
  provided it keeps to the frame size limit.\<close>
lemma parse_encode_sync_message:
  assumes "encode_sync_message subtype payload = Inr frame" "int (length frame) \<le> MAX_MESSAGE_SIZE"
  shows "parse_message J frame = Inr (SyncMessage subtype payload)"
proof -
  from assms(1) obtain p where
    sub: "subtype \<in> {SYNC_STEP1, SYNC_STEP2, SYNC_UPDATE}" and p: "encode_var_bytes payload = Inr p"
    and frame: "frame = word_of_int MESSAGE_SYNC # word_of_int subtype # p"
    by (auto simp: encode_sync_message_def rbind_Inr_iff message_types sync_types split: if_splits)
  have "decode_var_bytes frame 2 = Inr (payload, int (length frame))"
    using var_bytes.dec_enc [OF _ p, of "[word_of_int MESSAGE_SYNC, word_of_int subtype]" "[]"] frame by simp
  with assms(2) sub frame show ?thesis
    by (auto simp: parse_message_def message_types sync_types ensure_finished_def)
qed

lemma decode_awareness_entries_encode:
  assumes "encode_var_uint (int (length es)) = Inr n" "encode_all encode_awareness_entry es = Inr b"
    and "\<forall>e\<in>set es. entry_consistent J e" "int (length es) \<le> MAX_AWARENESS_ENTRIES"
  shows "decode_awareness_entries J (n @ b) = Inr es"
  using var_uint.dec_enc [OF _ assms(1), of "[]" b] assms(4)
    awareness_entry.decode_encode_all [OF assms(3,2), of n "[]"]
  by (simp add: decode_awareness_entries_def ensure_finished_def)

lemma encode_parse_awareness:
  assumes "encode_awareness_message es = Inr frame" "\<forall>e\<in>set es. entry_consistent J e"
    and "int (length es) \<le> MAX_AWARENESS_ENTRIES" "int (length frame) \<le> MAX_MESSAGE_SIZE"
  shows "parse_message J frame = Inr (AwarenessMessage es)"
proof -
  from assms(1) obtain n b p where
    enc: "encode_var_uint (int (length es)) = Inr n" "encode_all encode_awareness_entry es = Inr b"
    and p: "encode_var_bytes (n @ b) = Inr p" and frame: "frame = word_of_int MESSAGE_AWARENESS # p"
    by (auto simp: encode_awareness_message_def rbind_Inr_iff message_types)
  have "decode_var_bytes frame 1 = Inr (n @ b, int (length frame))"
    using var_bytes.dec_enc [OF _ p, of "[word_of_int MESSAGE_AWARENESS]" "[]"] frame by simp
  with assms(4) frame decode_awareness_entries_encode [OF enc assms(2,3)] show ?thesis
    by (auto simp: parse_message_def message_types ensure_finished_def)
qed

text \<open>C22: An awareness frame the encoder builds from consistent entries is parsed back to the
  same entries, within the entry and size limits.\<close>

theorem parse_encode_awareness_message:
  assumes "encode_awareness_message es = Inr frame" "\<forall>e\<in>set es. entry_consistent J e"
    and "int (length es) \<le> MAX_AWARENESS_ENTRIES" "int (length frame) \<le> MAX_MESSAGE_SIZE"
  shows "parse_message J frame = Inr (AwarenessMessage es)"
  using assms by (rule encode_parse_awareness)

definition sample_env :: json_env where
  "sample_env = \<lparr>json_depth = 2, json_float = id\<rparr>"

definition sample_entry :: AwarenessEntry where
  "sample_entry = \<lparr>ae_client_id = 42, ae_clock = 7, ae_state = JObj [], ae_encoded_state = [123, 125]\<rparr>"

lemma sample_entry_consistent: "entry_consistent sample_env sample_entry"
  by (simp add: entry_consistent_def sample_env_def sample_entry_def json_loads_def numeral_2_eq_2 
      scan_with_def skip_ws_def is_ws_def)

lemma sample_frame: "encode_awareness_message [sample_entry] = Inr [1, 6, 1, 42, 7, 2, 123, 125]"
  by (simp add: encode_awareness_message_def encode_awareness_entry_def encode_var_string_def
      encode_var_bytes_def utf8_encode_def utf8_char_def sample_entry_def message_types)

theorem parse_encode_awareness_message_witness:
  "parse_message sample_env [1, 6, 1, 42, 7, 2, 123, 125] = Inr (AwarenessMessage [sample_entry])"
  by (rule parse_encode_awareness_message [OF sample_frame])
    (simp_all add: sample_entry_consistent MAX_AWARENESS_ENTRIES_def MAX_MESSAGE_SIZE_def)

text \<open>A frame that parses is complete: with any bytes behind it, it is refused.\<close>
lemma parse_message_complete:
  assumes "parse_message J frame = Inr m" "extra \<noteq> []"
  shows "\<exists>e. parse_message J (frame @ extra) = Inl e"
proof (cases "int (length (frame @ extra)) > MAX_MESSAGE_SIZE")
  case True
  then show ?thesis by (cases frame) (use assms(2) in \<open>auto simp: parse_message_def\<close>)
next
  case False
  from assms(1) show ?thesis
  proof (cases rule: parse_message_cases)
    case (Sync off1 subtype off2 payload)
    with var_uint.dec_extend [OF Sync(1), of extra] var_uint.dec_extend [OF Sync(2), of extra]
      var_bytes.dec_extend [OF Sync(4), of extra] False assms(2)
    show ?thesis by (auto simp: parse_message_def ensure_finished_def)
  next
    case (Awareness off1 payload entries)
    with var_uint.dec_extend [OF Awareness(1), of extra] var_bytes.dec_extend [OF Awareness(2), of extra]
      False assms(2)
    show ?thesis by (auto simp: parse_message_def ensure_finished_def message_types)
  next
    case Query
    with var_uint.dec_extend [OF Query(1), of extra] False assms(2)
    show ?thesis by (auto simp: parse_message_def ensure_finished_def message_types)
  next
    case (Auth off1 off2 reason)
    with var_uint.dec_extend [OF Auth(1), of extra] var_uint.dec_extend [OF Auth(2), of extra]
      var_string.dec_extend [OF Auth(3), of extra] False assms(2)
    show ?thesis by (auto simp: parse_message_def ensure_finished_def message_types)
  qed
qed

section \<open>What a parsed awareness entry guarantees\<close>

definition entry_wf :: "json_env \<Rightarrow> AwarenessEntry \<Rightarrow> bool" where
  "entry_wf J e \<longleftrightarrow>
     0 \<le> ae_client_id e \<and> ae_client_id e \<le> MAX_SAFE_INTEGER \<and>
     0 \<le> ae_clock e \<and> ae_clock e \<le> MAX_SAFE_INTEGER \<and> entry_consistent J e \<and>
     (case utf8_encode (ae_encoded_state e) of None \<Rightarrow> False
      | Some bs \<Rightarrow> int (length bs) \<le> MAX_MESSAGE_SIZE)"

lemma decode_n_all:
  "decode_n dec n data off = Inr (xs, off') \<Longrightarrow> \<forall>x\<in>set xs. \<exists>o1 o2. dec data o1 = Inr (x, o2)"
proof (induction n arbitrary: off xs)
  case (Suc n)
  then obtain x off1 ys where "dec data off = Inr (x, off1)" "decode_n dec n data off1 = Inr (ys, off')"
    and "xs = x # ys"
    by (auto simp: rbind_Inr_iff)
  with Suc.IH show ?case by auto
qed simp

lemma decode_var_string_utf8:
  assumes "decode_var_string data off = Inr (s, off')"
  shows "\<exists>bs. utf8_encode s = Some bs \<and> int (length bs) \<le> int (length data)"
proof -
  from assms obtain bs where bs: "decode_var_bytes data off = Inr (bs, off')" "utf8_decode bs = Some s"
    by (auto simp: decode_var_string_def rbind_Inr_iff)
  have "int (length bs) \<le> int (length data)"
    using decode_var_bytes_length [OF bs(1)] var_bytes.dec_progress [OF bs(1)] by linarith
  with utf8_encode_decode [OF bs(2)] show ?thesis by blast
qed

lemma decode_awareness_entry_wf:
  assumes "decode_awareness_entry J data off = Inr (e, off')" "int (length data) \<le> MAX_MESSAGE_SIZE"
  shows "entry_wf J e"
  using assms by (fastforce simp: decode_awareness_entry_Inr entry_wf_def
      dest: decode_var_uint_bounds decode_var_string_utf8)

lemma decode_awareness_entries_wf:
  assumes "decode_awareness_entries J data = Inr es" "int (length data) \<le> MAX_MESSAGE_SIZE"
  shows "(\<forall>e\<in>set es. entry_wf J e) \<and> int (length es) \<le> MAX_AWARENESS_ENTRIES"
proof -
  from assms(1) obtain count off off' where
    c: "decode_var_uint data 0 = Inr (count, off)" "count \<le> MAX_AWARENESS_ENTRIES"
    and es: "decode_n (decode_awareness_entry J) (nat count) data off = Inr (es, off')"
    by (auto simp: decode_awareness_entries_def rbind_Inr_iff split: if_splits)
  have "length es = nat count" using awareness_entry.decode_n_progress [OF es] by simp
  with c decode_var_uint_bounds [OF c(1)] decode_n_all [OF es] assms(2) show ?thesis
    by (auto dest: decode_awareness_entry_wf)
qed

lemma parse_message_size: "parse_message J frame = Inr m \<Longrightarrow> int (length frame) \<le> MAX_MESSAGE_SIZE"
  by (auto simp: parse_message_def split: if_splits)

lemma parse_awareness_wf:
  assumes "parse_message J frame = Inr (AwarenessMessage es)"
  shows "(\<forall>e\<in>set es. entry_wf J e) \<and> int (length es) \<le> MAX_AWARENESS_ENTRIES"
  using assms
proof (cases rule: parse_message_cases)
  case (Awareness off1 payload entries)
  have "int (length payload) < int (length frame)"
    using decode_var_bytes_length [OF Awareness(2)] by simp
  with parse_message_size [OF assms] Awareness(4)
    decode_awareness_entries_wf [OF Awareness(3)] show ?thesis by simp
qed auto

lemma encode_var_uint_total:
  "0 \<le> v \<Longrightarrow> v \<le> MAX_SAFE_INTEGER \<Longrightarrow> \<exists>bs. encode_var_uint v = Inr bs \<and> length bs \<le> 8"
  using encode_loop_length [of v 7] by (simp add: encode_var_uint_def MAX_SAFE_INTEGER_def)

lemma encode_var_bytes_total:
  "int (length p) \<le> MAX_SAFE_INTEGER \<Longrightarrow> \<exists>bs. encode_var_bytes p = Inr bs \<and> length bs \<le> 8 + length p"
  using encode_var_uint_total [of "int (length p)"] by (auto simp: encode_var_bytes_def)

lemma encode_awareness_entry_total:
  assumes "entry_wf J e"
  shows "\<exists>bs. encode_awareness_entry e = Inr bs \<and> int (length bs) \<le> MAX_MESSAGE_SIZE + 24"
proof -
  from assms obtain u where u: "utf8_encode (ae_encoded_state e) = Some u" "int (length u) \<le> MAX_MESSAGE_SIZE"
    by (auto simp: entry_wf_def split: option.splits)
  obtain a where a: "encode_var_uint (ae_client_id e) = Inr a" "length a \<le> 8"
    using assms encode_var_uint_total by (auto simp: entry_wf_def)
  obtain b where b: "encode_var_uint (ae_clock e) = Inr b" "length b \<le> 8"
    using assms encode_var_uint_total by (auto simp: entry_wf_def)
  obtain c where c: "encode_var_bytes u = Inr c" "length c \<le> 8 + length u"
    using encode_var_bytes_total [of u] u(2) by (auto simp: MAX_MESSAGE_SIZE_def MAX_SAFE_INTEGER_def)
  from a b c u show ?thesis by (simp add: encode_awareness_entry_def encode_var_string_def)
qed

lemma encode_all_total:
  assumes "\<forall>e\<in>set es. entry_wf J e"
  shows "\<exists>bs. encode_all encode_awareness_entry es = Inr bs \<and>
    int (length bs) \<le> int (length es) * (MAX_MESSAGE_SIZE + 24)"
  using assms
proof (induction es)
  case (Cons e es)
  obtain b where b: "encode_awareness_entry e = Inr b" "int (length b) \<le> MAX_MESSAGE_SIZE + 24"
    using Cons.prems encode_awareness_entry_total [of J e] by auto
  obtain bs where bs: "encode_all encode_awareness_entry es = Inr bs"
    "int (length bs) \<le> int (length es) * (MAX_MESSAGE_SIZE + 24)"
    using Cons by auto
  from b bs show ?case by (simp add: algebra_simps)
qed simp

lemma encode_awareness_message_total:
  assumes "\<forall>e\<in>set es. entry_wf J e" "length es \<le> 2 ^ 24"
  shows "\<exists>frame. encode_awareness_message es = Inr frame"
proof -
  obtain n where n: "encode_var_uint (int (length es)) = Inr n" "length n \<le> 8"
    using encode_var_uint_total [of "int (length es)"] assms(2) by (auto simp: MAX_SAFE_INTEGER_def)
  obtain b where b: "encode_all encode_awareness_entry es = Inr b"
    "int (length b) \<le> int (length es) * (MAX_MESSAGE_SIZE + 24)"
    using encode_all_total [OF assms(1)] by blast
  have "int (length (n @ b)) \<le> MAX_SAFE_INTEGER"
    using n(2) b(2) assms(2) by (simp add: MAX_MESSAGE_SIZE_def MAX_SAFE_INTEGER_def)
  then obtain p where "encode_var_bytes (n @ b) = Inr p" using encode_var_bytes_total by blast
  with n b show ?thesis by (simp add: encode_awareness_message_def message_types)
qed

text \<open>C23: The states of an awareness frame that parses are well formed and at most 10000, and
  whichever of them the server passes on can be encoded again and read as the same
  entries, as long as the frame keeps to the size limit.\<close>

theorem parsed_awareness_relays:
  assumes "parse_message J frame = Inr (AwarenessMessage es)" "set es' \<subseteq> set es" "length es' \<le> length es"
  shows "int (length es) \<le> MAX_AWARENESS_ENTRIES \<and>
    (\<exists>out. encode_awareness_message es' = Inr out \<and>
      (int (length out) \<le> MAX_MESSAGE_SIZE \<longrightarrow> parse_message J out = Inr (AwarenessMessage es')))"
proof -
  from parse_awareness_wf [OF assms(1)] have wf: "\<forall>e\<in>set es'. entry_wf J e"
    and len: "int (length es) \<le> MAX_AWARENESS_ENTRIES"
    using assms(2) by auto
  have "length es' \<le> 2 ^ 24" using len assms(3) by (simp add: MAX_AWARENESS_ENTRIES_def)
  then obtain out where out: "encode_awareness_message es' = Inr out"
    using encode_awareness_message_total [OF wf] by blast
  have con: "\<forall>e\<in>set es'. entry_consistent J e" using wf by (auto simp: entry_wf_def)
  have few: "int (length es') \<le> MAX_AWARENESS_ENTRIES" using len assms(3) by simp
  from out len encode_parse_awareness [OF out con few] show ?thesis by blast
qed

theorem parsed_awareness_relays_witness:
  "int (length [sample_entry]) \<le> MAX_AWARENESS_ENTRIES \<and>
    (\<exists>out. encode_awareness_message [sample_entry] = Inr out \<and>
      (int (length out) \<le> MAX_MESSAGE_SIZE \<longrightarrow>
        parse_message sample_env out = Inr (AwarenessMessage [sample_entry])))"
proof -
  have "parse_message sample_env [1, 6, 1, 42, 7, 2, 123, 125] = Inr (AwarenessMessage [sample_entry])"
    by (rule encode_parse_awareness [OF sample_frame])
      (simp_all add: sample_entry_consistent MAX_AWARENESS_ENTRIES_def MAX_MESSAGE_SIZE_def)
  then show ?thesis by (rule parsed_awareness_relays) simp_all
qed

end
