(* ===== verification/Awareness.thy ===== *)
theory Awareness
  imports Protocol Models
begin

text \<open>
  Presence and awareness (\<open>backend/app/collaboration/presence.py\<close>). \<open>AwarenessStore\<close> keeps,
  per session, the latest Yjs awareness state of every client id with the WebSocket that
  supplied it; \<open>PresenceManager\<close> keeps the users of a session with their cursors. Session
  ids are canonical UUIDs, a WebSocket is its identity (a number), times are reals (the
  rounding of Python's floats is not modelled), the current time is an argument, and the
  MD5 digest behind a user's colour is one too.

  Shown for the store: per client the clock never goes back and a state changes at an equal
  clock only to a removal (interpretation of \<open>monotone_machine\<close>); replaying what was
  accepted reproduces the state on a replica, and replaying it again is refused; a
  disconnect and a heartbeat timeout remove exactly the states they should.
\<close>

type_synonym ws = nat
type_synonym session_key = uuid

section \<open>Awareness states of one room\<close>

definition AWARENESS_TIMEOUT :: real where
  "AWARENESS_TIMEOUT = 30"

record StoredAwareness =
  sa_entry :: AwarenessEntry
  sa_owner :: "ws option"
  sa_last_seen :: real

type_synonym room_states = "(int, StoredAwareness) dict"

definition is_active :: "StoredAwareness \<Rightarrow> bool" where
  "is_active stored \<longleftrightarrow> ae_state (sa_entry stored) \<noteq> JNull"

text \<open>The clock rule of one entry against what is stored for its client.\<close>

definition should_apply :: "StoredAwareness option \<Rightarrow> AwarenessEntry \<Rightarrow> bool" where
  "should_apply current entry =
     (let current_clock = (case current of Some s \<Rightarrow> ae_clock (sa_entry s) | None \<Rightarrow> 0);
          current_is_active = (case current of Some s \<Rightarrow> is_active s | None \<Rightarrow> False);
          is_removal = (ae_state entry = JNull)
      in current_clock < ae_clock entry \<or>
         (current_clock = ae_clock entry \<and> is_removal \<and> current_is_active))"

definition new_stored :: "ws \<Rightarrow> real \<Rightarrow> AwarenessEntry \<Rightarrow> StoredAwareness" where
  "new_stored own timestamp entry =
     \<lparr>sa_entry = entry, sa_owner = (if ae_state entry = JNull then None else Some own),
      sa_last_seen = timestamp\<rparr>"

fun apply_entries :: "ws \<Rightarrow> real \<Rightarrow> room_states \<Rightarrow> AwarenessEntry list \<Rightarrow> room_states \<times> AwarenessEntry list" where
  "apply_entries own timestamp states [] = (states, [])"
| "apply_entries own timestamp states (entry # entries) =
     (if \<not> should_apply (dget states (ae_client_id entry)) entry
      then apply_entries own timestamp states entries
      else
        let states = dset (ae_client_id entry) (new_stored own timestamp entry) states;
            (states, accepted) = apply_entries own timestamp states entries
        in (states, entry # accepted))"

definition removal_of :: "int \<Rightarrow> StoredAwareness \<Rightarrow> AwarenessEntry" where
  "removal_of client_id stored =
     \<lparr>ae_client_id = client_id, ae_clock = ae_clock (sa_entry stored), ae_state = JNull,
      ae_encoded_state = py ''null''\<rparr>"

text \<open>Both removing loops walk the dict and overwrite the stored objects a test selects.\<close>

definition remove_where ::
    "(StoredAwareness \<Rightarrow> bool) \<Rightarrow> real \<Rightarrow> room_states \<Rightarrow> room_states \<times> AwarenessEntry list" where
  "remove_where sel timestamp states =
     (dmap (\<lambda>cid stored.
        if sel stored
        then stored\<lparr>sa_entry := removal_of cid stored, sa_owner := None, sa_last_seen := timestamp\<rparr>
        else stored) states,
      map (\<lambda>(cid, stored). removal_of cid stored) (filter (\<lambda>(cid, stored). sel stored) states))"

section \<open>The store\<close>

record awareness_store =
  aw_sessions :: "(session_key, room_states) dict"
  aw_stale_timeout :: real

definition new_awareness_store :: "real \<Rightarrow> awareness_store" where
  "new_awareness_store stale_timeout = \<lparr>aw_sessions = [], aw_stale_timeout = stale_timeout\<rparr>"

definition room_of :: "awareness_store \<Rightarrow> session_key \<Rightarrow> room_states" where
  "room_of store session_id = (case dget (aw_sessions store) session_id of None \<Rightarrow> [] | Some states \<Rightarrow> states)"

definition aw_apply_update ::
    "awareness_store \<Rightarrow> session_key \<Rightarrow> ws \<Rightarrow> AwarenessEntry list \<Rightarrow> real \<Rightarrow>
     awareness_store \<times> AwarenessEntry list" where
  "aw_apply_update store session_id own entries now =
     (let (states, accepted) = apply_entries own now (room_of store session_id) entries
      in (store\<lparr>aw_sessions := dset session_id states (aw_sessions store)\<rparr>, accepted))"

definition active_entries :: "awareness_store \<Rightarrow> session_key \<Rightarrow> AwarenessEntry list" where
  "active_entries store session_id =
     map (\<lambda>(_, stored). sa_entry stored)
       (filter (\<lambda>(_, stored). is_active stored) (sort_key fst (room_of store session_id)))"

text \<open>A loop over an absent room's \<open>{}\<close> changes nothing and leaves the room absent.\<close>

definition with_room ::
    "(room_states \<Rightarrow> room_states \<times> AwarenessEntry list) \<Rightarrow> awareness_store \<Rightarrow> session_key \<Rightarrow>
     awareness_store \<times> AwarenessEntry list" where
  "with_room f store session_id =
     (case dget (aw_sessions store) session_id of
        None \<Rightarrow> (store, [])
      | Some states \<Rightarrow>
          (case f states of (states, removed) \<Rightarrow>
             (store\<lparr>aw_sessions := dset session_id states (aw_sessions store)\<rparr>, removed)))"

definition aw_remove_owner ::
    "awareness_store \<Rightarrow> session_key \<Rightarrow> ws \<Rightarrow> real \<Rightarrow> awareness_store \<times> AwarenessEntry list" where
  "aw_remove_owner store session_id own now =
     with_room (remove_where (\<lambda>stored. sa_owner stored = Some own \<and> is_active stored) now) store session_id"

definition aw_prune_stale ::
    "awareness_store \<Rightarrow> session_key \<Rightarrow> real \<Rightarrow> awareness_store \<times> AwarenessEntry list" where
  "aw_prune_stale store session_id now =
     with_room (remove_where (\<lambda>stored. is_active stored \<and> \<not> now - sa_last_seen stored \<le> aw_stale_timeout store) now)
       store session_id"

definition aw_discard_session :: "awareness_store \<Rightarrow> session_key \<Rightarrow> awareness_store" where
  "aw_discard_session store session_id = store\<lparr>aw_sessions := dpop session_id (aw_sessions store)\<rparr>"

section \<open>Presence\<close>

definition CURSOR_COLORS :: "string list" where
  "CURSOR_COLORS = [''#3b82f6'', ''#ef4444'', ''#10b981'', ''#f59e0b'', ''#8b5cf6'',
     ''#ec4899'', ''#06b6d4'', ''#f97316'', ''#14b8a6'', ''#6366f1'']"

text \<open>\<open>md5\<close> is the digest of the UTF-8 encoded id, read as a number.\<close>

definition color_for_user :: "(pystr \<Rightarrow> nat) \<Rightarrow> pystr \<Rightarrow> string" where
  "color_for_user md5 user_id = CURSOR_COLORS ! (md5 user_id mod length CURSOR_COLORS)"

record UserPresence =
  up_user_id :: pystr
  up_username :: pystr
  up_color :: string
  up_cursor :: "json option"
  up_selection :: "json option"
  up_last_seen :: real

record presence_state =
  ps_user_id :: pystr
  ps_username :: pystr
  ps_color :: string
  ps_cursor :: "json option"
  ps_selection :: "json option"

definition serialize_presence :: "UserPresence \<Rightarrow> presence_state" where
  "serialize_presence p = \<lparr>ps_user_id = up_user_id p, ps_username = up_username p, ps_color = up_color p,
     ps_cursor = up_cursor p, ps_selection = up_selection p\<rparr>"

type_synonym presence_manager = "(pystr, (pystr, UserPresence) dict) dict"

definition presence_join ::
    "(pystr \<Rightarrow> nat) \<Rightarrow> presence_manager \<Rightarrow> pystr \<Rightarrow> pystr \<Rightarrow> pystr \<Rightarrow> real \<Rightarrow> presence_manager \<times> presence_state" where
  "presence_join md5 pm session_id user_id username now =
     (let pm = (if dget pm session_id = None then dset session_id [] pm else pm);
          presence = \<lparr>up_user_id = user_id, up_username = username, up_color = color_for_user md5 user_id,
            up_cursor = None, up_selection = None, up_last_seen = now\<rparr>;
          users = (case dget pm session_id of None \<Rightarrow> [] | Some users \<Rightarrow> users)
      in (dset session_id (dset user_id presence users) pm, serialize_presence presence))"

definition presence_leave :: "presence_manager \<Rightarrow> pystr \<Rightarrow> pystr \<Rightarrow> presence_manager" where
  "presence_leave pm session_id user_id =
     (case dget pm session_id of
        None \<Rightarrow> pm
      | Some users \<Rightarrow>
          let users = dpop user_id users
          in if users = [] then dpop session_id pm else dset session_id users pm)"

definition presence_update_cursor ::
    "presence_manager \<Rightarrow> pystr \<Rightarrow> pystr \<Rightarrow> json option \<Rightarrow> json option \<Rightarrow> real \<Rightarrow> presence_manager" where
  "presence_update_cursor pm session_id user_id cursor selection now =
     (case dget pm session_id of
        None \<Rightarrow> pm
      | Some users \<Rightarrow>
          (case dget users user_id of
             None \<Rightarrow> pm
           | Some p \<Rightarrow>
               let p = (case cursor of None \<Rightarrow> p | Some c \<Rightarrow> p\<lparr>up_cursor := Some c\<rparr>);
                   p = (case selection of None \<Rightarrow> p | Some s \<Rightarrow> p\<lparr>up_selection := Some s\<rparr>);
                   p = p\<lparr>up_last_seen := now\<rparr>
               in dset session_id (dset user_id p users) pm))"

definition presence_get_all ::
    "presence_manager \<Rightarrow> pystr \<Rightarrow> real \<Rightarrow> presence_manager \<times> presence_state list" where
  "presence_get_all pm session_id now =
     (case dget pm session_id of
        None \<Rightarrow> (pm, [])
      | Some users \<Rightarrow>
          let is_stale = (\<lambda>p. now - up_last_seen p > AWARENESS_TIMEOUT)
          in (dset session_id (filter (\<lambda>(_, p). \<not> is_stale p) users) pm,
              map (\<lambda>(_, p). serialize_presence p) (filter (\<lambda>(_, p). \<not> is_stale p) users)))"

definition presence_member_count :: "presence_manager \<Rightarrow> pystr \<Rightarrow> nat" where
  "presence_member_count pm session_id =
     (case dget pm session_id of None \<Rightarrow> 0 | Some users \<Rightarrow> length users)"

section \<open>Clocks\<close>

definition room_ok :: "room_states \<Rightarrow> bool" where
  "room_ok states \<longleftrightarrow> dict_ok states \<and>
     (\<forall>cid s. dget states cid = Some s \<longrightarrow>
        ae_client_id (sa_entry s) = cid \<and> 0 < ae_clock (sa_entry s) \<and> (sa_owner s = None \<longleftrightarrow> \<not> is_active s))"

text \<open>How the stored state of one client may move: a later clock, or at the same clock from
  active to removed.\<close>

definition stored_below :: "StoredAwareness \<Rightarrow> StoredAwareness \<Rightarrow> bool" where
  "stored_below s s' \<longleftrightarrow>
     ae_clock (sa_entry s) < ae_clock (sa_entry s') \<or>
     (ae_clock (sa_entry s) = ae_clock (sa_entry s') \<and>
        (sa_entry s' = sa_entry s \<or> (is_active s \<and> \<not> is_active s')))"

definition room_below :: "room_states \<Rightarrow> room_states \<Rightarrow> bool" where
  "room_below st st' \<longleftrightarrow>
     (\<forall>cid s. dget st cid = Some s \<longrightarrow> (\<exists>s'. dget st' cid = Some s' \<and> stored_below s s'))"

lemma should_apply_simps [simp]:
  "should_apply None e \<longleftrightarrow> 0 < ae_clock e"
  "should_apply (Some s) e \<longleftrightarrow> ae_clock (sa_entry s) < ae_clock e \<or>
     (ae_clock (sa_entry s) = ae_clock e \<and> ae_state e = JNull \<and> is_active s)"
  by (auto simp: should_apply_def Let_def)

lemma is_active_entry: "sa_entry s' = sa_entry s \<Longrightarrow> is_active s' = is_active s"
  by (simp add: is_active_def)

lemma stored_below_clock: "stored_below s s' \<Longrightarrow> ae_clock (sa_entry s) \<le> ae_clock (sa_entry s')"
  by (auto simp: stored_below_def)

lemma new_stored_simps [simp]:
  "sa_entry (new_stored own t e) = e" "is_active (new_stored own t e) \<longleftrightarrow> ae_state e \<noteq> JNull"
  "sa_owner (new_stored own t e) = None \<longleftrightarrow> ae_state e = JNull" "sa_last_seen (new_stored own t e) = t"
  by (simp_all add: new_stored_def is_active_def)

lemma apply_entries_Cons [simp]:
  "\<not> should_apply (dget st (ae_client_id e)) e \<Longrightarrow> apply_entries own t st (e # es) = apply_entries own t st es"
  "should_apply (dget st (ae_client_id e)) e \<Longrightarrow> apply_entries own t st (e # es) =
     (fst (apply_entries own t (dset (ae_client_id e) (new_stored own t e) st) es),
      e # snd (apply_entries own t (dset (ae_client_id e) (new_stored own t e) st) es))"
  by (simp_all add: Let_def split: prod.splits)

declare apply_entries.simps(2) [simp del]

lemma stored_below_refl [simp]: "stored_below s s"
  by (simp add: stored_below_def)

lemma stored_below_trans: "stored_below s s' \<Longrightarrow> stored_below s' s'' \<Longrightarrow> stored_below s s''"
  unfolding stored_below_def by (metis is_active_entry order_less_trans)

lemma room_below_refl [simp]: "room_below st st"
  by (simp add: room_below_def)

lemma room_below_trans: "room_below st st' \<Longrightarrow> room_below st' st'' \<Longrightarrow> room_below st st''"
  unfolding room_below_def by (meson stored_below_trans)

lemma should_apply_below: "should_apply (Some s) e \<Longrightarrow> sa_entry s' = e \<Longrightarrow> stored_below s s'"
  by (auto simp: stored_below_def is_active_def)

lemma set_entry_below:
  "should_apply (dget st cid) e \<Longrightarrow> sa_entry s' = e \<Longrightarrow> room_below st (dset cid s' st)"
  by (auto simp: room_below_def should_apply_below)

lemma set_entry_ok:
  assumes "room_ok st" "should_apply (dget st (ae_client_id e)) e"
  shows "room_ok (dset (ae_client_id e) (new_stored own t e) st)"
proof -
  have "0 < ae_clock e"
    using assms by (cases "dget st (ae_client_id e)") (force simp: room_ok_def)+
  with assms(1) show ?thesis by (simp add: room_ok_def)
qed

lemma apply_entries_ok_below:
  "room_ok st \<Longrightarrow> room_ok (fst (apply_entries own t st es)) \<and> room_below st (fst (apply_entries own t st es))"
proof (induction es arbitrary: st)
  case (Cons e es)
  show ?case
  proof (cases "should_apply (dget st (ae_client_id e)) e")
    case True
    let ?st = "dset (ae_client_id e) (new_stored own t e) st"
    have "room_below st ?st" by (rule set_entry_below [OF True]) simp
    moreover note Cons.IH [OF set_entry_ok [OF Cons.prems True, of own t]]
    ultimately show ?thesis using True
      by (auto intro: room_below_trans)
  next
    case False
    with Cons show ?thesis by simp
  qed
qed simp

lemma remove_where_ok_below:
  assumes "room_ok st" "\<And>s. sel s \<Longrightarrow> is_active s"
  shows "room_ok (fst (remove_where sel t st)) \<and> room_below st (fst (remove_where sel t st))"
  using assms by (auto simp: room_ok_def room_below_def remove_where_def removal_of_def is_active_def
      stored_below_def split: if_splits)

section \<open>Rooms as a machine\<close>

datatype room_op =
    Room_apply ws real "AwarenessEntry list"
  | Room_remove ws real
  | Room_prune real real

fun room_step :: "room_states \<Rightarrow> room_op \<Rightarrow> room_states" where
  "room_step st (Room_apply own now es) = fst (apply_entries own now st es)"
| "room_step st (Room_remove own now) =
     fst (remove_where (\<lambda>s. sa_owner s = Some own \<and> is_active s) now st)"
| "room_step st (Room_prune timeout now) =
     fst (remove_where (\<lambda>s. is_active s \<and> \<not> now - sa_last_seen s \<le> timeout) now st)"

lemma room_step_ok_below: "room_ok st \<Longrightarrow> room_ok (room_step st op) \<and> room_below st (room_step st op)"
  by (cases op) (simp_all add: apply_entries_ok_below, (rule remove_where_ok_below; simp)+)

interpretation room: monotone_machine room_step room_ok room_below
  using room_step_ok_below by unfold_locales (auto intro: room_below_trans)

section \<open>Replay\<close>

lemma not_should_apply_mono:
  assumes "room_ok st'" "room_below st st'" "\<not> should_apply (dget st cid) e"
  shows "\<not> should_apply (dget st' cid) e"
proof (cases "dget st cid")
  case None
  with assms(1,3) show ?thesis
    by (cases "dget st' cid") (force simp: room_ok_def)+
next
  case (Some s)
  with assms(2) obtain s' where s': "dget st' cid = Some s'" "stored_below s s'"
    by (auto simp: room_below_def)
  then consider "ae_clock (sa_entry s) < ae_clock (sa_entry s')"
    | "sa_entry s' = sa_entry s"
    | "ae_clock (sa_entry s) = ae_clock (sa_entry s')" "\<not> is_active s'"
    unfolding stored_below_def by blast
  then show ?thesis using Some assms(3) s'(1) is_active_entry [of s' s] by cases auto
qed

lemma applied_then_refused: "sa_entry s = e \<Longrightarrow> \<not> should_apply (Some s) e"
  by (auto simp: is_active_def)

lemma apply_entries_refused:
  "\<forall>e\<in>set es. \<not> should_apply (dget st (ae_client_id e)) e \<Longrightarrow> apply_entries own t st es = (st, [])"
  by (induction es) auto

lemma after_apply_refused:
  assumes "room_ok st"
  shows "\<forall>e\<in>set es. \<not> should_apply (dget (fst (apply_entries own t st es)) (ae_client_id e)) e"
  using assms
proof (induction es arbitrary: st)
  case (Cons e es)
  show ?case
  proof (cases "should_apply (dget st (ae_client_id e)) e")
    case True
    let ?st = "dset (ae_client_id e) (new_stored own t e) st"
    note ok = set_entry_ok [OF Cons.prems True, of own t]
    have "\<not> should_apply (dget ?st (ae_client_id e)) e" by (simp add: applied_then_refused)
    with apply_entries_ok_below [OF ok, of own t es] have
      "\<not> should_apply (dget (fst (apply_entries own t ?st es)) (ae_client_id e)) e"
      using not_should_apply_mono by blast
    with Cons.IH [OF ok] True show ?thesis by simp
  next
    case False
    with not_should_apply_mono apply_entries_ok_below [OF Cons.prems, of own t es] Cons
    show ?thesis by fastforce
  qed
qed simp


text \<open>What a room looks like to a peer: the entries without owner and time.\<close>

definition entries_of :: "room_states \<Rightarrow> int \<Rightarrow> AwarenessEntry option" where
  "entries_of st cid = map_option sa_entry (dget st cid)"

lemma should_apply_entries:
  "entries_of st cid = entries_of st2 cid \<Longrightarrow> should_apply (dget st cid) e = should_apply (dget st2 cid) e"
  by (cases "dget st cid"; cases "dget st2 cid")
    (auto simp: entries_of_def is_active_def)

text \<open>A replica with the same entries accepts the same updates and stays the same.\<close>

lemma apply_entries_replica:
  "entries_of st = entries_of st2 \<Longrightarrow>
     entries_of (fst (apply_entries own t st es)) = entries_of (fst (apply_entries own2 t2 st2 es)) \<and>
     snd (apply_entries own t st es) = snd (apply_entries own2 t2 st2 es)"
proof (induction es arbitrary: st st2)
  case (Cons e es)
  have same: "should_apply (dget st (ae_client_id e)) e = should_apply (dget st2 (ae_client_id e)) e"
    using should_apply_entries Cons.prems by metis
  have "entries_of (dset (ae_client_id e) (new_stored own t e) st)
      = entries_of (dset (ae_client_id e) (new_stored own2 t2 e) st2)"
    using Cons.prems by (auto simp: fun_eq_iff entries_of_def)
  from Cons.IH [OF this] Cons.IH [OF Cons.prems] same show ?case
    by (cases "should_apply (dget st (ae_client_id e)) e") simp_all
qed simp

text \<open>Refused entries do not matter: applying only the accepted ones has the same effect.\<close>

lemma apply_entries_accepted:
  "apply_entries own t st (snd (apply_entries own t st es)) = apply_entries own t st es"
proof (induction es arbitrary: st)
  case (Cons e es)
  then show ?case by (cases "should_apply (dget st (ae_client_id e)) e") simp_all
qed simp

lemma aw_apply_room:
  "aw_apply_update store sid own es now = (store', acc) \<longleftrightarrow>
     store' = store\<lparr>aw_sessions := dset sid (fst (apply_entries own now (room_of store sid) es)) (aw_sessions store)\<rparr> \<and>
     acc = snd (apply_entries own now (room_of store sid) es)"
  by (auto simp: aw_apply_update_def Let_def split: prod.splits)

lemma room_of_dset [simp]:
  "room_of (store\<lparr>aw_sessions := dset sid st (aw_sessions store)\<rparr>) sid' = (if sid' = sid then st else room_of store sid')"
  by (simp add: room_of_def)

definition store_ok :: "awareness_store \<Rightarrow> bool" where
  "store_ok store \<longleftrightarrow> (\<forall>sid st. dget (aw_sessions store) sid = Some st \<longrightarrow> room_ok st)"

lemma store_ok_room: "store_ok store \<Longrightarrow> room_ok (room_of store sid)"
  by (auto simp: store_ok_def room_of_def room_ok_def split: option.splits)

section \<open>Properties\<close>

text \<open>C24: Through any sequence of updates, disconnects and heartbeat checks in a room, a client's
  awareness clock never goes back, and at an equal clock its entry can only change from an
  active state to a removal.\<close>

theorem awareness_clock_never_goes_back:
  assumes "room_ok st" "dget st cid = Some s"
  shows "\<exists>s'. dget (run room_step st ops) cid = Some s' \<and>
    (ae_clock (sa_entry s) < ae_clock (sa_entry s') \<or>
     (ae_clock (sa_entry s') = ae_clock (sa_entry s) \<and>
        (sa_entry s' = sa_entry s \<or> (ae_state (sa_entry s) \<noteq> JNull \<and> ae_state (sa_entry s') = JNull))))"
  using room.run_below [OF assms(1), of ops] assms(2)
  by (fastforce simp: room_below_def stored_below_def is_active_def)

definition sample_room :: room_states where
  "sample_room = [(42, \<lparr>sa_entry = sample_entry, sa_owner = Some 1, sa_last_seen = 0\<rparr>)]"

lemma sample_room_ok: "room_ok sample_room"
  by (simp add: room_ok_def sample_room_def sample_entry_def dict_ok_def is_active_def)

theorem awareness_clock_never_goes_back_witness:
  "\<exists>s'. dget (run room_step sample_room [Room_remove 1 5, Room_apply 2 6 [sample_entry]]) 42 = Some s' \<and>
     7 \<le> ae_clock (sa_entry s')"
proof -
  have "dget sample_room 42 = Some \<lparr>sa_entry = sample_entry, sa_owner = Some 1, sa_last_seen = 0\<rparr>"
    by (simp add: sample_room_def)
  from awareness_clock_never_goes_back [OF sample_room_ok this, of "[Room_remove 1 5, Room_apply 2 6 [sample_entry]]"]
  show ?thesis by (auto simp: sample_entry_def simp del: run.simps)
qed

text \<open>C30: The entries the store returns for broadcast carry the whole effect of an update: a replica
  that had the same entries accepts all of them and ends with the same entries; and the same
  update again is refused entirely, so an echoed frame is not echoed for ever.\<close>

theorem awareness_broadcast_replicates:
  assumes "store_ok store" "aw_apply_update store sid own es now = (store', accepted)"
    and "entries_of (room_of replica sid) = entries_of (room_of store sid)"
    and "aw_apply_update replica sid own2 accepted now2 = (replica', accepted2)"
  shows "entries_of (room_of replica' sid) = entries_of (room_of store' sid) \<and> accepted2 = accepted \<and>
    snd (aw_apply_update store' sid own3 es now3) = []"
proof -
  note store' = assms(2) [unfolded aw_apply_room] and replica' = assms(4) [unfolded aw_apply_room]
  have "apply_entries own now (room_of store sid) accepted = apply_entries own now (room_of store sid) es"
    using apply_entries_accepted store' by simp
  with apply_entries_replica [OF assms(3), of own2 now2 accepted own now] store' replica'
  have "entries_of (room_of replica' sid) = entries_of (room_of store' sid)" "accepted2 = accepted" by simp_all
  moreover have "snd (aw_apply_update store' sid own3 es now3) = []"
    using after_apply_refused [where own=own and t=now and es=es, OF store_ok_room [OF assms(1), of sid]] store'
    by (simp add: aw_apply_update_def apply_entries_refused split: prod.splits)
  ultimately show ?thesis by blast
qed

theorem awareness_broadcast_replicates_witness:
  "\<exists>store' accepted. aw_apply_update (new_awareness_store 30) 9 1 [sample_entry] 0 = (store', accepted) \<and>
     accepted = [sample_entry] \<and> snd (aw_apply_update store' 9 2 [sample_entry] 1) = []"
proof -
  have ok: "store_ok (new_awareness_store 30)" by (simp add: store_ok_def new_awareness_store_def)
  obtain store' accepted where
    a: "aw_apply_update (new_awareness_store 30) 9 1 [sample_entry] 0 = (store', accepted)" by fastforce
  obtain r acc2 where "aw_apply_update (new_awareness_store 30) 9 1 accepted 0 = (r, acc2)" by fastforce
  from awareness_broadcast_replicates [OF ok a refl this, of 2 1] a show ?thesis
    by (auto simp: aw_apply_room room_of_def new_awareness_store_def sample_entry_def Let_def)
qed

section \<open>Removal and listing\<close>

lemma snd_with_room:
  "snd (with_room f store sid) = (case dget (aw_sessions store) sid of None \<Rightarrow> [] | Some st \<Rightarrow> snd (f st))"
  by (auto simp: with_room_def split: option.splits prod.splits)

lemma room_of_with_room:
  assumes "fst (f []) = []"
  shows "room_of (fst (with_room f store sid)) sid' = (if sid' = sid then fst (f (room_of store sid)) else room_of store sid')"
proof (cases "dget (aw_sessions store) sid")
  case None
  with assms show ?thesis by (simp add: with_room_def room_of_def)
next
  case (Some st)
  moreover obtain st' r where "f st = (st', r)" by fastforce
  ultimately show ?thesis by (simp add: with_room_def) (simp add: room_of_def)
qed

lemma aw_timeout_with_room [simp, frame_simps]:
  "aw_stale_timeout (fst (with_room f store sid)) = aw_stale_timeout store"
  by (auto simp: with_room_def split: option.splits prod.splits)

lemma remove_where_dget:
  "dget (fst (remove_where sel t st)) cid =
     (case dget st cid of
        None \<Rightarrow> None
      | Some s \<Rightarrow> Some (if sel s
          then s\<lparr>sa_entry := removal_of cid s, sa_owner := None, sa_last_seen := t\<rparr> else s))"
  by (auto simp: remove_where_def split: option.splits)

lemma room_ok_dict: "room_ok st \<Longrightarrow> dict_ok st"
  by (simp add: room_ok_def)

lemma remove_where_Nil [simp]: "remove_where sel t [] = ([], [])"
  by (simp add: remove_where_def dmap_def)

lemma remove_where_entries:
  assumes "dict_ok st"
  shows "e \<in> set (snd (remove_where sel t st)) \<longleftrightarrow>
    (\<exists>cid s. dget st cid = Some s \<and> sel s \<and> e = removal_of cid s)"
  using assms by (force simp: remove_where_def dict_ok_def)

lemma dict_ok_filter: "dict_ok d \<Longrightarrow> dict_ok (filter P d)"
  by (simp add: dict_ok_def distinct_map inj_on_def)

text \<open>\<open>removed_exactly sel store store' removed sid now\<close>: the states of room \<open>sid\<close> that
  \<open>sel\<close> selects, and no others, were turned into removals at their clock; they are what is
  returned; nothing else changed.\<close>

definition removed_exactly ::
    "(StoredAwareness \<Rightarrow> bool) \<Rightarrow> real \<Rightarrow> session_key \<Rightarrow> awareness_store \<Rightarrow> awareness_store \<Rightarrow> AwarenessEntry list \<Rightarrow> bool" where
  "removed_exactly sel now sid store store' removed \<longleftrightarrow>
     (\<forall>sid'. sid' \<noteq> sid \<longrightarrow> room_of store' sid' = room_of store sid') \<and>
     (\<forall>cid. dget (room_of store' sid) cid =
        (case dget (room_of store sid) cid of
           None \<Rightarrow> None
         | Some s \<Rightarrow> Some (if sel s
             then s\<lparr>sa_entry := removal_of cid s, sa_owner := None, sa_last_seen := now\<rparr> else s))) \<and>
     (\<forall>e. e \<in> set removed \<longleftrightarrow>
        (\<exists>cid s. dget (room_of store sid) cid = Some s \<and> sel s \<and> e = removal_of cid s)) \<and>
     distinct (map ae_client_id removed)"

lemma with_room_removed_exactly:
  assumes "store_ok store" "with_room (remove_where sel now) store sid = (store', removed)"
  shows "removed_exactly sel now sid store store' removed"
proof -
  let ?st = "room_of store sid"
  have store': "store' = fst (with_room (remove_where sel now) store sid)"
    and removed: "removed = snd (remove_where sel now ?st)"
    using assms(2) snd_with_room [of "remove_where sel now" store sid]
    by (auto simp: room_of_def split: option.splits)
  have ok: "dict_ok ?st" using store_ok_room [OF assms(1)] by (simp add: room_ok_def)
  have "map ae_client_id removed = map fst (filter (\<lambda>(cid, s). sel s) ?st)"
    by (simp add: removed remove_where_def removal_of_def comp_def case_prod_beta)
  moreover have "distinct (map fst (filter (\<lambda>(cid, s). sel s) ?st))"
    using dict_ok_filter [OF ok] by (simp add: dict_ok_def)
  ultimately show ?thesis
    using remove_where_entries [OF ok, of _ sel now]
    by (simp add: removed_exactly_def store' removed room_of_with_room remove_where_dget)
qed


lemma remove_where_idle:
  assumes "dict_ok st" "\<And>cid s. dget st cid = Some s \<Longrightarrow> \<not> sel s"
  shows "snd (remove_where sel t st) = []"
  using assms remove_where_entries [OF assms(1), of _ sel t] by (metis last_in_set)

text \<open>When a WebSocket disconnects, exactly the active states it owns become removals at
  their present clock, those removals are returned for broadcast (each client once), and the
  states of other sockets and of other rooms stay as they were.\<close>

lemma disconnect_removes_own_states:
  assumes "store_ok store" "aw_remove_owner store sid own now = (store', removed)"
  shows "removed_exactly (\<lambda>s. sa_owner s = Some own \<and> is_active s) now sid store store' removed"
  using assms(2) unfolding aw_remove_owner_def by (rule with_room_removed_exactly [OF assms(1)])

definition sample_store :: awareness_store where
  "sample_store = \<lparr>aw_sessions = [(9, sample_room)], aw_stale_timeout = 30\<rparr>"

lemma sample_store_ok: "store_ok sample_store"
  using sample_room_ok by (simp add: store_ok_def sample_store_def)

lemma room_of_sample: "room_of sample_store 9 = sample_room"
  by (simp add: room_of_def sample_store_def)

lemma disconnect_removes_own_states_witness:
  "removal_of 42 (the (dget sample_room 42)) \<in> set (snd (aw_remove_owner sample_store 9 1 5))"
proof -
  obtain store' removed where r: "aw_remove_owner sample_store 9 1 5 = (store', removed)" by fastforce
  show ?thesis using disconnect_removes_own_states [OF sample_store_ok r]
    unfolding r removed_exactly_def room_of_sample
    by (auto simp: sample_room_def sample_entry_def is_active_def)
qed

text \<open>A heartbeat check removes exactly the active states not refreshed within the store's
  timeout and returns their removals; repeating it at the same time removes nothing more.\<close>

lemma prune_removes_stale_states:
  assumes "store_ok store" "aw_prune_stale store sid now = (store', removed)"
  shows "removed_exactly (\<lambda>s. is_active s \<and> now - sa_last_seen s > aw_stale_timeout store) now sid store store' removed \<and>
    snd (aw_prune_stale store' sid now) = []"
proof -
  let ?sel = "\<lambda>s. is_active s \<and> \<not> now - sa_last_seen s \<le> aw_stale_timeout store"
  have *: "with_room (remove_where ?sel now) store sid = (store', removed)"
    using assms(2) by (simp add: aw_prune_stale_def)
  have ex: "removed_exactly (\<lambda>s. is_active s \<and> now - sa_last_seen s > aw_stale_timeout store) now sid store store' removed"
    using with_room_removed_exactly [OF assms(1) *] by (simp add: not_le)
  have timeout: "aw_stale_timeout store' = aw_stale_timeout store"
    using aw_timeout_with_room [of "remove_where ?sel now" store sid] * by simp
  have room: "room_of store' sid = fst (remove_where ?sel now (room_of store sid))"
    using room_of_with_room [of "remove_where ?sel now" store sid sid] * by simp
  then have "room_ok (room_of store' sid)"
    using remove_where_ok_below [OF store_ok_room [OF assms(1)], of ?sel] by simp
  then have "snd (remove_where ?sel now (room_of store' sid)) = []"
    by (rule remove_where_idle [OF room_ok_dict])
      (auto simp: room remove_where_dget removal_of_def is_active_def split: option.splits if_splits)
  then have "snd (aw_prune_stale store' sid now) = []"
    by (simp add: aw_prune_stale_def snd_with_room timeout room_of_def split: option.splits)
  with ex show ?thesis by blast
qed

lemma prune_removes_stale_states_witness:
  "snd (aw_prune_stale sample_store 9 20) = [] \<and>
   removal_of 42 (the (dget sample_room 42)) \<in> set (snd (aw_prune_stale sample_store 9 31))"
proof -
  obtain store' removed where r: "aw_prune_stale sample_store 9 31 = (store', removed)" by fastforce
  have "removal_of 42 (the (dget sample_room 42)) \<in> set (snd (aw_prune_stale sample_store 9 31))"
    using prune_removes_stale_states [OF sample_store_ok r]
    unfolding r removed_exactly_def room_of_sample
    by (auto simp: sample_room_def sample_entry_def sample_store_def is_active_def)
  moreover have "snd (aw_prune_stale sample_store 9 20) = []"
    by (simp add: aw_prune_stale_def with_room_def sample_store_def remove_where_def sample_room_def)
  ultimately show ?thesis by blast
qed

text \<open>The awareness snapshot sent to a joining client lists exactly the active states of its
  room, in strictly ascending order of client id, so every client occurs once and the wire
  encoding of the snapshot does not depend on the order of arrival.\<close>

lemma active_entries_canonical:
  assumes "store_ok store"
  shows "set (active_entries store sid) =
      {sa_entry s | cid s. dget (room_of store sid) cid = Some s \<and> ae_state (sa_entry s) \<noteq> JNull} \<and>
    sorted_wrt (<) (map ae_client_id (active_entries store sid))"
proof -
  let ?st = "room_of store sid"
  have ok: "room_ok ?st" by (rule store_ok_room [OF assms])
  have mem: "(cid, s) \<in> set ?st \<longleftrightarrow> dget ?st cid = Some s" for cid s
    using ok by (simp add: room_ok_def dict_ok_def)
  have keys: "map ae_client_id (active_entries store sid)
      = map fst (filter (\<lambda>(_, s). is_active s) (sort_key fst ?st))"
    using ok mem by (auto simp: active_entries_def room_ok_def)
  have "distinct (map fst (sort_key fst ?st))"
    using ok by (simp add: room_ok_def dict_ok_def distinct_map)
  then have "sorted_wrt (<) (map fst (sort_key fst ?st))"
    by (simp add: strict_sorted_iff)
  then have "sorted_wrt (<) (map ae_client_id (active_entries store sid))"
    unfolding keys by (simp add: sorted_wrt_map sorted_wrt_filter)
  moreover have "set (active_entries store sid) =
      {sa_entry s | cid s. dget ?st cid = Some s \<and> ae_state (sa_entry s) \<noteq> JNull}"
    using mem by (force simp: active_entries_def is_active_def)
  ultimately show ?thesis by blast
qed

lemma active_entries_canonical_witness:
  "set (active_entries sample_store 9) = {sample_entry}"
  using active_entries_canonical [OF sample_store_ok, of 9]
  by (auto simp: room_of_sample sample_room_def sample_entry_def split: if_splits)

end
