(* ===== verification/Document.thy ===== *)
theory Document
  imports Prelude Models "HOL-Library.Countable"
begin

text \<open>
  Live documents and their durability (\<open>backend/app/collaboration/document.py\<close>).

  The CRDT library (\<open>pycrdt\<close>) and SHA-256 are not part of the repository: a record
  \<open>crdt\<close> of their operations is an argument of every definition that uses them, and
  \<open>crdt_laws\<close> and \<open>crdt_text_laws\<close> name the documented behaviour the code relies on (updates
  are idempotent and commutative, a full update carries the whole document, documents with
  the same content show the same text). A failing \<open>apply_update\<close> leaves the document alone.

  \<open>DocumentManager\<close> is asynchronous. A coroutine runs without interruption up to its next
  \<open>await\<close>, so an operation is a start and one continuation per \<open>await\<close>; between them any other
  operation may run. \<open>task\<close> is the frame of the operation that holds a session's guard lock,
  with the values it captured; \<open>dm_waiting\<close> are the operations queued for the lock (an
  \<open>asyncio.Lock\<close> is first come, first served). Redis and PostgreSQL are part of the state, and
  every answer they can give, an error included, is an argument of the continuation. A
  cancelled task is the outcome \<open>Io_cancelled\<close>. Session ids are canonical UUIDs, so the string
  keys of the code are the ids themselves.
\<close>

section \<open>The CRDT library\<close>

record 'd crdt =
  doc_new :: 'd
  doc_apply :: "'d \<Rightarrow> bytes \<Rightarrow> 'd option"
  doc_state :: "'d \<Rightarrow> bytes"
  doc_update :: "'d \<Rightarrow> bytes"
  doc_update_since :: "'d \<Rightarrow> bytes \<Rightarrow> bytes option"
  doc_text :: "'d \<Rightarrow> pystr"
  doc_clear :: "'d \<Rightarrow> 'd"
  doc_insert :: "'d \<Rightarrow> nat \<Rightarrow> pystr \<Rightarrow> 'd"
  sha256 :: "bytes \<Rightarrow> pystr"

definition crdt_laws :: "'d crdt \<Rightarrow> ('d \<Rightarrow> 'o set) \<Rightarrow> (bytes \<Rightarrow> 'o set) \<Rightarrow> bool" where
  "crdt_laws C content items \<longleftrightarrow>
     content (doc_new C) = {} \<and>
     (\<forall>d u d'. doc_apply C d u = Some d' \<longrightarrow> content d' = content d \<union> items u) \<and>
     (\<forall>d. items (doc_update C d) = content d) \<and>
     (\<forall>d d'. doc_apply C d (doc_update C d') \<noteq> None) \<and>
     (\<forall>d. content d \<subseteq> content (doc_clear C d)) \<and>
     (\<forall>d i s. content d \<subseteq> content (doc_insert C d i s))"

definition crdt_text_laws :: "'d crdt \<Rightarrow> ('d \<Rightarrow> 'o set) \<Rightarrow> (bytes \<Rightarrow> 'o set) \<Rightarrow> bool" where
  "crdt_text_laws C content items \<longleftrightarrow>
     (\<forall>d. doc_text C (doc_clear C d) = []) \<and>
     (\<forall>d s. doc_text C d = [] \<longrightarrow> doc_text C (doc_insert C d 0 s) = s) \<and>
     (\<forall>d d'. content d = content d' \<longrightarrow> doc_text C d = doc_text C d') \<and>
     (\<forall>d d0. content d0 \<subseteq> content d \<longrightarrow>
        (\<exists>u. doc_update_since C d (doc_state C d0) = Some u \<and> content d0 \<union> items u = content d \<and>
           (\<forall>r. doc_apply C r u \<noteq> None)))"

section \<open>State\<close>

datatype document_error = Still_loading | Update_rejected | Key_error | Storage_failed | Cancelled_task

record DocumentSaveResult =
  sr_size_bytes :: nat
  sr_saved_at :: datetime
  sr_state_vector :: bytes
  sr_state_hash :: pystr
  sr_dirty :: bool

record DocumentStatus =
  st_saved_state_vector :: bytes
  st_saved_state_hash :: pystr
  st_saved_at :: "datetime option"
  st_dirty :: bool
  st_generation :: nat
  st_checkpointed_generation :: "nat option"

record DocumentMetadata =
  md_generation :: nat
  md_checkpointed_generation :: "nat option"
  md_saved_state_vector :: bytes
  md_saved_state_hash :: pystr
  md_saved_at :: "datetime option"

datatype request = Load | Checkpoint | Persist | Checkpoint_and_remove

datatype after_load = Return_doc | Then_persist

datatype 'd task =
    Await_db_read after_load
  | Await_redis_get 'd bytes pystr "datetime option" after_load
  | Await_redis_set bytes nat "nat option"
  | Await_db_write bytes bytes pystr datetime

datatype reply = Loaded | Checkpointed nat | Saved DocumentSaveResult | Removed bool | Failed document_error

datatype 'd progress = Suspend "'d task" | Done reply

type_synonym session_id = uuid

record 'd manager =
  dm_docs :: "session_id \<Rightarrow> 'd option"
  dm_metadata :: "session_id \<Rightarrow> DocumentMetadata option"
  dm_guards :: "session_id \<Rightarrow> nat option"
  dm_loading :: "session_id set"
  dm_tasks :: "session_id \<Rightarrow> 'd task option"
  dm_waiting :: "session_id \<Rightarrow> request list"
  dm_redis :: "session_id \<Rightarrow> bytes option"
  dm_db :: "session_id \<Rightarrow> (bytes option \<times> datetime) option"

definition new_manager ::
    "(session_id \<Rightarrow> bytes option) \<Rightarrow> (session_id \<Rightarrow> (bytes option \<times> datetime) option) \<Rightarrow> 'd manager" where
  "new_manager redis database = \<lparr>dm_docs = Map.empty, dm_metadata = Map.empty, dm_guards = Map.empty,
     dm_loading = {}, dm_tasks = Map.empty, dm_waiting = (\<lambda>_. []), dm_redis = redis, dm_db = database\<rparr>"

section \<open>Operations that do not suspend\<close>

definition publish_new_doc :: "'d crdt \<Rightarrow> 'd manager \<Rightarrow> session_id \<Rightarrow> 'd \<Rightarrow> 'd manager" where
  "publish_new_doc C m sid d =
     m\<lparr>dm_docs := (dm_docs m)(sid \<mapsto> d),
       dm_metadata := (dm_metadata m)(sid \<mapsto>
         \<lparr>md_generation = 0, md_checkpointed_generation = None,
          md_saved_state_vector = doc_state C d, md_saved_state_hash = sha256 C (doc_update C d),
          md_saved_at = None\<rparr>)\<rparr>"

definition get_or_create :: "'d crdt \<Rightarrow> 'd manager \<Rightarrow> session_id \<Rightarrow> 'd manager \<times> (document_error + 'd)" where
  "get_or_create C m sid =
     (case dm_docs m sid of
        Some d \<Rightarrow> (m, Inr d)
      | None \<Rightarrow>
          if sid \<in> dm_loading m then (m, Inl Still_loading)
          else let d = doc_new C in (publish_new_doc C m sid d, Inr d))"

definition bump_generation :: "'d manager \<Rightarrow> session_id \<Rightarrow> 'd manager \<times> (document_error + unit)" where
  "bump_generation m sid =
     (case dm_metadata m sid of
        None \<Rightarrow> (m, Inl Key_error)
      | Some md \<Rightarrow>
          (m\<lparr>dm_metadata := (dm_metadata m)(sid \<mapsto> md\<lparr>md_generation := md_generation md + 1\<rparr>)\<rparr>, Inr ()))"

definition read_text :: "'d crdt \<Rightarrow> 'd manager \<Rightarrow> session_id \<Rightarrow> pystr" where
  "read_text C m sid = (case dm_docs m sid of None \<Rightarrow> [] | Some d \<Rightarrow> doc_text C d)"

definition apply_update ::
    "'d crdt \<Rightarrow> 'd manager \<Rightarrow> session_id \<Rightarrow> bytes \<Rightarrow> 'd manager \<times> (document_error + unit)" where
  "apply_update C m sid update_data =
     (case get_or_create C m sid of
        (m, Inl e) \<Rightarrow> (m, Inl e)
      | (m, Inr d) \<Rightarrow>
          (case doc_apply C d update_data of
             None \<Rightarrow> (m, Inl Update_rejected)
           | Some d' \<Rightarrow> bump_generation (m\<lparr>dm_docs := (dm_docs m)(sid \<mapsto> d')\<rparr>) sid))"

definition get_state_vector :: "'d crdt \<Rightarrow> 'd manager \<Rightarrow> session_id \<Rightarrow> 'd manager \<times> (document_error + bytes)" where
  "get_state_vector C m sid =
     (case get_or_create C m sid of
        (m, Inl e) \<Rightarrow> (m, Inl e)
      | (m, Inr d) \<Rightarrow> (m, Inr (doc_state C d)))"

definition encode_state_as_update ::
    "'d crdt \<Rightarrow> 'd manager \<Rightarrow> session_id \<Rightarrow> bytes option \<Rightarrow> 'd manager \<times> (document_error + bytes)" where
  "encode_state_as_update C m sid state_vector =
     (case get_or_create C m sid of
        (m, Inl e) \<Rightarrow> (m, Inl e)
      | (m, Inr d) \<Rightarrow>
          (m, case state_vector of
                Some sv \<Rightarrow> of_opt Update_rejected (doc_update_since C d sv)
              | None \<Rightarrow> Inr (doc_update C d)))"

definition restore_text_from_state ::
    "'d crdt \<Rightarrow> 'd manager \<Rightarrow> session_id \<Rightarrow> bytes \<Rightarrow> 'd manager \<times> (document_error + bytes)" where
  "restore_text_from_state C m sid state =
     (case doc_apply C (doc_new C) state of
        None \<Rightarrow> (m, Inl Update_rejected)
      | Some snapshot \<Rightarrow>
          let desired_text = doc_text C snapshot in
          (case get_or_create C m sid of
             (m, Inl e) \<Rightarrow> (m, Inl e)
           | (m, Inr d) \<Rightarrow>
               let before = doc_state C d in
               if doc_text C d \<noteq> desired_text then
                 let d = doc_clear C d;
                     d = (if desired_text \<noteq> [] then doc_insert C d 0 desired_text else d)
                 in (case bump_generation (m\<lparr>dm_docs := (dm_docs m)(sid \<mapsto> d)\<rparr>) sid of
                       (m, Inl e) \<Rightarrow> (m, Inl e)
                     | (m, Inr _) \<Rightarrow> (m, of_opt Update_rejected (doc_update_since C d before)))
               else (m, of_opt Update_rejected (doc_update_since C d before))))"

definition get_document_status :: "'d crdt \<Rightarrow> 'd manager \<Rightarrow> session_id \<Rightarrow> DocumentStatus option" where
  "get_document_status C m sid =
     (case (dm_docs m sid, dm_metadata m sid) of
        (Some d, Some md) \<Rightarrow>
          Some \<lparr>st_saved_state_vector = md_saved_state_vector md,
            st_saved_state_hash = md_saved_state_hash md,
            st_saved_at = md_saved_at md,
            st_dirty = (sha256 C (doc_update C d) \<noteq> md_saved_state_hash md),
            st_generation = md_generation md,
            st_checkpointed_generation = md_checkpointed_generation md\<rparr>
      | _ \<Rightarrow> None)"

definition remove_doc :: "'d manager \<Rightarrow> session_id \<Rightarrow> 'd manager \<times> bool" where
  "remove_doc m sid =
     (case dm_metadata m sid of
        None \<Rightarrow> (m, True)
      | Some md \<Rightarrow>
          if md_checkpointed_generation md \<noteq> Some (md_generation md) then (m, False)
          else if (case dm_guards m sid of None \<Rightarrow> False | Some users \<Rightarrow> users \<noteq> 0) then (m, False)
          else (m\<lparr>dm_docs := (dm_docs m)(sid := None), dm_metadata := (dm_metadata m)(sid := None),
                  dm_guards := (dm_guards m)(sid := None)\<rparr>, True))"

section \<open>Storage operations, under the session's guard\<close>

definition enter_guard :: "'d manager \<Rightarrow> session_id \<Rightarrow> 'd manager" where
  "enter_guard m sid =
     m\<lparr>dm_guards := (dm_guards m)(sid \<mapsto> (case dm_guards m sid of None \<Rightarrow> 0 | Some users \<Rightarrow> users) + 1)\<rparr>"

definition leave_guard :: "'d manager \<Rightarrow> session_id \<Rightarrow> 'd manager" where
  "leave_guard m sid =
     (let users = (case dm_guards m sid of None \<Rightarrow> 0 | Some users \<Rightarrow> users) - 1
      in m\<lparr>dm_guards := (dm_guards m)(sid :=
             (if users = 0 \<and> dm_docs m sid = None then None else Some users))\<rparr>)"

definition load_begin :: "'d manager \<Rightarrow> session_id \<Rightarrow> after_load \<Rightarrow> 'd manager \<times> 'd progress" where
  "load_begin m sid k = (m\<lparr>dm_loading := insert sid (dm_loading m)\<rparr>, Suspend (Await_db_read k))"

definition checkpoint_begin ::
    "'d crdt \<Rightarrow> 'd manager \<Rightarrow> session_id \<Rightarrow> nat option \<Rightarrow> reply \<Rightarrow> 'd manager \<times> 'd progress" where
  "checkpoint_begin C m sid removing absent =
     (case (dm_docs m sid, dm_metadata m sid) of
        (Some d, Some md) \<Rightarrow> (m, Suspend (Await_redis_set (doc_update C d) (md_generation md) removing))
      | _ \<Rightarrow> (m, Done absent))"

definition persist_begin :: "'d crdt \<Rightarrow> datetime \<Rightarrow> 'd manager \<Rightarrow> 'd \<Rightarrow> 'd manager \<times> 'd progress" where
  "persist_begin C now m d =
     (let state = doc_update C d
      in (m, Suspend (Await_db_write state (doc_state C d) (sha256 C state) now)))"

fun begin_request ::
    "'d crdt \<Rightarrow> datetime \<Rightarrow> 'd manager \<Rightarrow> session_id \<Rightarrow> request \<Rightarrow> 'd manager \<times> 'd progress" where
  "begin_request C now m sid Load =
     (case dm_docs m sid of Some d \<Rightarrow> (m, Done Loaded) | None \<Rightarrow> load_begin m sid Return_doc)"
| "begin_request C now m sid Checkpoint = checkpoint_begin C m sid None (Checkpointed 0)"
| "begin_request C now m sid Persist =
     (case dm_docs m sid of Some d \<Rightarrow> persist_begin C now m d | None \<Rightarrow> load_begin m sid Then_persist)"
| "begin_request C now m sid Checkpoint_and_remove =
     checkpoint_begin C m sid (map_option md_generation (dm_metadata m sid)) (Removed True)"

definition end_loading :: "'d manager \<Rightarrow> session_id \<Rightarrow> 'd manager" where
  "end_loading m sid = m\<lparr>dm_loading := dm_loading m - {sid}\<rparr>"

text \<open>\<open>doc.apply_update\<close> in \<open>try ... except Exception: log\<close>.\<close>
definition apply_logged :: "'d crdt \<Rightarrow> 'd \<Rightarrow> bytes option \<Rightarrow> 'd \<times> bool" where
  "apply_logged C d state =
     (case state of
        None \<Rightarrow> (d, False)
      | Some u \<Rightarrow> (case doc_apply C d u of None \<Rightarrow> (d, False) | Some d' \<Rightarrow> (d', True)))"

definition resume_db_read ::
    "'d crdt \<Rightarrow> 'd manager \<Rightarrow> session_id \<Rightarrow> after_load \<Rightarrow> io \<Rightarrow> 'd manager \<times> 'd progress" where
  "resume_db_read C m sid k outcome =
     (case outcome of
        Io_ok \<Rightarrow>
          let db_state = (case dm_db m sid of None \<Rightarrow> None | Some (state, _) \<Rightarrow> state);
              db_saved_at = map_option snd (dm_db m sid);
              d = fst (apply_logged C (doc_new C) db_state)
          in (m, Suspend (Await_redis_get d (doc_state C d) (sha256 C (doc_update C d))
                (if db_state \<noteq> None then db_saved_at else None) k))
      | Io_failed _ \<Rightarrow> (end_loading m sid, Done (Failed Storage_failed))
      | Io_cancelled _ \<Rightarrow> (end_loading m sid, Done (Failed Cancelled_task)))"

definition resume_redis_get ::
    "'d crdt \<Rightarrow> datetime \<Rightarrow> 'd manager \<Rightarrow> session_id \<Rightarrow> 'd \<Rightarrow> bytes \<Rightarrow> pystr \<Rightarrow> datetime option \<Rightarrow>
     after_load \<Rightarrow> io \<Rightarrow> 'd manager \<times> 'd progress" where
  "resume_redis_get C now m sid d saved_state_vector saved_state_hash saved_at k outcome =
     (case outcome of
        Io_cancelled _ \<Rightarrow> (end_loading m sid, Done (Failed Cancelled_task))
      | _ \<Rightarrow>
          let checkpoint = (if outcome = Io_ok then dm_redis m sid else None);
              (d, recovered_checkpoint) = apply_logged C d checkpoint;
              m = m\<lparr>dm_docs := (dm_docs m)(sid \<mapsto> d),
                    dm_metadata := (dm_metadata m)(sid \<mapsto>
                      \<lparr>md_generation = 0,
                       md_checkpointed_generation = (if recovered_checkpoint then Some 0 else None),
                       md_saved_state_vector = saved_state_vector,
                       md_saved_state_hash = saved_state_hash,
                       md_saved_at = saved_at\<rparr>)\<rparr>;
              m = end_loading m sid
          in (case k of Return_doc \<Rightarrow> (m, Done Loaded) | Then_persist \<Rightarrow> persist_begin C now m d))"

text \<open>The exception a failing write raises, with the write's effect on the storage.\<close>
definition write_redis :: "'d manager \<Rightarrow> session_id \<Rightarrow> bytes \<Rightarrow> io \<Rightarrow> 'd manager \<times> document_error option" where
  "write_redis m sid state outcome =
     (let m' = m\<lparr>dm_redis := (dm_redis m)(sid \<mapsto> state)\<rparr>
      in case outcome of
           Io_ok \<Rightarrow> (m', None)
         | Io_failed written \<Rightarrow> (if written then m' else m, Some Storage_failed)
         | Io_cancelled written \<Rightarrow> (if written then m' else m, Some Cancelled_task))"

text \<open>\<open>UPDATE sessions SET yjs_state, updated_at WHERE id\<close>: no row, no effect.\<close>
definition write_db ::
    "'d manager \<Rightarrow> session_id \<Rightarrow> bytes \<Rightarrow> datetime \<Rightarrow> io \<Rightarrow> 'd manager \<times> document_error option" where
  "write_db m sid state saved_at outcome =
     (let m' = m\<lparr>dm_db := (dm_db m)(sid := map_option (\<lambda>_. (Some state, saved_at)) (dm_db m sid))\<rparr>
      in case outcome of
           Io_ok \<Rightarrow> (m', None)
         | Io_failed written \<Rightarrow> (if written then m' else m, Some Storage_failed)
         | Io_cancelled written \<Rightarrow> (if written then m' else m, Some Cancelled_task))"

definition resume_redis_set ::
    "'d manager \<Rightarrow> session_id \<Rightarrow> bytes \<Rightarrow> nat \<Rightarrow> nat option \<Rightarrow> io \<Rightarrow> 'd manager \<times> 'd progress" where
  "resume_redis_set m sid state generation removing outcome =
     (case write_redis m sid state outcome of
        (m, Some e) \<Rightarrow> (m, Done (Failed e))
      | (m, None) \<Rightarrow>
          (case dm_metadata m sid of
             None \<Rightarrow> (m, Done (Failed Key_error))
           | Some md \<Rightarrow>
               let m = m\<lparr>dm_metadata := (dm_metadata m)(sid \<mapsto> md\<lparr>md_checkpointed_generation := Some generation\<rparr>)\<rparr>
               in case removing of
                    None \<Rightarrow> (m, Done (Checkpointed (length state)))
                  | Some generation0 \<Rightarrow>
                      if md_generation md \<noteq> generation0 then (m, Done (Removed False))
                      else (m\<lparr>dm_docs := (dm_docs m)(sid := None),
                              dm_metadata := (dm_metadata m)(sid := None)\<rparr>, Done (Removed True))))"

definition resume_db_write ::
    "'d crdt \<Rightarrow> 'd manager \<Rightarrow> session_id \<Rightarrow> bytes \<Rightarrow> bytes \<Rightarrow> pystr \<Rightarrow> datetime \<Rightarrow> io \<Rightarrow>
     'd manager \<times> 'd progress" where
  "resume_db_write C m sid state state_vector state_hash saved_at outcome =
     (case write_db m sid state saved_at outcome of
        (m, Some e) \<Rightarrow> (m, Done (Failed e))
      | (m, None) \<Rightarrow>
          (case (dm_docs m sid, dm_metadata m sid) of
             (Some d, Some md) \<Rightarrow>
               (m\<lparr>dm_metadata := (dm_metadata m)(sid \<mapsto>
                    md\<lparr>md_saved_state_vector := state_vector, md_saved_state_hash := state_hash,
                       md_saved_at := Some saved_at\<rparr>)\<rparr>,
                Done (Saved \<lparr>sr_size_bytes = length state, sr_saved_at = saved_at,
                  sr_state_vector = state_vector, sr_state_hash = state_hash,
                  sr_dirty = (sha256 C (doc_update C d) \<noteq> state_hash)\<rparr>))
           | _ \<Rightarrow> (m, Done (Failed Key_error))))"

fun resume_task ::
    "'d crdt \<Rightarrow> datetime \<Rightarrow> 'd manager \<Rightarrow> session_id \<Rightarrow> 'd task \<Rightarrow> io \<Rightarrow> 'd manager \<times> 'd progress" where
  "resume_task C now m sid (Await_db_read k) outcome = resume_db_read C m sid k outcome"
| "resume_task C now m sid (Await_redis_get d sv h ts k) outcome = resume_redis_get C now m sid d sv h ts k outcome"
| "resume_task C now m sid (Await_redis_set state g removing) outcome =
     resume_redis_set m sid state g removing outcome"
| "resume_task C now m sid (Await_db_write state sv h ts) outcome = resume_db_write C m sid state sv h ts outcome"

section \<open>Events\<close>

datatype event =
    Sync_apply session_id bytes
  | Sync_state_vector session_id
  | Sync_encode session_id "bytes option"
  | Sync_restore session_id bytes
  | Sync_remove session_id
  | Call session_id request datetime
  | Wake session_id datetime
  | Abandon session_id nat
  | Resume session_id io datetime
  | Redis_expire session_id

text \<open>The lock holder either suspends again or leaves \<open>async with\<close> and its guard.\<close>
definition settle :: "session_id \<Rightarrow> 'd manager \<times> 'd progress \<Rightarrow> 'd manager \<times> reply option" where
  "settle sid mp =
     (case mp of
        (m, Suspend t) \<Rightarrow> (m\<lparr>dm_tasks := (dm_tasks m)(sid \<mapsto> t)\<rparr>, None)
      | (m, Done r) \<Rightarrow> (leave_guard (m\<lparr>dm_tasks := (dm_tasks m)(sid := None)\<rparr>) sid, Some r))"

fun dm_event :: "'d crdt \<Rightarrow> 'd manager \<Rightarrow> event \<Rightarrow> 'd manager \<times> reply option" where
  "dm_event C m (Sync_apply sid u) = (fst (apply_update C m sid u), None)"
| "dm_event C m (Sync_state_vector sid) = (fst (get_state_vector C m sid), None)"
| "dm_event C m (Sync_encode sid sv) = (fst (encode_state_as_update C m sid sv), None)"
| "dm_event C m (Sync_restore sid state) = (fst (restore_text_from_state C m sid state), None)"
| "dm_event C m (Sync_remove sid) = (case remove_doc m sid of (m, b) \<Rightarrow> (m, Some (Removed b)))"
| "dm_event C m (Call sid req now) =
     (let m = enter_guard m sid
      in if dm_tasks m sid = None \<and> dm_waiting m sid = []
         then settle sid (begin_request C now m sid req)
         else (m\<lparr>dm_waiting := (dm_waiting m)(sid := dm_waiting m sid @ [req])\<rparr>, None))"
| "dm_event C m (Wake sid now) =
     (case (dm_tasks m sid, dm_waiting m sid) of
        (None, req # reqs) \<Rightarrow>
          settle sid (begin_request C now (m\<lparr>dm_waiting := (dm_waiting m)(sid := reqs)\<rparr>) sid req)
      | _ \<Rightarrow> (m, None))"
| "dm_event C m (Abandon sid i) =
     (if i < length (dm_waiting m sid)
      then (leave_guard (m\<lparr>dm_waiting := (dm_waiting m)(sid :=
              take i (dm_waiting m sid) @ drop (Suc i) (dm_waiting m sid))\<rparr>) sid, Some (Failed Cancelled_task))
      else (m, None))"
| "dm_event C m (Resume sid outcome now) =
     (case dm_tasks m sid of
        None \<Rightarrow> (m, None)
      | Some t \<Rightarrow> settle sid (resume_task C now m sid t outcome))"
| "dm_event C m (Redis_expire sid) = (m\<lparr>dm_redis := (dm_redis m)(sid := None)\<rparr>, None)"

definition dm_step :: "'d crdt \<Rightarrow> 'd manager \<Rightarrow> event \<Rightarrow> 'd manager" where
  "dm_step C m ev = fst (dm_event C m ev)"

section \<open>A concrete CRDT\<close>

text \<open>A document that keeps every text ever written with a stamp and shows the newest; its wire
  form is the length of the update. It satisfies the laws, so they are consistent.\<close>

type_synonym sample_doc = "(nat \<times> nat) list"

definition sample_stamp :: "sample_doc \<Rightarrow> nat" where
  "sample_stamp d = Max (insert 0 (fst ` set d))"

definition sample_text :: "sample_doc \<Rightarrow> pystr" where
  "sample_text d = list_decode (Max (insert 0 (snd ` {p \<in> set d. fst p = sample_stamp d})))"

definition sample_write :: "sample_doc \<Rightarrow> pystr \<Rightarrow> sample_doc" where
  "sample_write d s = (sample_stamp d + 1, list_encode s) # d"

definition sample_items :: "bytes \<Rightarrow> sample_doc" where
  "sample_items u = map prod_decode (list_decode (length u))"

definition sample_update :: "sample_doc \<Rightarrow> bytes" where
  "sample_update d = replicate (list_encode (map prod_encode d)) 0"

definition sample_crdt :: "sample_doc crdt" where
  "sample_crdt = \<lparr>doc_new = [], doc_apply = (\<lambda>d u. Some (d @ sample_items u)), doc_state = sample_update,
     doc_update = sample_update, doc_update_since = (\<lambda>d _. Some (sample_update d)),
     doc_text = sample_text, doc_clear = (\<lambda>d. sample_write d []),
     doc_insert = (\<lambda>d i s. sample_write d (take i (sample_text d) @ s @ drop i (sample_text d))),
     sha256 = map unat\<rparr>"

lemma sample_items_update [simp]: "sample_items (sample_update d) = d"
  by (simp add: sample_items_def sample_update_def comp_def)

lemma sample_text_write [simp]: "sample_text (sample_write d s) = s"
proof -
  have le: "fst p \<le> sample_stamp d" if "p \<in> set d" for p
    using that by (simp add: sample_stamp_def)
  have stamp: "sample_stamp (sample_write d s) = sample_stamp d + 1"
    unfolding sample_stamp_def [of "sample_write d s"]
    by (rule Max_eqI) (use le in \<open>fastforce simp: sample_write_def\<close>)+
  have "{p \<in> set (sample_write d s). fst p = sample_stamp d + 1} = {(sample_stamp d + 1, list_encode s)}"
    using le by (fastforce simp: sample_write_def)
  then show ?thesis by (simp add: sample_text_def stamp)
qed

lemma sample_crdt_laws: "crdt_laws sample_crdt set (set \<circ> sample_items)"
  by (auto simp: crdt_laws_def sample_crdt_def sample_write_def)

lemma sample_crdt_text_laws: "crdt_text_laws sample_crdt set (set \<circ> sample_items)"
  by (auto simp: crdt_text_laws_def sample_crdt_def sample_text_def sample_stamp_def
      sample_text_write [unfolded sample_text_def sample_stamp_def])

section \<open>Guards and loading\<close>

fun ev_session :: "event \<Rightarrow> session_id" where
  "ev_session (Sync_apply sid _) = sid"
| "ev_session (Sync_state_vector sid) = sid"
| "ev_session (Sync_encode sid _) = sid"
| "ev_session (Sync_restore sid _) = sid"
| "ev_session (Sync_remove sid) = sid"
| "ev_session (Call sid _ _) = sid"
| "ev_session (Wake sid _) = sid"
| "ev_session (Abandon sid _) = sid"
| "ev_session (Resume sid _ _) = sid"
| "ev_session (Redis_expire sid) = sid"

text \<open>What an operation on another session leaves alone.\<close>
definition same_at :: "session_id \<Rightarrow> 'd manager \<Rightarrow> 'd manager \<Rightarrow> bool" where
  "same_at sid m m' \<longleftrightarrow>
     dm_docs m' sid = dm_docs m sid \<and> dm_metadata m' sid = dm_metadata m sid \<and>
     dm_guards m' sid = dm_guards m sid \<and> (sid \<in> dm_loading m' \<longleftrightarrow> sid \<in> dm_loading m) \<and>
     dm_tasks m' sid = dm_tasks m sid \<and> dm_waiting m' sid = dm_waiting m sid \<and>
     dm_redis m' sid = dm_redis m sid \<and> dm_db m' sid = dm_db m sid"

named_theorems dm_defs \<open>operations of the document manager, for case analysis\<close>

declare publish_new_doc_def [dm_defs] get_or_create_def [dm_defs] bump_generation_def [dm_defs]
  apply_update_def [dm_defs] get_state_vector_def [dm_defs] encode_state_as_update_def [dm_defs]
  remove_doc_def [dm_defs] enter_guard_def [dm_defs] leave_guard_def [dm_defs] load_begin_def [dm_defs]
  checkpoint_begin_def [dm_defs] persist_begin_def [dm_defs] end_loading_def [dm_defs]
  write_redis_def [dm_defs] write_db_def [dm_defs]

lemma same_at_sync:
  assumes "sid' \<noteq> sid"
  shows "same_at sid' m (fst (get_or_create C m sid))" "same_at sid' m (fst (apply_update C m sid u))"
    "same_at sid' m (fst (get_state_vector C m sid))" "same_at sid' m (fst (encode_state_as_update C m sid sv))"
    "same_at sid' m (fst (remove_doc m sid))" "same_at sid' m (enter_guard m sid)" "same_at sid' m (leave_guard m sid)"
  using assms by (auto simp: same_at_def dm_defs Let_def split: option.splits sum.splits prod.splits)

lemma same_at_restore: "sid' \<noteq> sid \<Longrightarrow> same_at sid' m (fst (restore_text_from_state C m sid state))"
  by (auto simp: same_at_def restore_text_from_state_def dm_defs Let_def split: option.splits)

lemma same_at_begin: "sid' \<noteq> sid \<Longrightarrow> same_at sid' m (fst (begin_request C now m sid req))"
  by (cases req) (auto simp: same_at_def dm_defs Let_def split: option.splits)

lemma same_at_resume: "sid' \<noteq> sid \<Longrightarrow> same_at sid' m (fst (resume_task C now m sid t outcome))"
  by (cases t; cases outcome)
    (auto simp: same_at_def dm_defs resume_db_read_def resume_redis_get_def resume_redis_set_def
        resume_db_write_def Let_def split: option.splits prod.splits after_load.splits)

lemma same_at_trans: "same_at sid m m' \<Longrightarrow> same_at sid m' m'' \<Longrightarrow> same_at sid m m''"
  by (simp add: same_at_def)

lemma same_at_refl [simp]: "same_at sid m m"
  by (simp add: same_at_def)

lemma same_at_settle: "sid' \<noteq> sid \<Longrightarrow> same_at sid' m (fst mp) \<Longrightarrow> same_at sid' m (fst (settle sid mp))"
  by (cases mp; cases "snd mp")
    (auto simp: settle_def same_at_def leave_guard_def Let_def)

lemma same_at_event: "sid \<noteq> ev_session ev \<Longrightarrow> same_at sid m (dm_step C m ev)"
proof (cases ev)
  case (Call s req now)
  assume "sid \<noteq> ev_session ev"
  with Call have "sid \<noteq> s" by simp
  from same_at_trans [OF same_at_sync(6) [OF this] same_at_settle [OF this same_at_begin [OF this]]] this Call
  show ?thesis
    by (auto simp: dm_step_def Let_def) (auto simp: same_at_def enter_guard_def)
next
  case (Wake s now)
  assume "sid \<noteq> ev_session ev"
  with Wake have ne: "sid \<noteq> s" by simp
  have "same_at sid m (m\<lparr>dm_waiting := (dm_waiting m)(s := reqs)\<rparr>)" for reqs
    using ne by (simp add: same_at_def)
  from same_at_trans [OF this same_at_settle [OF ne same_at_begin [OF ne]]] Wake
  show ?thesis by (auto simp: dm_step_def split: option.splits list.splits)
next
  case (Abandon s i)
  assume "sid \<noteq> ev_session ev"
  with Abandon have ne: "sid \<noteq> s" by simp
  have "same_at sid m (m\<lparr>dm_waiting := (dm_waiting m)(s := reqs)\<rparr>)" for reqs
    using ne by (simp add: same_at_def)
  from same_at_trans [OF this same_at_sync(7) [OF ne]] Abandon
  show ?thesis by (auto simp: dm_step_def)
next
  case (Sync_remove s)
  assume "sid \<noteq> ev_session ev"
  with Sync_remove same_at_sync(5) [of sid s m] show ?thesis
    by (auto simp: dm_step_def split: prod.splits)
next
  case (Redis_expire s)
  assume "sid \<noteq> ev_session ev"
  with Redis_expire show ?thesis by (simp add: dm_step_def same_at_def)
qed (auto simp: dm_step_def same_at_sync same_at_restore same_at_settle same_at_resume split: option.splits prod.splits)

fun loads :: "'d task option \<Rightarrow> bool" where
  "loads (Some (Await_db_read _)) \<longleftrightarrow> True"
| "loads (Some (Await_redis_get _ _ _ _ _)) \<longleftrightarrow> True"
| "loads _ \<longleftrightarrow> False"

fun writes :: "'d task option \<Rightarrow> bool" where
  "writes (Some (Await_redis_set _ _ _)) \<longleftrightarrow> True"
| "writes (Some (Await_db_write _ _ _ _)) \<longleftrightarrow> True"
| "writes _ \<longleftrightarrow> False"

definition users_of :: "'d manager \<Rightarrow> session_id \<Rightarrow> nat" where
  "users_of m sid = (case dm_guards m sid of None \<Rightarrow> 0 | Some users \<Rightarrow> users)"

definition guard_ok :: "'d task option \<Rightarrow> nat \<Rightarrow> 'd manager \<Rightarrow> session_id \<Rightarrow> bool" where
  "guard_ok t holders m sid \<longleftrightarrow>
     (dm_docs m sid = None \<longleftrightarrow> dm_metadata m sid = None) \<and>
     (sid \<in> dm_loading m \<longleftrightarrow> loads t) \<and> (loads t \<longrightarrow> dm_docs m sid = None) \<and>
     (writes t \<longrightarrow> dm_docs m sid \<noteq> None) \<and>
     users_of m sid = length (dm_waiting m sid) + holders"

definition guards_ok :: "'d manager \<Rightarrow> session_id \<Rightarrow> bool" where
  "guards_ok m sid \<longleftrightarrow>
     guard_ok (dm_tasks m sid) (if dm_tasks m sid = None then 0 else 1) m sid \<and>
     (dm_guards m sid = Some 0 \<longrightarrow> dm_docs m sid \<noteq> None)"

definition manager_ok :: "'d manager \<Rightarrow> bool" where
  "manager_ok m \<longleftrightarrow> (\<forall>sid. guards_ok m sid)"

lemma manager_ok_new: "manager_ok (new_manager redis database)"
  by (simp add: manager_ok_def guards_ok_def guard_ok_def new_manager_def users_of_def)

text \<open>What a continuation hands to \<open>settle\<close>.\<close>
definition progress_ok :: "session_id \<Rightarrow> 'd manager \<times> 'd progress \<Rightarrow> bool" where
  "progress_ok sid mp \<longleftrightarrow>
     guard_ok (case snd mp of Suspend t \<Rightarrow> Some t | Done _ \<Rightarrow> None) 1 (fst mp) sid"

lemma guard_ok_begin:
  "guard_ok None 1 m sid \<Longrightarrow> progress_ok sid (begin_request C now m sid req)"
  by (cases req) (auto simp: progress_ok_def guard_ok_def dm_defs users_of_def Let_def split: option.splits)

lemma guard_ok_resume:
  "guard_ok (Some t) 1 m sid \<Longrightarrow> progress_ok sid (resume_task C now m sid t outcome)"
  by (cases t; cases outcome)
    (auto simp: progress_ok_def guard_ok_def dm_defs users_of_def resume_db_read_def resume_redis_get_def
        resume_redis_set_def resume_db_write_def Let_def split: option.splits prod.splits after_load.splits)

lemma guards_ok_settle: "progress_ok sid mp \<Longrightarrow> guards_ok (fst (settle sid mp)) sid"
  by (cases mp; cases "snd mp")
    (auto simp: progress_ok_def guard_ok_def guards_ok_def settle_def leave_guard_def users_of_def Let_def
        split: option.splits)

lemma guards_ok_same: "same_at sid m m' \<Longrightarrow> guards_ok m sid \<Longrightarrow> guards_ok m' sid"
  by (auto simp: same_at_def guards_ok_def guard_ok_def users_of_def)

lemma guard_ok_enter:
  "guards_ok m sid \<Longrightarrow> guard_ok (dm_tasks m sid) (if dm_tasks m sid = None then 1 else 2) (enter_guard m sid) sid"
  by (auto simp: guards_ok_def guard_ok_def enter_guard_def users_of_def split: option.splits)

text \<open>Operations that only publish, replace or remove a document keep the guards in order.\<close>
lemma guards_ok_docs:
  assumes "guards_ok m sid" "dm_docs m' sid \<noteq> None" "dm_metadata m' sid \<noteq> None" "sid \<notin> dm_loading m"
    "dm_guards m' sid = dm_guards m sid" "dm_loading m' = dm_loading m" "dm_tasks m' sid = dm_tasks m sid"
    "dm_waiting m' sid = dm_waiting m sid"
  shows "guards_ok m' sid"
proof -
  obtain d md where "dm_docs m' sid = Some d" "dm_metadata m' sid = Some md" using assms(2,3) by blast
  with assms(1,4-) show ?thesis by (simp add: guards_ok_def guard_ok_def users_of_def)
qed

lemma guards_ok_loading: "guards_ok m sid \<Longrightarrow> sid \<in> dm_loading m \<Longrightarrow> dm_docs m sid = None"
  by (auto simp: guards_ok_def guard_ok_def)

lemma get_or_create_cases:
  obtains (loading) "dm_docs m sid = None" "sid \<in> dm_loading m" "get_or_create C m sid = (m, Inl Still_loading)"
  | (present) d where "dm_docs m sid = Some d" "get_or_create C m sid = (m, Inr d)"
  | (created) "dm_docs m sid = None" "sid \<notin> dm_loading m"
      "get_or_create C m sid = (publish_new_doc C m sid (doc_new C), Inr (doc_new C))"
  by (cases "dm_docs m sid") (auto simp: get_or_create_def Let_def split: if_splits)

lemma guards_ok_metadata: "guards_ok m sid \<Longrightarrow> dm_docs m sid = Some d \<Longrightarrow> \<exists>md. dm_metadata m sid = Some md"
  by (auto simp: guards_ok_def guard_ok_def)

text \<open>A change of a present document, or the publication of a new one.\<close>
lemma guards_ok_get_or_create:
  assumes "guards_ok m sid"
  shows "guards_ok (fst (get_or_create C m sid)) sid"
  by (cases rule: get_or_create_cases [of m sid C])
    (use assms in \<open>auto intro!: guards_ok_docs [OF assms] simp: publish_new_doc_def\<close>)

lemma get_or_create_Inr:
  assumes "guards_ok m sid" "get_or_create C m sid = (m1, Inr d)"
  obtains md where "dm_docs m1 sid = Some d" "dm_metadata m1 sid = Some md" "sid \<notin> dm_loading m"
    "dm_guards m1 = dm_guards m" "dm_loading m1 = dm_loading m" "dm_tasks m1 = dm_tasks m"
    "dm_waiting m1 = dm_waiting m" "dm_redis m1 = dm_redis m" "dm_db m1 = dm_db m"
proof (cases rule: get_or_create_cases [of m sid C])
  case (present d')
  with assms guards_ok_loading guards_ok_metadata [OF assms(1)] show ?thesis by (fastforce intro: that)
qed (use assms in \<open>auto simp: publish_new_doc_def intro!: that\<close>)

lemma guards_ok_apply: "guards_ok m sid \<Longrightarrow> guards_ok (fst (apply_update C m sid u)) sid"
proof -
  assume ok: "guards_ok m sid"
  obtain m1 r where g: "get_or_create C m sid = (m1, r)" by fastforce
  note ok1 = guards_ok_get_or_create [OF ok, of C, unfolded g fst_conv]
  show ?thesis
  proof (cases r)
    case (Inr d)
    obtain md where "dm_docs m1 sid = Some d" "dm_metadata m1 sid = Some md" "sid \<notin> dm_loading m1"
      using get_or_create_Inr [OF ok g [unfolded Inr]] by metis
    with ok1 g Inr show ?thesis
      by (auto simp: apply_update_def bump_generation_def intro!: guards_ok_docs [OF ok1] split: option.splits)
  qed (use ok1 g in \<open>simp add: apply_update_def\<close>)
qed

lemma guards_ok_restore: "guards_ok m sid \<Longrightarrow> guards_ok (fst (restore_text_from_state C m sid u)) sid"
proof -
  assume ok: "guards_ok m sid"
  obtain m1 r where g: "get_or_create C m sid = (m1, r)" by fastforce
  note ok1 = guards_ok_get_or_create [OF ok, of C, unfolded g fst_conv]
  show ?thesis
  proof (cases r)
    case (Inr d)
    obtain md where "dm_docs m1 sid = Some d" "dm_metadata m1 sid = Some md" "sid \<notin> dm_loading m1"
      using get_or_create_Inr [OF ok g [unfolded Inr]] by metis
    with ok ok1 g Inr show ?thesis
      by (auto simp: restore_text_from_state_def bump_generation_def Let_def
          intro!: guards_ok_docs [OF ok1] split: option.splits)
  qed (use ok ok1 g in \<open>auto simp: restore_text_from_state_def Let_def split: option.splits\<close>)
qed

lemma guards_ok_read:
  "guards_ok m sid \<Longrightarrow> guards_ok (fst (get_state_vector C m sid)) sid"
  "guards_ok m sid \<Longrightarrow> guards_ok (fst (encode_state_as_update C m sid sv)) sid"
  using guards_ok_get_or_create [of m sid C]
  by (auto simp: get_state_vector_def encode_state_as_update_def split: prod.splits sum.splits)

lemma guards_ok_remove:
  assumes "guards_ok m sid"
  shows "guards_ok (fst (remove_doc m sid)) sid"
proof (cases "fst (remove_doc m sid) = m")
  case False
  then have m': "fst (remove_doc m sid) = m\<lparr>dm_docs := (dm_docs m)(sid := None),
      dm_metadata := (dm_metadata m)(sid := None), dm_guards := (dm_guards m)(sid := None)\<rparr>"
    and "users_of m sid = 0"
    by (auto simp: remove_doc_def users_of_def split: option.splits if_splits)
  then have "dm_tasks m sid = None" "dm_waiting m sid = []"
    using assms by (auto simp: guards_ok_def guard_ok_def split: if_splits)
  with assms show ?thesis by (simp add: m' guards_ok_def guard_ok_def users_of_def)
qed (use assms in simp)

lemma guards_ok_event:
  assumes ok: "guards_ok m sid" and ev: "ev_session ev = sid"
  shows "guards_ok (dm_step C m ev) sid"
proof (cases ev)
  case (Call s req now)
  let ?m = "enter_guard m sid"
  have same: "dm_tasks ?m = dm_tasks m" "dm_waiting ?m = dm_waiting m" by (simp_all add: enter_guard_def)
  show ?thesis
  proof (cases "dm_tasks m sid = None \<and> dm_waiting m sid = []")
    case True
    then have "guard_ok None 1 ?m sid" using guard_ok_enter [OF ok] by simp
    from guards_ok_settle [OF guard_ok_begin [OF this]] True show ?thesis
      using Call ev same by (simp add: dm_step_def Let_def)
  next
    case False
    let ?m' = "?m\<lparr>dm_waiting := (dm_waiting ?m)(sid := dm_waiting ?m sid @ [req])\<rparr>"
    have g: "guard_ok (dm_tasks m sid) (if dm_tasks m sid = None then 1 else 2) ?m sid"
      by (rule guard_ok_enter [OF ok])
    then have "guard_ok (dm_tasks ?m' sid) (if dm_tasks ?m' sid = None then 0 else 1) ?m' sid"
      by (auto simp: guard_ok_def users_of_def same)
    moreover have "dm_guards ?m' sid \<noteq> Some 0" by (simp add: enter_guard_def)
    ultimately have "guards_ok ?m' sid" unfolding guards_ok_def by blast
    then show ?thesis using Call ev False same by (auto simp: dm_step_def Let_def)
  qed
next
  case (Wake s now)
  show ?thesis
  proof (cases "dm_tasks m sid")
    case None
    show ?thesis
    proof (cases "dm_waiting m sid")
      case (Cons req reqs)
      have "guard_ok None 1 (m\<lparr>dm_waiting := (dm_waiting m)(sid := reqs)\<rparr>) sid"
        using ok None Cons by (simp add: guards_ok_def guard_ok_def users_of_def)
      from guards_ok_settle [OF guard_ok_begin [OF this]] None Cons Wake ev show ?thesis
        by (simp add: dm_step_def)
    qed (use None Wake ev ok in \<open>simp add: dm_step_def\<close>)
  qed (use Wake ev ok in \<open>simp add: dm_step_def\<close>)
next
  case (Abandon s i)
  show ?thesis
  proof (cases "i < length (dm_waiting m sid)")
    case True
    then have "length (take i (dm_waiting m sid) @ drop (Suc i) (dm_waiting m sid)) + 1 = length (dm_waiting m sid)"
      by simp
    with ok True Abandon ev show ?thesis
      by (auto simp: dm_step_def guards_ok_def guard_ok_def users_of_def leave_guard_def Let_def
          split: option.splits)
  qed (use Abandon ev ok in \<open>simp add: dm_step_def\<close>)
next
  case (Resume s outcome now)
  show ?thesis
  proof (cases "dm_tasks m sid")
    case (Some t)
    then have "guard_ok (Some t) 1 m sid" using ok by (simp add: guards_ok_def)
    from guards_ok_settle [OF guard_ok_resume [OF this]] Some Resume ev show ?thesis
      by (simp add: dm_step_def)
  qed (use Resume ev ok in \<open>simp add: dm_step_def\<close>)
next
  case (Sync_remove s)
  with guards_ok_remove [OF ok] ev show ?thesis by (simp add: dm_step_def case_prod_beta)
next
  case (Redis_expire s)
  with ok show ?thesis by (auto simp: dm_step_def guards_ok_def guard_ok_def users_of_def)
qed (use ev guards_ok_apply [OF ok] guards_ok_read [OF ok] guards_ok_restore [OF ok] in \<open>simp_all add: dm_step_def\<close>)

lemma manager_ok_step: "manager_ok m \<Longrightarrow> manager_ok (dm_step C m ev)"
  unfolding manager_ok_def
proof
  fix sid
  assume "\<forall>sid. guards_ok m sid"
  then have ok: "guards_ok m sid" by blast
  show "guards_ok (dm_step C m ev) sid"
  proof (cases "ev_session ev = sid")
    case False
    then have "same_at sid m (dm_step C m ev)" using same_at_event by metis
    then show ?thesis using guards_ok_same ok by blast
  qed (rule guards_ok_event [OF ok])
qed

interpretation documents: invariant_machine "dm_step C" manager_ok for C :: "'d crdt"
  by unfold_locales (rule manager_ok_step)

text \<open>C18: Whatever operations run and however they interleave, fail or are cancelled: while a
  session's document is being loaded none is published, so a load never replaces a live
  document; a write never runs on a removed one; and the guard of a session counts exactly
  the lock holder and the queued operations, and is retired with the document, so idle
  sessions hold no guard.\<close>

theorem document_guards_consistent:
  fixes C :: "'d crdt"
  assumes "m = run (dm_step C) (new_manager redis database) evs"
  shows "(sid \<in> dm_loading m \<longrightarrow> dm_docs m sid = None) \<and>
    (writes (dm_tasks m sid) \<longrightarrow> dm_docs m sid \<noteq> None) \<and>
    (dm_docs m sid = None \<longleftrightarrow> dm_metadata m sid = None) \<and>
    (case dm_guards m sid of None \<Rightarrow> 0 | Some users \<Rightarrow> users)
       = length (dm_waiting m sid) + (if dm_tasks m sid = None then 0 else 1) \<and>
    (dm_docs m sid = None \<and> dm_waiting m sid = [] \<and> dm_tasks m sid = None \<longrightarrow> dm_guards m sid = None)"
proof -
  have "guards_ok m sid"
    using documents.run_inv [OF manager_ok_new, of C redis database evs] assms by (simp add: manager_ok_def)
  then show ?thesis
    by (auto simp: guards_ok_def guard_ok_def users_of_def split: option.splits)
qed

theorem document_guards_consistent_witness:
  "dm_docs (run (dm_step sample_crdt) (new_manager Map.empty Map.empty) [Call 1 Load 0]) 1 = None \<and>
   users_of (run (dm_step sample_crdt) (new_manager Map.empty Map.empty) [Call 1 Load 0, Resume 1 (Io_failed False) 0]) 1 = 0"
proof -
  have "1 \<in> dm_loading (run (dm_step sample_crdt) (new_manager Map.empty Map.empty) [Call 1 Load 0])"
    by (simp add: dm_step_def Let_def enter_guard_def new_manager_def load_begin_def settle_def)
  moreover have "users_of (run (dm_step sample_crdt) (new_manager Map.empty Map.empty)
      [Call 1 Load 0, Resume 1 (Io_failed False) 0]) 1 = 0"
    by (simp add: dm_step_def Let_def enter_guard_def new_manager_def load_begin_def settle_def
        resume_db_read_def end_loading_def leave_guard_def users_of_def)
  ultimately show ?thesis
    using document_guards_consistent [where C = sample_crdt and sid = 1, OF refl] by blast
qed

end
