(* ===== verification/Durability.thy ===== *)
theory Durability
  imports Document
begin

text \<open>
  What the document manager promises about the edits it accepted. \<open>recoverable\<close> is the content
  that a session can still show: its live document, the Redis checkpoint and the saved
  database state. As long as the checkpoint is readable when a document is loaded, does not
  expire, and documents are only used once loaded (\<open>safe_event\<close>), no interleaving of edits,
  checkpoints, saves, evictions, failures and cancellations ever loses content.
\<close>

section \<open>What is stored\<close>

definition opt_items :: "(bytes \<Rightarrow> 'o set) \<Rightarrow> bytes option \<Rightarrow> 'o set" where
  "opt_items items u = (case u of None \<Rightarrow> {} | Some u \<Rightarrow> items u)"

definition db_state :: "'d manager \<Rightarrow> session_id \<Rightarrow> bytes option" where
  "db_state m sid = (case dm_db m sid of None \<Rightarrow> None | Some (state, _) \<Rightarrow> state)"

definition stored :: "(bytes \<Rightarrow> 'o set) \<Rightarrow> 'd manager \<Rightarrow> session_id \<Rightarrow> 'o set" where
  "stored items m sid = opt_items items (dm_redis m sid) \<union> opt_items items (db_state m sid)"

definition recoverable :: "('d \<Rightarrow> 'o set) \<Rightarrow> (bytes \<Rightarrow> 'o set) \<Rightarrow> 'd manager \<Rightarrow> session_id \<Rightarrow> 'o set" where
  "recoverable content items m sid =
     (case dm_docs m sid of None \<Rightarrow> {} | Some d \<Rightarrow> content d) \<union> stored items m sid"

fun safe_event :: "'d manager \<Rightarrow> event \<Rightarrow> bool" where
  "safe_event m (Sync_apply sid _) \<longleftrightarrow> dm_docs m sid \<noteq> None \<or> sid \<in> dm_loading m"
| "safe_event m (Sync_state_vector sid) \<longleftrightarrow> dm_docs m sid \<noteq> None \<or> sid \<in> dm_loading m"
| "safe_event m (Sync_encode sid _) \<longleftrightarrow> dm_docs m sid \<noteq> None \<or> sid \<in> dm_loading m"
| "safe_event m (Sync_restore sid _) \<longleftrightarrow> dm_docs m sid \<noteq> None \<or> sid \<in> dm_loading m"
| "safe_event m (Resume sid outcome _) \<longleftrightarrow>
     (case (dm_tasks m sid, outcome) of
        (Some (Await_redis_get _ _ _ _ _), Io_failed _) \<Rightarrow> False
      | _ \<Rightarrow> True)"
| "safe_event m (Redis_expire sid) \<longleftrightarrow> False"
| "safe_event m _ \<longleftrightarrow> True"

fun safe_run :: "'d crdt \<Rightarrow> 'd manager \<Rightarrow> event list \<Rightarrow> bool" where
  "safe_run C m [] \<longleftrightarrow> True"
| "safe_run C m (ev # evs) \<longleftrightarrow> safe_event m ev \<and> safe_run C (dm_step C m ev) evs"

section \<open>The invariant\<close>

definition written :: "'d crdt \<Rightarrow> bytes option \<Rightarrow> bool" where
  "written C state \<longleftrightarrow> (\<forall>u. state = Some u \<longrightarrow> (\<exists>d. u = doc_update C d))"

text \<open>A hash that, when the live document still has it, says the database has everything.\<close>
definition clean_hash ::
    "'d crdt \<Rightarrow> ('d \<Rightarrow> 'o set) \<Rightarrow> (bytes \<Rightarrow> 'o set) \<Rightarrow> pystr \<Rightarrow> 'd manager \<Rightarrow> session_id \<Rightarrow> bool" where
  "clean_hash C content items h m sid \<longleftrightarrow>
     (dm_db m sid \<noteq> None \<longrightarrow>
        (\<exists>s. h = sha256 C (doc_update C s) \<and> content s \<subseteq> opt_items items (db_state m sid)))"

definition live_durable ::
    "'d crdt \<Rightarrow> ('d \<Rightarrow> 'o set) \<Rightarrow> (bytes \<Rightarrow> 'o set) \<Rightarrow> 'd \<Rightarrow> DocumentMetadata \<Rightarrow> 'd manager \<Rightarrow> session_id \<Rightarrow> bool" where
  "live_durable C content items d md m sid \<longleftrightarrow>
     stored items m sid \<subseteq> content d \<and>
     (md_checkpointed_generation md = Some (md_generation md) \<longrightarrow> content d \<subseteq> stored items m sid) \<and>
     (\<forall>g. md_checkpointed_generation md = Some g \<longrightarrow> g \<le> md_generation md) \<and>
     clean_hash C content items (md_saved_state_hash md) m sid"

definition doc_durable ::
    "'d crdt \<Rightarrow> ('d \<Rightarrow> 'o set) \<Rightarrow> (bytes \<Rightarrow> 'o set) \<Rightarrow> 'd manager \<Rightarrow> session_id \<Rightarrow> bool" where
  "doc_durable C content items m sid \<longleftrightarrow>
     written C (dm_redis m sid) \<and> written C (db_state m sid) \<and>
     (\<forall>d md. dm_docs m sid = Some d \<longrightarrow> dm_metadata m sid = Some md \<longrightarrow> live_durable C content items d md m sid)"

fun task_durable ::
    "'d crdt \<Rightarrow> ('d \<Rightarrow> 'o set) \<Rightarrow> (bytes \<Rightarrow> 'o set) \<Rightarrow> 'd task option \<Rightarrow> 'd manager \<Rightarrow> session_id \<Rightarrow> bool" where
  "task_durable C content items (Some (Await_redis_get d sv h ts k)) m sid \<longleftrightarrow>
     content d = opt_items items (db_state m sid) \<and> clean_hash C content items h m sid"
| "task_durable C content items (Some (Await_redis_set u g removing)) m sid \<longleftrightarrow>
     (\<exists>d0. u = doc_update C d0 \<and> stored items m sid \<subseteq> content d0 \<and>
        (\<forall>d md. dm_docs m sid = Some d \<longrightarrow> dm_metadata m sid = Some md \<longrightarrow>
           content d0 \<subseteq> content d \<and> g \<le> md_generation md \<and>
           (md_generation md = g \<longrightarrow> content d \<subseteq> content d0))) \<and>
     (removing = None \<or> removing = Some g)"
| "task_durable C content items (Some (Await_db_write u sv h ts)) m sid \<longleftrightarrow>
     (\<exists>d0. u = doc_update C d0 \<and> h = sha256 C u \<and> stored items m sid \<subseteq> content d0 \<and>
        (\<forall>d. dm_docs m sid = Some d \<longrightarrow> content d0 \<subseteq> content d))"
| "task_durable C content items _ m sid \<longleftrightarrow> True"

definition session_durable ::
    "'d crdt \<Rightarrow> ('d \<Rightarrow> 'o set) \<Rightarrow> (bytes \<Rightarrow> 'o set) \<Rightarrow> 'd manager \<Rightarrow> session_id \<Rightarrow> bool" where
  "session_durable C content items m sid \<longleftrightarrow>
     guards_ok m sid \<and> doc_durable C content items m sid \<and>
     task_durable C content items (dm_tasks m sid) m sid"

definition durable :: "'d crdt \<Rightarrow> ('d \<Rightarrow> 'o set) \<Rightarrow> (bytes \<Rightarrow> 'o set) \<Rightarrow> 'd manager \<Rightarrow> bool" where
  "durable C content items m \<longleftrightarrow> crdt_laws C content items \<and> (\<forall>sid. session_durable C content items m sid)"

lemma crdt_lawsD:
  assumes "crdt_laws C content items"
  shows "content (doc_new C) = {}" "doc_apply C d u = Some d' \<Longrightarrow> content d' = content d \<union> items u"
    "items (doc_update C d) = content d" "\<exists>d'. doc_apply C e (doc_update C d) = Some d'"
    "content d \<subseteq> content (doc_clear C d)" "content d \<subseteq> content (doc_insert C d i s)"
  using assms by (auto simp: crdt_laws_def)

lemma apply_logged_written:
  assumes "crdt_laws C content items" "written C u"
  shows "content (fst (apply_logged C d u)) = content d \<union> opt_items items u \<and>
    (snd (apply_logged C d u) \<longleftrightarrow> u \<noteq> None)"
proof (cases u)
  case (Some v)
  then obtain d0 where v: "v = doc_update C d0" using assms(2) by (auto simp: written_def)
  obtain d' where "doc_apply C d v = Some d'" using crdt_lawsD(4) [OF assms(1)] v by blast
  with crdt_lawsD(2) [OF assms(1) this] Some show ?thesis by (simp add: apply_logged_def opt_items_def)
qed (simp add: apply_logged_def opt_items_def)

lemma written_update [simp]: "written C (Some (doc_update C d))" "written C None"
  by (auto simp: written_def)

lemma opt_items_simps [simp]: "opt_items items None = {}" "opt_items items (Some u) = items u"
  by (simp_all add: opt_items_def)

section \<open>Every safe step keeps the invariant\<close>

lemma stored_frames [simp, frame_simps]:
  "stored items (m\<lparr>dm_docs := x1\<rparr>) = stored items m"
  "stored items (m\<lparr>dm_metadata := x2\<rparr>) = stored items m"
  "stored items (m\<lparr>dm_guards := x3\<rparr>) = stored items m"
  "stored items (m\<lparr>dm_loading := x4\<rparr>) = stored items m"
  "stored items (m\<lparr>dm_tasks := x5\<rparr>) = stored items m"
  "stored items (m\<lparr>dm_waiting := x6\<rparr>) = stored items m"
  by (simp_all add: stored_def db_state_def fun_eq_iff)

lemma db_state_frames [simp, frame_simps]:
  "db_state (m\<lparr>dm_docs := x1\<rparr>) = db_state m"
  "db_state (m\<lparr>dm_metadata := x2\<rparr>) = db_state m"
  "db_state (m\<lparr>dm_guards := x3\<rparr>) = db_state m"
  "db_state (m\<lparr>dm_loading := x4\<rparr>) = db_state m"
  "db_state (m\<lparr>dm_tasks := x5\<rparr>) = db_state m"
  "db_state (m\<lparr>dm_waiting := x6\<rparr>) = db_state m"
  "db_state (m\<lparr>dm_redis := x7\<rparr>) = db_state m"
  by (simp_all add: db_state_def fun_eq_iff)

lemma clean_hash_frames [simp, frame_simps]:
  "clean_hash C content items h (m\<lparr>dm_docs := x1\<rparr>) = clean_hash C content items h m"
  "clean_hash C content items h (m\<lparr>dm_metadata := x2\<rparr>) = clean_hash C content items h m"
  "clean_hash C content items h (m\<lparr>dm_guards := x3\<rparr>) = clean_hash C content items h m"
  "clean_hash C content items h (m\<lparr>dm_loading := x4\<rparr>) = clean_hash C content items h m"
  "clean_hash C content items h (m\<lparr>dm_tasks := x5\<rparr>) = clean_hash C content items h m"
  "clean_hash C content items h (m\<lparr>dm_waiting := x6\<rparr>) = clean_hash C content items h m"
  "clean_hash C content items h (m\<lparr>dm_redis := x7\<rparr>) = clean_hash C content items h m"
  by (simp_all add: clean_hash_def fun_eq_iff)

lemma recoverable_frames [simp, frame_simps]:
  "recoverable content items (m\<lparr>dm_metadata := x2\<rparr>) = recoverable content items m"
  "recoverable content items (m\<lparr>dm_guards := x3\<rparr>) = recoverable content items m"
  "recoverable content items (m\<lparr>dm_loading := x4\<rparr>) = recoverable content items m"
  "recoverable content items (m\<lparr>dm_tasks := x5\<rparr>) = recoverable content items m"
  "recoverable content items (m\<lparr>dm_waiting := x6\<rparr>) = recoverable content items m"
  by (simp_all add: recoverable_def fun_eq_iff)

text \<open>An edit of the live document that counts a new generation.\<close>
definition edited :: "('d \<Rightarrow> 'o set) \<Rightarrow> 'd manager \<Rightarrow> session_id \<Rightarrow> 'd manager \<Rightarrow> bool" where
  "edited content m sid m' \<longleftrightarrow>
     (\<exists>d d' md. dm_docs m sid = Some d \<and> dm_metadata m sid = Some md \<and> content d \<subseteq> content d' \<and>
        m' = m\<lparr>dm_docs := (dm_docs m)(sid \<mapsto> d'),
               dm_metadata := (dm_metadata m)(sid \<mapsto> md\<lparr>md_generation := md_generation md + 1\<rparr>)\<rparr>)"

lemma edited_durable:
  assumes "edited content m sid m'" "doc_durable C content items m sid" "task_durable C content items t m sid"
  shows "doc_durable C content items m' sid \<and> task_durable C content items t m' sid \<and>
    recoverable content items m sid \<subseteq> recoverable content items m' sid"
proof -
  obtain d d' md where docs: "dm_docs m sid = Some d" "dm_metadata m sid = Some md"
    and grows: "content d \<subseteq> content d'"
    and m': "m' = m\<lparr>dm_docs := (dm_docs m)(sid \<mapsto> d'),
        dm_metadata := (dm_metadata m)(sid \<mapsto> md\<lparr>md_generation := md_generation md + 1\<rparr>)\<rparr>"
    using assms(1) unfolding edited_def by blast
  have live: "live_durable C content items d md m sid"
    using assms(2) docs by (simp add: doc_durable_def)
  have "live_durable C content items d' (md\<lparr>md_generation := md_generation md + 1\<rparr>) m' sid"
    using live grows by (auto simp: live_durable_def m')
  then have "doc_durable C content items m' sid"
    using assms(2) by (simp add: doc_durable_def m')
  moreover have "task_durable C content items t m' sid"
  proof (cases "(C, content, items, t, m, sid)" rule: task_durable.cases)
    case (2 C' content' items' u g removing m'' sid')
    then obtain d0 where "u = doc_update C d0" "stored items m sid \<subseteq> content d0" "content d0 \<subseteq> content d"
      "g \<le> md_generation md" "removing = None \<or> removing = Some g"
      using assms(3) docs by auto
    with 2 grows show ?thesis by (auto simp: m')
  next
    case (3 C' content' items' u sv h ts m'' sid')
    then obtain d0 where "u = doc_update C d0" "h = sha256 C u" "stored items m sid \<subseteq> content d0" "content d0 \<subseteq> content d"
      using assms(3) docs by auto
    with 3 grows show ?thesis by (auto simp: m')
  qed (use assms(3) in \<open>auto simp: m'\<close>)
  ultimately show ?thesis
    using live grows docs by (auto simp: recoverable_def m')
qed

lemma sync_edits:
  assumes laws: "crdt_laws C content items" and ok: "guards_ok m sid"
    and safe: "dm_docs m sid \<noteq> None \<or> sid \<in> dm_loading m"
  shows "fst (apply_update C m sid u) = m \<or> edited content m sid (fst (apply_update C m sid u))"
    and "fst (restore_text_from_state C m sid u) = m \<or> edited content m sid (fst (restore_text_from_state C m sid u))"
    and "fst (get_state_vector C m sid) = m" "fst (encode_state_as_update C m sid sv) = m"
proof -
  show "fst (get_state_vector C m sid) = m" "fst (encode_state_as_update C m sid sv) = m"
    using safe by (cases rule: get_or_create_cases [of m sid C];
        auto simp: get_state_vector_def encode_state_as_update_def)+
  show "fst (apply_update C m sid u) = m \<or> edited content m sid (fst (apply_update C m sid u))"
  proof (cases rule: get_or_create_cases [of m sid C])
    case (present d)
    obtain md where md: "dm_metadata m sid = Some md" using guards_ok_metadata [OF ok present(1)] by blast
    show ?thesis
    proof (cases "doc_apply C d u")
      case (Some d')
      have "content d \<subseteq> content d'" using crdt_lawsD(2) [OF laws Some] by blast
      then show ?thesis using present md Some
        by (auto simp: apply_update_def bump_generation_def edited_def)
    qed (use present in \<open>simp add: apply_update_def\<close>)
  qed (use safe in \<open>auto simp: apply_update_def\<close>)
  show "fst (restore_text_from_state C m sid u) = m \<or> edited content m sid (fst (restore_text_from_state C m sid u))"
  proof (cases rule: get_or_create_cases [of m sid C])
    case (present d)
    obtain md where md: "dm_metadata m sid = Some md" using guards_ok_metadata [OF ok present(1)] by blast
    have "content d \<subseteq> content (doc_insert C (doc_clear C d) 0 t)" "content d \<subseteq> content (doc_clear C d)" for t
      using crdt_lawsD(5) [OF laws, of d] crdt_lawsD(6) [OF laws, of "doc_clear C d" 0 t] by auto
    note grow = this
    have ed: "edited content m sid (m\<lparr>dm_docs := (dm_docs m)(sid \<mapsto> d'),
        dm_metadata := (dm_metadata m)(sid \<mapsto> md\<lparr>md_generation := Suc (md_generation md)\<rparr>)\<rparr>)"
      if "content d \<subseteq> content d'" for d'
      using that present md by (auto simp: edited_def)
    show ?thesis using present md grow ed
      by (auto simp: restore_text_from_state_def bump_generation_def Let_def split: option.splits)
  qed (use safe in \<open>auto simp: restore_text_from_state_def Let_def split: option.splits\<close>)
qed

definition progress_durable ::
    "'d crdt \<Rightarrow> ('d \<Rightarrow> 'o set) \<Rightarrow> (bytes \<Rightarrow> 'o set) \<Rightarrow> session_id \<Rightarrow> 'd manager \<Rightarrow> 'd manager \<times> 'd progress \<Rightarrow> bool" where
  "progress_durable C content items sid m mp \<longleftrightarrow>
     doc_durable C content items (fst mp) sid \<and>
     task_durable C content items (case snd mp of Suspend t \<Rightarrow> Some t | Done _ \<Rightarrow> None) (fst mp) sid \<and>
     recoverable content items m sid \<subseteq> recoverable content items (fst mp) sid"

lemma doc_durable_frames [simp, frame_simps]:
  "doc_durable C content items (m\<lparr>dm_guards := x3\<rparr>) = doc_durable C content items m"
  "doc_durable C content items (m\<lparr>dm_loading := x4\<rparr>) = doc_durable C content items m"
  "doc_durable C content items (m\<lparr>dm_tasks := x5\<rparr>) = doc_durable C content items m"
  "doc_durable C content items (m\<lparr>dm_waiting := x6\<rparr>) = doc_durable C content items m"
  by (simp_all add: doc_durable_def live_durable_def fun_eq_iff)

lemma persist_begin_durable:
  assumes "doc_durable C content items m sid" "dm_docs m sid = Some d" "dm_metadata m sid = Some md"
  shows "progress_durable C content items sid m (persist_begin C now m d)"
  using assms by (auto simp: progress_durable_def persist_begin_def Let_def doc_durable_def live_durable_def)

lemma begin_durable:
  assumes "guard_ok None 1 m sid" "doc_durable C content items m sid"
  shows "progress_durable C content items sid m (begin_request C now m sid req)"
proof (cases "dm_docs m sid")
  case None
  with assms show ?thesis
    by (cases req) (auto simp: progress_durable_def load_begin_def checkpoint_begin_def recoverable_def)
next
  case (Some d)
  with assms(1) obtain md where md: "dm_metadata m sid = Some md" by (auto simp: guard_ok_def)
  with assms Some persist_begin_durable [OF assms(2) Some md] show ?thesis
    by (cases req)
      (auto simp: progress_durable_def checkpoint_begin_def doc_durable_def live_durable_def)
qed

lemma stored_db_read: "opt_items items (db_state m sid) \<subseteq> stored items m sid"
  by (simp add: stored_def)

lemma resume_db_read_durable:
  assumes "crdt_laws C content items" "doc_durable C content items m sid" "dm_docs m sid = None"
  shows "progress_durable C content items sid m (resume_db_read C m sid k outcome)"
proof (cases outcome)
  case Io_ok
  let ?d = "fst (apply_logged C (doc_new C) (db_state m sid))"
  have "content ?d = opt_items items (db_state m sid)"
    using apply_logged_written [OF assms(1), of "db_state m sid" "doc_new C"] assms(2) crdt_lawsD(1) [OF assms(1)]
    by (simp add: doc_durable_def)
  then have "task_durable C content items (Some (Await_redis_get ?d sv (sha256 C (doc_update C ?d)) ts k)) m sid" for sv ts
    by (auto simp: clean_hash_def)
  then show ?thesis
    using Io_ok assms(2) by (simp add: progress_durable_def resume_db_read_def Let_def db_state_def del: task_durable.simps)
qed (use assms in \<open>simp_all add: progress_durable_def resume_db_read_def end_loading_def recoverable_def\<close>)

lemma resume_redis_get_durable:
  assumes laws: "crdt_laws C content items" and dur: "doc_durable C content items m sid"
    and none: "dm_docs m sid = None"
    and task: "task_durable C content items (Some (Await_redis_get d sv h ts k)) m sid"
    and safe: "\<forall>b. outcome \<noteq> Io_failed b"
  shows "progress_durable C content items sid m (resume_redis_get C now m sid d sv h ts k outcome)"
proof (cases outcome)
  case Io_ok
  obtain d' rec where a: "apply_logged C d (dm_redis m sid) = (d', rec)" by fastforce
  have d': "content d' = stored items m sid" and rec: "rec \<longleftrightarrow> dm_redis m sid \<noteq> None"
    using apply_logged_written [OF laws, of "dm_redis m sid" d] dur task a
    by (auto simp: doc_durable_def stored_def)
  let ?md = "\<lparr>md_generation = 0, md_checkpointed_generation = (if rec then Some 0 else None),
    md_saved_state_vector = sv, md_saved_state_hash = h, md_saved_at = ts\<rparr>"
  let ?m = "end_loading (m\<lparr>dm_docs := (dm_docs m)(sid \<mapsto> d'), dm_metadata := (dm_metadata m)(sid \<mapsto> ?md)\<rparr>) sid"
  have "live_durable C content items d' ?md ?m sid"
    using d' task by (simp add: live_durable_def end_loading_def)
  then have ok: "doc_durable C content items ?m sid"
    using dur by (simp add: doc_durable_def end_loading_def live_durable_def)
  have grows: "recoverable content items m sid \<subseteq> recoverable content items ?m sid"
    by (auto simp: recoverable_def none end_loading_def)
  show ?thesis
  proof (cases k)
    case Return_doc
    with ok grows Io_ok a show ?thesis
      by (simp add: progress_durable_def resume_redis_get_def)
  next
    case Then_persist
    have "progress_durable C content items sid ?m (persist_begin C now ?m d')"
      by (rule persist_begin_durable [OF ok]) (simp_all add: end_loading_def)
    with grows Then_persist Io_ok a show ?thesis
      by (simp add: progress_durable_def resume_redis_get_def persist_begin_def Let_def)
  qed
next
  case (Io_failed b)
  with safe show ?thesis by blast
next
  case (Io_cancelled b)
  with dur show ?thesis
    by (simp add: progress_durable_def resume_redis_get_def end_loading_def)
qed

text \<open>A write of content that includes what is stored only adds to the storage.\<close>

lemma write_redis_stored:
  assumes "crdt_laws C content items" "u = doc_update C d0" "stored items m sid \<subseteq> content d0"
  shows "stored items (m\<lparr>dm_redis := (dm_redis m)(sid \<mapsto> u)\<rparr>) sid = content d0"
  using assms crdt_lawsD(3) [OF assms(1), of d0] by (auto simp: stored_def)

lemma resume_redis_set_durable:
  assumes laws: "crdt_laws C content items" and dur: "doc_durable C content items m sid"
    and docs: "dm_docs m sid = Some d" "dm_metadata m sid = Some md"
    and task: "task_durable C content items (Some (Await_redis_set u g removing)) m sid"
  shows "progress_durable C content items sid m (resume_redis_set m sid u g removing outcome)"
proof -
  obtain d0 where u: "u = doc_update C d0" and d0: "stored items m sid \<subseteq> content d0" "content d0 \<subseteq> content d"
      "g \<le> md_generation md" "md_generation md = g \<longrightarrow> content d \<subseteq> content d0"
    and removing: "removing = None \<or> removing = Some g"
    using task docs by auto
  let ?m = "m\<lparr>dm_redis := (dm_redis m)(sid \<mapsto> u)\<rparr>"
  have st: "stored items ?m sid = content d0" by (rule write_redis_stored [OF laws u d0(1)])
  have live: "live_durable C content items d md m sid" using dur docs by (simp add: doc_durable_def)
  have w: "written C (dm_redis ?m sid)" "written C (db_state ?m sid)"
    using dur by (simp_all add: u doc_durable_def)
  have failed: "doc_durable C content items ?m sid"
    using w docs live st d0 by (auto simp: doc_durable_def live_durable_def)
  have grows: "recoverable content items m sid \<subseteq> recoverable content items ?m sid"
    using st d0 by (auto simp: recoverable_def docs)
  let ?md = "md\<lparr>md_checkpointed_generation := Some g\<rparr>"
  let ?m1 = "?m\<lparr>dm_metadata := (dm_metadata m)(sid \<mapsto> ?md)\<rparr>"
  have done1: "doc_durable C content items ?m1 sid"
    using w docs live st d0 by (auto simp: doc_durable_def live_durable_def)
  have done2: "doc_durable C content items (?m1\<lparr>dm_docs := (dm_docs m)(sid := None), dm_metadata := (dm_metadata m)(sid := None)\<rparr>) sid"
    using w by (simp add: doc_durable_def)
  have grows2: "recoverable content items m sid
      \<subseteq> recoverable content items (?m1\<lparr>dm_docs := (dm_docs m)(sid := None), dm_metadata := (dm_metadata m)(sid := None)\<rparr>) sid"
    if "md_generation md = g"
    using st d0 that by (auto simp: recoverable_def docs)
  show ?thesis
    using failed grows done1 done2 grows2 removing dur docs
    by (cases outcome; cases removing)
      (auto simp: progress_durable_def resume_redis_set_def write_redis_def Let_def)
qed

lemma resume_db_write_durable:
  assumes laws: "crdt_laws C content items" and dur: "doc_durable C content items m sid"
    and docs: "dm_docs m sid = Some d" "dm_metadata m sid = Some md"
    and task: "task_durable C content items (Some (Await_db_write u sv h ts)) m sid"
  shows "progress_durable C content items sid m (resume_db_write C m sid u sv h ts outcome)"
proof -
  obtain d0 where u: "u = doc_update C d0" and h: "h = sha256 C u"
    and d0: "stored items m sid \<subseteq> content d0" "content d0 \<subseteq> content d"
    using task docs by auto
  let ?m = "m\<lparr>dm_db := (dm_db m)(sid := map_option (\<lambda>_. (Some u, ts)) (dm_db m sid))\<rparr>"
  have db: "opt_items items (db_state ?m sid) = (if dm_db m sid = None then opt_items items (db_state m sid) else content d0)"
    using crdt_lawsD(3) [OF laws] by (auto simp: db_state_def u split: option.splits)
  have st: "stored items m sid \<subseteq> stored items ?m sid" "stored items ?m sid \<subseteq> content d0"
    using d0 db by (auto simp: stored_def split: if_splits)
  have live: "live_durable C content items d md m sid" using dur docs by (simp add: doc_durable_def)
  have w: "written C (dm_redis ?m sid)" "written C (db_state ?m sid)"
    using dur by (auto simp: u doc_durable_def db_state_def split: option.splits)
  have clean: "clean_hash C content items h ?m sid" using db by (auto simp: clean_hash_def h u)
  have clean_old: "clean_hash C content items (md_saved_state_hash md) ?m sid"
    using live db d0 stored_db_read [of items m sid]
    by (fastforce simp: live_durable_def clean_hash_def split: if_splits)
  have failed: "doc_durable C content items ?m sid"
    using w docs live st d0 clean_old by (auto simp: doc_durable_def live_durable_def)
  have grows: "recoverable content items m sid \<subseteq> recoverable content items ?m sid"
    using st d0 by (auto simp: recoverable_def docs)
  let ?md = "md\<lparr>md_saved_state_vector := sv, md_saved_state_hash := h, md_saved_at := Some ts\<rparr>"
  have "doc_durable C content items (?m\<lparr>dm_metadata := (dm_metadata m)(sid \<mapsto> ?md)\<rparr>) sid"
    using w docs live st d0 clean by (auto simp: doc_durable_def live_durable_def)
  with failed grows dur docs show ?thesis
    by (cases outcome) (auto simp: progress_durable_def resume_db_write_def write_db_def Let_def)
qed

lemma resume_durable:
  assumes laws: "crdt_laws C content items" and ok: "guard_ok (Some t) 1 m sid"
    and dur: "doc_durable C content items m sid" and task: "task_durable C content items (Some t) m sid"
    and safe: "\<And>d sv h ts k b. t = Await_redis_get d sv h ts k \<Longrightarrow> outcome \<noteq> Io_failed b"
  shows "progress_durable C content items sid m (resume_task C now m sid t outcome)"
proof (cases t)
  case (Await_db_read k)
  with ok have "dm_docs m sid = None" by (simp add: guard_ok_def)
  from resume_db_read_durable [OF laws dur this] Await_db_read show ?thesis by simp
next
  case (Await_redis_get d sv h ts k)
  with ok have "dm_docs m sid = None" by (simp add: guard_ok_def)
  from resume_redis_get_durable [OF laws dur this] task safe Await_redis_get show ?thesis by simp
next
  case (Await_redis_set u g removing)
  with ok obtain d md where "dm_docs m sid = Some d" "dm_metadata m sid = Some md"
    by (auto simp: guard_ok_def)
  from resume_redis_set_durable [OF laws dur this] task Await_redis_set show ?thesis by simp
next
  case (Await_db_write u sv h ts)
  with ok obtain d md where "dm_docs m sid = Some d" "dm_metadata m sid = Some md"
    by (auto simp: guard_ok_def)
  from resume_db_write_durable [OF laws dur this] task Await_db_write show ?thesis by simp
qed

lemma remove_doc_durable:
  assumes "guards_ok m sid" "doc_durable C content items m sid"
    "task_durable C content items (dm_tasks m sid) m sid"
  shows "doc_durable C content items (fst (remove_doc m sid)) sid \<and>
    task_durable C content items (dm_tasks (fst (remove_doc m sid)) sid) (fst (remove_doc m sid)) sid \<and>
    recoverable content items m sid \<subseteq> recoverable content items (fst (remove_doc m sid)) sid"
proof (cases "fst (remove_doc m sid) = m")
  case False
  then obtain md where md: "dm_metadata m sid = Some md" "md_checkpointed_generation md = Some (md_generation md)"
    and m': "fst (remove_doc m sid) = m\<lparr>dm_docs := (dm_docs m)(sid := None),
      dm_metadata := (dm_metadata m)(sid := None), dm_guards := (dm_guards m)(sid := None)\<rparr>"
    and users: "users_of m sid = 0"
    by (auto simp: remove_doc_def users_of_def split: option.splits if_splits)
  have tasks: "dm_tasks m sid = None"
    using users assms(1) by (auto simp: guards_ok_def guard_ok_def split: if_splits)
  obtain d where d: "dm_docs m sid = Some d" using assms(1) md by (auto simp: guards_ok_def guard_ok_def)
  have "content d \<subseteq> stored items m sid" using assms(2) d md by (simp add: doc_durable_def live_durable_def)
  with assms(2) show ?thesis by (simp add: m' tasks doc_durable_def recoverable_def d)
qed (use assms in simp)

lemma task_durable_frames:
  assumes "dm_docs m' = dm_docs m" "dm_metadata m' = dm_metadata m" "dm_redis m' = dm_redis m" "dm_db m' = dm_db m"
  shows "task_durable C content items t m' sid = task_durable C content items t m sid"
proof -
  have "stored items m' = stored items m" "db_state m' = db_state m" "clean_hash C content items h m' = clean_hash C content items h m" for h
    using assms by (simp_all add: stored_def db_state_def clean_hash_def fun_eq_iff)
  with assms show ?thesis
    by (cases "(C, content, items, t, m, sid)" rule: task_durable.cases) auto
qed

lemma settle_durable:
  assumes "progress_durable C content items sid m mp"
  shows "doc_durable C content items (fst (settle sid mp)) sid \<and>
    task_durable C content items (dm_tasks (fst (settle sid mp)) sid) (fst (settle sid mp)) sid \<and>
    recoverable content items m sid \<subseteq> recoverable content items (fst (settle sid mp)) sid"
proof (cases mp)
  case (Pair m1 p)
  show ?thesis
  proof (cases p)
    case (Suspend t)
    have "task_durable C content items (Some t) (m1\<lparr>dm_tasks := (dm_tasks m1)(sid \<mapsto> t)\<rparr>) sid
        = task_durable C content items (Some t) m1 sid"
      by (rule task_durable_frames) simp_all
    with assms Pair Suspend show ?thesis by (simp add: progress_durable_def settle_def)
  next
    case (Done r)
    with assms Pair show ?thesis
      by (simp add: progress_durable_def settle_def leave_guard_def Let_def)
  qed
qed

definition step_durable ::
    "'d crdt \<Rightarrow> ('d \<Rightarrow> 'o set) \<Rightarrow> (bytes \<Rightarrow> 'o set) \<Rightarrow> 'd manager \<Rightarrow> 'd manager \<Rightarrow> session_id \<Rightarrow> bool" where
  "step_durable C content items m m' sid \<longleftrightarrow>
     doc_durable C content items m' sid \<and> task_durable C content items (dm_tasks m' sid) m' sid \<and>
     recoverable content items m sid \<subseteq> recoverable content items m' sid"

lemma step_durable_refl:
  "session_durable C content items m sid \<Longrightarrow> step_durable C content items m m sid"
  by (simp add: step_durable_def session_durable_def)

lemma step_durable_frames:
  assumes "session_durable C content items m sid" "dm_docs m' = dm_docs m" "dm_metadata m' = dm_metadata m"
    "dm_redis m' = dm_redis m" "dm_db m' = dm_db m" "dm_tasks m' sid = dm_tasks m sid"
  shows "step_durable C content items m m' sid"
proof -
  have "doc_durable C content items m' sid = doc_durable C content items m sid"
    "recoverable content items m' sid = recoverable content items m sid"
    using assms by (simp_all add: doc_durable_def live_durable_def stored_def db_state_def clean_hash_def recoverable_def)
  with assms(1,6) task_durable_frames [OF assms(2-5), of C content items] show ?thesis
    by (simp add: step_durable_def session_durable_def)
qed

lemma sync_durable:
  assumes "session_durable C content items m sid" "m' = m \<or> edited content m sid m'"
  shows "step_durable C content items m m' sid"
proof -
  have "dm_tasks m' sid = dm_tasks m sid" using assms(2) by (auto simp: edited_def)
  with assms edited_durable [of content m sid m' C items "dm_tasks m sid"] show ?thesis
    by (auto simp: step_durable_def session_durable_def)
qed

lemma safe_step_durable:
  assumes laws: "crdt_laws C content items" and dur: "session_durable C content items m sid"
    and safe: "safe_event m ev" and ev: "ev_session ev = sid"
  shows "step_durable C content items m (dm_step C m ev) sid"
proof -
  have ok: "guards_ok m sid" and doc: "doc_durable C content items m sid"
    and task: "task_durable C content items (dm_tasks m sid) m sid"
    using dur by (simp_all add: session_durable_def)
  show ?thesis
  proof (cases ev)
    case (Call s req now)
    let ?m = "enter_guard m sid"
    have same: "dm_docs ?m = dm_docs m" "dm_metadata ?m = dm_metadata m" "dm_redis ?m = dm_redis m" "dm_db ?m = dm_db m"
      "dm_tasks ?m = dm_tasks m" "dm_waiting ?m = dm_waiting m" by (simp_all add: enter_guard_def)
    have entered: "step_durable C content items m ?m sid" by (rule step_durable_frames [OF dur]) (simp_all add: same)
    show ?thesis
    proof (cases "dm_tasks m sid = None \<and> dm_waiting m sid = []")
      case True
      then have "guard_ok None 1 ?m sid" using guard_ok_enter [OF ok] by simp
      from settle_durable [OF begin_durable [OF this]] entered
      have "step_durable C content items m (fst (settle sid (begin_request C now ?m sid req))) sid"
        unfolding step_durable_def by blast
      with True Call ev same show ?thesis by (simp add: dm_step_def Let_def)
    next
      case False
      have "step_durable C content items m (?m\<lparr>dm_waiting := (dm_waiting m)(sid := dm_waiting m sid @ [req])\<rparr>) sid"
        by (rule step_durable_frames [OF dur]) (simp_all add: same)
      with False Call ev same show ?thesis by (auto simp: dm_step_def Let_def)
    qed
  next
    case (Wake s now)
    show ?thesis
    proof (cases "dm_tasks m sid = None \<and> dm_waiting m sid \<noteq> []")
      case True
      then obtain req reqs where w: "dm_waiting m sid = req # reqs" by (cases "dm_waiting m sid") auto
      let ?m = "m\<lparr>dm_waiting := (dm_waiting m)(sid := reqs)\<rparr>"
      have "guard_ok None 1 ?m sid"
        using ok True w by (simp add: guards_ok_def guard_ok_def users_of_def)
      from settle_durable [OF begin_durable [OF this]] doc
      have "step_durable C content items m (fst (settle sid (begin_request C now ?m sid req))) sid"
        unfolding step_durable_def by simp
      with True w Wake ev show ?thesis by (simp add: dm_step_def)
    next
      case False
      then have "dm_step C m ev = m"
        using Wake ev by (auto simp: dm_step_def split: option.splits list.splits)
      with dur show ?thesis by (simp add: step_durable_refl)
    qed
  next
    case (Abandon s i)
    with ev show ?thesis
      by (auto simp: dm_step_def leave_guard_def Let_def intro!: step_durable_frames [OF dur])
  next
    case (Resume s outcome now)
    show ?thesis
    proof (cases "dm_tasks m sid")
      case (Some t)
      then have g: "guard_ok (Some t) 1 m sid" using ok by (simp add: guards_ok_def)
      have t: "task_durable C content items (Some t) m sid" using task Some by simp
      have "progress_durable C content items sid m (resume_task C now m sid t outcome)"
        by (rule resume_durable [OF laws g doc t]) (use safe Resume ev Some in auto)
      from settle_durable [OF this]
      have "step_durable C content items m (fst (settle sid (resume_task C now m sid t outcome))) sid"
        unfolding step_durable_def by blast
      with Some Resume ev show ?thesis by (simp add: dm_step_def)
    qed (use Resume ev dur in \<open>simp add: dm_step_def step_durable_refl\<close>)
  next
    case (Sync_remove s)
    with ev remove_doc_durable [OF ok doc task] show ?thesis
      by (simp add: dm_step_def step_durable_def case_prod_beta)
  qed (use ev safe sync_edits [OF laws ok] sync_durable [OF dur] step_durable_refl [OF dur] in
      \<open>simp_all add: dm_step_def\<close>)
qed

text \<open>The machine that skips unsafe events.\<close>
definition safe_step :: "'d crdt \<Rightarrow> 'd manager \<Rightarrow> event \<Rightarrow> 'd manager" where
  "safe_step C m ev = (if safe_event m ev then dm_step C m ev else m)"

definition retains :: "('d \<Rightarrow> 'o set) \<Rightarrow> (bytes \<Rightarrow> 'o set) \<Rightarrow> 'd manager \<Rightarrow> 'd manager \<Rightarrow> bool" where
  "retains content items m m' \<longleftrightarrow> (\<forall>sid. recoverable content items m sid \<subseteq> recoverable content items m' sid)"

lemma session_durable_same:
  assumes "same_at sid m m'" "session_durable C content items m sid"
  shows "session_durable C content items m' sid \<and> recoverable content items m' sid = recoverable content items m sid"
proof -
  have "task_durable C content items t m' sid = task_durable C content items t m sid" for t
    using assms(1)
    by (cases "(C, content, items, t, m, sid)" rule: task_durable.cases)
      (auto simp: same_at_def stored_def db_state_def clean_hash_def)
  with assms guards_ok_same [OF assms(1)] show ?thesis
    by (auto simp: same_at_def session_durable_def doc_durable_def live_durable_def stored_def db_state_def
        clean_hash_def recoverable_def)
qed

lemma safe_step_ok:
  assumes "durable C content items m"
  shows "durable C content items (safe_step C m ev) \<and> retains content items m (safe_step C m ev)"
proof (cases "safe_event m ev")
  case True
  have "session_durable C content items (dm_step C m ev) sid \<and>
      recoverable content items m sid \<subseteq> recoverable content items (dm_step C m ev) sid" for sid
  proof (cases "ev_session ev = sid")
    case False
    with session_durable_same [OF same_at_event [of sid ev m C]] assms show ?thesis
      by (auto simp: durable_def)
  next
    case ev: True
    with assms safe_step_durable [OF _ _ True ev, of C content items] guards_ok_event [OF _ ev, of m C]
    show ?thesis by (auto simp: durable_def session_durable_def step_durable_def)
  qed
  with True assms show ?thesis by (simp add: safe_step_def durable_def retains_def)
qed (use assms in \<open>simp add: safe_step_def retains_def\<close>)

interpretation durability: monotone_machine "safe_step C" "durable C content items" "retains content items"
  for C :: "'d crdt" and content :: "'d \<Rightarrow> 'o set" and items :: "bytes \<Rightarrow> 'o set"
proof unfold_locales
  show "retains content items s s" for s by (simp add: retains_def)
  show "retains content items s t \<Longrightarrow> retains content items t u \<Longrightarrow> retains content items s u" for s t u
    unfolding retains_def by blast
qed (use safe_step_ok in blast)+

lemma run_safe: "safe_run C m evs \<Longrightarrow> run (dm_step C) m evs = run (safe_step C) m evs"
  by (induction C m evs rule: safe_run.induct) (auto simp: safe_step_def)

section \<open>Properties\<close>

definition stored_by_program ::
    "'d crdt \<Rightarrow> (session_id \<Rightarrow> bytes option) \<Rightarrow> (session_id \<Rightarrow> (bytes option \<times> datetime) option) \<Rightarrow> bool" where
  "stored_by_program C redis database \<longleftrightarrow>
     (\<forall>sid. written C (redis sid) \<and> (\<forall>state ts. database sid = Some (state, ts) \<longrightarrow> written C state))"

lemma durable_new:
  fixes C :: "'d crdt"
  assumes "crdt_laws C content items" "stored_by_program C redis database"
  shows "durable C content items (new_manager redis database)"
proof -
  let ?m = "new_manager redis database :: 'd manager"
  have "guards_ok ?m sid" for sid
    using manager_ok_new unfolding manager_ok_def by blast
  moreover have "doc_durable C content items ?m sid" for sid
    using assms(2) by (auto simp: doc_durable_def new_manager_def stored_by_program_def db_state_def split: option.splits)
  moreover have "dm_tasks ?m sid = None" for sid by (simp add: new_manager_def)
  ultimately show ?thesis
    using assms(1) by (simp add: durable_def session_durable_def)
qed

lemma durable_run:
  assumes "crdt_laws C content items" "stored_by_program C redis database"
    "safe_run C (new_manager redis database) evs"
  shows "durable C content items (run (dm_step C) (new_manager redis database) evs)"
  unfolding run_safe [OF assms(3)] by (rule durability.run_inv [OF durable_new [OF assms(1,2)]])

lemma safe_run_append:
  "safe_run C m (evs1 @ evs2) \<longleftrightarrow> safe_run C m evs1 \<and> safe_run C (run (dm_step C) m evs1) evs2"
  by (induction C m evs1 rule: safe_run.induct) auto

lemma retains_run:
  assumes "durable C content items m" "safe_run C m evs"
  shows "recoverable content items m sid \<subseteq> recoverable content items (run (dm_step C) m evs) sid"
  using durability.run_below [OF assms(1), of evs] run_safe [OF assms(2)] by (simp add: retains_def)

lemma apply_update_items:
  assumes "crdt_laws C content items" "apply_update C m sid u = (m', Inr ())"
  shows "items u \<subseteq> recoverable content items m' sid"
proof -
  obtain m1 d where g: "get_or_create C m sid = (m1, Inr d)"
    using assms(2) by (auto simp: apply_update_def split: prod.splits sum.splits)
  then obtain d' where d': "doc_apply C d u = Some d'"
    and b: "bump_generation (m1\<lparr>dm_docs := (dm_docs m1)(sid \<mapsto> d')\<rparr>) sid = (m', Inr ())"
    using assms(2) by (auto simp: apply_update_def split: option.splits)
  have "dm_docs m' sid = Some d'"
    using b by (auto simp: bump_generation_def split: option.splits)
  with crdt_lawsD(2) [OF assms(1) d'] show ?thesis by (auto simp: recoverable_def)
qed

text \<open>C5: An accepted edit is not lost as long as checkpoints can be read and do not expire: however loads, further edits,
  checkpoints, saves, evictions, failing writes and database reads, and cancellations interleave afterwards, what the
  update contained, and everything else the session could show before, remains in the live document, the Redis
  checkpoint or the saved database state. The hypothesis \<open>safe_run\<close> leaves out two events: a read of the checkpoint
  that fails while a document is loaded (\<open>failed_checkpoint_read_discards\<close> shows that edits are lost then) and the
  expiry of a checkpoint in Redis (after seven days by default, as documented).\<close>

theorem accepted_updates_survive:
  assumes "crdt_laws C content items" "stored_by_program C redis database"
    and "safe_run C (new_manager redis database) (evs @ Sync_apply sid u # later)"
    and "m = run (dm_step C) (new_manager redis database) evs"
    and "snd (apply_update C m sid u) = Inr ()"
  shows "items u \<union> recoverable content items m sid
    \<subseteq> recoverable content items (run (dm_step C) m (Sync_apply sid u # later)) sid"
proof -
  have safe: "safe_run C m (Sync_apply sid u # later)" "safe_run C (new_manager redis database) evs"
    using assms(3,4) by (simp_all add: safe_run_append)
  have dur: "durable C content items m"
    unfolding assms(4) by (rule durable_run [OF assms(1,2) safe(2)])
  let ?m = "dm_step C m (Sync_apply sid u)"
  have "items u \<subseteq> recoverable content items ?m sid"
    using apply_update_items [OF assms(1), of m sid u ?m] assms(5) by (simp add: dm_step_def prod_eq_iff)
  moreover have "durable C content items ?m"
    using safe_step_ok [OF dur, of "Sync_apply sid u"] safe(1) by (simp add: safe_step_def)
  from retains_run [OF this, of later sid] safe(1)
  have "recoverable content items ?m sid \<subseteq> recoverable content items (run (dm_step C) ?m later) sid" by simp
  ultimately show ?thesis using retains_run [OF dur safe(1), of sid] by auto
qed

abbreviation sample_load :: "event list" where
  "sample_load \<equiv> [Call 1 Load 0, Resume 1 Io_ok 0, Resume 1 Io_ok 0]"

named_theorems dm_eval \<open>evaluation of concrete runs\<close>

lemmas [dm_eval] = dm_step_def Let_def enter_guard_def leave_guard_def new_manager_def load_begin_def settle_def
  resume_db_read_def resume_redis_get_def resume_redis_set_def resume_db_write_def end_loading_def
  checkpoint_begin_def persist_begin_def write_redis_def write_db_def bump_generation_def
  apply_update_def get_or_create_def publish_new_doc_def apply_logged_def sample_crdt_def

lemma stored_by_program_empty: "stored_by_program C Map.empty Map.empty"
  by (simp add: stored_by_program_def)

theorem accepted_updates_survive_witness:
  "(3, 7) \<in> recoverable set (set \<circ> sample_items)
     (run (dm_step sample_crdt) (run (dm_step sample_crdt) (new_manager Map.empty Map.empty) sample_load)
       [Sync_apply 1 (sample_update [(3, 7)]), Call 1 Checkpoint_and_remove 0, Resume 1 Io_ok 0]) 1"
proof -
  have "safe_run sample_crdt (new_manager Map.empty Map.empty)
      (sample_load @ Sync_apply 1 (sample_update [(3, 7)]) # [Call 1 Checkpoint_and_remove 0, Resume 1 Io_ok 0])"
    by (simp add: dm_eval)
  moreover have "snd (apply_update sample_crdt (run (dm_step sample_crdt) (new_manager Map.empty Map.empty) sample_load)
      1 (sample_update [(3, 7)])) = Inr ()"
    by (simp add: dm_eval)
  ultimately show ?thesis
    using accepted_updates_survive [OF sample_crdt_laws stored_by_program_empty _ refl,
        of sample_load 1 "sample_update [(3, 7)]" "[Call 1 Checkpoint_and_remove 0, Resume 1 Io_ok 0]"]
    by (auto simp del: run.simps)
qed

text \<open>C6: Reopening a session whose document is not in memory restores exactly what was saved and
  checkpointed, as one load in which both reads succeed: the live document's content is everything recoverable.\<close>

theorem reload_restores_everything:
  assumes "crdt_laws C content items" "stored_by_program C redis database"
    and "safe_run C (new_manager redis database) evs"
    and "m = run (dm_step C) (new_manager redis database) evs"
    and "dm_docs m sid = None" "dm_tasks m sid = None" "dm_waiting m sid = []"
  shows "\<exists>d. dm_docs (run (dm_step C) m [Call sid Load now, Resume sid Io_ok now, Resume sid Io_ok now]) sid = Some d \<and>
    content d = recoverable content items m sid \<and> doc_text C d =
      read_text C (run (dm_step C) m [Call sid Load now, Resume sid Io_ok now, Resume sid Io_ok now]) sid"
proof -
  have "doc_durable C content items m sid"
    using durable_run [OF assms(1-3)] unfolding assms(4) by (simp add: durable_def session_durable_def)
  then have w: "written C (dm_redis m sid)" "written C (db_state m sid)" by (simp_all add: doc_durable_def)
  let ?d1 = "fst (apply_logged C (doc_new C) (db_state m sid))"
  obtain d b where d: "apply_logged C ?d1 (dm_redis m sid) = (d, b)" by fastforce
  have "content d = recoverable content items m sid"
    using apply_logged_written [OF assms(1) w(2), of "doc_new C"] apply_logged_written [OF assms(1) w(1), of ?d1]
      d crdt_lawsD(1) [OF assms(1)] assms(5) by (simp add: recoverable_def stored_def Un_commute)
  moreover have "dm_docs (run (dm_step C) m [Call sid Load now, Resume sid Io_ok now, Resume sid Io_ok now]) sid = Some d"
    using d [unfolded db_state_def] assms(5-7)
    by (simp add: dm_step_def Let_def enter_guard_def leave_guard_def load_begin_def settle_def
        resume_db_read_def resume_redis_get_def end_loading_def)
  ultimately show ?thesis by (simp add: read_text_def)
qed

theorem reload_restores_everything_witness:
  "\<exists>d. dm_docs (run (dm_step sample_crdt)
       (new_manager [1 \<mapsto> sample_update [(3, 7)]] Map.empty) sample_load) 1 = Some d \<and> (3, 7) \<in> set d"
proof -
  have s: "stored_by_program sample_crdt [1 \<mapsto> sample_update [(3, 7)]] Map.empty"
    by (auto simp: stored_by_program_def written_def sample_crdt_def)
  have "(3, 7) \<in> recoverable set (set \<circ> sample_items) (new_manager [1 \<mapsto> sample_update [(3, 7)]] Map.empty) 1"
    by (simp add: recoverable_def stored_def new_manager_def)
  then show ?thesis
    using reload_restores_everything [OF sample_crdt_laws s, of "[]" _ 1 0]
    by (fastforce simp: new_manager_def simp del: run.simps(2))
qed

text \<open>C7: A clean status is truthful: when the server reports a document as not dirty, the saved
  database state holds all of its content (assuming SHA-256 has no collision on full
  updates), so nothing recoverable is missing from it.\<close>

theorem clean_status_is_saved:
  assumes "crdt_laws C content items" "stored_by_program C redis database"
    and "safe_run C (new_manager redis database) evs"
    and "m = run (dm_step C) (new_manager redis database) evs"
    and "get_document_status C m sid = Some st" "\<not> st_dirty st" "dm_db m sid \<noteq> None"
    and "\<And>d d'. sha256 C (doc_update C d) = sha256 C (doc_update C d') \<Longrightarrow> doc_update C d = doc_update C d'"
  shows "opt_items items (db_state m sid) = recoverable content items m sid"
proof -
  obtain d md where d: "dm_docs m sid = Some d" "dm_metadata m sid = Some md"
    and clean: "sha256 C (doc_update C d) = md_saved_state_hash md"
    using assms(5,6) by (auto simp: get_document_status_def split: option.splits)
  have live: "live_durable C content items d md m sid"
    using durable_run [OF assms(1-3)] d unfolding assms(4) by (simp add: durable_def session_durable_def doc_durable_def)
  then obtain s where s: "md_saved_state_hash md = sha256 C (doc_update C s)" "content s \<subseteq> opt_items items (db_state m sid)"
    using assms(7) by (auto simp: live_durable_def clean_hash_def)
  with clean assms(8) [of d s] have "doc_update C d = doc_update C s" by simp
  then have "content d = content s" using crdt_lawsD(3) [OF assms(1)] by metis
  with live s stored_db_read [of items m sid] d show ?thesis
    by (auto simp: live_durable_def recoverable_def)
qed

theorem clean_status_is_saved_witness:
  "\<exists>m st. get_document_status sample_crdt m 1 = Some st \<and> \<not> st_dirty st \<and>
     (3, 7) \<in> opt_items (set \<circ> sample_items) (db_state m 1)"
proof -
  let ?start = "new_manager Map.empty [1 \<mapsto> (None, 0)] :: sample_doc manager"
  let ?evs = "sample_load @ [Sync_apply 1 (sample_update [(3, 7)]), Call 1 Persist 5, Resume 1 Io_ok 5]"
  let ?m = "run (dm_step sample_crdt) ?start ?evs"
  have s: "stored_by_program sample_crdt Map.empty [1 \<mapsto> (None, 0)]"
    by (simp add: stored_by_program_def)
  have safe: "safe_run sample_crdt ?start ?evs" by (simp add: dm_eval)
  have docs: "dm_docs ?m 1 = Some [(3, 7)]" "dm_db ?m 1 \<noteq> None"
    by (simp_all add: dm_eval)
  have "\<exists>st. get_document_status sample_crdt ?m 1 = Some st \<and> \<not> st_dirty st"
    by (simp add: dm_eval get_document_status_def)
  then obtain st where st: "get_document_status sample_crdt ?m 1 = Some st" "\<not> st_dirty st" by blast
  have inj: "doc_update sample_crdt d = doc_update sample_crdt d'"
    if "sha256 sample_crdt (doc_update sample_crdt d) = sha256 sample_crdt (doc_update sample_crdt d')" for d d'
  proof -
    have "inj (unat :: byte \<Rightarrow> nat)" by (rule injI) (simp add: word_unat_eq_iff)
    from inj_map_eq_map [OF this] that show ?thesis by (simp add: sample_crdt_def)
  qed
  have "opt_items (set \<circ> sample_items) (db_state ?m 1) = recoverable set (set \<circ> sample_items) ?m 1"
    by (rule clean_status_is_saved [OF sample_crdt_laws s safe refl st docs(2) inj])
  moreover have "(3, 7) \<in> recoverable set (set \<circ> sample_items) ?m 1"
    using docs by (simp add: recoverable_def del: run.simps)
  ultimately show ?thesis using st by metis
qed

text \<open>C9: A process crash after a checkpoint loses nothing: when the checkpointed generation is the
  current one, Redis and the database together hold the whole live document, so a restarted
  manager can recover everything.\<close>

theorem checkpoint_survives_crash:
  fixes C :: "'d crdt"
  assumes "crdt_laws C content items" "stored_by_program C redis database"
    and "safe_run C (new_manager redis database) evs"
    and "m = run (dm_step C) (new_manager redis database) evs"
    and "get_document_status C m sid = Some st" "st_checkpointed_generation st = Some (st_generation st)"
  shows "recoverable content items (new_manager (dm_redis m) (dm_db m) :: 'd manager) sid = recoverable content items m sid"
proof -
  obtain d md where d: "dm_docs m sid = Some d" "dm_metadata m sid = Some md"
    and g: "md_checkpointed_generation md = Some (md_generation md)"
    using assms(5,6) by (auto simp: get_document_status_def split: option.splits)
  have "live_durable C content items d md m sid"
    using durable_run [OF assms(1-3)] d unfolding assms(4) by (simp add: durable_def session_durable_def doc_durable_def)
  with d g show ?thesis
    by (auto simp: live_durable_def recoverable_def stored_def db_state_def new_manager_def)
qed

theorem checkpoint_survives_crash_witness:
  "\<exists>m. (3, 7) \<in> recoverable set (set \<circ> sample_items) (new_manager (dm_redis m) (dm_db m) :: sample_doc manager) 1 \<and>
     m = run (dm_step sample_crdt) (new_manager Map.empty Map.empty)
       (sample_load @ [Sync_apply 1 (sample_update [(3, 7)]), Call 1 Checkpoint 5, Resume 1 Io_ok 5])"
proof -
  let ?evs = "sample_load @ [Sync_apply 1 (sample_update [(3, 7)]), Call 1 Checkpoint 5, Resume 1 Io_ok 5]"
  let ?m = "run (dm_step sample_crdt) (new_manager Map.empty Map.empty) ?evs"
  have safe: "safe_run sample_crdt (new_manager Map.empty Map.empty) ?evs" by (simp add: dm_eval)
  have "\<exists>st. get_document_status sample_crdt ?m 1 = Some st \<and> st_checkpointed_generation st = Some (st_generation st)"
    by (simp add: dm_eval get_document_status_def)
  then obtain st where st: "get_document_status sample_crdt ?m 1 = Some st"
    "st_checkpointed_generation st = Some (st_generation st)" by blast
  have "(3, 7) \<in> recoverable set (set \<circ> sample_items) ?m 1"
    by (simp add: recoverable_def dm_eval)
  with checkpoint_survives_crash [OF sample_crdt_laws stored_by_program_empty safe refl st] show ?thesis by metis
qed

text \<open>C10: Eviction and a concurrent edit: when an update is accepted while the evicting checkpoint
  is being written, \<open>checkpoint_and_remove\<close> answers False and the edited document stays live;
  without one it answers True and the document is gone from memory.\<close>

theorem eviction_keeps_concurrent_edit:
  assumes "dm_docs m sid = Some d" "dm_metadata m sid = Some md" "dm_tasks m sid = None" "dm_waiting m sid = []"
    and "m1 = dm_step C m (Call sid Checkpoint_and_remove now)"
    and "doc_apply C d u = Some d'"
  shows "snd (dm_event C m1 (Resume sid Io_ok now)) = Some (Removed True) \<and>
    dm_docs (dm_step C m1 (Resume sid Io_ok now)) sid = None \<and>
    snd (dm_event C (dm_step C m1 (Sync_apply sid u)) (Resume sid Io_ok now)) = Some (Removed False) \<and>
    dm_docs (run (dm_step C) m1 [Sync_apply sid u, Resume sid Io_ok now]) sid = Some d'"
  using assms(1-4,6)
  by (simp add: assms(5) dm_step_def Let_def enter_guard_def leave_guard_def settle_def checkpoint_begin_def
      resume_redis_set_def write_redis_def apply_update_def get_or_create_def bump_generation_def)

theorem eviction_keeps_concurrent_edit_witness:
  "\<exists>m. snd (dm_event sample_crdt (dm_step sample_crdt m (Sync_apply 1 (sample_update [(3, 7)]))) (Resume 1 Io_ok 0))
     = Some (Removed False)"
proof -
  let ?m = "run (dm_step sample_crdt) (new_manager Map.empty Map.empty) sample_load"
  have "dm_docs ?m 1 = Some []" "\<exists>md. dm_metadata ?m 1 = Some md" "dm_tasks ?m 1 = None" "dm_waiting ?m 1 = []"
    "doc_apply sample_crdt [] (sample_update [(3, 7)]) = Some [(3, 7)]"
    by (simp_all add: dm_eval)
  with eviction_keeps_concurrent_edit [OF _ _ _ _ refl, of ?m 1 "[]" _ sample_crdt "sample_update [(3, 7)]" "[(3, 7)]" 0]
  show ?thesis by blast
qed

text \<open>C11: Restoring a snapshot replaces the visible text by the snapshot's without discarding any
  content, counts a new generation exactly when the text changes, and returns an update that
  brings every client which had the previous content to the restored text.\<close>

theorem restore_shows_snapshot:
  assumes laws: "crdt_laws C content items" "crdt_text_laws C content items"
    and "dm_docs m sid = Some d" "dm_metadata m sid = Some md" "doc_apply C (doc_new C) snap = Some s"
    and "content r = content d"
  shows "\<exists>m' u r'. restore_text_from_state C m sid snap = (m', Inr u) \<and>
    read_text C m' sid = doc_text C s \<and> doc_apply C r u = Some r' \<and> doc_text C r' = doc_text C s \<and>
    recoverable content items m sid \<subseteq> recoverable content items m' sid \<and>
    map_option md_generation (dm_metadata m' sid)
      = Some (md_generation md + (if doc_text C d = doc_text C s then 0 else 1))"
proof -
  let ?t = "doc_text C s"
  define d' where "d' = (if doc_text C d = ?t then d
    else if ?t \<noteq> [] then doc_insert C (doc_clear C d) 0 ?t else doc_clear C d)"
  have shown: "doc_text C d' = ?t"
  proof -
    have "doc_text C (doc_clear C e) = []" "doc_text C e = [] \<Longrightarrow> doc_text C (doc_insert C e 0 t) = t" for e t
      using laws(2) unfolding crdt_text_laws_def by blast+
    then show ?thesis by (simp add: d'_def)
  qed
  have "content d \<subseteq> content d'"
    using crdt_lawsD(5) [OF laws(1), of d] crdt_lawsD(6) [OF laws(1), of "doc_clear C d" 0 ?t]
    by (auto simp: d'_def)
  then obtain u where u: "doc_update_since C d' (doc_state C d) = Some u" "content d \<union> items u = content d'"
    and accepts: "doc_apply C r u \<noteq> None"
    using laws(2) unfolding crdt_text_laws_def by blast
  then obtain r' where r': "doc_apply C r u = Some r'" by blast
  have "content r' = content d'" using crdt_lawsD(2) [OF laws(1) r'] u(2) assms(6) by simp
  then have rt: "doc_text C r' = ?t" using laws(2) shown unfolding crdt_text_laws_def by metis
  show ?thesis
  proof (cases "doc_text C d = ?t")
    case True
    with u(1) have "restore_text_from_state C m sid snap = (m, Inr u)"
      using assms(3-5) by (simp add: restore_text_from_state_def get_or_create_def d'_def)
    with True r' rt assms(3,4) show ?thesis by (auto simp: read_text_def)
  next
    case False
    let ?m = "m\<lparr>dm_docs := (dm_docs m)(sid \<mapsto> d'),
      dm_metadata := (dm_metadata m)(sid \<mapsto> md\<lparr>md_generation := md_generation md + 1\<rparr>)\<rparr>"
    have "restore_text_from_state C m sid snap = (?m, Inr u)"
      using False assms(3-5) u(1)
      by (auto simp: restore_text_from_state_def get_or_create_def bump_generation_def Let_def d'_def)
    moreover have "recoverable content items m sid \<subseteq> recoverable content items ?m sid"
      using \<open>content d \<subseteq> content d'\<close> assms(3) by (auto simp: recoverable_def)
    ultimately show ?thesis using False r' rt shown by (auto simp: read_text_def)
  qed
qed

theorem restore_shows_snapshot_witness:
  "\<exists>m'. read_text sample_crdt m' 1 = [104, 105] \<and> m' = fst (restore_text_from_state sample_crdt
     (run (dm_step sample_crdt) (new_manager Map.empty Map.empty) sample_load) 1 (sample_update (sample_write [] [104, 105])))"
proof -
  let ?m = "run (dm_step sample_crdt) (new_manager Map.empty Map.empty) sample_load"
  let ?s = "sample_write [] [104, 105]"
  have "dm_docs ?m 1 = Some []" "\<exists>md. dm_metadata ?m 1 = Some md"
    "doc_apply sample_crdt (doc_new sample_crdt) (sample_update ?s) = Some ?s"
    by (simp_all add: dm_eval)
  moreover have "doc_text sample_crdt ?s = [104, 105]" by (simp add: sample_crdt_def)
  ultimately show ?thesis
    using restore_shows_snapshot [OF sample_crdt_laws sample_crdt_text_laws, of ?m 1 "[]" _ "sample_update ?s" ?s "[]"]
    by fastforce
qed

text \<open>C37: A failing read loses unsaved edits: if reading the checkpoint fails while a document is
  loaded, the document opens without them, and the next checkpoint overwrites them, so that
  only what the database had remains.\<close>

theorem failed_checkpoint_read_discards:
  fixes C :: "'d crdt"
  assumes "crdt_laws C content items" "stored_by_program C redis database"
    and "m = run (dm_step C) (new_manager redis database)
      [Call sid Load now, Resume sid Io_ok now, Resume sid (Io_failed b) now, Call sid Checkpoint now, Resume sid Io_ok now]"
  shows "recoverable content items m sid = opt_items items (db_state (new_manager redis database :: 'd manager) sid)"
proof -
  let ?start = "new_manager redis database :: 'd manager"
  let ?d = "fst (apply_logged C (doc_new C) (db_state ?start sid))"
  have "written C (db_state ?start sid)"
    using assms(2) by (auto simp: stored_by_program_def db_state_def new_manager_def split: option.splits)
  from apply_logged_written [OF assms(1) this, of "doc_new C"]
  have c: "content ?d = opt_items items (db_state ?start sid)" using crdt_lawsD(1) [OF assms(1)] by simp
  have m: "dm_docs m sid = Some ?d" "dm_redis m sid = Some (doc_update C ?d)" "dm_db m sid = database sid"
    unfolding assms(3)
    by (simp_all add: dm_step_def Let_def enter_guard_def leave_guard_def load_begin_def settle_def new_manager_def
        resume_db_read_def resume_redis_get_def end_loading_def checkpoint_begin_def resume_redis_set_def
        write_redis_def db_state_def apply_logged_def [of _ _ None])
  have "db_state m sid = db_state ?start sid" using m(3) by (simp add: db_state_def new_manager_def)
  with c m show ?thesis using crdt_lawsD(3) [OF assms(1), of ?d]
    by (auto simp: recoverable_def stored_def)
qed

theorem failed_checkpoint_read_discards_witness:
  "(3, 7) \<in> recoverable set (set \<circ> sample_items) (new_manager [1 \<mapsto> sample_update [(3, 7)]] Map.empty :: sample_doc manager) 1 \<and>
   (3, 7) \<notin> recoverable set (set \<circ> sample_items) (run (dm_step sample_crdt) (new_manager [1 \<mapsto> sample_update [(3, 7)]] Map.empty)
     [Call 1 Load 0, Resume 1 Io_ok 0, Resume 1 (Io_failed False) 0, Call 1 Checkpoint 0, Resume 1 Io_ok 0]) 1"
proof -
  have s: "stored_by_program sample_crdt [1 \<mapsto> sample_update [(3, 7)]] Map.empty"
    by (auto simp: stored_by_program_def written_def sample_crdt_def)
  show ?thesis
    using failed_checkpoint_read_discards [OF sample_crdt_laws s refl, of 1 0 False]
    by (simp add: recoverable_def stored_def new_manager_def db_state_def del: run.simps)
qed

end
