(* ===== verification/Snapshots.thy ===== *)
theory Snapshots
  imports Sessions "HOL-Library.Multiset"
begin

text \<open>
  Named snapshots (\<open>backend/app/snapshots/service.py\<close>) on the \<open>database\<close> of \<open>Models\<close>, with the
  paging parameters of the history endpoint (\<open>1 \<le> limit \<le> 100\<close>, \<open>0 \<le> offset\<close>). The new
  snapshot's id and the current time are arguments.
\<close>

text \<open>\<open>str.strip()\<close>: the code points Python counts as white space.\<close>
definition py_whitespace :: "nat \<Rightarrow> bool" where
  "py_whitespace c \<longleftrightarrow> 9 \<le> c \<and> c \<le> 13 \<or> 28 \<le> c \<and> c \<le> 32 \<or> c \<in> {0x85, 0xA0, 0x1680, 0x2028, 0x2029, 0x202F, 0x205F, 0x3000} \<or>
     0x2000 \<le> c \<and> c \<le> 0x200A"

definition py_strip :: "pystr \<Rightarrow> pystr" where
  "py_strip s = rev (dropWhile py_whitespace (rev (dropWhile py_whitespace s)))"

datatype snapshot_error = SnapshotNotFoundError | Snapshot_integrity_error

definition create_snapshot ::
    "uuid \<Rightarrow> datetime \<Rightarrow> database \<Rightarrow> uuid \<Rightarrow> uuid \<Rightarrow> pystr \<Rightarrow> bytes \<Rightarrow> snapshot_error + Snapshot \<times> database" where
  "create_snapshot new_id now db session_id created_by label document_state =
     (let snapshot = \<lparr>n_id = new_id, n_session_id = session_id, n_created_by = Some created_by,
            n_label = py_strip label, n_document_state = document_state,
            n_size_bytes = int (length document_state), n_created_at = now\<rparr>
      in if dget (db_snapshots db) new_id \<noteq> None \<or> dget (db_sessions db) session_id = None \<or>
            dget (db_users db) created_by = None
         then Inl Snapshot_integrity_error
         else Inr (snapshot, db\<lparr>db_snapshots := dset new_id snapshot (db_snapshots db)\<rparr>))"

definition snapshots_of :: "database \<Rightarrow> uuid \<Rightarrow> Snapshot list" where
  "snapshots_of db session_id = filter (\<lambda>s. n_session_id s = session_id) (map snd (db_snapshots db))"

text \<open>\<open>ORDER BY created_at DESC, id DESC LIMIT limit OFFSET offset\<close>, with the total count.\<close>
definition list_snapshots :: "database \<Rightarrow> uuid \<Rightarrow> nat \<Rightarrow> nat \<Rightarrow> Snapshot list \<times> nat" where
  "list_snapshots db session_id limit offset =
     (take limit (drop offset (rev (sort_key n_created_at (sort_key n_id (snapshots_of db session_id))))),
      length (snapshots_of db session_id))"

definition get_snapshot :: "database \<Rightarrow> uuid \<Rightarrow> uuid \<Rightarrow> snapshot_error + Snapshot" where
  "get_snapshot db session_id snapshot_id =
     (case dget (db_snapshots db) snapshot_id of
        None \<Rightarrow> Inl SnapshotNotFoundError
      | Some s \<Rightarrow> if n_session_id s = session_id then Inr s else Inl SnapshotNotFoundError)"

section \<open>Properties\<close>

text \<open>A page is the history cut at \<open>offset\<close>; consecutive pages together are the history.\<close>
definition history :: "database \<Rightarrow> uuid \<Rightarrow> Snapshot list" where
  "history db session_id = rev (sort_key n_created_at (sort_key n_id (snapshots_of db session_id)))"

text \<open>\<open>a\<close> is listed before \<open>b\<close>.\<close>
definition listed_before :: "Snapshot \<Rightarrow> Snapshot \<Rightarrow> bool" where
  "listed_before a b \<longleftrightarrow> n_created_at b < n_created_at a \<or> n_created_at b = n_created_at a \<and> n_id b < n_id a"

text \<open>The primary key: every row stands under its own id.\<close>
definition snapshots_keyed :: "database \<Rightarrow> bool" where
  "snapshots_keyed db \<longleftrightarrow> dict_ok (db_snapshots db) \<and> (\<forall>i s. dget (db_snapshots db) i = Some s \<longrightarrow> n_id s = i)"

lemma create_snapshot_keyed:
  "snapshots_keyed db \<Longrightarrow> create_snapshot new_id now db sid uid label state = Inr (s, db') \<Longrightarrow> snapshots_keyed db'"
  by (auto simp: snapshots_keyed_def create_snapshot_def Let_def split: if_splits)

lemma keyed_rows:
  assumes "snapshots_keyed db"
  shows "set (snapshots_of db sid) = {s. dget (db_snapshots db) (n_id s) = Some s \<and> n_session_id s = sid}"
    and "distinct (map n_id (snapshots_of db sid))"
proof -
  have d: "distinct (map fst (db_snapshots db))" and id: "\<And>i s. dget (db_snapshots db) i = Some s \<Longrightarrow> n_id s = i"
    using assms by (simp_all add: snapshots_keyed_def dict_ok_def)
  have row: "(i, s) \<in> set (db_snapshots db) \<longleftrightarrow> dget (db_snapshots db) i = Some s" for i s
    by (rule map_of_eq_Some_iff [OF d, symmetric])
  have "s \<in> set (map snd (db_snapshots db)) \<longleftrightarrow> dget (db_snapshots db) (n_id s) = Some s" for s
  proof
    assume "s \<in> set (map snd (db_snapshots db))"
    then obtain i where "(i, s) \<in> set (db_snapshots db)" by auto
    then have "dget (db_snapshots db) i = Some s" by (simp only: row)
    with id show "dget (db_snapshots db) (n_id s) = Some s" by metis
  next
    assume "dget (db_snapshots db) (n_id s) = Some s"
    then have "(n_id s, s) \<in> set (db_snapshots db)" by (simp only: row)
    then show "s \<in> set (map snd (db_snapshots db))" by force
  qed
  then show "set (snapshots_of db sid) = {s. dget (db_snapshots db) (n_id s) = Some s \<and> n_session_id s = sid}"
    by (auto simp only: snapshots_of_def set_filter)
  have "map (n_id \<circ> snd) (db_snapshots db) = map fst (db_snapshots db)"
  proof (intro map_cong [OF refl])
    fix p assume "p \<in> set (db_snapshots db)"
    then have "(fst p, snd p) \<in> set (db_snapshots db)" by simp
    then have "dget (db_snapshots db) (fst p) = Some (snd p)" by (simp only: row)
    from id [OF this] show "(n_id \<circ> snd) p = fst p" by simp
  qed
  with d have "distinct (map n_id (map snd (db_snapshots db)))" by (simp only: map_map)
  then show "distinct (map n_id (snapshots_of db sid))" unfolding snapshots_of_def by (rule distinct_map_filter)
qed

text \<open>The two stable sorts, one behind the other, give the order by both keys.\<close>
lemma insort_both:
  assumes "sorted_wrt (\<lambda>a b. listed_before b a) xs" "\<forall>y\<in>set xs. n_id x < n_id y"
  shows "sorted_wrt (\<lambda>a b. listed_before b a) (insort_key n_created_at x xs)"
  using assms by (induction xs) (auto simp: listed_before_def set_insort_key)

lemma sort_both:
  assumes "sorted_wrt (\<lambda>a b. n_id a < n_id b) xs"
  shows "sorted_wrt (\<lambda>a b. listed_before b a) (sort_key n_created_at xs)"
  using assms
proof (induction xs)
  case (Cons x xs)
  then have "sorted_wrt (\<lambda>a b. listed_before b a) (sort_key n_created_at xs)" "\<forall>y\<in>set (sort_key n_created_at xs). n_id x < n_id y" by simp_all
  from insort_both [OF this] show ?case by simp
qed simp

lemma history_order:
  assumes "snapshots_keyed db"
  shows "sorted_wrt listed_before (history db sid)"
proof -
  let ?xs = "sort_key n_id (snapshots_of db sid)"
  have "distinct (map n_id ?xs)"
    using keyed_rows(2) [OF assms, of sid] by (metis distinct_map distinct_sort set_sort)
  then have "sorted_wrt (<) (map n_id ?xs)" by (simp add: strict_sorted_iff)
  then have "sorted_wrt (\<lambda>a b. n_id a < n_id b) ?xs" by (simp add: sorted_wrt_map)
  from sort_both [OF this] show ?thesis by (simp add: history_def sorted_wrt_rev)
qed

lemma concat_pages:
  assumes "0 < limit" "length xs \<le> n * limit"
  shows "concat (map (\<lambda>k. take limit (drop (k * limit) xs)) [0..<n]) = xs"
proof -
  have "concat (map (\<lambda>k. take limit (drop (k * limit) xs)) [0..<m]) = take (m * limit) xs" for m
  proof (induction m)
    case (Suc m)
    have "take (m * limit) xs @ take limit (drop (m * limit) xs) = take (m * limit + limit) xs"
      by (simp add: take_add)
    with Suc show ?case by (simp add: add.commute)
  qed simp
  with assms show ?thesis by simp
qed

text \<open>C36: Paging through the snapshot history with any page size shows exactly the rows of the table that belong to
  the session, each of them once and none of another session; the total is their number; and the order is fixed by
  the rows alone: the newer one first, and of two of the same time the one with the greater id.\<close>

theorem history_pages_complete:
  assumes "snapshots_keyed db" "0 < limit" "snd (list_snapshots db sid limit 0) \<le> n * limit"
    and "pages = concat (map (\<lambda>k. fst (list_snapshots db sid limit (k * limit))) [0..<n])"
  shows "set pages = {s. dget (db_snapshots db) (n_id s) = Some s \<and> n_session_id s = sid} \<and>
    snd (list_snapshots db sid limit offset) = card {s. dget (db_snapshots db) (n_id s) = Some s \<and> n_session_id s = sid} \<and>
    distinct pages \<and> sorted_wrt listed_before pages"
proof -
  have "length (history db sid) \<le> n * limit"
    using assms(3) by (simp add: list_snapshots_def history_def)
  from concat_pages [OF assms(2) this] have pages: "pages = history db sid"
    unfolding assms(4) by (simp add: list_snapshots_def history_def)
  have rows: "set pages = {s. dget (db_snapshots db) (n_id s) = Some s \<and> n_session_id s = sid}"
    unfolding pages using keyed_rows(1) [OF assms(1), of sid] by (simp add: history_def)
  have dist: "distinct pages" unfolding pages history_def using keyed_rows(2) [OF assms(1), of sid] by (simp add: distinct_map)
  have "snd (list_snapshots db sid limit offset) = length pages" unfolding pages by (simp add: list_snapshots_def history_def)
  with distinct_card [OF dist] rows dist history_order [OF assms(1), of sid] show ?thesis unfolding pages by simp
qed

definition sample_snapshot :: "uuid \<Rightarrow> uuid \<Rightarrow> datetime \<Rightarrow> Snapshot" where
  "sample_snapshot i sid t = \<lparr>n_id = i, n_session_id = sid, n_created_by = Some 1, n_label = [], n_document_state = [],
     n_size_bytes = 0, n_created_at = t\<rparr>"

text \<open>Two snapshots of session 7 at the same time, an older one, and one of another session.\<close>
definition snapshots_db :: database where
  "snapshots_db = empty_db\<lparr>db_snapshots := map (\<lambda>s. (n_id s, s))
     [sample_snapshot 1 7 9, sample_snapshot 2 7 5, sample_snapshot 3 8 9, sample_snapshot 4 7 9]\<rparr>"

theorem history_pages_complete_witness:
  "set (concat (map (\<lambda>k. fst (list_snapshots snapshots_db 7 2 (k * 2))) [0..<2]))
     = {sample_snapshot 4 7 9, sample_snapshot 1 7 9, sample_snapshot 2 7 5}"
proof -
  have keyed: "snapshots_keyed snapshots_db"
    by (auto simp: snapshots_keyed_def snapshots_db_def dict_ok_def sample_snapshot_def empty_db_def split: if_splits)
  have "snd (list_snapshots snapshots_db 7 2 0) \<le> 2 * 2"
    by (simp add: list_snapshots_def snapshots_of_def snapshots_db_def sample_snapshot_def empty_db_def)
  from history_pages_complete [OF keyed zero_less_numeral this refl] have
    "set (concat (map (\<lambda>k. fst (list_snapshots snapshots_db 7 2 (k * 2))) [0..<2]))
       = {s. dget (db_snapshots snapshots_db) (n_id s) = Some s \<and> n_session_id s = 7}" by blast
  also have "\<dots> = {sample_snapshot 4 7 9, sample_snapshot 1 7 9, sample_snapshot 2 7 5}"
    by (auto simp: snapshots_db_def sample_snapshot_def empty_db_def split: if_splits)
  finally show ?thesis .
qed

end
