(* ===== verification/Hub.thy ===== *)
theory Hub
  imports Access Awareness Durability Snapshots
begin

text \<open>
  The collaboration hub: \<open>backend/app/collaboration/websocket.py\<close> with the HTTP endpoints that
  share its per-session room locks (\<open>backend/app/sessions/router.py\<close>,
  \<open>backend/app/snapshots/router.py\<close>, \<open>backend/app/execution/router.py\<close>, and
  \<open>maintain_document_checkpoint\<close> of the periodic flush).

  Every WebSocket and every request is a coroutine; \<open>cn_phase\<close> and \<open>hr_phase\<close> say which \<open>await\<close>
  it is suspended at. One event runs one coroutine up to its next \<open>await\<close>, so the events of a
  run are any interleaving of the coroutines. A room lock is held from the event that takes
  it to the one that releases it; a section without an \<open>await\<close> inside takes and releases it
  in one event. An event whose coroutine cannot go on (lock taken, storage not finished) does
  nothing. A request keeps the rows its database session loaded when it was authorized
  (\<open>hr_view\<close>): SQLAlchemy's identity map answers later reads of the same rows from it, and
  the owner's user row holds them (\<open>lazy="selectin"\<close>).
\<close>

section \<open>State\<close>

definition WS_UNAUTHORIZED :: int where "WS_UNAUTHORIZED = 4401"
definition WS_FORBIDDEN :: int where "WS_FORBIDDEN = 4403"
definition WS_NOT_FOUND :: int where "WS_NOT_FOUND = 4404"
definition WS_SESSION_CLOSED :: int where "WS_SESSION_CLOSED = 4410"
definition WS_ROLE_CHANGED :: int where "WS_ROLE_CHANGED = 4001"

record AuthorizationStamp =
  as_member_version :: nat
  as_session_version :: nat

record AuthorizationInvalidation =
  ai_version :: nat
  ai_code :: int
  ai_reason :: string

datatype after_broadcast = Then_handle bytes | Then_receive

datatype ws_phase =
    Auth_user | Auth_session | Auth_member | Accepting
  | Want_join | Joining | Greet_status | Greet_awareness
  | Receiving | Replying | Broadcasting "ws list" bytes after_broadcast | Want_apply bytes
  | Closing_unjoined | Closing_joined | Want_leave | Leaving | Farewell "ws list" bytes

record conn =
  cn_session :: session_key
  cn_user :: uuid
  cn_stamp :: AuthorizationStamp
  cn_role :: RoleEnum
  cn_phase :: ws_phase

datatype http_op =
    Change_role uuid RoleEnum
  | Remove_user uuid
  | Close_it datetime
  | Save bytes
  | Take_snapshot uuid pystr
  | Restore uuid
  | Run_document
  | Maintain

datatype http_phase =
    H_queued | H_mutating | H_committed | H_closing
  | H_checking | H_fetching | H_loading | H_inserting bytes | H_saving | H_checkpointing | H_evicting
  | H_broadcasting "ws list" bytes "bytes list"

record http =
  hr_op :: http_op
  hr_session :: session_key
  hr_user :: uuid
  hr_view :: database
  hr_has_connections :: bool
  hr_snapshot :: bytes
  hr_frames :: "bytes list"
  hr_phase :: http_phase

datatype holder = Ws_holder ws | Http_holder nat

type_synonym connection_info = "ws \<times> uuid \<times> RoleEnum"

text \<open>\<open>hb_sent\<close>, \<open>hb_closes\<close> and \<open>hb_unfenced\<close> record what happened, the code has no such variables and nothing
  reads them: the frames and close codes that were sent, and the connections that a committed change
  should have invalidated and did not, because the request failed between its commit and its fence (a connection
  that is opened later under the same identifier is another one).\<close>
record 'd hub =
  hb_rooms :: "session_key \<Rightarrow> connection_info list option"
  hb_locks :: "session_key \<Rightarrow> holder option"
  hb_member_invalidations :: "session_key \<times> uuid \<Rightarrow> AuthorizationInvalidation option"
  hb_session_invalidations :: "session_key \<Rightarrow> AuthorizationInvalidation option"
  hb_stamps :: "ws \<Rightarrow> AuthorizationStamp option"
  hb_revoked :: "ws \<Rightarrow> (int \<times> string) option"
  hb_conns :: "ws \<Rightarrow> conn option"
  hb_requests :: "nat \<Rightarrow> http option"
  hb_db :: database
  hb_docs :: "'d manager"
  hb_saved :: "session_key \<Rightarrow> DocumentSaveResult option"
  hb_awareness :: awareness_store
  hb_sent :: "(ws \<times> bytes) list"
  hb_closes :: "(ws \<times> int) list"
  hb_unfenced :: "ws set"

text \<open>The libraries: CRDT, JSON floats, JWT, and the rendering of a time.\<close>
record 'd hub_env =
  he_crdt :: "'d crdt"
  he_json :: json_env
  he_jwt :: "pystr \<Rightarrow> claims option"
  he_isoformat :: "datetime \<Rightarrow> pystr"

definition new_hub :: "database \<Rightarrow> 'd manager \<Rightarrow> 'd hub" where
  "new_hub db docs = \<lparr>hb_rooms = Map.empty, hb_locks = Map.empty, hb_member_invalidations = Map.empty,
     hb_session_invalidations = Map.empty, hb_stamps = Map.empty, hb_revoked = Map.empty,
     hb_conns = Map.empty, hb_requests = Map.empty, hb_db = db, hb_docs = docs, hb_saved = Map.empty,
     hb_awareness = new_awareness_store 30, hb_sent = [], hb_closes = [], hb_unfenced = {}\<rparr>"

definition room_list :: "'d hub \<Rightarrow> session_key \<Rightarrow> connection_info list" where
  "room_list h sid = (case hb_rooms h sid of None \<Rightarrow> [] | Some room \<Rightarrow> room)"

definition room_sockets :: "'d hub \<Rightarrow> session_key \<Rightarrow> ws list" where
  "room_sockets h sid = map fst (room_list h sid)"

definition get_room_connections :: "'d hub \<Rightarrow> session_key \<Rightarrow> connection_info list" where
  "get_room_connections h sid = filter (\<lambda>c. hb_revoked h (fst c) = None) (room_list h sid)"

section \<open>Authorization fences\<close>

definition inv_version :: "AuthorizationInvalidation option \<Rightarrow> nat" where
  "inv_version latest = (case latest of None \<Rightarrow> 0 | Some i \<Rightarrow> ai_version i)"

definition current_stamp :: "'d hub \<Rightarrow> session_key \<Rightarrow> uuid \<Rightarrow> AuthorizationStamp" where
  "current_stamp h sid uid =
     \<lparr>as_member_version = inv_version (hb_member_invalidations h (sid, uid)),
      as_session_version = inv_version (hb_session_invalidations h sid)\<rparr>"

definition newer :: "AuthorizationInvalidation option \<Rightarrow> nat \<Rightarrow> (int \<times> string) option" where
  "newer latest version =
     (case latest of None \<Rightarrow> None | Some i \<Rightarrow> if ai_version i > version then Some (ai_code i, ai_reason i) else None)"

definition authorization_failure :: "'d hub \<Rightarrow> session_key \<Rightarrow> uuid \<Rightarrow> ws \<Rightarrow> (int \<times> string) option" where
  "authorization_failure h sid uid w =
     (case hb_revoked h w of
        Some revoked \<Rightarrow> Some revoked
      | None \<Rightarrow>
          (case hb_stamps h w of
             None \<Rightarrow> None
           | Some stamp \<Rightarrow>
               (case newer (hb_session_invalidations h sid) (as_session_version stamp) of
                  Some failure \<Rightarrow> Some failure
                | None \<Rightarrow> newer (hb_member_invalidations h (sid, uid)) (as_member_version stamp))))"

definition close_connections :: "'d hub \<Rightarrow> ws list \<Rightarrow> int \<Rightarrow> 'd hub" where
  "close_connections h targets code = h\<lparr>hb_closes := hb_closes h @ map (\<lambda>w. (w, code)) targets\<rparr>"

definition revoke_all :: "'d hub \<Rightarrow> ws list \<Rightarrow> int \<Rightarrow> string \<Rightarrow> 'd hub" where
  "revoke_all h targets code reason =
     h\<lparr>hb_revoked := (\<lambda>w. if w \<in> set targets then Some (code, reason) else hb_revoked h w)\<rparr>"

definition close_if_invalidated :: "'d hub \<Rightarrow> session_key \<Rightarrow> uuid \<Rightarrow> ws \<Rightarrow> 'd hub \<times> bool" where
  "close_if_invalidated h sid uid w =
     (case authorization_failure h sid uid w of
        None \<Rightarrow> (h, False)
      | Some (code, reason) \<Rightarrow>
          (close_connections (h\<lparr>hb_revoked := (hb_revoked h)(w \<mapsto> (code, reason))\<rparr>) [w] code, True))"

definition invalidate_member_connections ::
    "'d hub \<Rightarrow> session_key \<Rightarrow> uuid \<Rightarrow> int \<Rightarrow> string \<Rightarrow> 'd hub" where
  "invalidate_member_connections h sid uid code reason =
     (let previous = hb_member_invalidations h (sid, uid);
          h = h\<lparr>hb_member_invalidations := (hb_member_invalidations h)((sid, uid) \<mapsto>
                \<lparr>ai_version = inv_version previous + 1, ai_code = code, ai_reason = reason\<rparr>)\<rparr>;
          targets = map fst (filter (\<lambda>(_, user, _). user = uid) (room_list h sid));
          h = revoke_all h targets code reason
      in close_connections h targets code)"

definition reauthenticate_member_connections :: "'d hub \<Rightarrow> session_key \<Rightarrow> uuid \<Rightarrow> 'd hub" where
  "reauthenticate_member_connections h sid uid =
     invalidate_member_connections h sid uid WS_ROLE_CHANGED ''Session role changed; reconnecting''"

definition revoke_member_connections :: "'d hub \<Rightarrow> session_key \<Rightarrow> uuid \<Rightarrow> 'd hub" where
  "revoke_member_connections h sid uid =
     invalidate_member_connections h sid uid WS_FORBIDDEN ''Session membership required''"

definition close_session_connections :: "'d hub \<Rightarrow> session_key \<Rightarrow> 'd hub" where
  "close_session_connections h sid =
     (let previous = hb_session_invalidations h sid;
          h = h\<lparr>hb_session_invalidations := (hb_session_invalidations h)(sid \<mapsto>
                \<lparr>ai_version = inv_version previous + 1, ai_code = WS_SESSION_CLOSED,
                 ai_reason = ''Session is closed''\<rparr>)\<rparr>;
          targets = room_sockets h sid;
          h = revoke_all h targets WS_SESSION_CLOSED ''Session is closed''
      in close_connections h targets WS_SESSION_CLOSED)"

section \<open>Frames\<close>

definition base64_char :: "nat \<Rightarrow> nat" where
  "base64_char n =
     (if n < 26 then 65 + n else if n < 52 then 71 + n else if n < 62 then n - 4 else if n = 62 then 43 else 47)"

fun b64encode :: "bytes \<Rightarrow> pystr" where
  "b64encode [] = []"
| "b64encode [a] =
     (let n = unat a * 65536 in [base64_char (n div 262144), base64_char (n div 4096 mod 64), 61, 61])"
| "b64encode [a, b] =
     (let n = unat a * 65536 + unat b * 256
      in [base64_char (n div 262144), base64_char (n div 4096 mod 64), base64_char (n div 64 mod 64), 61])"
| "b64encode (a # b # c # rest) =
     (let n = unat a * 65536 + unat b * 256 + unat c
      in [base64_char (n div 262144), base64_char (n div 4096 mod 64), base64_char (n div 64 mod 64),
          base64_char (n mod 64)] @ b64encode rest)"

definition document_saved_frame ::
    "'d hub_env \<Rightarrow> datetime option \<Rightarrow> bytes \<Rightarrow> pystr \<Rightarrow> bool \<Rightarrow> pystr option \<Rightarrow> encode_error + bytes" where
  "document_saved_frame E saved_at state_vector state_hash dirty saved_by =
     encode_document_saved (map_option (he_isoformat E) saved_at) (Some (b64encode state_vector)) state_hash dirty saved_by"

section \<open>Connection phases\<close>

definition set_phase :: "'d hub \<Rightarrow> ws \<Rightarrow> ws_phase \<Rightarrow> 'd hub" where
  "set_phase h w p = h\<lparr>hb_conns := (hb_conns h)(w := map_option (\<lambda>c. c\<lparr>cn_phase := p\<rparr>) (hb_conns h w))\<rparr>"

definition send_bytes :: "'d hub \<Rightarrow> ws \<Rightarrow> bytes \<Rightarrow> 'd hub" where
  "send_bytes h w frame = h\<lparr>hb_sent := hb_sent h @ [(w, frame)]\<rparr>"

definition release :: "'d hub \<Rightarrow> session_key \<Rightarrow> 'd hub" where
  "release h sid = h\<lparr>hb_locks := (hb_locks h)(sid := None)\<rparr>"

text \<open>The coroutine has returned: the handshake was refused, or the \<open>finally\<close> part is done.\<close>
definition finish_unjoined :: "'d hub \<Rightarrow> ws \<Rightarrow> 'd hub" where
  "finish_unjoined h w =
     h\<lparr>hb_conns := (hb_conns h)(w := None), hb_stamps := (hb_stamps h)(w := None),
       hb_revoked := (hb_revoked h)(w := None)\<rparr>"

definition finish :: "'d hub \<Rightarrow> ws \<Rightarrow> 'd hub" where
  "finish h w = h\<lparr>hb_conns := (hb_conns h)(w := None)\<rparr>"

definition reject :: "'d hub \<Rightarrow> ws \<Rightarrow> int \<Rightarrow> 'd hub" where
  "reject h w code = close_connections (finish h w) [w] code"

text \<open>An exception in the receive loop: close with 1011, then leave the room.\<close>
definition ws_fail :: "'d hub \<Rightarrow> ws \<Rightarrow> 'd hub" where
  "ws_fail h w = set_phase (close_connections h [w] 1011) w Closing_joined"

text \<open>Sending an encoded frame and waiting in phase \<open>p\<close>; an encoding error is an exception.\<close>
definition send_then :: "'d hub \<Rightarrow> ws \<Rightarrow> encode_error + bytes \<Rightarrow> ws_phase \<Rightarrow> 'd hub" where
  "send_then h w frame p =
     (case frame of Inl _ \<Rightarrow> ws_fail h w | Inr f \<Rightarrow> set_phase (send_bytes h w f) w p)"

definition broadcast_then :: "'d hub \<Rightarrow> ws \<Rightarrow> session_key \<Rightarrow> encode_error + bytes \<Rightarrow> after_broadcast \<Rightarrow> 'd hub" where
  "broadcast_then h w sid frame k =
     (case frame of Inl _ \<Rightarrow> ws_fail h w | Inr f \<Rightarrow> set_phase h w (Broadcasting (room_sockets h sid) f k))"

definition parse_token :: "'d hub_env \<Rightarrow> pystr \<Rightarrow> uuid option" where
  "parse_token E token =
     (case he_jwt E token of
        None \<Rightarrow> None
      | Some payload \<Rightarrow> (case dget payload (py ''sub'') of Some (JStr s) \<Rightarrow> uuid_of_str s | _ \<Rightarrow> None))"

definition authenticate_start ::
    "'d hub_env \<Rightarrow> 'd hub \<Rightarrow> pystr option \<Rightarrow> pystr option \<Rightarrow> int + conn" where
  "authenticate_start E h token raw_session_id =
     (if token = None \<or> token = Some [] then Inl WS_UNAUTHORIZED
      else if raw_session_id = None \<or> raw_session_id = Some [] then Inl WS_NOT_FOUND
      else case parse_token E (the token) of
        None \<Rightarrow> Inl WS_UNAUTHORIZED
      | Some user_id \<Rightarrow>
          (case uuid_of_str (the raw_session_id) of
             None \<Rightarrow> Inl WS_NOT_FOUND
           | Some session_uuid \<Rightarrow>
               Inr \<lparr>cn_session = session_uuid, cn_user = user_id,
                    cn_stamp = current_stamp h session_uuid user_id, cn_role = viewer, cn_phase = Auth_user\<rparr>))"

definition ws_open :: "'d hub_env \<Rightarrow> 'd hub \<Rightarrow> ws \<Rightarrow> pystr option \<Rightarrow> pystr option \<Rightarrow> 'd hub" where
  "ws_open E h w token raw_session_id =
     (case authenticate_start E h token raw_session_id of
        Inl code \<Rightarrow> reject h w code
      | Inr c \<Rightarrow> h\<lparr>hb_conns := (hb_conns h)(w \<mapsto> c), hb_unfenced := hb_unfenced h - {w}\<rparr>)"

definition auth_user :: "'d hub \<Rightarrow> ws \<Rightarrow> conn \<Rightarrow> 'd hub" where
  "auth_user h w c =
     (case dget (db_users (hb_db h)) (cn_user c) of
        None \<Rightarrow> reject h w WS_UNAUTHORIZED
      | Some _ \<Rightarrow> set_phase h w Auth_session)"

definition auth_session :: "'d hub \<Rightarrow> ws \<Rightarrow> conn \<Rightarrow> 'd hub" where
  "auth_session h w c =
     (case dget (db_sessions (hb_db h)) (cn_session c) of
        None \<Rightarrow> reject h w WS_NOT_FOUND
      | Some session \<Rightarrow>
          if \<not> s_is_active session then reject h w WS_SESSION_CLOSED else set_phase h w Auth_member)"

definition auth_member :: "'d hub \<Rightarrow> ws \<Rightarrow> conn \<Rightarrow> 'd hub" where
  "auth_member h w c =
     (case dget (db_members (hb_db h)) (cn_session c, cn_user c) of
        None \<Rightarrow> reject h w WS_FORBIDDEN
      | Some member \<Rightarrow>
          h\<lparr>hb_conns := (hb_conns h)(w \<mapsto> c\<lparr>cn_role := m_role member, cn_phase := Accepting\<rparr>)\<rparr>)"

definition ws_accepted :: "'d hub \<Rightarrow> ws \<Rightarrow> conn \<Rightarrow> 'd hub" where
  "ws_accepted h w c =
     (let h = h\<lparr>hb_stamps := (hb_stamps h)(w \<mapsto> cn_stamp c)\<rparr>
      in case close_if_invalidated h (cn_session c) (cn_user c) w of
           (h, True) \<Rightarrow> set_phase h w Closing_unjoined
         | (h, False) \<Rightarrow> set_phase h w Want_join)"

definition greet_awareness :: "'d hub \<Rightarrow> ws \<Rightarrow> conn \<Rightarrow> 'd hub" where
  "greet_awareness h w c =
     (let entries = active_entries (hb_awareness h) (cn_session c)
      in if entries = [] then set_phase h w Receiving
         else send_then h w (encode_awareness_message entries) Replying)"

definition greet_status :: "'d hub_env \<Rightarrow> 'd hub \<Rightarrow> ws \<Rightarrow> conn \<Rightarrow> 'd hub" where
  "greet_status E h w c =
     (case get_document_status (he_crdt E) (hb_docs h) (cn_session c) of
        None \<Rightarrow> greet_awareness h w c
      | Some st \<Rightarrow>
          send_then h w (document_saved_frame E (st_saved_at st) (st_saved_state_vector st)
              (st_saved_state_hash st) (st_dirty st) None) Greet_awareness)"

definition greet_vector :: "'d hub_env \<Rightarrow> 'd hub \<Rightarrow> ws \<Rightarrow> conn \<Rightarrow> 'd hub" where
  "greet_vector E h w c =
     (if ROLE_RANK (cn_role c) \<ge> ROLE_RANK editor then
        (case get_state_vector (he_crdt E) (hb_docs h) (cn_session c) of
           (docs, Inl _) \<Rightarrow> ws_fail (h\<lparr>hb_docs := docs\<rparr>) w
         | (docs, Inr sv) \<Rightarrow> send_then (h\<lparr>hb_docs := docs\<rparr>) w (encode_sync_step1 sv) Greet_status)
      else greet_status E h w c)"

text \<open>Behind \<open>room.append\<close>: the second look at the fences, then the greeting.\<close>
definition ws_joined :: "'d hub_env \<Rightarrow> 'd hub \<Rightarrow> ws \<Rightarrow> conn \<Rightarrow> 'd hub" where
  "ws_joined E h w c =
     (let h = h\<lparr>hb_rooms := (hb_rooms h)(cn_session c \<mapsto>
                room_list h (cn_session c) @ [(w, cn_user c, cn_role c)])\<rparr>
      in case close_if_invalidated h (cn_session c) (cn_user c) w of
           (h, True) \<Rightarrow> set_phase h w Closing_joined
         | (h, False) \<Rightarrow> greet_vector E h w c)"

definition call_docs :: "'d hub_env \<Rightarrow> 'd hub \<Rightarrow> event \<Rightarrow> 'd hub" where
  "call_docs E h ev =
     (case dm_event (he_crdt E) (hb_docs h) ev of
        (docs, reply) \<Rightarrow>
          (case reply of
             Some (Saved r) \<Rightarrow> h\<lparr>hb_docs := docs, hb_saved := (hb_saved h)(ev_session ev \<mapsto> r)\<rparr>
           | _ \<Rightarrow> h\<lparr>hb_docs := docs\<rparr>))"

definition join_room :: "'d hub_env \<Rightarrow> datetime \<Rightarrow> 'd hub \<Rightarrow> ws \<Rightarrow> conn \<Rightarrow> 'd hub" where
  "join_room E now h w c =
     (let sid = cn_session c
      in if hb_locks h sid \<noteq> None then h
         else
           let room = room_list h sid;
               h = h\<lparr>hb_rooms := (hb_rooms h)(sid \<mapsto> room)\<rparr>
           in if room = [] then
                set_phase (call_docs E (h\<lparr>hb_locks := (hb_locks h)(sid \<mapsto> Ws_holder w)\<rparr>) (Call sid Load now))
                  w Joining
              else ws_joined E h w c)"

text \<open>Whether a storage request of a kind is still queued or running for a session.\<close>
definition load_pending :: "'d manager \<Rightarrow> session_id \<Rightarrow> bool" where
  "load_pending m sid \<longleftrightarrow> Load \<in> set (dm_waiting m sid) \<or> loads (dm_tasks m sid)"

fun evicting_task :: "'d task option \<Rightarrow> bool" where
  "evicting_task (Some (Await_redis_set _ _ (Some _))) \<longleftrightarrow> True"
| "evicting_task _ \<longleftrightarrow> False"

definition evict_pending :: "'d manager \<Rightarrow> session_id \<Rightarrow> bool" where
  "evict_pending m sid \<longleftrightarrow> Checkpoint_and_remove \<in> set (dm_waiting m sid) \<or> evicting_task (dm_tasks m sid)"

definition join_loaded :: "'d hub_env \<Rightarrow> 'd hub \<Rightarrow> ws \<Rightarrow> conn \<Rightarrow> 'd hub" where
  "join_loaded E h w c =
     (let sid = cn_session c
      in if load_pending (hb_docs h) sid then h
         else if dm_docs (hb_docs h) sid = None
         then close_connections (finish_unjoined (release h sid) w) [w] 1011
         else ws_joined E (release h sid) w c)"

section \<open>Frames from a client\<close>

definition handle_binary_message :: "'d hub_env \<Rightarrow> real \<Rightarrow> 'd hub \<Rightarrow> ws \<Rightarrow> conn \<Rightarrow> bytes \<Rightarrow> 'd hub" where
  "handle_binary_message E now h w c data =
     (let sid = cn_session c in
      if hb_revoked h w \<noteq> None then set_phase h w Receiving
      else case parse_message (he_json E) data of
        Inl _ \<Rightarrow> set_phase h w Receiving
      | Inr (SyncMessage subtype payload) \<Rightarrow>
          if subtype = SYNC_STEP1 then
            (case encode_state_as_update (he_crdt E) (hb_docs h) sid (Some payload) of
               (docs, Inl _) \<Rightarrow> set_phase (h\<lparr>hb_docs := docs\<rparr>) w Receiving
             | (docs, Inr u) \<Rightarrow> send_then (h\<lparr>hb_docs := docs\<rparr>) w (encode_sync_step2 u) Replying)
          else set_phase h w (Want_apply payload)
      | Inr (AwarenessMessage entries) \<Rightarrow>
          (case aw_apply_update (hb_awareness h) sid w entries now of
             (store, accepted) \<Rightarrow>
               let h = h\<lparr>hb_awareness := store\<rparr>
               in if accepted = [] then set_phase h w Receiving
                  else broadcast_then h w sid (encode_awareness_message accepted) Then_receive)
      | Inr AwarenessQuery \<Rightarrow>
          send_then h w (encode_awareness_message (active_entries (hb_awareness h) sid)) Replying
      | Inr (AuthMessage _ _) \<Rightarrow> set_phase h w Receiving)"

text \<open>\<open>apply_if_authorized\<close> under the room lock; there is no \<open>await\<close> inside.\<close>
definition apply_if_authorized :: "'d hub_env \<Rightarrow> 'd hub \<Rightarrow> ws \<Rightarrow> conn \<Rightarrow> bytes \<Rightarrow> 'd hub" where
  "apply_if_authorized E h w c payload =
     (let sid = cn_session c
      in if hb_locks h sid \<noteq> None then h
         else case authorization_failure h sid (cn_user c) w of
           Some (code, reason) \<Rightarrow>
             let close_required = (hb_revoked h w = None);
                 h = h\<lparr>hb_revoked := (hb_revoked h)(w \<mapsto> (code, reason))\<rparr>
             in if close_required then set_phase (close_connections h [w] code) w Replying
                else set_phase h w Receiving
         | None \<Rightarrow>
             if ROLE_RANK (cn_role c) < ROLE_RANK editor then
               send_then h w (encode_permission_denied (py ''Viewers cannot edit the document'')) Replying
             else case apply_update (he_crdt E) (hb_docs h) sid payload of
               (docs, Inl _) \<Rightarrow> set_phase (h\<lparr>hb_docs := docs\<rparr>) w Receiving
             | (docs, Inr _) \<Rightarrow>
                 broadcast_then (h\<lparr>hb_docs := docs\<rparr>) w sid (encode_sync_update payload) Then_receive)"

datatype ws_message = Binary bytes | Text_frame | Disconnect

definition after_prune :: "'d hub_env \<Rightarrow> real \<Rightarrow> 'd hub \<Rightarrow> ws \<Rightarrow> conn \<Rightarrow> after_broadcast \<Rightarrow> 'd hub" where
  "after_prune E now h w c k =
     (case k of Then_handle data \<Rightarrow> handle_binary_message E now h w c data | Then_receive \<Rightarrow> set_phase h w Receiving)"

definition ws_receive :: "'d hub_env \<Rightarrow> real \<Rightarrow> 'd hub \<Rightarrow> ws \<Rightarrow> conn \<Rightarrow> ws_message \<Rightarrow> 'd hub" where
  "ws_receive E now h w c msg =
     (if msg = Disconnect then set_phase h w Want_leave
      else case close_if_invalidated h (cn_session c) (cn_user c) w of
        (h, True) \<Rightarrow> set_phase h w Closing_joined
      | (h, False) \<Rightarrow>
          (case aw_prune_stale (hb_awareness h) (cn_session c) now of
             (store, removed) \<Rightarrow>
               let h = h\<lparr>hb_awareness := store\<rparr>;
                   k = (case msg of Binary data \<Rightarrow> Then_handle data | _ \<Rightarrow> Then_receive)
               in if removed = [] then after_prune E now h w c k
                  else broadcast_then h w (cn_session c) (encode_awareness_message removed) k))"

definition broadcast_step :: "'d hub_env \<Rightarrow> real \<Rightarrow> 'd hub \<Rightarrow> ws \<Rightarrow> conn \<Rightarrow> ws list \<Rightarrow> bytes \<Rightarrow> after_broadcast \<Rightarrow> 'd hub" where
  "broadcast_step E now h w c targets frame k =
     (case targets of
        [] \<Rightarrow> after_prune E now h w c k
      | target # targets \<Rightarrow>
          set_phase (if hb_revoked h target \<noteq> None then h else send_bytes h target frame) w
            (Broadcasting targets frame k))"

section \<open>Leaving\<close>

definition leave_room :: "'d hub_env \<Rightarrow> real \<Rightarrow> datetime \<Rightarrow> 'd hub \<Rightarrow> ws \<Rightarrow> conn \<Rightarrow> 'd hub" where
  "leave_room E now saved_now h w c =
     (let sid = cn_session c
      in if hb_locks h sid \<noteq> None then h
         else
           let h = h\<lparr>hb_stamps := (hb_stamps h)(w := None), hb_revoked := (hb_revoked h)(w := None)\<rparr>
           in case hb_rooms h sid of
                None \<Rightarrow> finish h w
              | Some room \<Rightarrow>
                  let room = filter (\<lambda>c. fst c \<noteq> w) room;
                      (store, removed) = aw_remove_owner (hb_awareness h) sid w now;
                      h = h\<lparr>hb_awareness := store\<rparr>
                  in if room = [] then
                       set_phase (call_docs E
                         (h\<lparr>hb_rooms := (hb_rooms h)(sid := None), hb_locks := (hb_locks h)(sid \<mapsto> Ws_holder w)\<rparr>)
                         (Call sid Checkpoint_and_remove saved_now)) w Leaving
                     else
                       let h = h\<lparr>hb_rooms := (hb_rooms h)(sid \<mapsto> room)\<rparr>
                       in if removed = [] then finish h w
                          else case encode_awareness_message removed of
                            Inl _ \<Rightarrow> finish h w
                          | Inr frame \<Rightarrow> set_phase h w (Farewell (room_sockets h sid) frame))"

definition leave_evicted :: "'d hub \<Rightarrow> ws \<Rightarrow> conn \<Rightarrow> 'd hub" where
  "leave_evicted h w c =
     (let sid = cn_session c
      in if evict_pending (hb_docs h) sid then h
         else finish (release (h\<lparr>hb_awareness := aw_discard_session (hb_awareness h) sid\<rparr>) sid) w)"

definition farewell_step :: "'d hub \<Rightarrow> ws \<Rightarrow> ws list \<Rightarrow> bytes \<Rightarrow> 'd hub" where
  "farewell_step h w targets frame =
     (case targets of
        [] \<Rightarrow> finish h w
      | target # targets \<Rightarrow>
          set_phase (if hb_revoked h target \<noteq> None then h else send_bytes h target frame) w (Farewell targets frame))"

definition ws_continue :: "'d hub_env \<Rightarrow> real \<Rightarrow> datetime \<Rightarrow> 'd hub \<Rightarrow> ws \<Rightarrow> conn \<Rightarrow> 'd hub" where
  "ws_continue E now saved_now h w c =
     (case cn_phase c of
        Auth_user \<Rightarrow> auth_user h w c
      | Auth_session \<Rightarrow> auth_session h w c
      | Auth_member \<Rightarrow> auth_member h w c
      | Accepting \<Rightarrow> ws_accepted h w c
      | Want_join \<Rightarrow> join_room E saved_now h w c
      | Joining \<Rightarrow> join_loaded E h w c
      | Greet_status \<Rightarrow> greet_status E h w c
      | Greet_awareness \<Rightarrow> greet_awareness h w c
      | Receiving \<Rightarrow> h
      | Replying \<Rightarrow> set_phase h w Receiving
      | Broadcasting targets frame k \<Rightarrow> broadcast_step E now h w c targets frame k
      | Want_apply payload \<Rightarrow> apply_if_authorized E h w c payload
      | Closing_unjoined \<Rightarrow> finish_unjoined h w
      | Closing_joined \<Rightarrow> set_phase h w Want_leave
      | Want_leave \<Rightarrow> leave_room E now saved_now h w c
      | Leaving \<Rightarrow> leave_evicted h w c
      | Farewell targets frame \<Rightarrow> farewell_step h w targets frame)"

text \<open>The awaited operation raised.\<close>
definition ws_error :: "'d hub \<Rightarrow> ws \<Rightarrow> conn \<Rightarrow> 'd hub" where
  "ws_error h w c =
     (case cn_phase c of
        Auth_user \<Rightarrow> finish h w
      | Auth_session \<Rightarrow> finish h w
      | Auth_member \<Rightarrow> finish h w
      | Accepting \<Rightarrow> finish h w
      | Greet_status \<Rightarrow> ws_fail h w
      | Greet_awareness \<Rightarrow> ws_fail h w
      | Receiving \<Rightarrow> ws_fail h w
      | Replying \<Rightarrow> ws_fail h w
      | Broadcasting targets frame k \<Rightarrow> set_phase h w (Broadcasting (tl targets) frame k)
      | Farewell targets frame \<Rightarrow> set_phase h w (Farewell (tl targets) frame)
      | _ \<Rightarrow> h)"

section \<open>Requests\<close>

definition set_request :: "'d hub \<Rightarrow> nat \<Rightarrow> http \<Rightarrow> http_phase \<Rightarrow> 'd hub" where
  "set_request h i r p = h\<lparr>hb_requests := (hb_requests h)(i \<mapsto> r\<lparr>hr_phase := p\<rparr>)\<rparr>"

definition end_request :: "'d hub \<Rightarrow> nat \<Rightarrow> 'd hub" where
  "end_request h i = h\<lparr>hb_requests := (hb_requests h)(i := None)\<rparr>"

text \<open>Broadcasting frames one after the other; each captures the room when it starts.\<close>
definition http_broadcast :: "'d hub \<Rightarrow> nat \<Rightarrow> http \<Rightarrow> bytes list \<Rightarrow> 'd hub" where
  "http_broadcast h i r frames =
     (case frames of
        [] \<Rightarrow> end_request h i
      | frame # frames \<Rightarrow> set_request h i r (H_broadcasting (room_sockets h (hr_session r)) frame frames))"

text \<open>Leaving the lock with an exception or before the frames.\<close>
definition unlock :: "'d hub \<Rightarrow> nat \<Rightarrow> http \<Rightarrow> bytes list \<Rightarrow> 'd hub" where
  "unlock h i r frames = http_broadcast (release h (hr_session r)) i r frames"

definition min_role_of :: "http_op \<Rightarrow> RoleEnum" where
  "min_role_of op = (case op of Change_role _ _ \<Rightarrow> owner | Remove_user _ \<Rightarrow> owner | Close_it _ \<Rightarrow> owner | _ \<Rightarrow> editor)"

definition CRDT_MAX_UPDATE_BYTES :: nat where "CRDT_MAX_UPDATE_BYTES = 5 * 1024 * 1024"

definition body_ok :: "http_op \<Rightarrow> bool" where
  "body_ok op = (case op of Save state \<Rightarrow> state \<noteq> [] \<and> length state \<le> CRDT_MAX_UPDATE_BYTES | _ \<Rightarrow> True)"

text \<open>The dependencies of the endpoint, then the wait for the room lock.\<close>
definition http_open :: "'d hub \<Rightarrow> nat \<Rightarrow> uuid \<Rightarrow> http_op \<Rightarrow> session_key \<Rightarrow> 'd hub" where
  "http_open h i user_id op sid =
     (let r = \<lparr>hr_op = op, hr_session = sid, hr_user = user_id, hr_view = hb_db h,
               hr_has_connections = False, hr_snapshot = [], hr_frames = [], hr_phase = H_queued\<rparr>
      in if op = Maintain then set_request h i r H_queued
         else case dget (db_users (hb_db h)) user_id of
           None \<Rightarrow> h
         | Some user \<Rightarrow>
             (case role_checker (min_role_of op) (hb_db h) sid user of
                Inl _ \<Rightarrow> h
              | Inr _ \<Rightarrow> if body_ok op then set_request h i r H_queued else h))"

definition http_lock :: "'d hub_env \<Rightarrow> datetime \<Rightarrow> 'd hub \<Rightarrow> nat \<Rightarrow> http \<Rightarrow> 'd hub" where
  "http_lock E now h i r =
     (let sid = hr_session r
      in if hb_locks h sid \<noteq> None then h
         else
           let h' = h\<lparr>hb_locks := (hb_locks h)(sid \<mapsto> Http_holder i)\<rparr>;
               r = r\<lparr>hr_has_connections := (room_list h sid \<noteq> [])\<rparr>
           in case hr_op r of
                Change_role _ _ \<Rightarrow> set_request h' i r H_mutating
              | Remove_user _ \<Rightarrow> set_request h' i r H_mutating
              | Close_it _ \<Rightarrow> set_request h' i r H_mutating
              | Maintain \<Rightarrow>
                  if hr_has_connections r then end_request (call_docs E h (Call sid Checkpoint now)) i
                  else set_request (call_docs E h' (Call sid Checkpoint_and_remove now)) i r H_evicting
              | _ \<Rightarrow> set_request h' i r H_checking)"

text \<open>What the service functions see: current rows, except that a row the request's database
  session holds keeps the attribute values it was loaded with.\<close>
definition identity_map :: "database \<Rightarrow> database \<Rightarrow> database" where
  "identity_map view db =
     db\<lparr>db_sessions := dmap (\<lambda>sid s. case dget (db_sessions view) sid of Some v \<Rightarrow> v | None \<Rightarrow> s) (db_sessions db),
        db_members := dmap (\<lambda>k m. case dget (db_members view) k of Some v \<Rightarrow> v | None \<Rightarrow> m) (db_members db)\<rparr>"

text \<open>The commit of a membership or session change: the service's decision on what it sees, the
  write on the current tables (an unchanged role writes nothing).\<close>
definition commit_op :: "database \<Rightarrow> database \<Rightarrow> session_key \<Rightarrow> http_op \<Rightarrow> SessionServiceError + database" where
  "commit_op view db sid op =
     (let seen = identity_map view db
      in case op of
           Change_role uid role \<Rightarrow>
             rbind (update_member_role seen sid uid role) (\<lambda>(member, seen').
             Inr (if seen' = seen then db else db\<lparr>db_members := dset (sid, uid) member (db_members db)\<rparr>))
         | Remove_user uid \<Rightarrow>
             rbind (remove_member seen sid uid) (\<lambda>_.
             Inr (db\<lparr>db_members := dpop (sid, uid) (db_members db)\<rparr>))
         | Close_it now \<Rightarrow>
             rbind (close_session now seen sid) (\<lambda>_.
             Inr (db\<lparr>db_sessions := dmap (\<lambda>k s. if k = sid then s\<lparr>s_is_active := False, s_updated_at := now\<rparr> else s)
               (db_sessions db)\<rparr>))
         | _ \<Rightarrow> Inr db)"

definition http_mutate :: "'d hub \<Rightarrow> nat \<Rightarrow> http \<Rightarrow> 'd hub" where
  "http_mutate h i r =
     (case commit_op (hr_view r) (hb_db h) (hr_session r) (hr_op r) of
        Inl _ \<Rightarrow> unlock h i r []
      | Inr db \<Rightarrow> set_request (h\<lparr>hb_db := db\<rparr>) i r H_committed)"

definition fence :: "'d hub \<Rightarrow> http \<Rightarrow> 'd hub" where
  "fence h r =
     (case hr_op r of
        Change_role uid _ \<Rightarrow> reauthenticate_member_connections h (hr_session r) uid
      | Remove_user uid \<Rightarrow> revoke_member_connections h (hr_session r) uid
      | Close_it _ \<Rightarrow> close_session_connections h (hr_session r)
      | _ \<Rightarrow> h)"

definition http_check :: "'d hub_env \<Rightarrow> datetime \<Rightarrow> 'd hub \<Rightarrow> nat \<Rightarrow> http \<Rightarrow> 'd hub" where
  "http_check E now h i r =
     (case require_current_editor (hb_db h) (hr_session r) (hr_user r) of
        Inl _ \<Rightarrow> unlock h i r []
      | Inr _ \<Rightarrow>
          (case hr_op r of
             Restore _ \<Rightarrow> set_request h i r H_fetching
           | _ \<Rightarrow> set_request (call_docs E h (Call (hr_session r) Load now)) i r H_loading))"

definition http_fetch :: "'d hub_env \<Rightarrow> datetime \<Rightarrow> 'd hub \<Rightarrow> nat \<Rightarrow> http \<Rightarrow> 'd hub" where
  "http_fetch E now h i r =
     (case hr_op r of
        Restore snapshot_id \<Rightarrow>
          (case get_snapshot (hb_db h) (hr_session r) snapshot_id of
             Inl _ \<Rightarrow> unlock h i r []
           | Inr snapshot \<Rightarrow>
               if n_size_bytes snapshot > int CRDT_MAX_UPDATE_BYTES then unlock h i r []
               else set_request (call_docs E h (Call (hr_session r) Load now)) i
                 (r\<lparr>hr_snapshot := n_document_state snapshot\<rparr>) H_loading)
      | _ \<Rightarrow> h)"

text \<open>The last storage step: checkpoint under connections, evict without.\<close>
definition http_settle_doc :: "'d hub_env \<Rightarrow> datetime \<Rightarrow> 'd hub \<Rightarrow> nat \<Rightarrow> http \<Rightarrow> 'd hub" where
  "http_settle_doc E now h i r =
     (if hr_has_connections r
      then set_request (call_docs E h (Call (hr_session r) Checkpoint now)) i r H_checkpointing
      else set_request (call_docs E h (Call (hr_session r) Checkpoint_and_remove now)) i r H_evicting)"

definition http_evict_if_idle :: "'d hub_env \<Rightarrow> datetime \<Rightarrow> 'd hub \<Rightarrow> nat \<Rightarrow> http \<Rightarrow> 'd hub" where
  "http_evict_if_idle E now h i r =
     (if hr_has_connections r then unlock h i r []
      else set_request (call_docs E h (Call (hr_session r) Checkpoint_and_remove now)) i r H_evicting)"

definition update_frames :: "bytes \<Rightarrow> bytes list" where
  "update_frames u = (if u = [] then [] else case encode_sync_update u of Inl _ \<Rightarrow> [] | Inr f \<Rightarrow> [f])"

definition http_loaded :: "'d hub_env \<Rightarrow> datetime \<Rightarrow> 'd hub \<Rightarrow> nat \<Rightarrow> http \<Rightarrow> 'd hub" where
  "http_loaded E now h i r =
     (let sid = hr_session r
      in if load_pending (hb_docs h) sid then h
         else if dm_docs (hb_docs h) sid = None then unlock h i r []
         else case hr_op r of
           Save state \<Rightarrow>
             (case apply_update (he_crdt E) (hb_docs h) sid state of
                (docs, Inl _) \<Rightarrow> unlock (h\<lparr>hb_docs := docs\<rparr>) i r []
              | (docs, Inr _) \<Rightarrow>
                  set_request (call_docs E (h\<lparr>hb_docs := docs, hb_saved := (hb_saved h)(sid := None)\<rparr>)
                    (Call sid Persist now)) i (r\<lparr>hr_frames := update_frames state\<rparr>) H_saving)
         | Restore _ \<Rightarrow>
             (case restore_text_from_state (he_crdt E) (hb_docs h) sid (hr_snapshot r) of
                (docs, Inl _) \<Rightarrow> unlock (h\<lparr>hb_docs := docs\<rparr>) i r []
              | (docs, Inr u) \<Rightarrow>
                  http_settle_doc E now (h\<lparr>hb_docs := docs\<rparr>) i (r\<lparr>hr_frames := update_frames u\<rparr>))
         | Take_snapshot _ _ \<Rightarrow>
             (case encode_state_as_update (he_crdt E) (hb_docs h) sid None of
                (docs, Inl _) \<Rightarrow> unlock (h\<lparr>hb_docs := docs\<rparr>) i r []
              | (docs, Inr state) \<Rightarrow>
                  if length state > CRDT_MAX_UPDATE_BYTES then unlock (h\<lparr>hb_docs := docs\<rparr>) i r []
                  else set_request (h\<lparr>hb_docs := docs\<rparr>) i r (H_inserting state))
         | _ \<Rightarrow> http_evict_if_idle E now h i r)"

definition http_insert :: "'d hub_env \<Rightarrow> datetime \<Rightarrow> 'd hub \<Rightarrow> nat \<Rightarrow> http \<Rightarrow> bytes \<Rightarrow> 'd hub" where
  "http_insert E now h i r state =
     (case hr_op r of
        Take_snapshot new_id label \<Rightarrow>
          (case create_snapshot new_id now (hb_db h) (hr_session r) (hr_user r) label state of
             Inl _ \<Rightarrow> unlock h i r []
           | Inr (_, db) \<Rightarrow> http_evict_if_idle E now (h\<lparr>hb_db := db\<rparr>) i r)
      | _ \<Rightarrow> h)"

definition http_saved :: "'d hub_env \<Rightarrow> datetime \<Rightarrow> 'd hub \<Rightarrow> nat \<Rightarrow> http \<Rightarrow> 'd hub" where
  "http_saved E now h i r =
     (case hb_saved h (hr_session r) of
        None \<Rightarrow> h
      | Some result \<Rightarrow>
          let username = map_option u_username (dget (db_users (hb_db h)) (hr_user r));
              saved = document_saved_frame E (Some (sr_saved_at result)) (sr_state_vector result)
                (sr_state_hash result) (sr_dirty result) username
          in http_settle_doc E now h i
               (r\<lparr>hr_frames := hr_frames r @ (case saved of Inl _ \<Rightarrow> [] | Inr f \<Rightarrow> [f])\<rparr>))"

definition http_broadcast_step :: "'d hub \<Rightarrow> nat \<Rightarrow> http \<Rightarrow> ws list \<Rightarrow> bytes \<Rightarrow> bytes list \<Rightarrow> 'd hub" where
  "http_broadcast_step h i r targets frame frames =
     (case targets of
        [] \<Rightarrow> http_broadcast h i r frames
      | target # targets \<Rightarrow>
          set_request (if hb_revoked h target \<noteq> None then h else send_bytes h target frame) i r
            (H_broadcasting targets frame frames))"

definition http_continue :: "'d hub_env \<Rightarrow> datetime \<Rightarrow> 'd hub \<Rightarrow> nat \<Rightarrow> http \<Rightarrow> 'd hub" where
  "http_continue E now h i r =
     (case hr_phase r of
        H_queued \<Rightarrow> http_lock E now h i r
      | H_mutating \<Rightarrow> http_mutate h i r
      | H_committed \<Rightarrow> set_request (fence h r) i r H_closing
      | H_closing \<Rightarrow> unlock h i r []
      | H_checking \<Rightarrow> http_check E now h i r
      | H_fetching \<Rightarrow> http_fetch E now h i r
      | H_loading \<Rightarrow> http_loaded E now h i r
      | H_inserting state \<Rightarrow> http_insert E now h i r state
      | H_saving \<Rightarrow> http_saved E now h i r
      | H_checkpointing \<Rightarrow> unlock h i r (hr_frames r)
      | H_evicting \<Rightarrow>
          if evict_pending (hb_docs h) (hr_session r) then h else unlock h i r (hr_frames r)
      | H_broadcasting targets frame frames \<Rightarrow> http_broadcast_step h i r targets frame frames)"

text \<open>The awaited operation raised. A raising checkpoint or eviction is logged and the request
  goes on, and a failing send is skipped; everything else leaves the lock with the exception.
  A failing transaction has not committed here; \<open>http_lost\<close> is the case that it has.\<close>
definition http_error :: "'d hub \<Rightarrow> nat \<Rightarrow> http \<Rightarrow> 'd hub" where
  "http_error h i r =
     (case hr_phase r of
        H_queued \<Rightarrow> end_request h i
      | H_mutating \<Rightarrow> unlock h i r []
      | H_checking \<Rightarrow> unlock h i r []
      | H_fetching \<Rightarrow> unlock h i r []
      | H_inserting _ \<Rightarrow> unlock h i r []
      | H_saving \<Rightarrow> unlock h i r []
      | H_broadcasting targets frame frames \<Rightarrow> set_request h i r (H_broadcasting (tl targets) frame frames)
      | _ \<Rightarrow> h)"

text \<open>Whom a change of a member or a session concerns.\<close>
fun affects :: "http_op \<Rightarrow> uuid \<Rightarrow> bool" where
  "affects (Change_role uid _) u \<longleftrightarrow> u = uid"
| "affects (Remove_user uid) u \<longleftrightarrow> u = uid"
| "affects (Close_it _) u \<longleftrightarrow> True"
| "affects _ u \<longleftrightarrow> False"

text \<open>An exception behind a commit: \<open>db.refresh\<close> raises, or \<open>db.commit\<close> itself after the database has committed.
  The change is in the tables, and the exception leaves the lock: no fence is raised for a changed
  member or session, and a stored snapshot is not answered.\<close>
definition http_lost :: "datetime \<Rightarrow> 'd hub \<Rightarrow> nat \<Rightarrow> http \<Rightarrow> 'd hub" where
  "http_lost now h i r =
     (case hr_phase r of
        H_committed \<Rightarrow>
          unlock (h\<lparr>hb_unfenced := hb_unfenced h \<union>
            {w. case hb_conns h w of None \<Rightarrow> False | Some c \<Rightarrow> cn_session c = hr_session r \<and> affects (hr_op r) (cn_user c)}\<rparr>) i r []
      | H_inserting state \<Rightarrow>
          (case hr_op r of
             Take_snapshot new_id label \<Rightarrow>
               (case create_snapshot new_id now (hb_db h) (hr_session r) (hr_user r) label state of
                  Inl _ \<Rightarrow> unlock h i r []
                | Inr (_, db) \<Rightarrow> unlock (h\<lparr>hb_db := db\<rparr>) i r [])
           | _ \<Rightarrow> h)
      | _ \<Rightarrow> h)"

section \<open>Events\<close>

datatype hub_event =
    Ws_open ws "pystr option" "pystr option"
  | Ws_continue ws real datetime
  | Ws_error ws
  | Ws_message ws ws_message real
  | Http_open nat uuid http_op session_key
  | Http_continue nat datetime
  | Http_error nat
  | Refresh_error nat datetime
  | Database session_op
  | Storage event

text \<open>What happens in the document manager on its own: its suspended operations go on, queued
  ones start, checkpoints are requested at shutdown, and Redis keys expire.\<close>
fun storage_event :: "event \<Rightarrow> bool" where
  "storage_event (Wake _ _) \<longleftrightarrow> True"
| "storage_event (Resume _ _ _) \<longleftrightarrow> True"
| "storage_event (Redis_expire _) \<longleftrightarrow> True"
| "storage_event (Call _ Checkpoint _) \<longleftrightarrow> True"
| "storage_event _ \<longleftrightarrow> False"

text \<open>Changes of the tables that take no room lock: new sessions and new members.\<close>
fun unlocked_op :: "session_op \<Rightarrow> bool" where
  "unlocked_op (Create _ _ _ _ _) \<longleftrightarrow> True"
| "unlocked_op (Add _ _ _) \<longleftrightarrow> True"
| "unlocked_op _ \<longleftrightarrow> False"

fun hub_step :: "'d hub_env \<Rightarrow> 'd hub \<Rightarrow> hub_event \<Rightarrow> 'd hub" where
  "hub_step E h (Ws_open w token raw) =
     (if hb_conns h w = None then ws_open E h w token raw else h)"
| "hub_step E h (Ws_continue w now saved_now) =
     (case hb_conns h w of None \<Rightarrow> h | Some c \<Rightarrow> ws_continue E now saved_now h w c)"
| "hub_step E h (Ws_error w) = (case hb_conns h w of None \<Rightarrow> h | Some c \<Rightarrow> ws_error h w c)"
| "hub_step E h (Ws_message w msg now) =
     (case hb_conns h w of
        None \<Rightarrow> h
      | Some c \<Rightarrow> if cn_phase c = Receiving then ws_receive E now h w c msg else h)"
| "hub_step E h (Http_open i user_id op sid) =
     (if hb_requests h i = None then http_open h i user_id op sid else h)"
| "hub_step E h (Http_continue i now) =
     (case hb_requests h i of None \<Rightarrow> h | Some r \<Rightarrow> http_continue E now h i r)"
| "hub_step E h (Http_error i) = (case hb_requests h i of None \<Rightarrow> h | Some r \<Rightarrow> http_error h i r)"
| "hub_step E h (Refresh_error i now) = (case hb_requests h i of None \<Rightarrow> h | Some r \<Rightarrow> http_lost now h i r)"
| "hub_step E h (Database op) =
     (if unlocked_op op then h\<lparr>hb_db := session_step (hb_db h) op\<rparr> else h)"
| "hub_step E h (Storage ev) = (if storage_event ev then call_docs E h ev else h)"

end
