(* ===== verification/Authorization.thy ===== *)
theory Authorization
  imports Hub
begin

text \<open>
  Who may change a document. A connection acts on the role it read from the database when it
  was opened; what keeps that role current is the fence: a change of a member or a session
  commits and raises an in-memory version under the room lock, and an update is applied under
  the same lock by a connection whose stamp is not older. \<open>hub_auth\<close> states this as an invariant
  of every interleaving (interpretation of \<open>invariant_machine\<close>): a fresh connection outside a
  commit-to-fence gap that has not missed a fence (\<open>hb_unfenced\<close>) has exactly the role the database gives its user now.
\<close>

section \<open>Who knows what\<close>

fun knows_active :: "ws_phase \<Rightarrow> bool" where
  "knows_active Auth_user \<longleftrightarrow> False"
| "knows_active Auth_session \<longleftrightarrow> False"
| "knows_active _ \<longleftrightarrow> True"

fun knows_role :: "ws_phase \<Rightarrow> bool" where
  "knows_role Auth_user \<longleftrightarrow> False"
| "knows_role Auth_session \<longleftrightarrow> False"
| "knows_role Auth_member \<longleftrightarrow> False"
| "knows_role _ \<longleftrightarrow> True"

fun registered :: "ws_phase \<Rightarrow> bool" where
  "registered Auth_user \<longleftrightarrow> False"
| "registered Auth_session \<longleftrightarrow> False"
| "registered Auth_member \<longleftrightarrow> False"
| "registered Accepting \<longleftrightarrow> False"
| "registered Leaving \<longleftrightarrow> False"
| "registered (Farewell _ _) \<longleftrightarrow> False"
| "registered _ \<longleftrightarrow> True"

fun ws_holds :: "ws_phase \<Rightarrow> bool" where
  "ws_holds Joining \<longleftrightarrow> True"
| "ws_holds Leaving \<longleftrightarrow> True"
| "ws_holds _ \<longleftrightarrow> False"

fun http_holds :: "http_phase \<Rightarrow> bool" where
  "http_holds H_queued \<longleftrightarrow> False"
| "http_holds (H_broadcasting _ _ _) \<longleftrightarrow> False"
| "http_holds _ \<longleftrightarrow> True"

fun checked :: "http_phase \<Rightarrow> bool" where
  "checked H_fetching \<longleftrightarrow> True"
| "checked H_loading \<longleftrightarrow> True"
| "checked (H_inserting _) \<longleftrightarrow> True"
| "checked H_saving \<longleftrightarrow> True"
| "checked _ \<longleftrightarrow> False"

definition active_in :: "database \<Rightarrow> session_key \<Rightarrow> bool" where
  "active_in db sid \<longleftrightarrow> (\<exists>s. dget (db_sessions db) sid = Some s \<and> s_is_active s)"

definition fresh :: "'d hub \<Rightarrow> conn \<Rightarrow> bool" where
  "fresh h c \<longleftrightarrow>
     inv_version (hb_member_invalidations h (cn_session c, cn_user c)) \<le> as_member_version (cn_stamp c) \<and>
     inv_version (hb_session_invalidations h (cn_session c)) \<le> as_session_version (cn_stamp c)"

text \<open>Between a commit and its fence; the committing request holds the room lock then.\<close>
definition gap :: "'d hub \<Rightarrow> session_key \<Rightarrow> uuid \<Rightarrow> bool" where
  "gap h sid uid \<longleftrightarrow>
     (\<exists>i r. hb_requests h i = Some r \<and> hr_session r = sid \<and> hr_phase r = H_committed \<and> affects (hr_op r) uid)"

definition stamp_ok :: "'d hub \<Rightarrow> conn \<Rightarrow> bool" where
  "stamp_ok h c \<longleftrightarrow>
     as_member_version (cn_stamp c) \<le> inv_version (hb_member_invalidations h (cn_session c, cn_user c)) \<and>
     as_session_version (cn_stamp c) \<le> inv_version (hb_session_invalidations h (cn_session c))"

text \<open>A connection that missed its fence may act on a role it no longer has; every other one knows.\<close>
definition right_ok :: "'d hub \<Rightarrow> conn \<Rightarrow> bool" where
  "right_ok h c \<longleftrightarrow>
     (fresh h c \<and> \<not> gap h (cn_session c) (cn_user c) \<longrightarrow>
        (knows_active (cn_phase c) \<longrightarrow> active_in (hb_db h) (cn_session c)) \<and>
        (knows_role (cn_phase c) \<longrightarrow> role_of (hb_db h) (cn_session c) (cn_user c) = Some (cn_role c)))"

definition conn_ok :: "'d hub \<Rightarrow> ws \<Rightarrow> conn \<Rightarrow> bool" where
  "conn_ok h w c \<longleftrightarrow> stamp_ok h c \<and> (w \<notin> hb_unfenced h \<longrightarrow> right_ok h c) \<and>
     (registered (cn_phase c) \<longrightarrow> hb_stamps h w = Some (cn_stamp c)) \<and>
     (ws_holds (cn_phase c) \<longrightarrow> hb_locks h (cn_session c) = Some (Ws_holder w))"

definition mutator :: "http_op \<Rightarrow> bool" where
  "mutator op \<longleftrightarrow> (case op of Change_role _ _ \<Rightarrow> True | Remove_user _ \<Rightarrow> True | Close_it _ \<Rightarrow> True | _ \<Rightarrow> False)"

definition request_ok :: "'d hub \<Rightarrow> nat \<Rightarrow> http \<Rightarrow> bool" where
  "request_ok h i r \<longleftrightarrow>
     (http_holds (hr_phase r) \<longrightarrow> hb_locks h (hr_session r) = Some (Http_holder i)) \<and>
     (hr_phase r = H_mutating \<or> hr_phase r = H_committed \<longrightarrow> mutator (hr_op r)) \<and>
     (checked (hr_phase r) \<longrightarrow> require_current_editor (hb_db h) (hr_session r) (hr_user r) = Inr ())"

definition hub_auth :: "'d hub \<Rightarrow> bool" where
  "hub_auth h \<longleftrightarrow>
     (\<forall>w c. hb_conns h w = Some c \<longrightarrow> conn_ok h w c) \<and>
     (\<forall>i r. hb_requests h i = Some r \<longrightarrow> request_ok h i r)"

section \<open>Steps of a connection\<close>

text \<open>What a connection's step leaves alone, up to its own entries and its session's lock.\<close>
definition light :: "'d hub \<Rightarrow> 'd hub \<Rightarrow> bool" where
  "light h h' \<longleftrightarrow> hb_db h' = hb_db h \<and> hb_member_invalidations h' = hb_member_invalidations h \<and>
     hb_session_invalidations h' = hb_session_invalidations h \<and> hb_requests h' = hb_requests h \<and>
     hb_conns h' = hb_conns h \<and> hb_stamps h' = hb_stamps h \<and> hb_locks h' = hb_locks h \<and> hb_unfenced h' = hb_unfenced h"

definition ws_frame :: "'d hub \<Rightarrow> ws \<Rightarrow> session_key \<Rightarrow> 'd hub \<Rightarrow> bool" where
  "ws_frame h w sid h' \<longleftrightarrow> hb_db h' = hb_db h \<and> hb_member_invalidations h' = hb_member_invalidations h \<and>
     hb_session_invalidations h' = hb_session_invalidations h \<and> hb_requests h' = hb_requests h \<and>
     hb_unfenced h' = hb_unfenced h \<and>
     (\<forall>w'. w' \<noteq> w \<longrightarrow> hb_conns h' w' = hb_conns h w' \<and> hb_stamps h' w' = hb_stamps h w') \<and>
     (\<forall>sid'. hb_locks h' sid' = hb_locks h sid' \<or>
        sid' = sid \<and> (hb_locks h sid = None \<or> hb_locks h sid = Some (Ws_holder w)))"

text \<open>The connection after its step: gone, or in a phase for which its entries are right.\<close>
definition ws_moved :: "'d hub \<Rightarrow> ws \<Rightarrow> conn \<Rightarrow> 'd hub \<Rightarrow> bool" where
  "ws_moved h w c h' \<longleftrightarrow> ws_frame h w (cn_session c) h' \<and>
     (\<forall>c'. hb_conns h' w = Some c' \<longrightarrow> c' = c\<lparr>cn_phase := cn_phase c'\<rparr> \<and>
        (registered (cn_phase c') \<longrightarrow> hb_stamps h' w = Some (cn_stamp c)) \<and>
        (ws_holds (cn_phase c') \<longrightarrow> hb_locks h' (cn_session c) = Some (Ws_holder w)))"

lemma light_refl [simp]: "light h h"
  by (simp add: light_def)

lemma light_trans: "light h h1 \<Longrightarrow> light h1 h2 \<Longrightarrow> light h h2"
  by (simp add: light_def)

lemma light_updates [simp]:
  "light h (h1\<lparr>hb_docs := a1\<rparr>) \<longleftrightarrow> light h h1" "light h (h1\<lparr>hb_awareness := a2\<rparr>) \<longleftrightarrow> light h h1"
  "light h (h1\<lparr>hb_sent := a3\<rparr>) \<longleftrightarrow> light h h1" "light h (h1\<lparr>hb_closes := a4\<rparr>) \<longleftrightarrow> light h h1"
  "light h (h1\<lparr>hb_revoked := a5\<rparr>) \<longleftrightarrow> light h h1" "light h (h1\<lparr>hb_rooms := a6\<rparr>) \<longleftrightarrow> light h h1"
  "light h (h1\<lparr>hb_saved := a7\<rparr>) \<longleftrightarrow> light h h1"
  by (simp_all add: light_def)

lemma light_ops [simp]:
  "light h (send_bytes h1 w f) \<longleftrightarrow> light h h1" "light h (close_connections h1 ws code) \<longleftrightarrow> light h h1"
  "light h (revoke_all h1 ws code reason) \<longleftrightarrow> light h h1"
  by (simp_all add: send_bytes_def close_connections_def revoke_all_def)

lemma light_call_docs [simp]: "light h (call_docs E h1 ev) \<longleftrightarrow> light h h1"
  by (simp add: call_docs_def split: prod.split option.split reply.split)

lemma light_close_if_invalidated:
  "close_if_invalidated h sid uid w = (h', b) \<Longrightarrow> light h h'"
  by (auto simp: close_if_invalidated_def split: option.splits)

text \<open>Every branch of a step ends in one of these.\<close>

lemma moved_set_phase:
  assumes "light h h1" "hb_conns h w = Some c"
    and "registered p \<Longrightarrow> hb_stamps h w = Some (cn_stamp c)" "\<not> ws_holds p"
  shows "ws_moved h w c (set_phase h1 w p)"
  using assms by (auto simp: ws_moved_def ws_frame_def light_def set_phase_def)

lemma moved_ws_fail:
  assumes "light h h1" "hb_conns h w = Some c" "hb_stamps h w = Some (cn_stamp c)"
  shows "ws_moved h w c (ws_fail h1 w)"
  unfolding ws_fail_def by (rule moved_set_phase) (use assms in auto)

lemma moved_send_then:
  assumes "light h h1" "hb_conns h w = Some c" "hb_stamps h w = Some (cn_stamp c)" "\<not> ws_holds p"
  shows "ws_moved h w c (send_then h1 w frame p)"
  using assms by (auto simp: send_then_def intro!: moved_ws_fail moved_set_phase split: sum.splits)

lemma moved_broadcast_then:
  assumes "light h h1" "hb_conns h w = Some c" "hb_stamps h w = Some (cn_stamp c)"
  shows "ws_moved h w c (broadcast_then h1 w sid frame k)"
  using assms by (auto simp: broadcast_then_def intro!: moved_ws_fail moved_set_phase split: sum.splits)

lemma moved_refl: "hb_conns h w = Some c \<Longrightarrow> conn_ok h w c \<Longrightarrow> ws_moved h w c h"
  by (auto simp: ws_moved_def ws_frame_def conn_ok_def)

lemmas moved_intros = moved_set_phase moved_ws_fail moved_send_then moved_broadcast_then

lemma moved_handle:
  assumes "light h h1" "hb_conns h w = Some c" "hb_stamps h w = Some (cn_stamp c)"
  shows "ws_moved h w c (handle_binary_message E now h1 w c data)"
  using assms
  by (auto simp: handle_binary_message_def Let_def intro!: moved_intros
      split: sum.splits ParsedMessage.splits prod.splits)

lemma moved_after_prune:
  assumes "light h h1" "hb_conns h w = Some c" "hb_stamps h w = Some (cn_stamp c)"
  shows "ws_moved h w c (after_prune E now h1 w c k)"
  using assms by (auto simp: after_prune_def intro!: moved_intros moved_handle split: after_broadcast.splits)

lemma moved_receive:
  assumes "hb_conns h w = Some c" "hb_stamps h w = Some (cn_stamp c)"
  shows "ws_moved h w c (ws_receive E now h w c msg)"
proof -
  obtain h1 b where k: "close_if_invalidated h (cn_session c) (cn_user c) w = (h1, b)" by fastforce
  have l: "light h h1" by (rule light_close_if_invalidated [OF k])
  show ?thesis
    using assms l k by (auto simp: ws_receive_def Let_def intro!: moved_intros moved_after_prune split: prod.splits bool.splits)
qed

lemma moved_greet:
  assumes "light h h1" "hb_conns h w = Some c" "hb_stamps h w = Some (cn_stamp c)"
  shows "ws_moved h w c (greet_awareness h1 w c)" "ws_moved h w c (greet_status E h1 w c)"
    "ws_moved h w c (greet_vector E h1 w c)"
proof -
  show a: "ws_moved h w c (greet_awareness h1 w c)"
    using assms by (auto simp: greet_awareness_def Let_def intro!: moved_intros)
  show s: "ws_moved h w c (greet_status E h1 w c)"
    using assms a by (auto simp: greet_status_def intro!: moved_intros split: option.splits)
  show "ws_moved h w c (greet_vector E h1 w c)"
    using assms s by (auto simp: greet_vector_def intro!: moved_intros split: prod.splits sum.splits)
qed

lemma moved_joined:
  assumes "light h h1" "hb_conns h w = Some c" "hb_stamps h w = Some (cn_stamp c)"
  shows "ws_moved h w c (ws_joined E h1 w c)"
proof -
  let ?h = "h1\<lparr>hb_rooms := (hb_rooms h1)(cn_session c \<mapsto> room_list h1 (cn_session c) @ [(w, cn_user c, cn_role c)])\<rparr>"
  obtain h2 b where k: "close_if_invalidated ?h (cn_session c) (cn_user c) w = (h2, b)" by fastforce
  have l: "light h h2" using light_trans [OF _ light_close_if_invalidated [OF k]] assms(1) by simp
  show ?thesis
    using assms l k by (auto simp: ws_joined_def Let_def intro!: moved_intros moved_greet split: prod.splits bool.splits)
qed

text \<open>Steps that take or release the session's lock.\<close>

lemma call_docs_frames [simp, frame_simps]:
  "hb_db (call_docs E h ev) = hb_db h" "hb_member_invalidations (call_docs E h ev) = hb_member_invalidations h"
  "hb_session_invalidations (call_docs E h ev) = hb_session_invalidations h"
  "hb_requests (call_docs E h ev) = hb_requests h" "hb_conns (call_docs E h ev) = hb_conns h"
  "hb_stamps (call_docs E h ev) = hb_stamps h" "hb_locks (call_docs E h ev) = hb_locks h"
  "hb_rooms (call_docs E h ev) = hb_rooms h" "hb_revoked (call_docs E h ev) = hb_revoked h"
  "hb_awareness (call_docs E h ev) = hb_awareness h" "hb_sent (call_docs E h ev) = hb_sent h"
  "hb_docs (call_docs E h ev) = dm_step (he_crdt E) (hb_docs h) ev" "hb_unfenced (call_docs E h ev) = hb_unfenced h"
  by (simp_all add: call_docs_def dm_step_def split: prod.split option.split reply.split)

lemma moved_locked:
  assumes "hb_db h1 = hb_db h" "hb_member_invalidations h1 = hb_member_invalidations h"
    "hb_session_invalidations h1 = hb_session_invalidations h" "hb_requests h1 = hb_requests h"
    "hb_conns h1 = hb_conns h" "hb_stamps h1 = hb_stamps h" "hb_unfenced h1 = hb_unfenced h"
    and "hb_locks h1 = (hb_locks h)(cn_session c := l)" "hb_conns h w = Some c"
    and "registered p \<Longrightarrow> hb_stamps h w = Some (cn_stamp c)" "ws_holds p \<Longrightarrow> l = Some (Ws_holder w)"
    and "hb_locks h (cn_session c) = None \<or> hb_locks h (cn_session c) = Some (Ws_holder w)"
  shows "ws_moved h w c (set_phase h1 w p)"
  using assms by (auto simp: ws_moved_def ws_frame_def set_phase_def)

lemma moved_released:
  assumes "ws_moved (release h (cn_session c)) w c h'" "hb_locks h (cn_session c) = Some (Ws_holder w)"
  shows "ws_moved h w c h'"
proof -
  have "hb_locks h' sid' = hb_locks h sid' \<or> sid' = cn_session c" for sid'
  proof -
    have "hb_locks h' sid' = hb_locks (release h (cn_session c)) sid' \<or> sid' = cn_session c"
      using assms(1) unfolding ws_moved_def ws_frame_def by blast
    then show ?thesis by (auto simp: release_def)
  qed
  with assms show ?thesis by (simp add: ws_moved_def ws_frame_def release_def)
qed

lemma moved_join_room:
  assumes "hb_conns h w = Some c" "hb_stamps h w = Some (cn_stamp c)" "conn_ok h w c"
  shows "ws_moved h w c (join_room E now h w c)"
  using assms moved_refl [OF assms(1,3)]
  by (auto simp: join_room_def Let_def intro!: moved_joined moved_locked [where l = "Some (Ws_holder w)"])

lemma moved_join_loaded:
  assumes "hb_conns h w = Some c" "hb_stamps h w = Some (cn_stamp c)" "conn_ok h w c"
    and lock: "hb_locks h (cn_session c) = Some (Ws_holder w)"
  shows "ws_moved h w c (join_loaded E h w c)"
proof -
  have "ws_moved (release h (cn_session c)) w c (ws_joined E (release h (cn_session c)) w c)"
    by (rule moved_joined) (use assms in \<open>simp_all add: release_def\<close>)
  note this [THEN moved_released, OF lock]
  moreover have "ws_moved h w c (close_connections (finish_unjoined (release h (cn_session c)) w) ws code)" for ws code
    using lock by (auto simp: ws_moved_def ws_frame_def finish_unjoined_def release_def close_connections_def)
  ultimately show ?thesis
    using moved_refl [OF assms(1,3)] by (auto simp: join_loaded_def Let_def)
qed

lemma moved_finish:
  assumes "light h h1" "hb_conns h w = Some c"
  shows "ws_moved h w c (finish h1 w)" "ws_moved h w c (finish_unjoined h1 w)" "ws_moved h w c (reject h1 w code)"
  using assms
  by (auto simp: ws_moved_def ws_frame_def light_def finish_def finish_unjoined_def reject_def close_connections_def)

lemma moved_apply:
  assumes "hb_conns h w = Some c" "hb_stamps h w = Some (cn_stamp c)" "conn_ok h w c"
  shows "ws_moved h w c (apply_if_authorized E h w c payload)"
  using assms moved_refl [OF assms(1,3)]
  by (auto simp: apply_if_authorized_def Let_def intro!: moved_intros split: option.splits prod.splits sum.splits)

lemma moved_broadcast_step:
  assumes "hb_conns h w = Some c" "hb_stamps h w = Some (cn_stamp c)"
  shows "ws_moved h w c (broadcast_step E now h w c targets frame k)"
  using assms by (auto simp: broadcast_step_def intro!: moved_intros moved_after_prune split: list.splits)

lemma moved_farewell:
  assumes "hb_conns h w = Some c"
  shows "ws_moved h w c (farewell_step h w targets frame)"
  using assms by (auto simp: farewell_step_def intro!: moved_intros moved_finish split: list.splits)

lemma moved_leave_evicted:
  assumes "hb_conns h w = Some c" "conn_ok h w c" "hb_locks h (cn_session c) = Some (Ws_holder w)"
  shows "ws_moved h w c (leave_evicted h w c)"
proof -
  have "ws_moved h w c (finish (release (h\<lparr>hb_awareness := x\<rparr>) (cn_session c)) w)" for x
    using assms(3) by (auto simp: ws_moved_def ws_frame_def release_def finish_def)
  with moved_refl [OF assms(1,2)] show ?thesis by (simp add: leave_evicted_def Let_def)
qed

lemma moved_unregister:
  assumes "ws_moved (h\<lparr>hb_stamps := (hb_stamps h)(w := None), hb_revoked := rv\<rparr>) w c h'"
  shows "ws_moved h w c h'"
  using assms by (auto simp: ws_moved_def ws_frame_def)

lemma moved_leave_room:
  assumes "hb_conns h w = Some c" "conn_ok h w c"
  shows "ws_moved h w c (leave_room E now saved_now h w c)"
proof (cases "hb_locks h (cn_session c) = None")
  case True
  let ?h = "h\<lparr>hb_stamps := (hb_stamps h)(w := None), hb_revoked := (hb_revoked h)(w := None)\<rparr>"
  have conn: "hb_conns ?h w = Some c" using assms(1) by simp
  have "ws_moved ?h w c (leave_room E now saved_now h w c)"
  proof (cases "hb_rooms h (cn_session c)")
    case None
    with True conn show ?thesis by (simp add: leave_room_def Let_def moved_finish)
  next
    case (Some room)
    obtain store removed where aw: "aw_remove_owner (hb_awareness h) (cn_session c) w now = (store, removed)" by fastforce
    show ?thesis
    proof (cases "filter (\<lambda>c. fst c \<noteq> w) room = []")
      case True
      then show ?thesis using \<open>hb_locks h (cn_session c) = None\<close> conn Some aw
        by (auto simp: leave_room_def Let_def intro!: moved_locked [where l = "Some (Ws_holder w)"])
    next
      case False
      then show ?thesis using True conn Some aw
        by (auto simp: leave_room_def Let_def simp del: filter_empty_conv
            intro!: moved_finish moved_set_phase split: sum.splits)
    qed
  qed
  then show ?thesis by (rule moved_unregister)
qed (use moved_refl [OF assms] in \<open>simp add: leave_room_def\<close>)

lemma moved_accepted:
  assumes "hb_conns h w = Some c"
  shows "ws_moved h w c (ws_accepted h w c)"
proof -
  let ?h = "h\<lparr>hb_stamps := (hb_stamps h)(w \<mapsto> cn_stamp c)\<rparr>"
  obtain h1 b where k: "close_if_invalidated ?h (cn_session c) (cn_user c) w = (h1, b)" by fastforce
  have l: "light ?h h1" by (rule light_close_if_invalidated [OF k])
  have "ws_moved ?h w c (ws_accepted h w c)"
    using assms l k by (auto simp: ws_accepted_def Let_def intro!: moved_intros split: prod.splits bool.splits)
  then show ?thesis by (auto simp: ws_moved_def ws_frame_def)
qed

lemma registered_stamp: "conn_ok h w c \<Longrightarrow> registered (cn_phase c) \<Longrightarrow> hb_stamps h w = Some (cn_stamp c)"
  by (simp add: conn_ok_def)

lemma ws_continue_moved:
  assumes "hb_conns h w = Some c" "conn_ok h w c" "knows_role (cn_phase c)"
  shows "ws_moved h w c (ws_continue E now saved_now h w c)"
  using assms registered_stamp [OF assms(2)] moved_refl [OF assms(1,2)]
  by (cases "cn_phase c")
    (auto simp: ws_continue_def conn_ok_def intro!: moved_accepted moved_join_room moved_join_loaded moved_greet
      moved_broadcast_step moved_apply moved_finish moved_leave_room moved_leave_evicted moved_farewell moved_set_phase)

lemma ws_error_moved:
  assumes "hb_conns h w = Some c" "conn_ok h w c"
  shows "ws_moved h w c (ws_error h w c)"
  using assms registered_stamp [OF assms(2)] moved_refl [OF assms]
  by (cases "cn_phase c") (auto simp: ws_error_def intro!: moved_finish moved_set_phase moved_ws_fail)

section \<open>The authorization invariant is kept\<close>

lemma hub_authD:
  "hub_auth h \<Longrightarrow> hb_conns h w = Some c \<Longrightarrow> conn_ok h w c"
  "hub_auth h \<Longrightarrow> hb_requests h i = Some r \<Longrightarrow> request_ok h i r"
  by (simp_all add: hub_auth_def)

text \<open>What the invariant of a connection and of a request depends on.\<close>

lemma conn_ok_cong:
  assumes "hb_db h' = hb_db h" "hb_member_invalidations h' = hb_member_invalidations h"
    "hb_session_invalidations h' = hb_session_invalidations h" "hb_requests h' = hb_requests h"
    "hb_stamps h' w = hb_stamps h w" "hb_unfenced h' = hb_unfenced h"
    "ws_holds (cn_phase c) \<longrightarrow> hb_locks h' (cn_session c) = Some (Ws_holder w)"
    and "conn_ok h w c"
  shows "conn_ok h' w c"
  using assms by (simp add: conn_ok_def stamp_ok_def right_ok_def fresh_def gap_def)

lemma request_ok_cong:
  assumes "hb_db h' = hb_db h" "http_holds (hr_phase r) \<longrightarrow> hb_locks h' (hr_session r) = Some (Http_holder i)"
    and "request_ok h i r"
  shows "request_ok h' i r"
  using assms by (simp add: request_ok_def)

lemma ws_moved_auth:
  assumes auth: "hub_auth h" and c: "hb_conns h w = Some c" "knows_role (cn_phase c)"
    and moved: "ws_moved h w c h'"
  shows "hub_auth h'"
proof -
  have same: "hb_db h' = hb_db h" "hb_member_invalidations h' = hb_member_invalidations h"
      "hb_session_invalidations h' = hb_session_invalidations h" "hb_requests h' = hb_requests h" "hb_unfenced h' = hb_unfenced h"
    and others: "\<And>w'. w' \<noteq> w \<Longrightarrow> hb_conns h' w' = hb_conns h w' \<and> hb_stamps h' w' = hb_stamps h w'"
    and locks: "\<And>sid. hb_locks h' sid = hb_locks h sid \<or>
        sid = cn_session c \<and> (hb_locks h sid = None \<or> hb_locks h sid = Some (Ws_holder w))"
    and own: "\<And>c'. hb_conns h' w = Some c' \<Longrightarrow> c' = c\<lparr>cn_phase := cn_phase c'\<rparr> \<and>
        (registered (cn_phase c') \<longrightarrow> hb_stamps h' w = Some (cn_stamp c)) \<and>
        (ws_holds (cn_phase c') \<longrightarrow> hb_locks h' (cn_session c) = Some (Ws_holder w))"
    using moved unfolding ws_moved_def ws_frame_def by metis+
  have held: "hb_locks h' sid = Some holder" if "hb_locks h sid = Some holder" "holder \<noteq> Ws_holder w" for sid holder
    using locks [of sid] that by auto
  have "conn_ok h' w' c'" if c': "hb_conns h' w' = Some c'" for w' c'
  proof (cases "w' = w")
    case True
    have ok: "conn_ok h w c" by (rule hub_authD(1) [OF auth c(1)])
    have "cn_session c' = cn_session c" "cn_user c' = cn_user c" "cn_stamp c' = cn_stamp c" "cn_role c' = cn_role c"
      using own c' True by (metis conn.select_convs conn.surjective conn.update_convs)+
    moreover have "registered (cn_phase c') \<longrightarrow> hb_stamps h' w = Some (cn_stamp c)"
      "ws_holds (cn_phase c') \<longrightarrow> hb_locks h' (cn_session c) = Some (Ws_holder w)"
      using own c' True by blast+
    moreover have "knows_active (cn_phase c)" using c(2) by (cases "cn_phase c") auto
    ultimately show ?thesis using ok c(2) True same
      by (simp add: conn_ok_def stamp_ok_def right_ok_def fresh_def gap_def)
  next
    case False
    then have ok: "conn_ok h w' c'" using others hub_authD(1) [OF auth] c' by metis
    then have "ws_holds (cn_phase c') \<longrightarrow> hb_locks h' (cn_session c') = Some (Ws_holder w')"
      using held False by (simp add: conn_ok_def)
    then show ?thesis
      by (rule conn_ok_cong [rotated 6]) (use same others False ok in auto)
  qed
  moreover have "request_ok h' i r" if "hb_requests h' i = Some r" for i r
  proof -
    have ok: "request_ok h i r" using that hub_authD(2) [OF auth] same by metis
    then have "http_holds (hr_phase r) \<longrightarrow> hb_locks h' (hr_session r) = Some (Http_holder i)"
      using held by (simp add: request_ok_def)
    then show ?thesis
      by (rule request_ok_cong [rotated]) (use same ok in auto)
  qed
  ultimately show ?thesis by (simp add: hub_auth_def)
qed

text \<open>One connection's entry is replaced, everything else stays.\<close>
lemma hub_auth_set_conn:
  assumes "hub_auth h" "\<And>c. co = Some c \<Longrightarrow> conn_ok h w c"
  shows "hub_auth (h\<lparr>hb_conns := (hb_conns h)(w := co), hb_closes := cl\<rparr>)"
proof -
  let ?h = "h\<lparr>hb_conns := (hb_conns h)(w := co), hb_closes := cl\<rparr>"
  have "conn_ok ?h w' c" if "conn_ok h w' c" for w' c
    by (rule conn_ok_cong [rotated 7, OF that]) (use that in \<open>simp_all add: conn_ok_def\<close>)
  moreover have "request_ok ?h i r" if "request_ok h i r" for i r
    by (rule request_ok_cong [rotated 2, OF that]) (use that in \<open>simp_all add: request_ok_def\<close>)
  ultimately show ?thesis using assms by (auto simp: hub_auth_def)
qed

lemma hub_auth_reject: "hub_auth h \<Longrightarrow> hub_auth (reject h w code)"
  using hub_auth_set_conn [of h None w] by (simp add: reject_def finish_def close_connections_def)

lemma hub_auth_plain_conn:
  assumes "hub_auth h" "\<And>c. co = Some c \<Longrightarrow> conn_ok h w c"
  shows "hub_auth (h\<lparr>hb_conns := (hb_conns h)(w := co)\<rparr>)"
  using hub_auth_set_conn [OF assms, where cl = "hb_closes h"] by simp

text \<open>A new connection has missed no fence: it knows nothing yet.\<close>
lemma hub_auth_new_conn:
  assumes "hub_auth h" "stamp_ok h c" "cn_phase c = Auth_user"
  shows "hub_auth (h\<lparr>hb_conns := (hb_conns h)(w \<mapsto> c), hb_unfenced := hb_unfenced h - {w}\<rparr>)"
proof -
  let ?h = "h\<lparr>hb_conns := (hb_conns h)(w \<mapsto> c), hb_unfenced := hb_unfenced h - {w}\<rparr>"
  have same: "stamp_ok ?h = stamp_ok h" "right_ok ?h = right_ok h" "request_ok ?h = request_ok h"
    by (simp_all add: fun_eq_iff stamp_ok_def right_ok_def fresh_def gap_def request_ok_def)
  have "conn_ok ?h w c" using assms(2,3) by (simp add: conn_ok_def same) (simp add: right_ok_def)
  moreover have "conn_ok ?h w' c'" if "w' \<noteq> w" "hb_conns h w' = Some c'" for w' c'
    using hub_authD(1) [OF assms(1) that(2)] that(1) by (simp add: conn_ok_def same)
  ultimately show ?thesis using assms(1) unfolding hub_auth_def same by (auto split: if_splits)
qed

lemma ws_open_auth: "hub_auth h \<Longrightarrow> hub_auth (ws_open E h w token raw)"
  by (auto simp: ws_open_def authenticate_start_def stamp_ok_def current_stamp_def
      intro!: hub_auth_reject hub_auth_new_conn split: sum.splits option.splits if_splits)

lemma auth_reads_auth:
  assumes auth: "hub_auth h" and c: "hb_conns h w = Some c"
  shows "cn_phase c = Auth_user \<Longrightarrow> hub_auth (auth_user h w c)"
    and "cn_phase c = Auth_session \<Longrightarrow> hub_auth (auth_session h w c)"
    and "cn_phase c = Auth_member \<Longrightarrow> hub_auth (auth_member h w c)"
proof -
  have ok: "conn_ok h w c" by (rule hub_authD(1) [OF auth c])
  show "hub_auth (auth_user h w c)" if "cn_phase c = Auth_user"
    using ok that auth c
    by (auto simp: auth_user_def set_phase_def conn_ok_def stamp_ok_def right_ok_def fresh_def
        intro!: hub_auth_reject hub_auth_plain_conn split: option.splits)
  show "hub_auth (auth_session h w c)" if "cn_phase c = Auth_session"
    using ok that auth c
    by (auto simp: auth_session_def set_phase_def conn_ok_def stamp_ok_def right_ok_def fresh_def active_in_def
        intro!: hub_auth_reject hub_auth_plain_conn split: option.splits)
  show "hub_auth (auth_member h w c)" if "cn_phase c = Auth_member"
    using ok that auth c
    by (auto simp: auth_member_def conn_ok_def stamp_ok_def right_ok_def fresh_def role_of_def
        intro!: hub_auth_reject hub_auth_plain_conn split: option.splits)
qed

lemma ws_continue_auth:
  assumes "hub_auth h" "hb_conns h w = Some c"
  shows "hub_auth (ws_continue E now saved_now h w c)"
proof (cases "knows_role (cn_phase c)")
  case True
  from ws_moved_auth [OF assms True ws_continue_moved [OF assms(2) hub_authD(1) [OF assms] True]] show ?thesis .
next
  case False
  with auth_reads_auth [OF assms] show ?thesis
    by (cases "cn_phase c") (simp_all add: ws_continue_def)
qed

lemma ws_error_auth:
  assumes "hub_auth h" "hb_conns h w = Some c"
  shows "hub_auth (ws_error h w c)"
proof (cases "knows_role (cn_phase c)")
  case True
  from ws_moved_auth [OF assms True ws_error_moved [OF assms(2) hub_authD(1) [OF assms]]] show ?thesis .
next
  case False
  with hub_auth_plain_conn [OF assms(1), where co = None and w = w] show ?thesis
    by (cases "cn_phase c") (simp_all add: ws_error_def finish_def)
qed

lemma ws_receive_auth:
  assumes "hub_auth h" "hb_conns h w = Some c" "cn_phase c = Receiving"
  shows "hub_auth (ws_receive E now h w c msg)"
  using assms registered_stamp [OF hub_authD(1) [OF assms(1,2)]]
  by (auto intro!: ws_moved_auth [OF assms(1,2)] moved_receive)

section \<open>Steps of a request\<close>

definition req_moved :: "'d hub \<Rightarrow> nat \<Rightarrow> http \<Rightarrow> 'd hub \<Rightarrow> bool" where
  "req_moved h i r h' \<longleftrightarrow> hb_db h' = hb_db h \<and> hb_member_invalidations h' = hb_member_invalidations h \<and>
     hb_session_invalidations h' = hb_session_invalidations h \<and> hb_conns h' = hb_conns h \<and>
     hb_stamps h' = hb_stamps h \<and> hb_unfenced h' = hb_unfenced h \<and> (\<forall>i'. i' \<noteq> i \<longrightarrow> hb_requests h' i' = hb_requests h i') \<and>
     (\<forall>sid. hb_locks h' sid = hb_locks h sid \<or>
        sid = hr_session r \<and> (hb_locks h sid = None \<or> hb_locks h sid = Some (Http_holder i))) \<and>
     (\<forall>r'. hb_requests h' i = Some r' \<longrightarrow> hr_phase r' \<noteq> H_committed \<and> request_ok h' i r')"

lemma req_moved_auth:
  assumes auth: "hub_auth h" and r: "hb_requests h i = Some r" "hr_phase r \<noteq> H_committed"
    and moved: "req_moved h i r h'"
  shows "hub_auth h'"
proof -
  have same: "hb_db h' = hb_db h" "hb_member_invalidations h' = hb_member_invalidations h"
      "hb_session_invalidations h' = hb_session_invalidations h" "hb_conns h' = hb_conns h" "hb_stamps h' = hb_stamps h"
      "hb_unfenced h' = hb_unfenced h"
    and others: "\<And>i'. i' \<noteq> i \<Longrightarrow> hb_requests h' i' = hb_requests h i'"
    and locks: "\<And>sid. hb_locks h' sid = hb_locks h sid \<or>
        sid = hr_session r \<and> (hb_locks h sid = None \<or> hb_locks h sid = Some (Http_holder i))"
    and own: "\<And>r'. hb_requests h' i = Some r' \<Longrightarrow> hr_phase r' \<noteq> H_committed \<and> request_ok h' i r'"
    using moved unfolding req_moved_def by metis+
  have held: "hb_locks h' sid = Some holder" if "hb_locks h sid = Some holder" "holder \<noteq> Http_holder i" for sid holder
    using locks [of sid] that by auto
  have gap: "gap h' sid uid = gap h sid uid" for sid uid
    unfolding gap_def using others own r by (metis option.inject)
  have "conn_ok h' w c" if "hb_conns h' w = Some c" for w c
  proof -
    have "conn_ok h w c" using that hub_authD(1) [OF auth] same by metis
    then show ?thesis using same held gap
      by (simp add: conn_ok_def stamp_ok_def right_ok_def fresh_def)
  qed
  moreover have "request_ok h' i' r'" if r': "hb_requests h' i' = Some r'" for i' r'
  proof (cases "i' = i")
    case False
    then have ok: "request_ok h i' r'" using r' others hub_authD(2) [OF auth] by metis
    then have "http_holds (hr_phase r') \<longrightarrow> hb_locks h' (hr_session r') = Some (Http_holder i')"
      using held False by (simp add: request_ok_def)
    then show ?thesis
      by (rule request_ok_cong [rotated]) (use same ok in auto)
  qed (use own r' in blast)
  ultimately show ?thesis by (simp add: hub_auth_def)
qed

text \<open>The same shape for the hub under construction, up to the request's own entry and lock.\<close>
definition req_light :: "'d hub \<Rightarrow> nat \<Rightarrow> http \<Rightarrow> 'd hub \<Rightarrow> bool" where
  "req_light h i r h1 \<longleftrightarrow> hb_db h1 = hb_db h \<and> hb_member_invalidations h1 = hb_member_invalidations h \<and>
     hb_session_invalidations h1 = hb_session_invalidations h \<and> hb_conns h1 = hb_conns h \<and>
     hb_stamps h1 = hb_stamps h \<and> hb_unfenced h1 = hb_unfenced h \<and> (\<forall>i'. i' \<noteq> i \<longrightarrow> hb_requests h1 i' = hb_requests h i') \<and>
     (\<forall>sid. hb_locks h1 sid = hb_locks h sid \<or>
        sid = hr_session r \<and> (hb_locks h sid = None \<or> hb_locks h sid = Some (Http_holder i)))"

lemma req_light_refl [simp]: "req_light h i r h"
  by (simp add: req_light_def)

lemma req_light_updates [simp]:
  "req_light h i r (h1\<lparr>hb_docs := a1\<rparr>) \<longleftrightarrow> req_light h i r h1"
  "req_light h i r (h1\<lparr>hb_saved := a2\<rparr>) \<longleftrightarrow> req_light h i r h1"
  "req_light h i r (send_bytes h1 w f) \<longleftrightarrow> req_light h i r h1"
  "req_light h i r (call_docs E h1 ev) \<longleftrightarrow> req_light h i r h1"
  by (simp_all add: req_light_def send_bytes_def)

lemma req_moved_end: "req_light h i r h1 \<Longrightarrow> req_moved h i r (end_request h1 i)"
  by (simp add: req_light_def req_moved_def end_request_def)

lemma req_moved_set:
  assumes "req_light h i r h1" "hr_session r1 = hr_session r" "p \<noteq> H_committed"
    and "http_holds p \<Longrightarrow> hb_locks h1 (hr_session r) = Some (Http_holder i)"
    and "p = H_mutating \<Longrightarrow> mutator (hr_op r1)"
    and "checked p \<Longrightarrow> require_current_editor (hb_db h) (hr_session r) (hr_user r1) = Inr ()"
  shows "req_moved h i r (set_request h1 i r1 p)"
  using assms by (auto simp: req_light_def req_moved_def set_request_def request_ok_def)

lemma req_moved_broadcast:
  "req_light h i r h1 \<Longrightarrow> hr_session r1 = hr_session r \<Longrightarrow> req_moved h i r (http_broadcast h1 i r1 frames)"
  by (auto simp: http_broadcast_def intro!: req_moved_end req_moved_set split: list.splits)

lemma req_moved_unlock:
  assumes "req_light h i r h1" "hr_session r1 = hr_session r" "hb_locks h (hr_session r) = Some (Http_holder i)"
  shows "req_moved h i r (unlock h1 i r1 frames)"
  unfolding unlock_def
  by (rule req_moved_broadcast) (use assms in \<open>auto simp: req_light_def release_def\<close>)

lemma req_moved_refl:
  "hb_requests h i = Some r \<Longrightarrow> request_ok h i r \<Longrightarrow> hr_phase r \<noteq> H_committed \<Longrightarrow> req_moved h i r h"
  by (simp add: req_moved_def)

lemmas req_intros = req_moved_end req_moved_set req_moved_broadcast req_moved_unlock

lemma req_moved_lock:
  assumes "hb_requests h i = Some r" "request_ok h i r" "hr_phase r = H_queued"
  shows "req_moved h i r (http_lock E now h i r)"
proof -
  have l: "req_light h i r (h\<lparr>hb_locks := (hb_locks h)(hr_session r \<mapsto> Http_holder i)\<rparr>)" if "hb_locks h (hr_session r) = None"
    using that by (simp add: req_light_def)
  show ?thesis using req_moved_refl [OF assms(1,2)] assms(3) l
    by (auto simp: http_lock_def Let_def mutator_def intro!: req_intros split: http_op.splits)
qed

lemma req_moved_settle_doc:
  assumes "req_light h i r h1" "hr_session r1 = hr_session r" "hb_locks h1 (hr_session r) = Some (Http_holder i)"
  shows "req_moved h i r (http_settle_doc E now h1 i r1)"
  using assms by (auto simp: http_settle_doc_def intro!: req_intros)

lemma req_moved_evict_if_idle:
  assumes "req_light h i r h1" "hb_locks h1 = hb_locks h" "hb_locks h (hr_session r) = Some (Http_holder i)"
  shows "req_moved h i r (http_evict_if_idle E now h1 i r)"
  using assms by (auto simp: http_evict_if_idle_def intro!: req_intros)

lemma req_moved_continue:
  assumes r: "hb_requests h i = Some r" "request_ok h i r"
    and "hr_phase r \<noteq> H_mutating" "hr_phase r \<noteq> H_committed" "\<And>state. hr_phase r \<noteq> H_inserting state"
  shows "req_moved h i r (http_continue E now h i r)"
proof -
  have held: "http_holds (hr_phase r) \<Longrightarrow> hb_locks h (hr_session r) = Some (Http_holder i)"
    and checked: "checked (hr_phase r) \<Longrightarrow> require_current_editor (hb_db h) (hr_session r) (hr_user r) = Inr ()"
    using r(2) by (simp_all add: request_ok_def)
  note stay = req_moved_refl [OF r assms(4)]
  show ?thesis
  proof (cases "hr_phase r")
    case H_queued
    with req_moved_lock [OF r] show ?thesis by (simp add: http_continue_def)
  next
    case H_checking
    with held stay show ?thesis
      by (auto simp: http_continue_def http_check_def intro!: req_intros split: sum.splits http_op.splits)
  next
    case H_fetching
    with held checked stay show ?thesis
      by (auto simp: http_continue_def http_fetch_def intro!: req_intros split: sum.splits http_op.splits)
  next
    case H_loading
    with held checked stay show ?thesis
      by (auto simp: http_continue_def http_loaded_def Let_def
          intro!: req_intros req_moved_settle_doc req_moved_evict_if_idle split: sum.splits prod.splits http_op.splits)
  next
    case H_saving
    with held stay show ?thesis
      by (auto simp: http_continue_def http_saved_def Let_def intro!: req_moved_settle_doc split: option.splits)
  qed (use assms held stay in \<open>auto simp: http_continue_def http_broadcast_step_def intro!: req_intros split: list.splits\<close>)
qed

lemma req_moved_error:
  assumes r: "hb_requests h i = Some r" "request_ok h i r" and "hr_phase r \<noteq> H_committed"
  shows "req_moved h i r (http_error h i r)"
  using req_moved_refl [OF assms] r(2)
  by (cases "hr_phase r") (auto simp: http_error_def request_ok_def intro!: req_intros)

text \<open>A commit writes rows of its own session only, and only those of the members it affects.\<close>

lemma commit_op_rows:
  assumes "commit_op view db sid op = Inr db'"
  shows "db_users db' = db_users db"
    and "sid' \<noteq> sid \<Longrightarrow> dget (db_sessions db') sid' = dget (db_sessions db) sid'"
    and "sid' \<noteq> sid \<or> \<not> affects op uid \<Longrightarrow> dget (db_members db') (sid', uid) = dget (db_members db) (sid', uid)"
    and "\<not> affects op uid \<Longrightarrow> db_sessions db' = db_sessions db"
  using assms by (cases op; auto simp: commit_op_def Let_def rbind_Inr_iff option.map_ident split: if_splits)+

lemma require_current_editor_rows:
  assumes "dget (db_sessions db') sid = dget (db_sessions db) sid"
    "dget (db_members db') (sid, uid) = dget (db_members db) (sid, uid)"
  shows "require_current_editor db' sid uid = require_current_editor db sid uid"
  unfolding require_current_editor_def assms by (rule refl)

lemma http_mutate_auth:
  assumes auth: "hub_auth h" and r: "hb_requests h i = Some r" "hr_phase r = H_mutating"
  shows "hub_auth (http_mutate h i r)"
proof (cases "commit_op (hr_view r) (hb_db h) (hr_session r) (hr_op r)")
  case (Inl e)
  have "hb_locks h (hr_session r) = Some (Http_holder i)"
    using hub_authD(2) [OF auth r(1)] r(2) by (simp add: request_ok_def)
  then have "req_moved h i r (unlock h i r [])" by (auto intro!: req_moved_unlock)
  from req_moved_auth [OF auth r(1) _ this] r(2) Inl show ?thesis by (simp add: http_mutate_def)
next
  case (Inr db)
  note rows = commit_op_rows [OF Inr]
  let ?h = "set_request (h\<lparr>hb_db := db\<rparr>) i r H_committed"
  have ok: "request_ok h i r" by (rule hub_authD(2) [OF auth r(1)])
  then have lock: "hb_locks h (hr_session r) = Some (Http_holder i)" and mut: "mutator (hr_op r)"
    using r(2) by (simp_all add: request_ok_def)
  have gap: "gap ?h sid uid" if g: "gap h sid uid" for sid uid
  proof -
    obtain i' r' where g: "hb_requests h i' = Some r'" "hr_session r' = sid" "hr_phase r' = H_committed" "affects (hr_op r') uid"
      using g unfolding gap_def by blast
    with r have "hb_requests ?h i' = Some r'" by (auto simp: set_request_def)
    with g show ?thesis unfolding gap_def by blast
  qed
  have new_gap: "gap ?h (hr_session r) uid" if "affects (hr_op r) uid" for uid
    using that unfolding gap_def set_request_def by fastforce
  have "conn_ok ?h w c" if "hb_conns ?h w = Some c" for w c
  proof -
    have c: "conn_ok h w c" using that hub_authD(1) [OF auth] by (simp add: set_request_def)
    have "right_ok ?h c" if w: "w \<notin> hb_unfenced h"
    proof (cases "cn_session c = hr_session r \<and> affects (hr_op r) (cn_user c)")
      case True
      with new_gap [of "cn_user c"] show ?thesis by (simp add: right_ok_def)
    next
      case False
      have m: "dget (db_members db) (cn_session c, cn_user c) = dget (db_members (hb_db h)) (cn_session c, cn_user c)"
        using rows(3) False by blast
      have s: "dget (db_sessions db) (cn_session c) = dget (db_sessions (hb_db h)) (cn_session c)"
        using rows(2) rows(4) False by metis
      have "right_ok h c" using c w by (simp add: conn_ok_def)
      then show ?thesis using gap m s
        by (auto simp: right_ok_def fresh_def active_in_def role_of_def set_request_def)
    qed
    with c show ?thesis by (simp add: conn_ok_def stamp_ok_def set_request_def)
  qed
  moreover have "request_ok ?h i' r'" if r': "hb_requests ?h i' = Some r'" for i' r'
  proof (cases "i' = i")
    case True
    with r' lock mut show ?thesis by (auto simp: set_request_def request_ok_def)
  next
    case False
    then have ok': "request_ok h i' r'" using r' hub_authD(2) [OF auth] by (simp add: set_request_def)
    have "hr_session r' \<noteq> hr_session r" if "checked (hr_phase r')"
    proof -
      have "http_holds (hr_phase r')" using that by (cases "hr_phase r'") auto
      then show ?thesis using ok' lock False by (auto simp: request_ok_def)
    qed
    then have "require_current_editor db (hr_session r') (hr_user r') = require_current_editor (hb_db h) (hr_session r') (hr_user r')"
      if "checked (hr_phase r')"
      using that rows(2,3) by (metis require_current_editor_rows)
    then show ?thesis using ok' by (simp add: request_ok_def set_request_def)
  qed
  ultimately have "hub_auth ?h" by (simp add: hub_auth_def)
  with Inr show ?thesis by (simp add: http_mutate_def)
qed

text \<open>The fence raises the version that its commit's affected connections have to be fresh for.\<close>

lemma fence_frames [simp, frame_simps]:
  "hb_db (fence h r) = hb_db h" "hb_requests (fence h r) = hb_requests h" "hb_conns (fence h r) = hb_conns h"
  "hb_stamps (fence h r) = hb_stamps h" "hb_locks (fence h r) = hb_locks h" "hb_docs (fence h r) = hb_docs h"
  "hb_rooms (fence h r) = hb_rooms h" "hb_unfenced (fence h r) = hb_unfenced h"
  by (simp_all add: fence_def reauthenticate_member_connections_def revoke_member_connections_def
      invalidate_member_connections_def close_session_connections_def revoke_all_def close_connections_def Let_def
      split: http_op.split)

lemma fence_versions:
  "inv_version (hb_member_invalidations h k) \<le> inv_version (hb_member_invalidations (fence h r) k)"
  "inv_version (hb_session_invalidations h sid) \<le> inv_version (hb_session_invalidations (fence h r) sid)"
  by (auto simp: fence_def reauthenticate_member_connections_def revoke_member_connections_def
      invalidate_member_connections_def close_session_connections_def revoke_all_def close_connections_def Let_def
      inv_version_def split: http_op.split option.split)

lemma fence_stale:
  assumes "affects (hr_op r) (cn_user c)" "cn_session c = hr_session r" "stamp_ok h c"
  shows "\<not> fresh (fence h r) c"
  using assms
  by (cases "hr_op r")
    (auto simp: fence_def reauthenticate_member_connections_def revoke_member_connections_def fresh_def stamp_ok_def
      invalidate_member_connections_def close_session_connections_def revoke_all_def close_connections_def Let_def
      inv_version_def)

text \<open>Out of the gap: everyone the change concerns is stale now, or is recorded as having missed the fence.\<close>
lemma gap_closed:
  assumes auth: "hub_auth h" and r: "hb_requests h i = Some r" "hr_phase r = H_committed"
    and same: "hb_db h' = hb_db h" "hb_conns h' = hb_conns h" "hb_stamps h' = hb_stamps h" "hb_unfenced h \<subseteq> hb_unfenced h'"
    and versions: "\<And>k. inv_version (hb_member_invalidations h k) \<le> inv_version (hb_member_invalidations h' k)"
      "\<And>sid. inv_version (hb_session_invalidations h sid) \<le> inv_version (hb_session_invalidations h' sid)"
    and others: "\<And>i'. i' \<noteq> i \<Longrightarrow> hb_requests h' i' = hb_requests h i'"
    and own: "\<And>r'. hb_requests h' i = Some r' \<Longrightarrow> request_ok h' i r'"
    and locks: "\<And>sid. hb_locks h' sid = hb_locks h sid \<or> sid = hr_session r"
    and stale: "\<And>w c. hb_conns h w = Some c \<Longrightarrow> stamp_ok h c \<Longrightarrow> cn_session c = hr_session r \<Longrightarrow> affects (hr_op r) (cn_user c) \<Longrightarrow>
      \<not> fresh h' c \<or> w \<in> hb_unfenced h'"
  shows "hub_auth h'"
proof -
  have "hb_locks h (hr_session r) = Some (Http_holder i)" using hub_authD(2) [OF auth r(1)] r(2) by (simp add: request_ok_def)
  then have held: "hb_locks h' sid = Some holder" if "hb_locks h sid = Some holder" "holder \<noteq> Http_holder i" for sid holder
    using locks [of sid] that by auto
  have gap: "gap h' sid uid \<or> (sid = hr_session r \<and> affects (hr_op r) uid)" if g: "gap h sid uid" for sid uid
  proof -
    obtain i' r' where g: "hb_requests h i' = Some r'" "hr_session r' = sid" "hr_phase r' = H_committed" "affects (hr_op r') uid"
      using g unfolding gap_def by blast
    with r others [of i'] show ?thesis unfolding gap_def by (cases "i' = i") auto
  qed
  have "conn_ok h' w c" if "hb_conns h' w = Some c" for w c
  proof -
    have c: "conn_ok h w c" using that hub_authD(1) [OF auth] same(2) by simp
    then have st: "stamp_ok h c" by (simp add: conn_ok_def)
    have "right_ok h' c" if w: "w \<notin> hb_unfenced h'"
    proof (cases "cn_session c = hr_session r \<and> affects (hr_op r) (cn_user c)")
      case True
      with stale [of w c] w st \<open>hb_conns h' w = Some c\<close> same(2) show ?thesis by (auto simp: right_ok_def)
    next
      case False
      have "fresh h c" if "fresh h' c" using that versions unfolding fresh_def by (meson order_trans)
      moreover have "right_ok h c" using c w same(4) by (auto simp: conn_ok_def)
      ultimately show ?thesis using gap [of "cn_session c" "cn_user c"] False same(1) by (auto simp: right_ok_def)
    qed
    moreover have "stamp_ok h' c" using st versions unfolding stamp_ok_def by (meson order_trans)
    moreover have "ws_holds (cn_phase c) \<longrightarrow> hb_locks h' (cn_session c) = Some (Ws_holder w)"
      using c held unfolding conn_ok_def by blast
    ultimately show ?thesis using c same(3) by (simp add: conn_ok_def)
  qed
  moreover have "request_ok h' i' r'" if r': "hb_requests h' i' = Some r'" for i' r'
  proof (cases "i' = i")
    case False
    then have ok: "request_ok h i' r'" using r' others hub_authD(2) [OF auth] by metis
    then have "http_holds (hr_phase r') \<longrightarrow> hb_locks h' (hr_session r') = Some (Http_holder i')"
      using held False by (simp add: request_ok_def)
    with ok same(1) show ?thesis by (simp add: request_ok_def)
  qed (use own r' in blast)
  ultimately show ?thesis by (simp add: hub_auth_def)
qed

lemma http_fence_auth:
  assumes auth: "hub_auth h" and r: "hb_requests h i = Some r" "hr_phase r = H_committed"
  shows "hub_auth (set_request (fence h r) i r H_closing)"
proof (rule gap_closed [OF auth r])
  show "request_ok (set_request (fence h r) i r H_closing) i r'"
    if "hb_requests (set_request (fence h r) i r H_closing) i = Some r'" for r'
    using that hub_authD(2) [OF auth r(1)] r(2) by (auto simp: set_request_def request_ok_def)
  show "\<not> fresh (set_request (fence h r) i r H_closing) c \<or> w \<in> hb_unfenced (set_request (fence h r) i r H_closing)"
    if "stamp_ok h c" "cn_session c = hr_session r" "affects (hr_op r) (cn_user c)" for w c
    using fence_stale [OF that(3,2,1)] by (simp add: fresh_def set_request_def)
qed (use fence_versions [of h] in \<open>simp_all add: set_request_def\<close>)

text \<open>Changes of the tables that keep every session and membership row.\<close>
definition keeps_rows :: "database \<Rightarrow> database \<Rightarrow> bool" where
  "keeps_rows db db' \<longleftrightarrow>
     (\<forall>sid s. dget (db_sessions db) sid = Some s \<longrightarrow> dget (db_sessions db') sid = Some s) \<and>
     (\<forall>k m. dget (db_members db) k = Some m \<longrightarrow> dget (db_members db') k = Some m)"

lemma require_current_editor_Inr:
  "require_current_editor db sid uid = Inr () \<longleftrightarrow>
     active_in db sid \<and> (\<exists>role. role_of db sid uid = Some role \<and> editor \<le> role)"
  by (auto simp: require_current_editor_def active_in_def role_of_def rank_less_iff not_less [symmetric]
      simp del: ROLE_RANK.simps split: option.splits)

lemma hub_auth_keeps_rows:
  assumes "hub_auth h" "keeps_rows (hb_db h) db"
  shows "hub_auth (h\<lparr>hb_db := db\<rparr>)"
proof -
  have a: "active_in (hb_db h) sid \<Longrightarrow> active_in db sid" for sid
    using assms(2) by (auto simp: active_in_def keeps_rows_def)
  have r: "role_of (hb_db h) sid uid = Some role \<Longrightarrow> role_of db sid uid = Some role" for sid uid role
    using assms(2) by (auto simp: role_of_def keeps_rows_def)
  have "conn_ok (h\<lparr>hb_db := db\<rparr>) w c" if "conn_ok h w c" for w c
    using that a r by (auto simp: conn_ok_def stamp_ok_def right_ok_def fresh_def gap_def)
  moreover have "request_ok (h\<lparr>hb_db := db\<rparr>) i q" if "request_ok h i q" for i q
    using that a r by (auto simp: request_ok_def require_current_editor_Inr)
  ultimately show ?thesis using assms(1) by (simp add: hub_auth_def)
qed

lemma unlocked_keeps_rows:
  assumes "unlocked_op op"
  shows "keeps_rows db (session_step db op)"
proof (cases op)
  case (Create i now n l c)
  have "keeps_rows db db'" if "create_session i now db n l c = Inr (s, db')" for s db'
    using that by (auto simp: create_session_Inr keeps_rows_def)
  with Create show ?thesis
    by (auto intro!: committed_cases [where P = "keeps_rows db"] simp: rbind_Inr_iff) (simp add: keeps_rows_def)
next
  case (Add sid uid role)
  have "keeps_rows db db'" if "add_member db sid uid role = Inr (m, db')" for m db'
    using that by (auto simp: add_member_Inr keeps_rows_def)
  with Add show ?thesis
    by (auto intro!: committed_cases [where P = "keeps_rows db"] simp: rbind_Inr_iff) (simp add: keeps_rows_def)
qed (use assms in simp_all)

lemma snapshot_keeps_rows:
  "create_snapshot new_id now db sid uid label state = Inr (snapshot, db') \<Longrightarrow> keeps_rows db db'"
  by (auto simp: create_snapshot_def Let_def keeps_rows_def split: if_splits)

lemma http_insert_auth:
  assumes auth: "hub_auth h" and r: "hb_requests h i = Some r" "hr_phase r = H_inserting state"
  shows "hub_auth (http_insert E now h i r state)"
proof -
  have lock: "hb_locks h (hr_session r) = Some (Http_holder i)"
    using hub_authD(2) [OF auth r(1)] r(2) by (simp add: request_ok_def)
  then have "req_moved h i r (unlock h i r [])" by (auto intro!: req_moved_unlock)
  from req_moved_auth [OF auth r(1) _ this] r(2) have failed: "hub_auth (unlock h i r [])" by simp
  have "hub_auth (http_evict_if_idle E now (h\<lparr>hb_db := db\<rparr>) i r)"
    if "create_snapshot new_id now (hb_db h) (hr_session r) (hr_user r) label state = Inr (snapshot, db)"
    for new_id label snapshot db
  proof -
    from hub_auth_keeps_rows [OF auth snapshot_keeps_rows [OF that]] have a: "hub_auth (h\<lparr>hb_db := db\<rparr>)" .
    have "req_moved (h\<lparr>hb_db := db\<rparr>) i r (http_evict_if_idle E now (h\<lparr>hb_db := db\<rparr>) i r)"
      using lock by (auto intro!: req_moved_evict_if_idle)
    from req_moved_auth [OF a _ _ this] r show ?thesis by simp
  qed
  with failed auth show ?thesis
    by (auto simp: http_insert_def split: http_op.split sum.split prod.split)
qed

lemma lost_record [simp]:
  "hb_conns (unlock h i r frames) = hb_conns h" "hb_db (unlock h i r frames) = hb_db h" "hb_stamps (unlock h i r frames) = hb_stamps h"
  "hb_unfenced (unlock h i r frames) = hb_unfenced h" "hb_member_invalidations (unlock h i r frames) = hb_member_invalidations h"
  "hb_session_invalidations (unlock h i r frames) = hb_session_invalidations h"
  by (simp_all add: unlock_def http_broadcast_def release_def set_request_def end_request_def split: list.split)

lemma http_lost_auth:
  assumes auth: "hub_auth h" and r: "hb_requests h i = Some r"
  shows "hub_auth (http_lost now h i r)"
proof (cases "hr_phase r")
  case H_committed
  have "hub_auth (unlock (h\<lparr>hb_unfenced := hb_unfenced h \<union> W\<rparr>) i r [])"
    if W: "\<And>w c. hb_conns h w = Some c \<Longrightarrow> cn_session c = hr_session r \<Longrightarrow> affects (hr_op r) (cn_user c) \<Longrightarrow> w \<in> W" for W
    by (rule gap_closed [OF auth r H_committed])
      (use W in \<open>auto simp: unlock_def http_broadcast_def release_def end_request_def\<close>)
  then show ?thesis by (simp add: http_lost_def H_committed)
next
  case (H_inserting state)
  have lock: "hb_locks h (hr_session r) = Some (Http_holder i)"
    using hub_authD(2) [OF auth r] H_inserting by (simp add: request_ok_def)
  have gone: "hub_auth (unlock h' i r [])" if "hub_auth h'" "hb_requests h' = hb_requests h" "hb_locks h' = hb_locks h" for h' :: "'a hub"
    using req_moved_auth [OF that(1) _ _ req_moved_unlock [OF req_light_refl refl]] that lock r H_inserting by simp
  have "hub_auth (h\<lparr>hb_db := db\<rparr>)"
    if "create_snapshot new_id now (hb_db h) (hr_session r) (hr_user r) label state = Inr (snapshot, db)" for new_id label snapshot db
    using hub_auth_keeps_rows [OF auth snapshot_keeps_rows [OF that]] .
  with gone auth show ?thesis by (auto simp: http_lost_def H_inserting split: http_op.split sum.split)
qed (use auth in \<open>simp_all add: http_lost_def\<close>)

lemma http_continue_auth:
  assumes "hub_auth h" "hb_requests h i = Some r"
  shows "hub_auth (http_continue E now h i r)"
proof (cases "hr_phase r")
  case H_mutating
  with http_mutate_auth [OF assms] show ?thesis by (simp add: http_continue_def)
next
  case H_committed
  with http_fence_auth [OF assms] show ?thesis by (simp add: http_continue_def)
next
  case (H_inserting state)
  with http_insert_auth [OF assms] show ?thesis by (simp add: http_continue_def)
qed (use req_moved_auth [OF assms] req_moved_continue [OF assms(2) hub_authD(2) [OF assms]] in simp_all)

lemma http_open_auth:
  assumes "hub_auth h" "hb_requests h i = None"
  shows "hub_auth (http_open h i uid op sid)"
proof -
  have "hub_auth (set_request h i r H_queued)" for r
  proof -
    let ?h = "set_request h i r H_queued"
    have gap: "gap ?h s u = gap h s u" for s u
      using assms(2) unfolding gap_def set_request_def
      by (simp, metis http.select_convs(7) http.surjective http.update_convs(7) http_phase.distinct(3) option.distinct(1) option.inject)
    have "conn_ok ?h w c = conn_ok h w c" for w c
      by (simp add: conn_ok_def stamp_ok_def right_ok_def fresh_def gap) (simp add: set_request_def)
    moreover have "request_ok ?h i' q = request_ok h i' q" for i' q
      by (simp add: request_ok_def set_request_def)
    moreover have "request_ok h i (r\<lparr>hr_phase := H_queued\<rparr>)" by (simp add: request_ok_def)
    ultimately show ?thesis using assms(1) by (auto simp: hub_auth_def set_request_def split: if_splits)
  qed
  with assms(1) show ?thesis
    by (auto simp: http_open_def Let_def split: option.split sum.split)
qed

lemma hub_step_auth:
  assumes auth: "hub_auth h"
  shows "hub_auth (hub_step E h ev)"
proof (cases ev)
  case (Database op)
  with auth show ?thesis by (auto intro!: hub_auth_keeps_rows unlocked_keeps_rows)
next
  case (Storage dev)
  have "hub_auth (call_docs E h dev)"
    using auth by (simp add: hub_auth_def conn_ok_def stamp_ok_def right_ok_def fresh_def gap_def request_ok_def)
  with Storage auth show ?thesis by simp
next
  case (Http_error i)
  show ?thesis
  proof (cases "hb_requests h i")
    case (Some r)
    have "hub_auth (http_error h i r)"
    proof (cases "hr_phase r = H_committed")
      case False
      from req_moved_auth [OF auth Some False req_moved_error [OF Some hub_authD(2) [OF auth Some] False]] show ?thesis .
    qed (use auth in \<open>simp add: http_error_def\<close>)
    with Some Http_error show ?thesis by simp
  qed (use Http_error auth in simp)
qed (use assms ws_continue_auth ws_error_auth ws_receive_auth http_continue_auth http_lost_auth http_open_auth ws_open_auth
    in \<open>auto split: option.splits\<close>)

lemma hub_auth_new: "hub_auth (new_hub db docs)"
  by (simp add: hub_auth_def new_hub_def)

interpretation authorization: invariant_machine "hub_step E" hub_auth for E :: "'d hub_env"
  by unfold_locales (rule hub_step_auth)

end
