(* ===== verification/Rooms.thy ===== *)
theory Rooms imports Authorization begin

text \<open>
  The rooms of websocket.py and the documents behind them. The invariant \<open>rooms_ok\<close> says that a
  connection in its endpoint's loop is listed in the room of its session, that the document of a
  session with a room is loaded, that an eviction (document_manager.checkpoint_and_remove) is
  pending only while the room is empty and its caller still holds the room's lock, and that what an
  HTTP endpoint learned about the room under the lock stays true until it releases the lock.
  \<open>hub_ok\<close> joins it with the authorization invariant; the interpretation \<open>hub\<close> carries both
  along every run of the hub.
\<close>

section \<open>Documents stay loaded while they are used\<close>

fun in_room :: "ws_phase \<Rightarrow> bool" where
  "in_room Greet_status \<longleftrightarrow> True"
| "in_room Greet_awareness \<longleftrightarrow> True"
| "in_room Receiving \<longleftrightarrow> True"
| "in_room Replying \<longleftrightarrow> True"
| "in_room (Broadcasting _ _ _) \<longleftrightarrow> True"
| "in_room (Want_apply _) \<longleftrightarrow> True"
| "in_room Closing_joined \<longleftrightarrow> True"
| "in_room Want_leave \<longleftrightarrow> True"
| "in_room _ \<longleftrightarrow> False"

definition evictor :: "'d hub \<Rightarrow> session_key \<Rightarrow> bool" where
  "evictor h sid \<longleftrightarrow>
     (\<exists>w c. hb_conns h w = Some c \<and> cn_session c = sid \<and> cn_phase c = Leaving) \<or>
     (\<exists>i r. hb_requests h i = Some r \<and> hr_session r = sid \<and> hr_phase r = H_evicting)"

definition rooms_ok :: "'d hub \<Rightarrow> bool" where
  "rooms_ok h \<longleftrightarrow> manager_ok (hb_docs h) \<and>
     (\<forall>w c. hb_conns h w = Some c \<longrightarrow> in_room (cn_phase c) \<longrightarrow>
        (w, cn_user c, cn_role c) \<in> set (room_list h (cn_session c))) \<and>
     (\<forall>sid. room_list h sid \<noteq> [] \<longrightarrow> dm_docs (hb_docs h) sid \<noteq> None) \<and>
     (\<forall>sid. evict_pending (hb_docs h) sid \<longrightarrow> room_list h sid = [] \<and> evictor h sid) \<and>
     (\<forall>i r. hb_requests h i = Some r \<longrightarrow> http_holds (hr_phase r) \<longrightarrow>
        (hr_has_connections r \<longleftrightarrow> room_list h (hr_session r) \<noteq> []))"

text \<open>Events that keep live documents and start no eviction.\<close>
fun keeping :: "event \<Rightarrow> bool" where
  "keeping (Sync_remove _) \<longleftrightarrow> False"
| "keeping (Resume _ _ _) \<longleftrightarrow> False"
| "keeping (Call _ req _) \<longleftrightarrow> req \<noteq> Checkpoint_and_remove"
| "keeping _ \<longleftrightarrow> True"

lemma settle_docs [simp, frame_simps]: "dm_docs (fst (settle sid mp)) = dm_docs (fst mp)"
  by (cases mp; cases "snd mp") (simp_all add: settle_def leave_guard_def Let_def)

lemma begin_docs [simp, frame_simps]: "dm_docs (fst (begin_request C now m sid req)) = dm_docs m"
  by (cases req) (auto simp: load_begin_def checkpoint_begin_def persist_begin_def Let_def split: option.splits)

lemma sync_docs:
  assumes "dm_docs m sid = Some d"
  shows "\<exists>d'. dm_docs (fst (apply_update C m sid' u)) sid = Some d'"
    and "\<exists>d'. dm_docs (fst (restore_text_from_state C m sid' u)) sid = Some d'"
    and "dm_docs (fst (get_state_vector C m sid')) sid = Some d"
    and "dm_docs (fst (encode_state_as_update C m sid' sv)) sid = Some d"
  using assms
  by (auto simp: apply_update_def restore_text_from_state_def get_state_vector_def encode_state_as_update_def
      get_or_create_def bump_generation_def publish_new_doc_def Let_def split: option.splits)

lemma enter_guard_docs [simp, frame_simps]:
  "dm_docs (enter_guard m sid) = dm_docs m" "dm_waiting (enter_guard m sid) = dm_waiting m"
  "dm_tasks (enter_guard m sid) = dm_tasks m" "dm_metadata (enter_guard m sid) = dm_metadata m"
  by (simp_all add: enter_guard_def)

lemma leave_guard_docs [simp, frame_simps]:
  "dm_docs (leave_guard m sid) = dm_docs m" "dm_waiting (leave_guard m sid) = dm_waiting m"
  "dm_tasks (leave_guard m sid) = dm_tasks m"
  by (simp_all add: leave_guard_def Let_def)

lemma keeping_docs:
  assumes "dm_docs m sid \<noteq> None" "keeping ev"
  shows "dm_docs (dm_step C m ev) sid \<noteq> None"
proof -
  obtain d where d: "dm_docs m sid = Some d" using assms(1) by blast
  show ?thesis
  proof (cases ev)
    case (Sync_apply s u)
    with sync_docs(1) [OF d, of C s u] show ?thesis by (auto simp: dm_step_def)
  next
    case (Sync_restore s u)
    with sync_docs(2) [OF d, of C s u] show ?thesis by (auto simp: dm_step_def)
  qed (use d sync_docs(3,4) [OF d] assms(2) in \<open>auto simp: dm_step_def Let_def split: option.splits list.splits\<close>)
qed

lemma resume_docs:
  assumes "dm_docs m sid \<noteq> None" "sid' \<noteq> sid \<or> \<not> evicting_task (dm_tasks m sid)"
  shows "dm_docs (dm_step C m (Resume sid' outcome now)) sid \<noteq> None"
proof (cases "dm_tasks m sid'")
  case (Some t)
  have "dm_docs (fst (resume_task C now m sid' t outcome)) sid \<noteq> None"
  proof (cases "sid' = sid")
    case True
    then show ?thesis using assms Some
      by (cases t; cases outcome)
        (auto simp: resume_db_read_def resume_redis_get_def resume_redis_set_def resume_db_write_def end_loading_def
          write_redis_def write_db_def persist_begin_def Let_def
          split: option.splits prod.splits after_load.splits)
  next
    case False
    then have "same_at sid m (fst (resume_task C now m sid' t outcome))" by (intro same_at_resume) simp
    with assms(1) show ?thesis by (simp add: same_at_def)
  qed
  with Some show ?thesis by (simp add: dm_step_def)
qed (use assms in \<open>simp add: dm_step_def\<close>)

lemma begin_evicting:
  assumes "snd (begin_request C now m sid req) = Suspend t" "evicting_task (Some t)"
  shows "req = Checkpoint_and_remove"
  using assms
  by (cases req) (auto simp: load_begin_def checkpoint_begin_def persist_begin_def Let_def split: option.splits)

lemma resume_evicting:
  assumes "snd (resume_task C now m sid t outcome) = Suspend t'"
  shows "\<not> evicting_task (Some t')"
  using assms
  by (cases t; cases outcome)
    (auto simp: resume_db_read_def resume_redis_get_def resume_redis_set_def resume_db_write_def
      write_redis_def write_db_def persist_begin_def Let_def
      split: option.splits prod.splits after_load.splits if_splits)

lemma settle_tasks:
  "dm_tasks (fst (settle sid mp)) sid = (case snd mp of Suspend t \<Rightarrow> Some t | Done _ \<Rightarrow> None)"
  "dm_waiting (fst (settle sid mp)) = dm_waiting (fst mp)"
  by (cases mp; cases "snd mp"; simp add: settle_def)+

lemma begin_waiting [simp, frame_simps]: "dm_waiting (fst (begin_request C now m sid req)) = dm_waiting m"
  by (cases req) (auto simp: load_begin_def checkpoint_begin_def persist_begin_def Let_def split: option.splits)

lemma resume_waiting [simp, frame_simps]: "dm_waiting (fst (resume_task C now m sid t outcome)) = dm_waiting m"
  by (cases t; cases outcome)
    (auto simp: resume_db_read_def resume_redis_get_def resume_redis_set_def resume_db_write_def end_loading_def
      write_redis_def write_db_def persist_begin_def Let_def split: option.splits prod.splits after_load.splits)

lemma sync_tasks [simp, frame_simps]:
  "dm_tasks (fst (apply_update C m sid u)) = dm_tasks m" "dm_waiting (fst (apply_update C m sid u)) = dm_waiting m"
  "dm_tasks (fst (restore_text_from_state C m sid u)) = dm_tasks m"
  "dm_waiting (fst (restore_text_from_state C m sid u)) = dm_waiting m"
  "dm_tasks (fst (get_state_vector C m sid)) = dm_tasks m" "dm_waiting (fst (get_state_vector C m sid)) = dm_waiting m"
  "dm_tasks (fst (encode_state_as_update C m sid sv)) = dm_tasks m"
  "dm_waiting (fst (encode_state_as_update C m sid sv)) = dm_waiting m"
  "dm_tasks (fst (remove_doc m sid)) = dm_tasks m" "dm_waiting (fst (remove_doc m sid)) = dm_waiting m"
  by (auto simp: apply_update_def restore_text_from_state_def get_state_vector_def encode_state_as_update_def
      remove_doc_def get_or_create_def bump_generation_def publish_new_doc_def Let_def split: option.splits)

lemma evict_pending_settle:
  assumes "evict_pending (fst (settle sid mp)) sid"
  shows "Checkpoint_and_remove \<in> set (dm_waiting (fst mp) sid) \<or> (\<exists>t. snd mp = Suspend t \<and> evicting_task (Some t))"
  using assms by (auto simp: evict_pending_def settle_tasks split: progress.splits)

lemma evict_pending_step:
  assumes "evict_pending (dm_step C m ev) sid"
  shows "evict_pending m sid \<or> (\<exists>now. ev = Call sid Checkpoint_and_remove now)"
proof (cases "ev_session ev = sid")
  case False
  then have "same_at sid m (dm_step C m ev)" by (intro same_at_event) simp
  with assms show ?thesis by (simp add: same_at_def evict_pending_def)
next
  case True
  show ?thesis
  proof (cases ev)
    case (Call s req now)
    show ?thesis
    proof (cases "dm_tasks m sid = None \<and> dm_waiting m sid = []")
      case free: True
      then have "evict_pending (fst (settle sid (begin_request C now (enter_guard m sid) sid req))) sid"
        using assms Call True by (simp add: dm_step_def Let_def)
      from evict_pending_settle [OF this] free
      obtain t where t: "snd (begin_request C now (enter_guard m sid) sid req) = Suspend t" "evicting_task (Some t)"
        by auto
      from begin_evicting [OF t] show ?thesis using Call True by simp
    next
      case False
      with assms Call True show ?thesis by (auto simp: dm_step_def Let_def evict_pending_def)
    qed
  next
    case (Wake s now)
    show ?thesis
    proof (cases "dm_tasks m sid = None \<and> dm_waiting m sid \<noteq> []")
      case free: True
      then obtain req reqs where w: "dm_waiting m sid = req # reqs" by (cases "dm_waiting m sid") auto
      let ?m = "m\<lparr>dm_waiting := (dm_waiting m)(sid := reqs)\<rparr>"
      have "evict_pending (fst (settle sid (begin_request C now ?m sid req))) sid"
        using assms Wake True free w by (simp add: dm_step_def)
      from evict_pending_settle [OF this]
      consider "Checkpoint_and_remove \<in> set reqs"
        | t where "snd (begin_request C now ?m sid req) = Suspend t" "evicting_task (Some t)"
        by auto
      then show ?thesis
      proof cases
        case 2
        from begin_evicting [OF this] w show ?thesis by (simp add: evict_pending_def)
      qed (use w in \<open>simp add: evict_pending_def\<close>)
    next
      case False
      then have "dm_step C m ev = m"
        using Wake True by (auto simp: dm_step_def split: option.splits list.splits)
      with assms show ?thesis by simp
    qed
  next
    case (Abandon s i)
    with assms True show ?thesis
      by (auto simp: dm_step_def evict_pending_def dest: in_set_takeD in_set_dropD split: if_splits)
  next
    case (Resume s outcome now)
    show ?thesis
    proof (cases "dm_tasks m sid")
      case (Some t)
      then have "evict_pending (fst (settle sid (resume_task C now m sid t outcome))) sid"
        using assms Resume True by (simp add: dm_step_def)
      from evict_pending_settle [OF this]
      consider "Checkpoint_and_remove \<in> set (dm_waiting m sid)"
        | t' where "snd (resume_task C now m sid t outcome) = Suspend t'" "evicting_task (Some t')"
        by auto
      then show ?thesis
      proof cases
        case 2
        with resume_evicting [OF 2(1)] show ?thesis by blast
      qed (simp add: evict_pending_def)
    qed (use assms Resume True in \<open>simp add: dm_step_def\<close>)
  qed (use assms in \<open>auto simp: dm_step_def evict_pending_def case_prod_beta\<close>)
qed

section \<open>What a step does to rooms and documents\<close>

text \<open>A run of keeping events in which documents are used only where they are live.\<close>
definition docs_kept :: "'d crdt \<Rightarrow> 'd manager \<Rightarrow> 'd manager \<Rightarrow> bool" where
  "docs_kept C m m' \<longleftrightarrow>
     (\<exists>evs. (\<forall>ev\<in>set evs. keeping ev) \<and> safe_run C m evs \<and> m' = run (dm_step C) m evs)"

lemma docs_kept_refl [simp]: "docs_kept C m m"
  unfolding docs_kept_def by (rule exI [of _ "[]"]) simp

lemma docs_kept_step: "docs_kept C m m' \<Longrightarrow> keeping ev \<Longrightarrow> safe_event m' ev \<Longrightarrow> docs_kept C m (dm_step C m' ev)"
proof -
  assume "docs_kept C m m'" and ev: "keeping ev" "safe_event m' ev"
  then obtain evs where "\<forall>ev\<in>set evs. keeping ev" "safe_run C m evs" "m' = run (dm_step C) m evs"
    by (auto simp: docs_kept_def)
  with ev show ?thesis unfolding docs_kept_def
    by (intro exI [of _ "evs @ [ev]"]) (simp add: safe_run_append run_append)
qed

lemma keeping_run:
  assumes "\<forall>ev\<in>set evs. keeping ev"
  shows "dm_docs m sid \<noteq> None \<Longrightarrow> dm_docs (run (dm_step C) m evs) sid \<noteq> None"
    and "evict_pending (run (dm_step C) m evs) sid \<Longrightarrow> evict_pending m sid"
  using assms
proof (induction evs arbitrary: m)
  case (Cons ev evs)
  {
    case 1
    then show ?case using Cons.IH(1) keeping_docs [of m sid ev C] by simp
  next
    case 2
    then have "evict_pending (dm_step C m ev) sid" using Cons.IH(2) by simp
    from evict_pending_step [OF this] 2 show ?case by auto
  }
qed simp_all

lemma docs_kept_live: "docs_kept C m m' \<Longrightarrow> dm_docs m sid \<noteq> None \<Longrightarrow> dm_docs m' sid \<noteq> None"
  unfolding docs_kept_def using keeping_run(1) by metis

lemma docs_kept_evict: "docs_kept C m m' \<Longrightarrow> evict_pending m' sid \<Longrightarrow> evict_pending m sid"
  unfolding docs_kept_def using keeping_run(2) by metis

lemma docs_kept_ok:
  assumes "docs_kept C m m'" "manager_ok m"
  shows "manager_ok m'"
proof -
  obtain evs where "m' = run (dm_step C) m evs" using assms(1) unfolding docs_kept_def by metis
  with documents.run_inv [OF assms(2), of C evs] show ?thesis by simp
qed

lemma docs_kept_sync:
  assumes "dm_docs m sid \<noteq> None"
  shows "docs_kept C m (fst (apply_update C m sid u))" "docs_kept C m (fst (restore_text_from_state C m sid u))"
    "docs_kept C m (fst (get_state_vector C m sid))" "docs_kept C m (fst (encode_state_as_update C m sid sv))"
  using docs_kept_step [OF docs_kept_refl, of "Sync_apply sid u" m C] docs_kept_step [OF docs_kept_refl, of "Sync_restore sid u" m C]
    docs_kept_step [OF docs_kept_refl, of "Sync_state_vector sid" m C] docs_kept_step [OF docs_kept_refl, of "Sync_encode sid sv" m C]
    assms by (simp_all add: dm_step_def)

lemma docs_kept_call:
  "docs_kept C m m' \<Longrightarrow> req \<noteq> Checkpoint_and_remove \<Longrightarrow> docs_kept C m (dm_step C m' (Call sid req now))"
  by (rule docs_kept_step) simp_all

text \<open>Steps of a connection in its room: rooms unchanged, documents kept.\<close>
definition room_light :: "'d crdt \<Rightarrow> 'd hub \<Rightarrow> 'd hub \<Rightarrow> bool" where
  "room_light C h h' \<longleftrightarrow> hb_rooms h' = hb_rooms h \<and> docs_kept C (hb_docs h) (hb_docs h')"

lemma room_light_refl [simp]: "room_light C h h"
  by (simp add: room_light_def)

lemma set_phase_frames [simp, frame_simps]:
  "hb_rooms (set_phase h w p) = hb_rooms h" "hb_docs (set_phase h w p) = hb_docs h"
  "hb_rooms (send_bytes h w f) = hb_rooms h" "hb_docs (send_bytes h w f) = hb_docs h"
  "hb_rooms (close_connections h ws code) = hb_rooms h" "hb_docs (close_connections h ws code) = hb_docs h"
  "hb_rooms (ws_fail h w) = hb_rooms h" "hb_docs (ws_fail h w) = hb_docs h"
  "hb_rooms (finish h w) = hb_rooms h" "hb_docs (finish h w) = hb_docs h"
  "hb_rooms (finish_unjoined h w) = hb_rooms h" "hb_docs (finish_unjoined h w) = hb_docs h"
  "hb_rooms (reject h w code) = hb_rooms h" "hb_docs (reject h w code) = hb_docs h"
  "hb_rooms (release h sid) = hb_rooms h" "hb_docs (release h sid) = hb_docs h"
  by (simp_all add: set_phase_def send_bytes_def close_connections_def ws_fail_def finish_def finish_unjoined_def
      reject_def release_def)

lemma send_then_frames [simp, frame_simps]:
  "hb_rooms (send_then h w f p) = hb_rooms h" "hb_docs (send_then h w f p) = hb_docs h"
  "hb_rooms (broadcast_then h w sid f k) = hb_rooms h" "hb_docs (broadcast_then h w sid f k) = hb_docs h"
  by (simp_all add: send_then_def broadcast_then_def split: sum.split)

lemma close_if_invalidated_frames:
  "close_if_invalidated h sid uid w = (h', b) \<Longrightarrow> hb_rooms h' = hb_rooms h \<and> hb_docs h' = hb_docs h"
  by (auto simp: close_if_invalidated_def split: option.splits)

lemma room_light_handle:
  assumes "dm_docs (hb_docs h) (cn_session c) \<noteq> None"
  shows "room_light (he_crdt E) h (handle_binary_message E now h w c data)"
  using docs_kept_sync(4) [OF assms, of "he_crdt E"]
  by (auto simp: room_light_def handle_binary_message_def Let_def
      split: sum.split ParsedMessage.split prod.split) (metis fst_conv)+

lemma room_light_after_prune:
  assumes "dm_docs (hb_docs h) (cn_session c) \<noteq> None"
  shows "room_light (he_crdt E) h (after_prune E now h w c k)"
  using room_light_handle [OF assms] by (auto simp: after_prune_def room_light_def split: after_broadcast.split)

lemma room_light_cong:
  "room_light C h1 h' \<Longrightarrow> hb_rooms h1 = hb_rooms h \<Longrightarrow> hb_docs h1 = hb_docs h \<Longrightarrow> room_light C h h'"
  by (simp add: room_light_def)

lemma room_light_receive:
  assumes "dm_docs (hb_docs h) (cn_session c) \<noteq> None"
  shows "room_light (he_crdt E) h (ws_receive E now h w c msg)"
proof -
  obtain h1 b where k: "close_if_invalidated h (cn_session c) (cn_user c) w = (h1, b)" by fastforce
  note fr = close_if_invalidated_frames [OF k]
  have "room_light (he_crdt E) (h1\<lparr>hb_awareness := x\<rparr>) (after_prune E now (h1\<lparr>hb_awareness := x\<rparr>) w c k')" for x k'
    by (rule room_light_after_prune) (use fr assms in simp)
  then show ?thesis using fr k
    by (auto simp: ws_receive_def Let_def room_light_def split: prod.split bool.split)
qed

lemma room_light_greet:
  "room_light (he_crdt E) h (greet_awareness h w c)" "room_light (he_crdt E) h (greet_status E h w c)"
  "dm_docs (hb_docs h) (cn_session c) \<noteq> None \<Longrightarrow> room_light (he_crdt E) h (greet_vector E h w c)"
proof -
  show a: "room_light (he_crdt E) h (greet_awareness h w c)"
    by (simp add: greet_awareness_def Let_def room_light_def)
  show s: "room_light (he_crdt E) h (greet_status E h w c)"
    using a by (auto simp: greet_status_def room_light_def split: option.split)
  show "room_light (he_crdt E) h (greet_vector E h w c)" if "dm_docs (hb_docs h) (cn_session c) \<noteq> None"
    using s docs_kept_sync(3) [OF that, of "he_crdt E"]
    by (auto simp: greet_vector_def room_light_def split: prod.split sum.split)
qed

lemma room_light_apply:
  assumes "dm_docs (hb_docs h) (cn_session c) \<noteq> None"
  shows "room_light (he_crdt E) h (apply_if_authorized E h w c payload)"
  using docs_kept_sync(1) [OF assms, of "he_crdt E"]
  by (auto simp: apply_if_authorized_def room_light_def Let_def split: option.split prod.split sum.split)
    (metis fst_conv)+

lemma room_light_broadcast:
  assumes "dm_docs (hb_docs h) (cn_session c) \<noteq> None"
  shows "room_light (he_crdt E) h (broadcast_step E now h w c targets frame k)"
  using room_light_after_prune [OF assms] by (auto simp: broadcast_step_def room_light_def split: list.split)

text \<open>The invariant across such a step of connection \<open>w\<close>, and across any other kind of step,
  from what the step did to rooms, documents, connections and requests.\<close>

lemma rooms_okI:
  assumes "manager_ok (hb_docs h)"
    "\<And>w c. hb_conns h w = Some c \<Longrightarrow> in_room (cn_phase c) \<Longrightarrow> (w, cn_user c, cn_role c) \<in> set (room_list h (cn_session c))"
    "\<And>sid. room_list h sid \<noteq> [] \<Longrightarrow> dm_docs (hb_docs h) sid \<noteq> None"
    "\<And>sid. evict_pending (hb_docs h) sid \<Longrightarrow> room_list h sid = [] \<and> evictor h sid"
    "\<And>i r. hb_requests h i = Some r \<Longrightarrow> http_holds (hr_phase r) \<Longrightarrow>
        (hr_has_connections r \<longleftrightarrow> room_list h (hr_session r) \<noteq> [])"
  shows "rooms_ok h"
  using assms unfolding rooms_ok_def by blast

lemma rooms_okD:
  assumes "rooms_ok h"
  shows "manager_ok (hb_docs h)"
    "hb_conns h w = Some c \<Longrightarrow> in_room (cn_phase c) \<Longrightarrow> (w, cn_user c, cn_role c) \<in> set (room_list h (cn_session c))"
    "room_list h sid \<noteq> [] \<Longrightarrow> dm_docs (hb_docs h) sid \<noteq> None"
    "evict_pending (hb_docs h) sid \<Longrightarrow> room_list h sid = [] \<and> evictor h sid"
    "hb_requests h i = Some r \<Longrightarrow> http_holds (hr_phase r) \<Longrightarrow>
        (hr_has_connections r \<longleftrightarrow> room_list h (hr_session r) \<noteq> [])"
  using assms unfolding rooms_ok_def by blast+

lemma in_room_live:
  assumes "rooms_ok h" "hb_conns h w = Some c" "in_room (cn_phase c)"
  shows "dm_docs (hb_docs h) (cn_session c) \<noteq> None"
proof -
  have "room_list h (cn_session c) \<noteq> []" using rooms_okD(2) [OF assms] by force
  then show ?thesis by (rule rooms_okD(3) [OF assms(1)])
qed

lemma room_list_cong: "hb_rooms h' = hb_rooms h \<Longrightarrow> room_list h' = room_list h"
  by (simp add: room_list_def fun_eq_iff)

text \<open>A connection's step that keeps the rooms, from a phase in the room or to one outside.\<close>
lemma rooms_ok_light:
  assumes ok: "rooms_ok h" and c: "hb_conns h w = Some c" "cn_phase c \<noteq> Leaving"
    and moved: "ws_moved h w c h'" and rooms: "room_list h' = room_list h"
    and docs: "docs_kept C (hb_docs h) (hb_docs h')"
    and phase: "in_room (cn_phase c) \<or> (\<forall>c'. hb_conns h' w = Some c' \<longrightarrow> \<not> in_room (cn_phase c'))"
  shows "rooms_ok h'"
proof (rule rooms_okI)
  have reqs: "hb_requests h' = hb_requests h"
    and others: "\<And>w'. w' \<noteq> w \<Longrightarrow> hb_conns h' w' = hb_conns h w'"
    and own: "\<And>c'. hb_conns h' w = Some c' \<Longrightarrow> c' = c\<lparr>cn_phase := cn_phase c'\<rparr>"
    using moved unfolding ws_moved_def ws_frame_def by metis+
  show "manager_ok (hb_docs h')" by (rule docs_kept_ok [OF docs rooms_okD(1) [OF ok]])
  show "(w', cn_user c', cn_role c') \<in> set (room_list h' (cn_session c'))"
    if "hb_conns h' w' = Some c'" "in_room (cn_phase c')" for w' c'
  proof (cases "w' = w")
    case True
    then have "in_room (cn_phase c)" using phase that by blast
    moreover have "cn_session c' = cn_session c" "cn_user c' = cn_user c" "cn_role c' = cn_role c"
      using own that True by (metis conn.select_convs conn.surjective conn.update_convs)+
    ultimately show ?thesis using rooms_okD(2) [OF ok c(1)] rooms True by simp
  next
    case False
    with that others rooms rooms_okD(2) [OF ok, of w' c'] show ?thesis by simp
  qed
  show "dm_docs (hb_docs h') sid \<noteq> None" if "room_list h' sid \<noteq> []" for sid
    using that rooms docs_kept_live [OF docs] rooms_okD(3) [OF ok] by metis
  show "room_list h' sid = [] \<and> evictor h' sid" if "evict_pending (hb_docs h') sid" for sid
  proof -
    have "room_list h sid = []" "evictor h sid"
      using rooms_okD(4) [OF ok docs_kept_evict [OF docs that]] by simp_all
    moreover have "evictor h' sid"
      using \<open>evictor h sid\<close> others c reqs unfolding evictor_def by (metis option.inject)
    ultimately show ?thesis using rooms by simp
  qed
  show "hr_has_connections r = (room_list h' (hr_session r) \<noteq> [])"
    if "hb_requests h' i = Some r" "http_holds (hr_phase r)" for i r
    using that reqs rooms rooms_okD(5) [OF ok] by metis
qed

lemma room_lightD: "room_light C h h' \<Longrightarrow> room_list h' = room_list h \<and> docs_kept C (hb_docs h) (hb_docs h')"
  using room_list_cong by (auto simp: room_light_def)

text \<open>Who holds the lock keeps the others out.\<close>
lemma lock_excludes:
  assumes auth: "hub_auth h" and lock: "hb_locks h sid = None \<or> hb_locks h sid = Some (Ws_holder w)"
  shows "hb_requests h i = Some r \<Longrightarrow> hr_session r = sid \<Longrightarrow> \<not> http_holds (hr_phase r)"
    and "hb_conns h w' = Some c' \<Longrightarrow> cn_session c' = sid \<Longrightarrow> w' \<noteq> w \<Longrightarrow> \<not> ws_holds (cn_phase c')"
  using lock hub_authD(2) [OF auth, of i r] hub_authD(1) [OF auth, of w' c']
  by (auto simp: request_ok_def conn_ok_def)

lemma no_evictor:
  assumes "hub_auth h" "rooms_ok h" "hb_conns h w = Some c" "cn_phase c \<noteq> Leaving"
    and lock: "hb_locks h (cn_session c) = None \<or> hb_locks h (cn_session c) = Some (Ws_holder w)"
  shows "\<not> evict_pending (hb_docs h) (cn_session c)"
proof
  assume "evict_pending (hb_docs h) (cn_session c)"
  then have "evictor h (cn_session c)" using rooms_okD(4) [OF assms(2)] by blast
  then consider w' c' where "hb_conns h w' = Some c'" "cn_session c' = cn_session c" "cn_phase c' = Leaving"
    | i r where "hb_requests h i = Some r" "hr_session r = cn_session c" "hr_phase r = H_evicting"
    unfolding evictor_def by blast
  then show False
  proof cases
    case 1
    then have "w' \<noteq> w" using assms(3,4) by auto
    with lock_excludes(2) [OF assms(1) lock 1(1,2)] 1 show ?thesis by simp
  next
    case 2
    with lock_excludes(1) [OF assms(1) lock 2(1,2)] show ?thesis by simp
  qed
qed

lemma rooms_ok_join:
  assumes auth: "hub_auth h" and ok: "rooms_ok h" and c: "hb_conns h w = Some c" "cn_phase c \<noteq> Leaving"
    and moved: "ws_moved h w c h'" and docs: "docs_kept C (hb_docs h) (hb_docs h')"
    and rooms: "room_list h' = (room_list h)(cn_session c := room_list h (cn_session c) @ [(w, cn_user c, cn_role c)])"
    and live: "dm_docs (hb_docs h) (cn_session c) \<noteq> None"
    and lock: "hb_locks h (cn_session c) = None \<or> hb_locks h (cn_session c) = Some (Ws_holder w)"
  shows "rooms_ok h'"
proof (rule rooms_okI)
  let ?sid = "cn_session c"
  have reqs: "hb_requests h' = hb_requests h"
    and others: "\<And>w'. w' \<noteq> w \<Longrightarrow> hb_conns h' w' = hb_conns h w'"
    and own: "\<And>c'. hb_conns h' w = Some c' \<Longrightarrow> c' = c\<lparr>cn_phase := cn_phase c'\<rparr>"
    using moved unfolding ws_moved_def ws_frame_def by metis+
  show "manager_ok (hb_docs h')" by (rule docs_kept_ok [OF docs rooms_okD(1) [OF ok]])
  show "(w', cn_user c', cn_role c') \<in> set (room_list h' (cn_session c'))"
    if "hb_conns h' w' = Some c'" "in_room (cn_phase c')" for w' c'
  proof (cases "w' = w")
    case True
    then have "cn_session c' = ?sid" "cn_user c' = cn_user c" "cn_role c' = cn_role c"
      using own that by (metis conn.select_convs conn.surjective conn.update_convs)+
    then show ?thesis using rooms True by simp
  next
    case False
    with that others have "(w', cn_user c', cn_role c') \<in> set (room_list h (cn_session c'))"
      using rooms_okD(2) [OF ok, of w' c'] by simp
    then show ?thesis using rooms by auto
  qed
  show "dm_docs (hb_docs h') sid \<noteq> None" if "room_list h' sid \<noteq> []" for sid
  proof -
    have "dm_docs (hb_docs h) sid \<noteq> None"
      using that rooms live rooms_okD(3) [OF ok, of sid] by (cases "sid = ?sid") simp_all
    then show ?thesis by (rule docs_kept_live [OF docs])
  qed
  show "room_list h' sid = [] \<and> evictor h' sid" if "evict_pending (hb_docs h') sid" for sid
  proof -
    note pending = docs_kept_evict [OF docs that]
    then have ne: "sid \<noteq> ?sid" using no_evictor [OF auth ok c lock] by blast
    have "room_list h sid = []" "evictor h sid" using rooms_okD(4) [OF ok pending] by simp_all
    moreover have "evictor h' sid"
      using \<open>evictor h sid\<close> others c reqs unfolding evictor_def by (metis option.inject)
    ultimately show ?thesis using rooms ne by simp
  qed
  show "hr_has_connections r = (room_list h' (hr_session r) \<noteq> [])"
    if "hb_requests h' i = Some r" "http_holds (hr_phase r)" for i r
  proof -
    have "hr_session r \<noteq> ?sid" using that reqs lock_excludes(1) [OF auth lock, of i r] by auto
    then show ?thesis using that reqs rooms rooms_okD(5) [OF ok, of i r] by simp
  qed
qed

lemma ws_joined_rooms:
  assumes "dm_docs (hb_docs h) (cn_session c) \<noteq> None"
  shows "hb_rooms (ws_joined E h w c) = (hb_rooms h)(cn_session c \<mapsto> room_list h (cn_session c) @ [(w, cn_user c, cn_role c)]) \<and>
    docs_kept (he_crdt E) (hb_docs h) (hb_docs (ws_joined E h w c))"
proof -
  let ?h = "h\<lparr>hb_rooms := (hb_rooms h)(cn_session c \<mapsto> room_list h (cn_session c) @ [(w, cn_user c, cn_role c)])\<rparr>"
  obtain h2 b where k: "close_if_invalidated ?h (cn_session c) (cn_user c) w = (h2, b)" by fastforce
  note fr = close_if_invalidated_frames [OF k]
  have "room_light (he_crdt E) h2 (greet_vector E h2 w c)"
    by (rule room_light_greet) (use fr assms in simp)
  with fr k show ?thesis
    by (auto simp: ws_joined_def Let_def room_light_def split: bool.split)
qed

lemma room_list_upd: "hb_rooms h' = (hb_rooms h)(sid \<mapsto> room) \<Longrightarrow> room_list h' = (room_list h)(sid := room)"
  by (auto simp: room_list_def fun_eq_iff)

lemma join_room_ok:
  assumes auth: "hub_auth h" and ok: "rooms_ok h" and c: "hb_conns h w = Some c" "cn_phase c = Want_join"
  shows "rooms_ok (join_room E now h w c)"
proof -
  note cok = hub_authD(1) [OF auth c(1)]
  have stamp: "hb_stamps h w = Some (cn_stamp c)" using registered_stamp [OF cok] c(2) by simp
  note moved = moved_join_room [OF c(1) stamp cok, of E now]
  show ?thesis
  proof (cases "hb_locks h (cn_session c) = None")
    case lock: True
    let ?h = "h\<lparr>hb_rooms := (hb_rooms h)(cn_session c \<mapsto> room_list h (cn_session c))\<rparr>"
    have rl: "room_list ?h = room_list h" by (auto simp: room_list_def fun_eq_iff)
    show ?thesis
    proof (cases "room_list h (cn_session c) = []")
      case True
      let ?h' = "join_room E now h w c"
      have e: "?h' = set_phase (call_docs E (?h\<lparr>hb_locks := (hb_locks h)(cn_session c \<mapsto> Ws_holder w)\<rparr>)
          (Call (cn_session c) Load now)) w Joining"
        using lock True by (simp add: join_room_def Let_def)
      have "hb_docs ?h' = dm_step (he_crdt E) (hb_docs h) (Call (cn_session c) Load now)" by (simp add: e)
      then have docs: "docs_kept (he_crdt E) (hb_docs h) (hb_docs ?h')" by (simp add: docs_kept_call)
      have "hb_rooms ?h' = hb_rooms ?h" by (simp add: e)
      then have "room_list ?h' = room_list h" using room_list_cong rl by metis
      moreover have "\<forall>c'. hb_conns ?h' w = Some c' \<longrightarrow> \<not> in_room (cn_phase c')"
        by (simp add: e) (simp add: set_phase_def c(1))
      ultimately show ?thesis using rooms_ok_light [OF ok c(1) _ moved _ docs] c(2) by simp
    next
      case False
      have live: "dm_docs (hb_docs h) (cn_session c) \<noteq> None" by (rule rooms_okD(3) [OF ok False])
      have e: "join_room E now h w c = ws_joined E ?h w c" using lock False by (simp add: join_room_def Let_def)
      have "dm_docs (hb_docs ?h) (cn_session c) \<noteq> None" using live by simp
      note j = ws_joined_rooms [OF this, of E w]
      have "room_list (join_room E now h w c)
          = (room_list h)(cn_session c := room_list h (cn_session c) @ [(w, cn_user c, cn_role c)])"
        unfolding e using room_list_upd [OF conjunct1 [OF j]] rl by simp
      moreover have "docs_kept (he_crdt E) (hb_docs h) (hb_docs (join_room E now h w c))"
        unfolding e using j by simp
      ultimately show ?thesis using rooms_ok_join [OF auth ok c(1) _ moved _ _ live] lock c(2) by simp
    qed
  qed (use ok in \<open>simp add: join_room_def\<close>)
qed

lemma join_loaded_ok:
  assumes auth: "hub_auth h" and ok: "rooms_ok h" and c: "hb_conns h w = Some c" "cn_phase c = Joining"
  shows "rooms_ok (join_loaded E h w c)"
proof -
  let ?sid = "cn_session c"
  note cok = hub_authD(1) [OF auth c(1)]
  have stamp: "hb_stamps h w = Some (cn_stamp c)" using registered_stamp [OF cok] c(2) by simp
  have lock: "hb_locks h ?sid = Some (Ws_holder w)" using cok c(2) by (simp add: conn_ok_def)
  note moved = moved_join_loaded [OF c(1) stamp cok lock, of E]
  consider "load_pending (hb_docs h) ?sid"
    | (failed) "\<not> load_pending (hb_docs h) ?sid" "dm_docs (hb_docs h) ?sid = None"
    | (loaded) "\<not> load_pending (hb_docs h) ?sid" "dm_docs (hb_docs h) ?sid \<noteq> None" by blast
  then show ?thesis
  proof cases
    case 1
    with ok show ?thesis by (simp add: join_loaded_def)
  next
    case failed
    let ?h' = "join_loaded E h w c"
    have e: "?h' = close_connections (finish_unjoined (release h ?sid) w) [w] 1011"
      using failed by (simp add: join_loaded_def)
    have "hb_rooms ?h' = hb_rooms h" "hb_docs ?h' = hb_docs h" "hb_conns ?h' w = None"
      by (simp_all add: e) (simp add: close_connections_def finish_unjoined_def)
    moreover from this have "room_list ?h' = room_list h" using room_list_cong by blast
    ultimately show ?thesis using rooms_ok_light [OF ok c(1) _ moved, of "he_crdt E"] c(2) by simp
  next
    case loaded
    have e: "join_loaded E h w c = ws_joined E (release h ?sid) w c" using loaded by (auto simp: join_loaded_def Let_def)
    have rl: "room_list (release h ?sid) = room_list h" by (rule room_list_cong) simp
    have "dm_docs (hb_docs (release h ?sid)) ?sid \<noteq> None" using loaded by simp
    note j = ws_joined_rooms [OF this, of E w]
    have "room_list (join_loaded E h w c) = (room_list h)(?sid := room_list h ?sid @ [(w, cn_user c, cn_role c)])"
      unfolding e by (rule room_list_upd) (use j rl in simp)
    moreover have "docs_kept (he_crdt E) (hb_docs h) (hb_docs (join_loaded E h w c))"
      unfolding e using j by simp
    ultimately show ?thesis using rooms_ok_join [OF auth ok c(1) _ moved _ _ loaded(2)] lock c(2) by simp
  qed
qed

lemma call_keeps_docs [simp]: "dm_docs (dm_step C m (Call sid req now)) = dm_docs m"
  by (simp add: dm_step_def Let_def)

text \<open>Leaving removes the connection from its room; the last one asks for the eviction.\<close>
lemma rooms_ok_leave:
  assumes auth: "hub_auth h" and ok: "rooms_ok h" and c: "hb_conns h w = Some c" "cn_phase c \<noteq> Leaving"
    and moved: "ws_moved h w c h'" and lock: "hb_locks h (cn_session c) = None"
    and rooms: "room_list h' = (room_list h)(cn_session c := filter (\<lambda>x. fst x \<noteq> w) (room_list h (cn_session c)))"
    and out: "\<forall>c'. hb_conns h' w = Some c' \<longrightarrow> \<not> in_room (cn_phase c')"
    and docs: "hb_docs h' = hb_docs h \<or>
      (hb_docs h' = dm_step C (hb_docs h) (Call (cn_session c) Checkpoint_and_remove now) \<and>
       room_list h' (cn_session c) = [] \<and> hb_conns h' w = Some (c\<lparr>cn_phase := Leaving\<rparr>))"
  shows "rooms_ok h'"
proof (rule rooms_okI)
  let ?sid = "cn_session c"
  have reqs: "hb_requests h' = hb_requests h"
    and others: "\<And>w'. w' \<noteq> w \<Longrightarrow> hb_conns h' w' = hb_conns h w'"
    using moved unfolding ws_moved_def ws_frame_def by metis+
  show "manager_ok (hb_docs h')" using docs rooms_okD(1) [OF ok] manager_ok_step by metis
  show "(w', cn_user c', cn_role c') \<in> set (room_list h' (cn_session c'))"
    if "hb_conns h' w' = Some c'" "in_room (cn_phase c')" for w' c'
  proof -
    have "w' \<noteq> w" using that out by auto
    with that others have "(w', cn_user c', cn_role c') \<in> set (room_list h (cn_session c'))"
      using rooms_okD(2) [OF ok, of w' c'] by simp
    then show ?thesis using rooms \<open>w' \<noteq> w\<close> by auto
  qed
  have d: "dm_docs (hb_docs h') = dm_docs (hb_docs h)" using docs by auto
  show "dm_docs (hb_docs h') sid \<noteq> None" if "room_list h' sid \<noteq> []" for sid
  proof -
    have "room_list h sid \<noteq> []" using that rooms by (cases "sid = ?sid") auto
    then show ?thesis using d rooms_okD(3) [OF ok] by simp
  qed
  show "room_list h' sid = [] \<and> evictor h' sid" if p: "evict_pending (hb_docs h') sid" for sid
  proof -
    consider (old) "evict_pending (hb_docs h) sid"
      | (new) "sid = ?sid" "room_list h' ?sid = []" "hb_conns h' w = Some (c\<lparr>cn_phase := Leaving\<rparr>)"
      using docs p evict_pending_step [of C "hb_docs h" "Call ?sid Checkpoint_and_remove now" sid] by auto
    then show ?thesis
    proof cases
      case old
      have "sid \<noteq> ?sid" using no_evictor [OF auth ok c] lock old by blast
      moreover have "room_list h sid = []" "evictor h sid" using rooms_okD(4) [OF ok old] by simp_all
      moreover have "evictor h' sid"
        using \<open>evictor h sid\<close> others c reqs unfolding evictor_def by (metis option.inject)
      ultimately show ?thesis using rooms by simp
    next
      case new
      then have "evictor h' sid" unfolding evictor_def by fastforce
      with new show ?thesis by simp
    qed
  qed
  show "hr_has_connections r = (room_list h' (hr_session r) \<noteq> [])"
    if "hb_requests h' i = Some r" "http_holds (hr_phase r)" for i r
  proof -
    have "hr_session r \<noteq> ?sid" using that reqs lock_excludes(1) [OF auth, of ?sid w i r] lock by auto
    then show ?thesis using that reqs rooms rooms_okD(5) [OF ok, of i r] by simp
  qed
qed

lemma leave_room_ok:
  assumes auth: "hub_auth h" and ok: "rooms_ok h" and c: "hb_conns h w = Some c" "cn_phase c = Want_leave"
  shows "rooms_ok (leave_room E now saved_now h w c)"
proof (cases "hb_locks h (cn_session c) = None")
  case lock: True
  let ?sid = "cn_session c" and ?h' = "leave_room E now saved_now h w c"
  have moved: "ws_moved h w c ?h'" by (rule moved_leave_room [OF c(1) hub_authD(1) [OF auth c(1)]])
  have phase: "cn_phase c \<noteq> Leaving" using c(2) by simp
  show ?thesis
  proof (cases "hb_rooms h ?sid")
    case None
    have "(w, cn_user c, cn_role c) \<in> set (room_list h ?sid)" using rooms_okD(2) [OF ok c(1)] c(2) by simp
    with None show ?thesis by (simp add: room_list_def)
  next
    case (Some room)
    obtain store removed where aw: "aw_remove_owner (hb_awareness h) ?sid w now = (store, removed)" by fastforce
    have rl: "room_list h ?sid = room" using Some by (simp add: room_list_def)
    show ?thesis
    proof (cases "filter (\<lambda>x. fst x \<noteq> w) room = []")
      case True
      have f: "hb_rooms ?h' = (hb_rooms h)(?sid := None)"
        "hb_docs ?h' = dm_step (he_crdt E) (hb_docs h) (Call ?sid Checkpoint_and_remove saved_now)"
        "hb_conns ?h' w = Some (c\<lparr>cn_phase := Leaving\<rparr>)"
        using lock Some aw True c(1) by (simp_all add: leave_room_def Let_def) (simp add: set_phase_def)
      have "room_list ?h' = (room_list h)(?sid := [])" using f(1) by (auto simp: room_list_def fun_eq_iff)
      then show ?thesis
        using True rl f rooms_ok_leave [OF auth ok c(1) phase moved lock, of "he_crdt E" saved_now] by simp
    next
      case False
      have f: "hb_rooms ?h' = (hb_rooms h)(?sid \<mapsto> filter (\<lambda>x. fst x \<noteq> w) room)" "hb_docs ?h' = hb_docs h"
        "\<forall>c'. hb_conns ?h' w = Some c' \<longrightarrow> \<not> in_room (cn_phase c')"
        using lock Some aw False c(1)
        by (simp_all add: leave_room_def Let_def del: filter_empty_conv split: sum.split)
          (auto simp: set_phase_def finish_def)
      have "room_list ?h' = (room_list h)(?sid := filter (\<lambda>x. fst x \<noteq> w) room)" using room_list_upd [OF f(1)] .
      with rl f rooms_ok_leave [OF auth ok c(1) phase moved lock] show ?thesis by simp
    qed
  qed
qed (use ok in \<open>simp add: leave_room_def\<close>)

lemma leave_evicted_ok:
  assumes ok: "rooms_ok h" and c: "hb_conns h w = Some c" "cn_phase c = Leaving"
  shows "rooms_ok (leave_evicted h w c)"
proof (cases "evict_pending (hb_docs h) (cn_session c)")
  case False
  let ?h' = "leave_evicted h w c"
  have f: "hb_rooms ?h' = hb_rooms h" "hb_docs ?h' = hb_docs h" "hb_requests ?h' = hb_requests h"
    "hb_conns ?h' = (hb_conns h)(w := None)"
    using False by (simp_all add: leave_evicted_def Let_def) (simp_all add: finish_def release_def)
  then have rl: "room_list ?h' = room_list h" using room_list_cong by blast
  have "evictor ?h' sid" if "evict_pending (hb_docs h) sid" for sid
  proof -
    have "sid \<noteq> cn_session c" using that False by blast
    moreover have "evictor h sid" using rooms_okD(4) [OF ok that] by blast
    ultimately show ?thesis using c f unfolding evictor_def by (metis fun_upd_other option.inject)
  qed
  with ok rl f show ?thesis by (auto simp: rooms_ok_def split: if_splits)
qed (use ok in \<open>simp add: leave_evicted_def\<close>)

lemma kept_phase:
  assumes ok: "rooms_ok h" and c: "hb_conns h w = Some c" "cn_phase c \<noteq> Leaving" and moved: "ws_moved h w c h'"
    and rl: "room_light C h h'"
    and phase: "in_room (cn_phase c) \<or> (\<forall>c'. hb_conns h' w = Some c' \<longrightarrow> \<not> in_room (cn_phase c'))"
  shows "rooms_ok h'"
  using rooms_ok_light [OF ok c moved _ _ phase] room_lightD [OF rl] by blast

lemma ws_continue_rooms:
  assumes auth: "hub_auth h" and ok: "rooms_ok h" and c: "hb_conns h w = Some c" "knows_role (cn_phase c)"
  shows "rooms_ok (ws_continue E now saved_now h w c)"
proof -
  note moved = ws_continue_moved [OF c(1) hub_authD(1) [OF auth c(1)] c(2), of E now saved_now]
  note live = in_room_live [OF ok c(1)]
  note kept = kept_phase [OF ok c(1) _ moved, of "he_crdt E"]
  show ?thesis
  proof (cases "cn_phase c")
    case Accepting
    obtain h1 b where k: "close_if_invalidated (h\<lparr>hb_stamps := (hb_stamps h)(w \<mapsto> cn_stamp c)\<rparr>) (cn_session c) (cn_user c) w = (h1, b)"
      by fastforce
    have e: "ws_continue E now saved_now h w c = set_phase h1 w (if b then Closing_unjoined else Want_join)"
      using Accepting k by (simp add: ws_continue_def ws_accepted_def)
    have "hb_conns h1 = hb_conns h" using k by (auto simp: close_if_invalidated_def close_connections_def split: option.splits)
    then have "\<forall>c'. hb_conns (ws_continue E now saved_now h w c) w = Some c' \<longrightarrow> \<not> in_room (cn_phase c')"
      by (simp add: e) (simp add: set_phase_def c(1))
    moreover have "room_light (he_crdt E) h (ws_continue E now saved_now h w c)"
      using close_if_invalidated_frames [OF k] by (simp add: e room_light_def)
    ultimately show ?thesis using kept Accepting by simp
  next
    case Want_join
    with join_room_ok [OF auth ok c(1)] show ?thesis by (simp add: ws_continue_def)
  next
    case Joining
    with join_loaded_ok [OF auth ok c(1)] show ?thesis by (simp add: ws_continue_def)
  next
    case Want_leave
    with leave_room_ok [OF auth ok c(1)] show ?thesis by (simp add: ws_continue_def)
  next
    case Leaving
    with leave_evicted_ok [OF ok c(1)] show ?thesis by (simp add: ws_continue_def)
  next
    case Closing_unjoined
    have "\<forall>c'. hb_conns (ws_continue E now saved_now h w c) w = Some c' \<longrightarrow> \<not> in_room (cn_phase c')"
      using Closing_unjoined by (simp add: ws_continue_def finish_unjoined_def)
    with kept Closing_unjoined show ?thesis by (simp add: ws_continue_def room_light_def)
  next
    case (Farewell targets frame)
    have "\<forall>c'. hb_conns (ws_continue E now saved_now h w c) w = Some c' \<longrightarrow> \<not> in_room (cn_phase c')"
      using Farewell c by (simp add: ws_continue_def farewell_step_def finish_def set_phase_def send_bytes_def split: list.split)
    moreover have "room_light (he_crdt E) h (ws_continue E now saved_now h w c)"
      using Farewell by (simp add: ws_continue_def farewell_step_def room_light_def split: list.split)
    ultimately show ?thesis using kept Farewell by simp
  next
    case (Broadcasting targets frame k)
    with kept live room_light_broadcast [of h c E now w] show ?thesis by (simp add: ws_continue_def)
  next
    case (Want_apply payload)
    with kept live room_light_apply [of h c E w] show ?thesis by (simp add: ws_continue_def)
  qed (use c ok kept live room_light_greet(1,2) [of E h w c] in \<open>simp_all add: ws_continue_def room_light_def\<close>)
qed

lemma auth_reads_rooms:
  assumes ok: "rooms_ok h" and c: "hb_conns h w = Some c" "\<not> knows_role (cn_phase c)"
    and fr: "hb_rooms h' = hb_rooms h" "hb_docs h' = hb_docs h" "hb_requests h' = hb_requests h"
      "\<And>w'. w' \<noteq> w \<Longrightarrow> hb_conns h' w' = hb_conns h w'" "\<And>c'. hb_conns h' w = Some c' \<Longrightarrow> \<not> in_room (cn_phase c')"
  shows "rooms_ok h'"
proof (rule rooms_okI)
  have rl: "room_list h' = room_list h" using room_list_cong fr(1) by blast
  show "manager_ok (hb_docs h')" using rooms_okD(1) [OF ok] fr by simp
  show "(w', cn_user c', cn_role c') \<in> set (room_list h' (cn_session c'))"
    if "hb_conns h' w' = Some c'" "in_room (cn_phase c')" for w' c'
    using that fr(4) [of w'] fr(5) [of c'] rl rooms_okD(2) [OF ok, of w' c'] by (cases "w' = w") auto
  show "dm_docs (hb_docs h') sid \<noteq> None" if "room_list h' sid \<noteq> []" for sid
    using that fr rl rooms_okD(3) [OF ok] by simp
  show "room_list h' sid = [] \<and> evictor h' sid" if "evict_pending (hb_docs h') sid" for sid
  proof -
    have "cn_phase c \<noteq> Leaving" using c(2) by auto
    moreover have "room_list h sid = []" "evictor h sid" using that fr rooms_okD(4) [OF ok, of sid] by simp_all
    ultimately have "evictor h' sid" using fr c(1) unfolding evictor_def by (metis option.inject)
    with \<open>room_list h sid = []\<close> rl show ?thesis by simp
  qed
  show "hr_has_connections r = (room_list h' (hr_session r) \<noteq> [])"
    if "hb_requests h' i = Some r" "http_holds (hr_phase r)" for i r
    using that fr rl rooms_okD(5) [OF ok, of i r] by simp
qed

lemma ws_auth_rooms:
  assumes ok: "rooms_ok h" and c: "hb_conns h w = Some c" "\<not> knows_role (cn_phase c)"
  shows "rooms_ok (ws_continue E now saved_now h w c)" "rooms_ok (ws_error h w c)"
proof -
  show "rooms_ok (ws_continue E now saved_now h w c)"
    by (rule auth_reads_rooms [OF ok c];
        use c in \<open>cases "cn_phase c"; auto simp: ws_continue_def auth_user_def auth_session_def auth_member_def
          reject_def finish_def close_connections_def set_phase_def split: option.splits if_splits\<close>)
  show "rooms_ok (ws_error h w c)"
    by (rule auth_reads_rooms [OF ok c];
        use c in \<open>cases "cn_phase c"; auto simp: ws_error_def finish_def split: option.splits if_splits\<close>)
qed

lemma ws_error_rooms:
  assumes auth: "hub_auth h" and ok: "rooms_ok h" and c: "hb_conns h w = Some c" "knows_role (cn_phase c)"
  shows "rooms_ok (ws_error h w c)"
proof -
  note moved = ws_error_moved [OF c(1) hub_authD(1) [OF auth c(1)]]
  have rl: "room_light C h (ws_error h w c)" for C :: "'a crdt"
    by (simp add: ws_error_def room_light_def split: ws_phase.split)
  have "cn_phase c \<noteq> Leaving \<Longrightarrow> in_room (cn_phase c) \<or> (\<forall>c'. hb_conns (ws_error h w c) w = Some c' \<longrightarrow> \<not> in_room (cn_phase c'))"
    using c by (cases "cn_phase c") (simp_all add: ws_error_def finish_def set_phase_def)
  with kept_phase [OF ok c(1) _ moved rl] ok show ?thesis
    by (cases "cn_phase c = Leaving") (simp_all add: ws_error_def)
qed

lemma ws_receive_rooms:
  assumes auth: "hub_auth h" and ok: "rooms_ok h" and c: "hb_conns h w = Some c" "cn_phase c = Receiving"
  shows "rooms_ok (ws_receive E now h w c msg)"
proof -
  have stamp: "hb_stamps h w = Some (cn_stamp c)"
    using registered_stamp [OF hub_authD(1) [OF auth c(1)]] c(2) by simp
  have live: "dm_docs (hb_docs h) (cn_session c) \<noteq> None" using in_room_live [OF ok c(1)] c(2) by simp
  show ?thesis
    by (rule kept_phase [OF ok c(1) _ moved_receive [OF c(1) stamp] room_light_receive [OF live]]) (use c(2) in simp_all)
qed

lemma ws_open_rooms:
  assumes ok: "rooms_ok h" and free: "hb_conns h w = None"
  shows "rooms_ok (ws_open E h w token raw)"
proof -
  let ?h' = "ws_open E h w token raw"
  have fr: "hb_rooms ?h' = hb_rooms h" "hb_docs ?h' = hb_docs h" "hb_requests ?h' = hb_requests h"
    "\<And>w'. w' \<noteq> w \<Longrightarrow> hb_conns ?h' w' = hb_conns h w'" "\<And>c'. hb_conns ?h' w = Some c' \<Longrightarrow> cn_phase c' = Auth_user"
    by (auto simp: ws_open_def authenticate_start_def reject_def finish_def close_connections_def
        split: sum.splits option.splits if_splits)
  have rl: "room_list ?h' = room_list h" using room_list_cong fr(1) by blast
  have "evictor ?h' sid" if "evictor h sid" for sid
    using that fr free unfolding evictor_def by (metis option.distinct(1))
  moreover have "(w', cn_user c', cn_role c') \<in> set (room_list h (cn_session c'))"
    if "hb_conns ?h' w' = Some c'" "in_room (cn_phase c')" for w' c'
    using that fr(4) [of w'] fr(5) [of c'] rooms_okD(2) [OF ok, of w' c'] by (cases "w' = w") auto
  ultimately show ?thesis using ok rl fr(2,3) unfolding rooms_ok_def by auto
qed

section \<open>Requests and storage\<close>

text \<open>A step of request \<open>i\<close>: rooms and connections stay; its documents are kept, or it asks for an
  eviction of a session without connections.\<close>
definition req_rooms :: "'d crdt \<Rightarrow> 'd hub \<Rightarrow> nat \<Rightarrow> http \<Rightarrow> 'd hub \<Rightarrow> bool" where
  "req_rooms C h i r h' \<longleftrightarrow> hb_rooms h' = hb_rooms h \<and> hb_conns h' = hb_conns h \<and>
     (\<forall>i'. i' \<noteq> i \<longrightarrow> hb_requests h' i' = hb_requests h i') \<and>
     (\<forall>r'. hb_requests h' i = Some r' \<longrightarrow> hr_session r' = hr_session r \<and>
        (http_holds (hr_phase r') \<longrightarrow> (hr_has_connections r' \<longleftrightarrow> room_list h (hr_session r) \<noteq> []))) \<and>
     (docs_kept C (hb_docs h) (hb_docs h') \<or>
        (\<exists>m now r'. docs_kept C (hb_docs h) m \<and>
           hb_docs h' = dm_step C m (Call (hr_session r) Checkpoint_and_remove now) \<and>
           hb_requests h' i = Some r' \<and> hr_phase r' = H_evicting \<and> room_list h (hr_session r) = []))"

lemma req_rooms_ok:
  assumes ok: "rooms_ok h" and r: "hb_requests h i = Some r"
    and step: "req_rooms C h i r h'"
    and evicting: "hr_phase r = H_evicting \<Longrightarrow> \<not> evict_pending (hb_docs h) (hr_session r)"
  shows "rooms_ok h'"
proof (rule rooms_okI)
  have fr: "hb_rooms h' = hb_rooms h" "hb_conns h' = hb_conns h"
    and others: "\<And>i'. i' \<noteq> i \<Longrightarrow> hb_requests h' i' = hb_requests h i'"
    and own: "\<And>r'. hb_requests h' i = Some r' \<Longrightarrow> hr_session r' = hr_session r \<and>
        (http_holds (hr_phase r') \<longrightarrow> (hr_has_connections r' \<longleftrightarrow> room_list h (hr_session r) \<noteq> []))"
    using step unfolding req_rooms_def by metis+
  have rl: "room_list h' = room_list h" using room_list_cong fr(1) by blast
  have docs: "docs_kept C (hb_docs h) (hb_docs h') \<or>
        (\<exists>m now r'. docs_kept C (hb_docs h) m \<and>
           hb_docs h' = dm_step C m (Call (hr_session r) Checkpoint_and_remove now) \<and>
           hb_requests h' i = Some r' \<and> hr_phase r' = H_evicting \<and> room_list h (hr_session r) = [])"
    using step unfolding req_rooms_def by blast
  have kept_evictor: "evictor h' sid" if "evictor h sid" "evict_pending (hb_docs h) sid" for sid
  proof -
    have "sid \<noteq> hr_session r" if "hr_phase r = H_evicting"
      using evicting [OF that] \<open>evict_pending (hb_docs h) sid\<close> by blast
    with \<open>evictor h sid\<close> show ?thesis using fr others r unfolding evictor_def by (metis option.inject)
  qed
  show "manager_ok (hb_docs h')"
    using docs docs_kept_ok [OF _ rooms_okD(1) [OF ok]] manager_ok_step by metis
  show "(w', cn_user c', cn_role c') \<in> set (room_list h' (cn_session c'))"
    if "hb_conns h' w' = Some c'" "in_room (cn_phase c')" for w' c'
    using that fr rl rooms_okD(2) [OF ok, of w' c'] by simp
  show "dm_docs (hb_docs h') sid \<noteq> None" if "room_list h' sid \<noteq> []" for sid
  proof -
    have "dm_docs (hb_docs h) sid \<noteq> None" using that rl rooms_okD(3) [OF ok] by simp
    with docs docs_kept_live [where C = C and m = "hb_docs h" and sid = sid] show ?thesis by auto
  qed
  show "room_list h' sid = [] \<and> evictor h' sid" if p: "evict_pending (hb_docs h') sid" for sid
  proof -
    consider (old) "evict_pending (hb_docs h) sid"
      | (new) r' where "sid = hr_session r" "hb_requests h' i = Some r'" "hr_phase r' = H_evicting" "room_list h sid = []"
      using docs p evict_pending_step [where C = C and sid = sid] docs_kept_evict [where C = C and m = "hb_docs h" and sid = sid]
      by (metis event.inject(6))
    then show ?thesis
    proof cases
      case old
      then show ?thesis using rooms_okD(4) [OF ok old] kept_evictor rl by simp
    next
      case new
      then show ?thesis using own rl unfolding evictor_def by auto
    qed
  qed
  show "hr_has_connections q = (room_list h' (hr_session q) \<noteq> [])"
    if "hb_requests h' i' = Some q" "http_holds (hr_phase q)" for i' q
    using that own [of q] others [of i'] rl rooms_okD(5) [OF ok, of i' q] by (cases "i' = i") auto
qed

lemma set_request_rooms [simp, frame_simps]:
  "hb_rooms (set_request h i r p) = hb_rooms h" "hb_docs (set_request h i r p) = hb_docs h"
  "hb_conns (set_request h i r p) = hb_conns h" "hb_locks (set_request h i r p) = hb_locks h"
  "hb_requests (set_request h i r p) = (hb_requests h)(i \<mapsto> r\<lparr>hr_phase := p\<rparr>)"
  "hb_rooms (end_request h i) = hb_rooms h" "hb_docs (end_request h i) = hb_docs h"
  "hb_conns (end_request h i) = hb_conns h" "hb_requests (end_request h i) = (hb_requests h)(i := None)"
  "hb_conns (release h sid) = hb_conns h" "hb_requests (release h sid) = hb_requests h"
  "hb_conns (send_bytes h w f) = hb_conns h" "hb_requests (send_bytes h w f) = hb_requests h"
  by (simp_all add: set_request_def end_request_def release_def send_bytes_def)

lemma unlock_rooms:
  "hb_rooms (unlock h i r frames) = hb_rooms h" "hb_docs (unlock h i r frames) = hb_docs h"
  "hb_conns (unlock h i r frames) = hb_conns h"
  "i' \<noteq> i \<Longrightarrow> hb_requests (unlock h i r frames) i' = hb_requests h i'"
  "hb_requests (unlock h i r frames) i = Some r' \<Longrightarrow> hr_session r' = hr_session r \<and> \<not> http_holds (hr_phase r')"
  by (auto simp: unlock_def http_broadcast_def split: list.splits)

text \<open>Building blocks: the hub under construction has the rooms, connections and other requests
  of the start, and its documents are kept.\<close>
definition req_base :: "'d crdt \<Rightarrow> 'd hub \<Rightarrow> nat \<Rightarrow> 'd hub \<Rightarrow> bool" where
  "req_base C h i h1 \<longleftrightarrow> hb_rooms h1 = hb_rooms h \<and> hb_conns h1 = hb_conns h \<and>
     (\<forall>i'. i' \<noteq> i \<longrightarrow> hb_requests h1 i' = hb_requests h i') \<and> docs_kept C (hb_docs h) (hb_docs h1)"

lemma req_base_refl [simp]: "req_base C h i h"
  by (simp add: req_base_def)

lemma rr_unlock: "req_base C h i h1 \<Longrightarrow> hr_session r1 = hr_session r \<Longrightarrow> req_rooms C h i r (unlock h1 i r1 frames)"
  using unlock_rooms [where h = h1 and i = i and r = r1 and frames = frames]
  by (auto simp: req_base_def req_rooms_def)

lemma rr_set:
  "req_base C h i h1 \<Longrightarrow> hr_session r1 = hr_session r \<Longrightarrow>
     (http_holds p \<Longrightarrow> hr_has_connections r1 \<longleftrightarrow> room_list h (hr_session r) \<noteq> []) \<Longrightarrow>
     req_rooms C h i r (set_request h1 i r1 p)"
  by (simp add: req_base_def req_rooms_def)

lemma rr_evict:
  "req_base (he_crdt E) h i h1 \<Longrightarrow> hr_session r1 = hr_session r \<Longrightarrow> \<not> hr_has_connections r1 \<Longrightarrow>
     room_list h (hr_session r) = [] \<Longrightarrow>
     req_rooms (he_crdt E) h i r (set_request (call_docs E h1 (Call (hr_session r) Checkpoint_and_remove now)) i r1 H_evicting)"
  by (auto simp: req_base_def req_rooms_def)

lemma rr_end: "req_base C h i h1 \<Longrightarrow> req_rooms C h i r (end_request h1 i)"
  by (simp add: req_base_def req_rooms_def)

lemma req_base_call:
  "req_base (he_crdt E) h i h1 \<Longrightarrow> req \<noteq> Checkpoint_and_remove \<Longrightarrow>
     req_base (he_crdt E) h i (call_docs E h1 (Call sid req now))"
  by (simp add: req_base_def docs_kept_call)

lemma req_base_fields [simp]:
  "req_base C h i (h1\<lparr>hb_locks := x1\<rparr>) \<longleftrightarrow> req_base C h i h1"
  "req_base C h i (h1\<lparr>hb_db := x2\<rparr>) \<longleftrightarrow> req_base C h i h1"
  "req_base C h i (h1\<lparr>hb_saved := x3\<rparr>) \<longleftrightarrow> req_base C h i h1"
  "req_base C h i (send_bytes h1 w f) \<longleftrightarrow> req_base C h i h1"
  "req_base C h i (fence h1 r) \<longleftrightarrow> req_base C h i h1"
  by (simp_all add: req_base_def)

lemma req_base_docs: "docs_kept C (hb_docs h) m \<Longrightarrow> req_base C h i (h\<lparr>hb_docs := m\<rparr>)"
  by (simp add: req_base_def)

lemma rr_settle_doc:
  assumes "req_base (he_crdt E) h i h1" "hr_session r1 = hr_session r"
    "hr_has_connections r1 \<longleftrightarrow> room_list h (hr_session r) \<noteq> []"
  shows "req_rooms (he_crdt E) h i r (http_settle_doc E now h1 i r1)"
  using assms rr_evict [OF assms(1,2)]
  by (auto simp: http_settle_doc_def intro!: rr_set req_base_call)

lemma rr_evict_if_idle:
  assumes "req_base (he_crdt E) h i h1" "hr_has_connections r \<longleftrightarrow> room_list h (hr_session r) \<noteq> []"
  shows "req_rooms (he_crdt E) h i r (http_evict_if_idle E now h1 i r)"
  using assms rr_evict [OF assms(1) refl] by (auto simp: http_evict_if_idle_def intro!: rr_unlock)

lemma rr_loaded:
  assumes "hr_has_connections r \<longleftrightarrow> room_list h (hr_session r) \<noteq> []" "dm_docs (hb_docs h) (hr_session r) \<noteq> None"
    and "\<not> load_pending (hb_docs h) (hr_session r)"
  shows "req_rooms (he_crdt E) h i r (http_loaded E now h i r)"
proof -
  note sync = docs_kept_sync [OF assms(2), of "he_crdt E"]
  have a: "req_base (he_crdt E) h i (h\<lparr>hb_docs := m\<rparr>)"
    if "apply_update (he_crdt E) (hb_docs h) (hr_session r) u = (m, x)" for u m x
    using sync(1) [of u] that by (auto intro!: req_base_docs)
  have b: "req_base (he_crdt E) h i (h\<lparr>hb_docs := m\<rparr>)"
    if "restore_text_from_state (he_crdt E) (hb_docs h) (hr_session r) u = (m, x)" for u m x
    using sync(2) [of u] that by (auto intro!: req_base_docs)
  have c: "req_base (he_crdt E) h i (h\<lparr>hb_docs := m\<rparr>)"
    if "encode_state_as_update (he_crdt E) (hb_docs h) (hr_session r) sv = (m, x)" for sv m x
    using sync(4) [of sv] that by (auto intro!: req_base_docs)
  have d: "req_base (he_crdt E) h i (h\<lparr>hb_docs := m, hb_saved := s\<rparr>)"
    if "apply_update (he_crdt E) (hb_docs h) (hr_session r) u = (m, x)" for u m x s
    using a [OF that] by (simp add: req_base_def)
  show ?thesis
    using assms
    by (auto simp: http_loaded_def Let_def intro!: rr_unlock rr_set rr_settle_doc rr_evict_if_idle req_base_call
        dest: a b c d split: http_op.split prod.split sum.split)
qed

lemma rr_lock:
  assumes "hb_requests h i = Some r" "hr_phase r = H_queued" "hb_locks h (hr_session r) = None"
  shows "req_rooms (he_crdt E) h i r (http_lock E now h i r)"
proof -
  let ?r = "r\<lparr>hr_has_connections := room_list h (hr_session r) \<noteq> []\<rparr>"
  have "req_rooms (he_crdt E) h i r
      (set_request (call_docs E (h\<lparr>hb_locks := x\<rparr>) (Call (hr_session r) Checkpoint_and_remove now)) i ?r H_evicting)"
    if "room_list h (hr_session r) = []" for x
    by (rule rr_evict) (use that in simp_all)
  then show ?thesis using assms
    by (auto simp: http_lock_def Let_def intro!: rr_set rr_end req_base_call split: http_op.split)
qed

lemma http_continue_rooms:
  assumes auth: "hub_auth h" and ok: "rooms_ok h" and r: "hb_requests h i = Some r"
  shows "rooms_ok (http_continue E now h i r)"
proof -
  note step = req_rooms_ok [OF ok r, of "he_crdt E"]
  have conns: "http_holds (hr_phase r) \<Longrightarrow> hr_has_connections r \<longleftrightarrow> room_list h (hr_session r) \<noteq> []"
    by (rule rooms_okD(5) [OF ok r])
  show ?thesis
  proof (cases "hr_phase r")
    case H_queued
    show ?thesis
    proof (cases "hb_locks h (hr_session r)")
      case None
      from step [OF rr_lock [OF r H_queued None]] H_queued show ?thesis by (simp add: http_continue_def)
    qed (use ok H_queued in \<open>simp add: http_continue_def http_lock_def\<close>)
  next
    case H_mutating
    have "req_rooms (he_crdt E) h i r (http_mutate h i r)"
      using H_mutating conns by (auto simp: http_mutate_def intro!: rr_unlock rr_set split: sum.split)
    from step [OF this] H_mutating show ?thesis by (simp add: http_continue_def)
  next
    case H_committed
    have "req_rooms (he_crdt E) h i r (set_request (fence h r) i r H_closing)"
      using H_committed conns by (auto intro!: rr_set)
    from step [OF this] H_committed show ?thesis by (simp add: http_continue_def)
  next
    case H_checking
    have "req_rooms (he_crdt E) h i r (http_check E now h i r)"
      using H_checking conns
      by (auto simp: http_check_def intro!: rr_unlock rr_set req_base_call split: sum.split http_op.split)
    from step [OF this] H_checking show ?thesis by (simp add: http_continue_def)
  next
    case H_fetching
    show ?thesis
    proof (cases "\<exists>sn. hr_op r = Restore sn")
      case True
      then obtain sn where sn: "hr_op r = Restore sn" by blast
      have "req_rooms (he_crdt E) h i r (http_fetch E now h i r)"
      proof (cases "get_snapshot (hb_db h) (hr_session r) sn")
        case (Inl e)
        with sn show ?thesis by (simp add: http_fetch_def rr_unlock)
      next
        case (Inr snapshot)
        have "req_rooms (he_crdt E) h i r
            (set_request (call_docs E h (Call (hr_session r) Load now)) i (r\<lparr>hr_snapshot := s\<rparr>) H_loading)" for s
          using H_fetching conns by (intro rr_set req_base_call) simp_all
        with Inr sn show ?thesis by (simp add: http_fetch_def rr_unlock)
      qed
      from step [OF this] H_fetching show ?thesis by (simp add: http_continue_def)
    next
      case False
      then have "http_fetch E now h i r = h" by (auto simp: http_fetch_def split: http_op.split)
      with ok H_fetching show ?thesis by (simp add: http_continue_def)
    qed
  next
    case H_loading
    show ?thesis
    proof (cases "load_pending (hb_docs h) (hr_session r)")
      case True
      with ok H_loading show ?thesis by (simp add: http_continue_def http_loaded_def)
    next
      case False
      have "req_rooms (he_crdt E) h i r (http_loaded E now h i r)"
      proof (cases "dm_docs (hb_docs h) (hr_session r) = None")
        case True
        with False show ?thesis by (simp add: http_loaded_def rr_unlock)
      next
        case live: False
        from rr_loaded [OF _ live False] conns H_loading show ?thesis by simp
      qed
      from step [OF this] H_loading show ?thesis by (simp add: http_continue_def)
    qed
  next
    case (H_inserting state)
    show ?thesis
    proof (cases "\<exists>n l. hr_op r = Take_snapshot n l")
      case True
      then obtain n l where op: "hr_op r = Take_snapshot n l" by blast
      have "req_rooms (he_crdt E) h i r (http_insert E now h i r state)"
      proof (cases "create_snapshot n now (hb_db h) (hr_session r) (hr_user r) l state")
        case (Inl e)
        with op show ?thesis by (simp add: http_insert_def rr_unlock)
      next
        case (Inr made)
        have "req_rooms (he_crdt E) h i r (http_evict_if_idle E now (h\<lparr>hb_db := db\<rparr>) i r)" for db
          using H_inserting conns by (intro rr_evict_if_idle) simp_all
        with Inr op show ?thesis by (simp add: http_insert_def split: prod.split)
      qed
      from step [OF this] H_inserting show ?thesis by (simp add: http_continue_def)
    next
      case False
      then have "http_insert E now h i r state = h" by (auto simp: http_insert_def split: http_op.split)
      with ok H_inserting show ?thesis by (simp add: http_continue_def)
    qed
  next
    case H_saving
    show ?thesis
    proof (cases "hb_saved h (hr_session r)")
      case (Some result)
      have "req_rooms (he_crdt E) h i r (http_saved E now h i r)"
        using H_saving conns Some by (auto simp: http_saved_def Let_def intro!: rr_settle_doc)
      from step [OF this] H_saving show ?thesis by (simp add: http_continue_def)
    qed (use ok H_saving in \<open>simp add: http_continue_def http_saved_def\<close>)
  next
    case H_evicting
    show ?thesis
    proof (cases "evict_pending (hb_docs h) (hr_session r)")
      case False
      from step [OF rr_unlock [OF req_base_refl refl]] False H_evicting show ?thesis by (simp add: http_continue_def)
    qed (use ok H_evicting in \<open>simp add: http_continue_def\<close>)
  next
    case (H_broadcasting targets frame frames)
    have "req_rooms (he_crdt E) h i r (http_broadcast_step h i r targets frame frames)"
      by (auto simp: http_broadcast_step_def http_broadcast_def intro!: rr_set rr_end split: list.split)
    from step [OF this] H_broadcasting show ?thesis by (simp add: http_continue_def)
  qed (use step [OF rr_unlock [OF req_base_refl refl]] in \<open>simp_all add: http_continue_def\<close>)
qed

lemma http_error_rooms:
  assumes ok: "rooms_ok h" and r: "hb_requests h i = Some r"
  shows "rooms_ok (http_error h i r)"
proof -
  note step = req_rooms_ok [OF ok r, where C = undefined]
  show ?thesis
    using ok step [OF rr_unlock [OF req_base_refl refl]] step [OF rr_end [OF req_base_refl]]
      step [OF rr_set [OF req_base_refl refl, of "H_broadcasting _ _ _"]]
    by (cases "hr_phase r") (simp_all add: http_error_def)
qed

lemma http_lost_cases:
  obtains "http_lost now h i r = h"
  | h1 where "http_lost now h i r = unlock h1 i r []" "hr_phase r \<noteq> H_evicting" "hb_rooms h1 = hb_rooms h" "hb_conns h1 = hb_conns h"
      "hb_requests h1 = hb_requests h" "hb_docs h1 = hb_docs h" "hb_sent h1 = hb_sent h" "hb_revoked h1 = hb_revoked h"
      "hb_member_invalidations h1 = hb_member_invalidations h" "hb_session_invalidations h1 = hb_session_invalidations h"
proof (cases "hr_phase r")
  case (H_inserting state)
  show ?thesis
  proof (cases "\<exists>n l. hr_op r = Take_snapshot n l")
    case True
    then obtain n l where op: "hr_op r = Take_snapshot n l" by blast
    show ?thesis
    proof (cases "create_snapshot n now (hb_db h) (hr_session r) (hr_user r) l state")
      case (Inl e)
      then show ?thesis using that(2) [of h] H_inserting op by (simp add: http_lost_def)
    next
      case (Inr made)
      then show ?thesis using that(2) [of "h\<lparr>hb_db := snd made\<rparr>"] H_inserting op by (simp add: http_lost_def split: prod.split)
    qed
  next
    case False
    then show ?thesis using that(1) H_inserting by (auto simp: http_lost_def split: http_op.split)
  qed
next
  case H_committed
  then show ?thesis
    using that(2) [of "h\<lparr>hb_unfenced := hb_unfenced h \<union>
      {w. case hb_conns h w of None \<Rightarrow> False | Some c \<Rightarrow> cn_session c = hr_session r \<and> affects (hr_op r) (cn_user c)}\<rparr>"]
    by (simp add: http_lost_def)
qed (use that(1) in \<open>simp_all add: http_lost_def\<close>)

lemma http_lost_rooms:
  assumes ok: "rooms_ok h" and r: "hb_requests h i = Some r"
  shows "rooms_ok (http_lost now h i r)"
proof (rule http_lost_cases [of now h i r])
  fix h1
  assume h1: "http_lost now h i r = unlock h1 i r []" "hr_phase r \<noteq> H_evicting" "hb_rooms h1 = hb_rooms h" "hb_conns h1 = hb_conns h"
    "hb_requests h1 = hb_requests h" "hb_docs h1 = hb_docs h"
  have "req_base (C :: 'a crdt) h i h1" for C using h1 by (simp add: req_base_def)
  from req_rooms_ok [OF ok r rr_unlock [OF this refl]] h1(1,2) show ?thesis by simp
qed (use ok in simp)

lemma http_open_rooms:
  assumes ok: "rooms_ok h" and free: "hb_requests h i = None"
  shows "rooms_ok (http_open h i uid op sid)"
proof -
  have "rooms_ok (set_request h i r H_queued)" for r
  proof -
    let ?h = "set_request h i r H_queued"
    have "room_list ?h = room_list h" by (rule room_list_cong) simp
    moreover have "evictor h s \<Longrightarrow> evictor ?h s" for s
      using free unfolding evictor_def by (metis option.distinct(1) set_request_rooms(3,5) fun_upd_other)
    ultimately show ?thesis using ok by (auto simp: rooms_ok_def split: if_splits)
  qed
  with ok show ?thesis by (auto simp: http_open_def Let_def split: option.split sum.split)
qed

lemma storage_rooms:
  assumes ok: "rooms_ok h" and ev: "storage_event ev"
  shows "rooms_ok (call_docs E h ev)"
proof -
  let ?m = "dm_step (he_crdt E) (hb_docs h) ev"
  have pending: "evict_pending (hb_docs h) sid" if "evict_pending ?m sid" for sid
    using evict_pending_step [OF that] ev by auto
  have live: "dm_docs ?m sid \<noteq> None" if "room_list h sid \<noteq> []" for sid
  proof -
    have d: "dm_docs (hb_docs h) sid \<noteq> None" by (rule rooms_okD(3) [OF ok that])
    have "\<not> evict_pending (hb_docs h) sid" using rooms_okD(4) [OF ok] that by blast
    then have "\<not> evicting_task (dm_tasks (hb_docs h) sid)" by (simp add: evict_pending_def)
    with d resume_docs [OF d] keeping_docs [OF d] ev show ?thesis
      by (cases ev rule: storage_event.cases) simp_all
  qed
  have "room_list (call_docs E h ev) = room_list h" by (rule room_list_cong) simp
  moreover have "evictor (call_docs E h ev) sid = evictor h sid" for sid by (simp add: evictor_def)
  ultimately show ?thesis
    using ok pending live manager_ok_step [of "hb_docs h" "he_crdt E" ev] by (auto simp: rooms_ok_def)
qed

definition hub_ok :: "'d hub \<Rightarrow> bool" where
  "hub_ok h \<longleftrightarrow> hub_auth h \<and> rooms_ok h"

lemma hub_step_ok:
  assumes "hub_ok h"
  shows "hub_ok (hub_step E h ev)"
proof -
  have auth: "hub_auth h" and ok: "rooms_ok h" using assms by (simp_all add: hub_ok_def)
  have "rooms_ok (hub_step E h ev)"
  proof (cases ev)
    case (Ws_continue w now saved_now)
    have "rooms_ok (ws_continue E now saved_now h w c)" if "hb_conns h w = Some c" for c
      using ws_auth_rooms(1) [OF ok that] ws_continue_rooms [OF auth ok that] by blast
    with ok Ws_continue show ?thesis by (simp split: option.split)
  next
    case (Ws_error w)
    have "rooms_ok (ws_error h w c)" if "hb_conns h w = Some c" for c
      using ws_auth_rooms(2) [OF ok that] ws_error_rooms [OF auth ok that] by blast
    with ok Ws_error show ?thesis by (simp split: option.split)
  next
    case (Database op)
    with ok show ?thesis by (simp add: rooms_ok_def room_list_def evictor_def)
  next
    case (Refresh_error i now)
    with ok http_lost_rooms [OF ok] show ?thesis by (simp split: option.split)
  qed (use ok auth ws_receive_rooms [OF auth ok] ws_open_rooms [OF ok] http_continue_rooms [OF auth ok]
      http_error_rooms [OF ok] http_open_rooms [OF ok] storage_rooms [OF ok] in \<open>auto split: option.split\<close>)
  with ok authorization.step_inv [OF auth] show ?thesis by (simp add: hub_ok_def)
qed

interpretation hub: invariant_machine "hub_step E" hub_ok for E :: "'d hub_env"
  by unfold_locales (rule hub_step_ok)

lemma hub_ok_new: "hub_ok (new_hub db (new_manager redis database) :: 'd hub)"
proof -
  have "rooms_ok (new_hub db (new_manager redis database) :: 'd hub)"
    using manager_ok_new [of redis database]
    by (simp add: rooms_ok_def new_hub_def room_list_def evict_pending_def) (simp add: new_manager_def)
  then show ?thesis by (simp add: hub_ok_def hub_auth_new)
qed

end
