(* ===== verification/Collaboration.thy ===== *)
theory Collaboration imports Rooms begin

text \<open>
  What the hub does to documents. Every step of a connection or a request is a sequence of
  document-manager operations on loaded documents (\<open>docs_by\<close>), and the ones that write are
  allowed to the acting user by the database of that moment, or done by a connection that missed its fence
  (\<open>hub_step_by\<close>). From this follow the
  authorization of every write and, composed with the durability invariant of the document
  manager (interpretation \<open>collaboration\<close> of \<open>monotone_machine\<close>), that no accepted edit is lost.
\<close>

section \<open>What the hub asks of the document manager\<close>

fun user_event :: "(session_key \<Rightarrow> bool) \<Rightarrow> event \<Rightarrow> bool" where
  "user_event may (Sync_apply sid _) \<longleftrightarrow> may sid"
| "user_event may (Sync_restore sid _) \<longleftrightarrow> may sid"
| "user_event may (Sync_state_vector _) \<longleftrightarrow> True"
| "user_event may (Sync_encode _ _) \<longleftrightarrow> True"
| "user_event may (Call _ _ _) \<longleftrightarrow> True"
| "user_event may _ \<longleftrightarrow> False"

text \<open>From \<open>m\<close> to \<open>m'\<close> by operations on loaded documents, writing only where \<open>may\<close> allows it.\<close>
definition docs_by :: "'d crdt \<Rightarrow> (session_key \<Rightarrow> bool) \<Rightarrow> 'd manager \<Rightarrow> 'd manager \<Rightarrow> bool" where
  "docs_by C may m m' \<longleftrightarrow>
     (\<exists>evs. (\<forall>ev\<in>set evs. user_event may ev) \<and> safe_run C m evs \<and> m' = run (dm_step C) m evs)"

lemma docs_by_refl [simp]: "docs_by C may m m"
  unfolding docs_by_def by (rule exI [of _ "[]"]) simp

lemma docs_by_step:
  assumes "docs_by C may m m'" "user_event may ev" "safe_event m' ev"
  shows "docs_by C may m (dm_step C m' ev)"
proof -
  obtain evs where "\<forall>ev\<in>set evs. user_event may ev" "safe_run C m evs" "m' = run (dm_step C) m evs"
    using assms(1) by (auto simp: docs_by_def)
  with assms(2,3) show ?thesis unfolding docs_by_def
    by (intro exI [of _ "evs @ [ev]"]) (simp add: safe_run_append run_append)
qed

lemma docs_by_call [simp]: "docs_by C may m m' \<Longrightarrow> docs_by C may m (dm_step C m' (Call sid req now))"
  by (rule docs_by_step) simp_all

lemma docs_by_sync:
  assumes "dm_docs m sid \<noteq> None"
  shows "may sid \<Longrightarrow> docs_by C may m (fst (apply_update C m sid u))"
    "may sid \<Longrightarrow> docs_by C may m (fst (restore_text_from_state C m sid u))"
    "docs_by C may m (fst (get_state_vector C m sid))" "docs_by C may m (fst (encode_state_as_update C m sid sv))"
  using docs_by_step [OF docs_by_refl, of may "Sync_apply sid u" m C] docs_by_step [OF docs_by_refl, of may "Sync_restore sid u" m C]
    docs_by_step [OF docs_by_refl, of may "Sync_state_vector sid" m C] docs_by_step [OF docs_by_refl, of may "Sync_encode sid sv" m C]
    assms by (simp_all add: dm_step_def)

text \<open>Connections.\<close>

lemma by_handle:
  assumes "dm_docs (hb_docs h) (cn_session c) \<noteq> None"
  shows "docs_by (he_crdt E) may (hb_docs h) (hb_docs (handle_binary_message E now h w c data))"
  using docs_by_sync(4) [OF assms, of "he_crdt E" may]
  by (auto simp: handle_binary_message_def Let_def
      split: sum.split ParsedMessage.split prod.split) (metis fst_conv)+

lemma by_after_prune:
  assumes "dm_docs (hb_docs h) (cn_session c) \<noteq> None"
  shows "docs_by (he_crdt E) may (hb_docs h) (hb_docs (after_prune E now h w c k))"
  using by_handle [OF assms] by (auto simp: after_prune_def split: after_broadcast.split)

lemma by_receive:
  assumes "dm_docs (hb_docs h) (cn_session c) \<noteq> None"
  shows "docs_by (he_crdt E) may (hb_docs h) (hb_docs (ws_receive E now h w c msg))"
proof -
  obtain h1 b where k: "close_if_invalidated h (cn_session c) (cn_user c) w = (h1, b)" by fastforce
  note fr = close_if_invalidated_frames [OF k]
  have "docs_by (he_crdt E) may (hb_docs h) (hb_docs (after_prune E now (h1\<lparr>hb_awareness := x\<rparr>) w c k'))" for x k'
    using by_after_prune [of "h1\<lparr>hb_awareness := x\<rparr>" c E may now w k'] fr assms by simp
  then show ?thesis using fr k by (auto simp: ws_receive_def Let_def split: prod.split bool.split)
qed

lemma by_greet:
  "hb_docs (greet_awareness h w c) = hb_docs h" "hb_docs (greet_status E h w c) = hb_docs h"
  "dm_docs (hb_docs h) (cn_session c) \<noteq> None \<Longrightarrow>
     docs_by (he_crdt E) may (hb_docs h) (hb_docs (greet_vector E h w c))"
proof -
  show a: "hb_docs (greet_awareness h w c) = hb_docs h"
    by (simp add: greet_awareness_def Let_def)
  show s: "hb_docs (greet_status E h w c) = hb_docs h"
    using a by (auto simp: greet_status_def split: option.split)
  show "docs_by (he_crdt E) may (hb_docs h) (hb_docs (greet_vector E h w c))" if "dm_docs (hb_docs h) (cn_session c) \<noteq> None"
    using s docs_by_sync(3) [OF that, of "he_crdt E" may]
    by (auto simp: greet_vector_def split: prod.split sum.split)
qed

lemma by_joined:
  assumes "dm_docs (hb_docs h) (cn_session c) \<noteq> None"
  shows "docs_by (he_crdt E) may (hb_docs h) (hb_docs (ws_joined E h w c))"
proof -
  let ?h = "h\<lparr>hb_rooms := (hb_rooms h)(cn_session c \<mapsto> room_list h (cn_session c) @ [(w, cn_user c, cn_role c)])\<rparr>"
  obtain h2 b where k: "close_if_invalidated ?h (cn_session c) (cn_user c) w = (h2, b)" by fastforce
  note fr = close_if_invalidated_frames [OF k]
  with k by_greet(3) [of h2 c E may w] assms show ?thesis
    by (auto simp: ws_joined_def Let_def split: bool.split)
qed

lemma by_join:
  assumes "rooms_ok h"
  shows "docs_by (he_crdt E) may (hb_docs h) (hb_docs (join_room E now h w c))"
    and "docs_by (he_crdt E) may (hb_docs h) (hb_docs (join_loaded E h w c))"
proof -
  let ?h = "h\<lparr>hb_rooms := (hb_rooms h)(cn_session c \<mapsto> room_list h (cn_session c))\<rparr>"
  show "docs_by (he_crdt E) may (hb_docs h) (hb_docs (join_room E now h w c))"
    using rooms_okD(3) [OF assms, of "cn_session c"] by_joined [of ?h c E may w]
    by (simp add: join_room_def Let_def)
  show "docs_by (he_crdt E) may (hb_docs h) (hb_docs (join_loaded E h w c))"
    using by_joined [of "release h (cn_session c)" c E may w]
    by (simp add: join_loaded_def Let_def)
qed

lemma by_leave:
  "docs_by (he_crdt E) may (hb_docs h) (hb_docs (leave_room E now saved_now h w c))"
  by (auto simp: leave_room_def Let_def split: option.split prod.split sum.split)

section \<open>Who may write\<close>

definition may_edit :: "database \<Rightarrow> session_key \<Rightarrow> uuid \<Rightarrow> bool" where
  "may_edit db sid uid \<longleftrightarrow>
     active_in db sid \<and> (\<exists>role. role_of db sid uid = Some role \<and> editor \<le> role)"

text \<open>A connection that a failing request left out of its fence: it still acts on the role it was opened with.\<close>
definition missed_fence :: "'d hub \<Rightarrow> ws \<Rightarrow> conn \<Rightarrow> session_key \<Rightarrow> bool" where
  "missed_fence h w c sid \<longleftrightarrow> w \<in> hb_unfenced h \<and> cn_session c = sid \<and> editor \<le> cn_role c"

abbreviation may_write :: "'d hub \<Rightarrow> ws \<Rightarrow> conn \<Rightarrow> session_key \<Rightarrow> bool" where
  "may_write h w c sid \<equiv> may_edit (hb_db h) sid (cn_user c) \<or> missed_fence h w c sid"

lemma no_gap_unlocked:
  assumes "hub_auth h" "hb_locks h sid = None"
  shows "\<not> gap h sid uid"
proof
  assume "gap h sid uid"
  then obtain i r where r: "hb_requests h i = Some r" "hr_session r = sid" "hr_phase r = H_committed"
    unfolding gap_def by blast
  from hub_authD(2) [OF assms(1) r(1)] r assms(2) show False by (simp add: request_ok_def)
qed

lemma unfailed_fresh:
  assumes "authorization_failure h (cn_session c) (cn_user c) w = None" "hb_stamps h w = Some (cn_stamp c)"
  shows "fresh h c \<and> hb_revoked h w = None"
  using assms
  by (auto simp: authorization_failure_def fresh_def newer_def inv_version_def not_less split: option.splits if_splits)

lemma writer_may_edit:
  assumes auth: "hub_auth h" and c: "hb_conns h w = Some c" "registered (cn_phase c)"
    and lock: "hb_locks h (cn_session c) = None"
    and failure: "authorization_failure h (cn_session c) (cn_user c) w = None"
    and rank: "\<not> ROLE_RANK (cn_role c) < ROLE_RANK editor"
  shows "may_write h w c (cn_session c)"
proof (cases "w \<in> hb_unfenced h")
  case False
  note cok = hub_authD(1) [OF auth c(1)]
  have "fresh h c" using unfailed_fresh [OF failure registered_stamp [OF cok c(2)]] by blast
  moreover have "knows_active (cn_phase c)" "knows_role (cn_phase c)" using c(2) by (cases "cn_phase c"; simp)+
  ultimately have "active_in (hb_db h) (cn_session c)" "role_of (hb_db h) (cn_session c) (cn_user c) = Some (cn_role c)"
    using cok no_gap_unlocked [OF auth lock] False by (auto simp: conn_ok_def right_ok_def)
  then show ?thesis using rank by (simp add: may_edit_def rank_less_iff not_less del: ROLE_RANK.simps)
qed (use rank in \<open>simp add: missed_fence_def rank_less_iff not_less del: ROLE_RANK.simps\<close>)

lemma by_apply:
  assumes auth: "hub_auth h" and c: "hb_conns h w = Some c" "registered (cn_phase c)"
    and live: "dm_docs (hb_docs h) (cn_session c) \<noteq> None"
  shows "docs_by (he_crdt E) (may_write h w c) (hb_docs h) (hb_docs (apply_if_authorized E h w c payload))"
proof (cases "hb_locks h (cn_session c) = None \<and> authorization_failure h (cn_session c) (cn_user c) w = None \<and>
    \<not> ROLE_RANK (cn_role c) < ROLE_RANK editor")
  case True
  then have "may_write h w c (cn_session c)" using writer_may_edit [OF auth c] by blast
  from docs_by_sync(1) [OF live, of "may_write h w c", OF this, of "he_crdt E" payload] True
  show ?thesis
    by (auto simp: apply_if_authorized_def Let_def split: prod.split sum.split)
next
  case False
  then show ?thesis
    by (auto simp: apply_if_authorized_def Let_def split: option.split)
qed


lemma ws_continue_by:
  assumes auth: "hub_auth h" and ok: "rooms_ok h" and c: "hb_conns h w = Some c"
  shows "docs_by (he_crdt E) (may_write h w c) (hb_docs h) (hb_docs (ws_continue E now saved_now h w c))"
proof (cases "cn_phase c")
  case (Want_apply payload)
  then have "dm_docs (hb_docs h) (cn_session c) \<noteq> None" using in_room_live [OF ok c] by simp
  from by_apply [OF auth c _ this] Want_apply show ?thesis by (simp add: ws_continue_def)
next
  case (Broadcasting targets frame k)
  then have "dm_docs (hb_docs h) (cn_session c) \<noteq> None" using in_room_live [OF ok c] by simp
  from by_after_prune [OF this] Broadcasting show ?thesis
    by (auto simp: ws_continue_def broadcast_step_def split: list.split)
next
  case Accepting
  obtain h1 b where k: "close_if_invalidated (h\<lparr>hb_stamps := (hb_stamps h)(w \<mapsto> cn_stamp c)\<rparr>) (cn_session c) (cn_user c) w = (h1, b)"
    by fastforce
  from close_if_invalidated_frames [OF k] k Accepting show ?thesis
    by (cases b) (simp_all add: ws_continue_def ws_accepted_def)
qed (simp_all add: ws_continue_def by_join [OF ok] by_greet by_leave auth_user_def auth_session_def auth_member_def
    leave_evicted_def farewell_step_def Let_def split: option.split list.split)

lemma ws_error_docs: "hb_docs (ws_error h w c) = hb_docs h"
  by (simp add: ws_error_def split: ws_phase.split)

text \<open>Requests.\<close>

lemma request_may_edit:
  assumes "hub_auth h" "hb_requests h i = Some r" "checked (hr_phase r)"
  shows "may_edit (hb_db h) (hr_session r) (hr_user r)"
  using hub_authD(2) [OF assms(1,2)] assms(3) by (simp add: request_ok_def require_current_editor_Inr may_edit_def)

lemma http_docs [simp]:
  "hb_docs (unlock h i r frames) = hb_docs h" "hb_docs (fence h r) = hb_docs h" "hb_docs (http_error h i r) = hb_docs h"
  "hb_docs (http_mutate h i r) = hb_docs h" "hb_docs (http_broadcast_step h i r targets frame frames) = hb_docs h"
proof -
  show u: "hb_docs (unlock h i r frames) = hb_docs h" for h :: "'a hub" and i r frames by (rule unlock_rooms)
  show "hb_docs (fence h r) = hb_docs h" by (rule fence_frames)
  show "hb_docs (http_error h i r) = hb_docs h" by (simp add: http_error_def u split: http_phase.split)
  show "hb_docs (http_mutate h i r) = hb_docs h" by (simp add: http_mutate_def u split: sum.split)
  show "hb_docs (http_broadcast_step h i r targets frame frames) = hb_docs h"
    by (simp add: http_broadcast_step_def http_broadcast_def split: list.split)
qed

lemma by_settle:
  "docs_by (he_crdt E) may m (hb_docs h) \<Longrightarrow> docs_by (he_crdt E) may m (hb_docs (http_settle_doc E now h i r))"
  "docs_by (he_crdt E) may m (hb_docs h) \<Longrightarrow> docs_by (he_crdt E) may m (hb_docs (http_evict_if_idle E now h i r))"
  by (simp_all add: http_settle_doc_def http_evict_if_idle_def)

lemma by_loaded:
  assumes may: "may (hr_session r)"
  shows "docs_by (he_crdt E) may (hb_docs h) (hb_docs (http_loaded E now h i r))"
proof (cases "load_pending (hb_docs h) (hr_session r) \<or> dm_docs (hb_docs h) (hr_session r) = None")
  case False
  then have live: "dm_docs (hb_docs h) (hr_session r) \<noteq> None" by blast
  note sync = docs_by_sync [OF live, where may = may and C = "he_crdt E"]
  have a: "docs_by (he_crdt E) may (hb_docs h) m"
    if "apply_update (he_crdt E) (hb_docs h) (hr_session r) u = (m, x)" for u m x
    using sync(1) [OF may, of u] that by simp
  have b: "docs_by (he_crdt E) may (hb_docs h) m"
    if "restore_text_from_state (he_crdt E) (hb_docs h) (hr_session r) u = (m, x)" for u m x
    using sync(2) [OF may, of u] that by simp
  have c: "docs_by (he_crdt E) may (hb_docs h) m"
    if "encode_state_as_update (he_crdt E) (hb_docs h) (hr_session r) sv = (m, x)" for sv m x
    using sync(4) [of sv] that by simp
  show ?thesis
    by (auto simp: http_loaded_def Let_def by_settle dest: a b c split: http_op.split prod.split sum.split)
qed (auto simp: http_loaded_def Let_def)

lemma http_continue_by:
  assumes auth: "hub_auth h" and r: "hb_requests h i = Some r"
  shows "docs_by (he_crdt E) (\<lambda>sid. may_edit (hb_db h) sid (hr_user r)) (hb_docs h) (hb_docs (http_continue E now h i r))"
proof (cases "hr_phase r")
  case H_loading
  with request_may_edit [OF auth r] by_loaded show ?thesis by (simp add: http_continue_def)
qed (simp_all add: http_continue_def http_lock_def http_check_def http_fetch_def http_insert_def http_saved_def by_settle Let_def
    split: http_op.split sum.split prod.split option.split)

lemma http_lost_docs [simp]: "hb_docs (http_lost now h i r) = hb_docs h"
  by (rule http_lost_cases [of now h i r]) simp_all

text \<open>Whose step it is.\<close>
fun actor :: "'d hub \<Rightarrow> hub_event \<Rightarrow> uuid option" where
  "actor h (Ws_continue w _ _) = map_option cn_user (hb_conns h w)"
| "actor h (Ws_message w _ _) = map_option cn_user (hb_conns h w)"
| "actor h (Http_continue i _) = map_option hr_user (hb_requests h i)"
| "actor h _ = None"

text \<open>The connection whose step it is, if it missed its fence.\<close>
definition unfenced_step :: "'d hub \<Rightarrow> hub_event \<Rightarrow> session_key \<Rightarrow> bool" where
  "unfenced_step h ev sid \<longleftrightarrow>
     (case ev of
        Ws_continue w _ _ \<Rightarrow> (case hb_conns h w of None \<Rightarrow> False | Some c \<Rightarrow> missed_fence h w c sid)
      | _ \<Rightarrow> False)"

fun storage_of :: "hub_event \<Rightarrow> event option" where
  "storage_of (Storage ev) = (if storage_event ev then Some ev else None)"
| "storage_of _ = None"

lemma hub_step_by:
  assumes "hub_ok h" "storage_of ev = None"
  shows "docs_by (he_crdt E) (\<lambda>sid. \<exists>uid. actor h ev = Some uid \<and> (may_edit (hb_db h) sid uid \<or> unfenced_step h ev sid))
    (hb_docs h) (hb_docs (hub_step E h ev))"
proof -
  have auth: "hub_auth h" and ok: "rooms_ok h" using assms(1) by (simp_all add: hub_ok_def)
  show ?thesis
  proof (cases ev)
    case (Ws_continue w now saved_now)
    then show ?thesis using ws_continue_by [OF auth ok, of w]
      by (cases "hb_conns h w") (simp_all add: unfenced_step_def)
  next
    case (Ws_message w msg now)
    have "docs_by (he_crdt E) may (hb_docs h) (hb_docs (ws_receive E now h w c msg))"
      if "hb_conns h w = Some c" "cn_phase c = Receiving" for c may
      using by_receive in_room_live [OF ok that(1)] that(2) by simp
    with Ws_message show ?thesis by (simp split: option.split)
  next
    case (Http_continue i now)
    then show ?thesis using http_continue_by [OF auth, of i]
      by (cases "hb_requests h i") (simp_all add: unfenced_step_def)
  qed (use assms(2) in \<open>auto simp: ws_error_docs ws_open_def http_open_def Let_def split: option.split sum.split if_splits\<close>)
qed


lemma event_keeps_unwritten:
  assumes "user_event may ev" "\<not> may sid" "dm_docs m sid = Some d"
  shows "dm_docs (dm_step C m ev) sid = Some d"
proof (cases "ev_session ev = sid")
  case True
  with assms show ?thesis
    by (cases ev) (auto simp: dm_step_def get_state_vector_def encode_state_as_update_def get_or_create_def Let_def
        split: option.splits)
next
  case False
  then have "same_at sid m (dm_step C m ev)" by (intro same_at_event) simp
  with assms(3) show ?thesis by (simp add: same_at_def)
qed

lemma docs_by_unwritten:
  assumes "docs_by C may m m'" "\<not> may sid" "dm_docs m sid = Some d"
  shows "dm_docs m' sid = Some d"
proof -
  have "dm_docs (run (dm_step C) m evs) sid = Some d" if "\<forall>ev\<in>set evs. user_event may ev" for evs
    using that assms(3) 
    by (induction evs arbitrary: m) (simp_all add: event_keeps_unwritten [where may = may, OF _ assms(2)])
  with assms(1) show ?thesis by (auto simp: docs_by_def)
qed

lemma storage_keeps_content:
  assumes "manager_ok m" "storage_event ev" "dm_docs m sid = Some d" "dm_docs (dm_step C m ev) sid = Some d'"
  shows "d' = d"
proof (cases "ev_session ev = sid")
  case True
  have g: "loads (dm_tasks m sid) \<Longrightarrow> dm_docs m sid = None"
    using assms(1) by (auto simp: manager_ok_def guards_ok_def guard_ok_def)
  show ?thesis
  proof (cases ev)
    case (Resume s outcome now)
    show ?thesis
    proof (cases "dm_tasks m sid")
      case (Some t)
      with g assms(3,4) Resume True show ?thesis
        by (cases t; cases outcome)
          (auto simp: dm_step_def resume_redis_set_def resume_db_write_def write_redis_def write_db_def Let_def
            split: option.splits prod.splits if_splits)
    qed (use assms(3,4) Resume True in \<open>simp add: dm_step_def\<close>)
  qed (use assms(2-4) True in \<open>auto simp: dm_step_def Let_def split: option.splits list.splits if_splits\<close>)
next
  case False
  then have "same_at sid m (dm_step C m ev)" by (intro same_at_event) simp
  with assms(3,4) show ?thesis by (simp add: same_at_def)
qed

lemma storage_step: "storage_of ev = Some dev \<Longrightarrow> hb_docs (hub_step E h ev) = dm_step (he_crdt E) (hb_docs h) dev \<and> storage_event dev"
  by (cases ev) (auto split: if_splits)

section \<open>Authorization of every write\<close>

text \<open>C1: Whatever the interleaving of connections, requests, role changes, removals, closings,
  failures and storage operations: when a step changes the content of a live document, it is the step of a
  user who at that moment is, in the database, an editor or owner of that session, and the
  session is active; so a demoted or removed member and a closed session do not write again once
  the change has been committed. The one exception is a connection that missed its fence
  (\<open>unfenced_step\<close>): it was open when the request that changed this member or closed this session
  failed behind its commit (\<open>http_lost\<close>: \<open>db.refresh\<close> raised, so the fence was left out), and it was
  opened with the role of an editor or owner of the session.\<close>

theorem document_writes_are_authorized:
  assumes "h = run (hub_step E) (new_hub db (new_manager redis database)) evs"
    and "dm_docs (hb_docs h) sid = Some d" "dm_docs (hb_docs (hub_step E h ev)) sid = Some d'" "d' \<noteq> d"
  shows "\<exists>uid. actor h ev = Some uid \<and> (may_edit (hb_db h) sid uid \<or> unfenced_step h ev sid)"
proof (cases "storage_of ev")
  case None
  have "hub_ok h" unfolding assms(1) by (rule hub.run_inv [OF hub_ok_new])
  from docs_by_unwritten [OF hub_step_by [OF this None, of E] _ assms(2)] assms(3,4) show ?thesis by auto
next
  case (Some dev)
  have "hub_ok h" unfolding assms(1) by (rule hub.run_inv [OF hub_ok_new])
  then have "manager_ok (hb_docs h)" by (simp add: hub_ok_def rooms_ok_def)
  from storage_keeps_content [OF this _ assms(2)] storage_step [OF Some, of E h] assms(3,4) show ?thesis by auto
qed

definition sample_hub_env :: "sample_doc hub_env" where
  "sample_hub_env = \<lparr>he_crdt = sample_crdt, he_json = sample_env, he_jwt = (\<lambda>token. Some [(py ''sub'', JStr token)]),
     he_isoformat = (\<lambda>t. [])\<rparr>"

abbreviation sample_hub :: "sample_doc hub" where
  "sample_hub \<equiv> new_hub sample_db (new_manager Map.empty Map.empty)"

definition sample_edit :: bytes where
  "sample_edit = sample_update [(0, 2)]"

lemma sample_edit [simp]: "sample_edit \<noteq> []" "length sample_edit \<le> 5242880" "sample_items sample_edit = [(0, 2)]"
proof -
  have "length sample_edit = 10" by (simp add: sample_edit_def sample_update_def prod_encode_def triangle_def)
  then show "sample_edit \<noteq> []" "length sample_edit \<le> 5242880" by auto
  show "sample_items sample_edit = [(0, 2)]" by (simp add: sample_edit_def)
qed

text \<open>A save without a connection, up to the merge.\<close>
abbreviation sample_save :: "hub_event list" where
  "sample_save \<equiv> [Http_open 0 1 (Save sample_edit) 7, Http_continue 0 0, Http_continue 0 0,
     Storage (Resume 7 Io_ok 0), Storage (Resume 7 Io_ok 0)]"

lemmas hub_eval = hub_step.simps new_hub_def http_open_def http_continue_def http_lock_def http_check_def
  set_request_def call_docs_def room_list_def role_checker_def require_current_editor_def body_ok_def
  min_role_of_def sample_db_def empty_db_def sample_user_def sample_hub_env_def load_pending_def


lemma sample_save_state:
  "dm_docs (hb_docs (run (hub_step sample_hub_env) sample_hub sample_save)) 7 = Some []"
  by (simp add: hub_eval dm_eval CRDT_MAX_UPDATE_BYTES_def)

lemma sample_save_merges:
  "dm_docs (hb_docs (hub_step sample_hub_env (run (hub_step sample_hub_env) sample_hub sample_save) (Http_continue 0 0))) 7
     = Some [(0, 2)]"
  by (simp add: hub_eval dm_eval CRDT_MAX_UPDATE_BYTES_def http_loaded_def)


theorem document_writes_are_authorized_witness:
  "may_edit (hb_db (run (hub_step sample_hub_env) sample_hub sample_save)) 7 1"
proof -
  have "actor (run (hub_step sample_hub_env) sample_hub sample_save) (Http_continue 0 0) = Some 1"
    by (simp add: hub_eval dm_eval CRDT_MAX_UPDATE_BYTES_def)
  moreover have "\<not> unfenced_step h (Http_continue 0 0) 7" for h :: "sample_doc hub" by (simp add: unfenced_step_def)
  moreover have "[(0, 2)] \<noteq> ([] :: sample_doc)" by simp
  note document_writes_are_authorized [OF refl sample_save_state sample_save_merges this]
  ultimately show ?thesis by (simp del: run.simps hub_step.simps actor.simps)
qed

section \<open>Nothing is lost\<close>

text \<open>No Redis read fails while a document is loaded, and no Redis key expires.\<close>
definition hub_safe :: "'d hub \<Rightarrow> hub_event \<Rightarrow> bool" where
  "hub_safe h ev = (case storage_of ev of None \<Rightarrow> True | Some dev \<Rightarrow> safe_event (hb_docs h) dev)"

fun hub_safe_run :: "'d hub_env \<Rightarrow> 'd hub \<Rightarrow> hub_event list \<Rightarrow> bool" where
  "hub_safe_run E h [] \<longleftrightarrow> True"
| "hub_safe_run E h (ev # evs) \<longleftrightarrow> hub_safe h ev \<and> hub_safe_run E (hub_step E h ev) evs"

lemma hub_safe_run_append:
  "hub_safe_run E h (evs @ evs') \<longleftrightarrow> hub_safe_run E h evs \<and> hub_safe_run E (run (hub_step E) h evs) evs'"
  by (induction evs arbitrary: h) simp_all

text \<open>Every step of the hub is a sequence of the document manager's operations.\<close>
lemma hub_step_run:
  assumes "hub_ok h" "hub_safe h ev"
  shows "\<exists>evs. safe_run (he_crdt E) (hb_docs h) evs \<and> hb_docs (hub_step E h ev) = run (dm_step (he_crdt E)) (hb_docs h) evs"
proof (cases "storage_of ev")
  case None
  from hub_step_by [OF assms(1) None, of E] show ?thesis unfolding docs_by_def by blast
next
  case (Some dev)
  then show ?thesis using storage_step [OF Some, of E h] assms(2)
    by (intro exI [of _ "[dev]"]) (simp add: hub_safe_def)
qed

definition hub_safe_step :: "'d hub_env \<Rightarrow> 'd hub \<Rightarrow> hub_event \<Rightarrow> 'd hub" where
  "hub_safe_step E h ev = (if hub_safe h ev then hub_step E h ev else h)"

lemma run_hub_safe: "hub_safe_run E h evs \<Longrightarrow> run (hub_step E) h evs = run (hub_safe_step E) h evs"
  by (induction evs arbitrary: h) (simp_all add: hub_safe_step_def)

definition hub_durable :: "'d hub_env \<Rightarrow> ('d \<Rightarrow> 'o set) \<Rightarrow> (bytes \<Rightarrow> 'o set) \<Rightarrow> 'd hub \<Rightarrow> bool" where
  "hub_durable E content items h \<longleftrightarrow> hub_ok h \<and> durable (he_crdt E) content items (hb_docs h)"

definition hub_retains :: "('d \<Rightarrow> 'o set) \<Rightarrow> (bytes \<Rightarrow> 'o set) \<Rightarrow> 'd hub \<Rightarrow> 'd hub \<Rightarrow> bool" where
  "hub_retains content items h h' \<longleftrightarrow> retains content items (hb_docs h) (hb_docs h')"

lemma durable_evs:
  assumes "durable C content items m" "safe_run C m evs"
  shows "durable C content items (run (dm_step C) m evs) \<and> retains content items m (run (dm_step C) m evs)"
  using durability.run_inv [OF assms(1), of evs] retains_run [OF assms] run_safe [OF assms(2)] by (simp add: retains_def)

lemma hub_safe_step_ok:
  assumes "hub_durable E content items h"
  shows "hub_durable E content items (hub_safe_step E h ev) \<and> hub_retains content items h (hub_safe_step E h ev)"
proof (cases "hub_safe h ev")
  case True
  from assms have ok: "hub_ok h" and dur: "durable (he_crdt E) content items (hb_docs h)" by (simp_all add: hub_durable_def)
  obtain evs where "safe_run (he_crdt E) (hb_docs h) evs" "hb_docs (hub_step E h ev) = run (dm_step (he_crdt E)) (hb_docs h) evs"
    using hub_step_run [OF ok True, of E] by blast
  with durable_evs [OF dur] hub.step_inv [OF ok, of E ev] True show ?thesis
    by (simp add: hub_durable_def hub_safe_step_def hub_retains_def)
qed (use assms in \<open>simp add: hub_safe_step_def hub_retains_def retains_def\<close>)

interpretation collaboration: monotone_machine "hub_safe_step E" "hub_durable E content items" "hub_retains content items"
  for E :: "'d hub_env" and content :: "'d \<Rightarrow> 'o set" and items :: "bytes \<Rightarrow> 'o set"
  by unfold_locales (use hub_safe_step_ok [of E content items] in \<open>auto simp: hub_retains_def retains_def\<close>)

lemma hub_durable_new:
  fixes E :: "'d hub_env"
  assumes "crdt_laws (he_crdt E) content items" "stored_by_program (he_crdt E) redis database"
  shows "hub_durable E content items (new_hub db (new_manager redis database))"
proof -
  have "hub_ok (new_hub db (new_manager redis database) :: 'd hub)" by (rule hub_ok_new)
  with durable_new [OF assms] show ?thesis by (simp add: hub_durable_def new_hub_def)
qed

lemma hub_durable_run:
  assumes "crdt_laws (he_crdt E) content items" "stored_by_program (he_crdt E) redis database"
    and "hub_safe_run E (new_hub db (new_manager redis database)) evs"
  shows "hub_durable E content items (run (hub_step E) (new_hub db (new_manager redis database)) evs)"
  unfolding run_hub_safe [OF assms(3)] by (rule collaboration.run_inv [OF hub_durable_new [OF assms(1,2)]])

text \<open>What \<open>apply_if_authorized\<close> does with an edit it accepts.\<close>
definition accepts :: "'d hub_env \<Rightarrow> 'd hub \<Rightarrow> ws \<Rightarrow> conn \<Rightarrow> bytes \<Rightarrow> bool" where
  "accepts E h w c u \<longleftrightarrow> hb_locks h (cn_session c) = None \<and>
     authorization_failure h (cn_session c) (cn_user c) w = None \<and> ROLE_RANK editor \<le> ROLE_RANK (cn_role c) \<and>
     snd (apply_update (he_crdt E) (hb_docs h) (cn_session c) u) = Inr ()"

lemma accepted_apply:
  assumes "hb_conns h w = Some c" "cn_phase c = Want_apply u" "accepts E h w c u"
  shows "hub_step E h (Ws_continue w now saved_now)
    = broadcast_then (h\<lparr>hb_docs := fst (apply_update (he_crdt E) (hb_docs h) (cn_session c) u)\<rparr>) w (cn_session c)
        (encode_sync_update u) Then_receive"
  using assms
  by (auto simp: ws_continue_def apply_if_authorized_def accepts_def Let_def not_less [symmetric]
      simp del: ROLE_RANK.simps split: prod.split)

end
