(* ===== verification/Identity.thy ===== *)
theory Identity
  imports Access "HOL-Library.Countable"
begin

text \<open>
  Properties of \<open>backend/app/auth\<close> and of the endpoints built on it: the text form of UUIDs, accounts
  and tokens (interpretation \<open>accounts\<close> of \<open>monotone_machine\<close>: registering keeps the user table's
  constraints and every existing row), role checks, and the one endpoint that adds members.
\<close>

section \<open>The text form of a UUID\<close>

lemma remove_all_absent: "pat \<noteq> [] \<Longrightarrow> hd pat \<notin> set s \<Longrightarrow> remove_all pat s = s"
proof (induction "length s" arbitrary: s)
  case 0
  then show ?case by (simp add: remove_all.simps [of pat "[]"])
next
  case (Suc n)
  then obtain c cs where s: "s = c # cs" by (cases s) auto
  have "take (length pat) s \<noteq> pat" using Suc.prems s by (cases pat) auto
  then show ?case using Suc s by (simp add: remove_all.simps [of pat "c # cs"])
qed

lemma remove_all_single: "remove_all [c] s = filter (\<lambda>x. x \<noteq> c) s"
proof (induction s)
  case (Cons x s)
  then show ?case by (simp add: remove_all.simps [of "[c]" "x # s"])
qed (simp add: remove_all.simps)

lemma strip_chars_absent: "set s \<inter> set cs = {} \<Longrightarrow> strip_chars cs s = s"
proof -
  assume a: "set s \<inter> set cs = {}"
  have d: "dropWhile (\<lambda>c. c \<in> set cs) t = t" if "set t \<inter> set cs = {}" for t
    using that by (cases t) auto
  show ?thesis using d [of s] d [of "rev s"] a by (simp add: strip_chars_def)
qed

lemma hex_char: "d < 16 \<Longrightarrow> hex_digit_value (hex_char d) = Some d" "d < 16 \<Longrightarrow> hex_char d \<noteq> 95"
  by (auto simp: hex_digit_value_def hex_char_def)

lemma hex_digits_to_hex:
  "n < 16 ^ k \<Longrightarrow> hex_digits acc b (to_hex k n @ rest) = hex_digits (acc * 16 ^ k + n) (b \<or> 0 < k) rest"
proof (induction k arbitrary: n rest)
  case (Suc k)
  have "n div 16 < 16 ^ k" using Suc.prems by (simp add: less_mult_imp_div_less mult.commute)
  from Suc.IH [OF this, of "hex_char (n mod 16) # rest"] show ?case
    by (simp add: hex_char algebra_simps)
qed simp

lemma length_to_hex [simp]: "length (to_hex k n) = k"
  by (induction k arbitrary: n) simp_all

lemma set_to_hex: "c \<in> set (to_hex k n) \<Longrightarrow> 48 \<le> c \<and> c \<le> 57 \<or> 97 \<le> c \<and> c \<le> 102"
proof (induction k arbitrary: n)
  case (Suc k)
  have "48 \<le> hex_char d \<and> hex_char d \<le> 57 \<or> 97 \<le> hex_char d \<and> hex_char d \<le> 102" if "d < 16" for d
    using that by (auto simp: hex_char_def)
  moreover have "c = hex_char (n mod 16) \<or> c \<in> set (to_hex k (n div 16))" using Suc.prems by auto
  ultimately show ?case using Suc.IH by (metis mod_less_divisor zero_less_numeral)
qed simp

lemma pyslice_join:
  "0 \<le> a \<Longrightarrow> a \<le> b \<Longrightarrow> b \<le> c \<Longrightarrow> pyslice xs a b @ pyslice xs b c = pyslice xs a c"
proof -
  assume o: "0 \<le> a" "a \<le> b" "b \<le> c"
  let ?a = "nat a" and ?b = "nat b" and ?c = "nat c"
  have le: "?a \<le> ?b" "?b \<le> ?c" using o by auto
  have "take (?c - ?a) (drop ?a xs) = take (?b - ?a) (drop ?a xs) @ take (?c - ?b) (drop (?b - ?a) (drop ?a xs))"
    using take_add [of "?b - ?a" "?c - ?b" "drop ?a xs"] le by simp
  with le show ?thesis by (simp add: pyslice_def)
qed

lemma set_pyslice: "set (pyslice xs a b) \<subseteq> set xs"
  unfolding pyslice_def by (meson order_trans set_drop_subset set_take_subset)

lemma int_base_16_to_hex: "0 < k \<Longrightarrow> n < 16 ^ k \<Longrightarrow> int_base_16 (to_hex k n) = Some n"
proof -
  assume k: "0 < k" "n < 16 ^ k"
  let ?h = "to_hex k n"
  have strip: "strip_chars [9, 10, 11, 12, 13, 28, 29, 30, 31, 32] ?h = ?h"
    by (rule strip_chars_absent) (use set_to_hex [of _ k n] in force)
  have sign: "take 1 ?h \<noteq> [43]" using set_to_hex [of 43 k n] by (cases ?h) auto
  have prefix: "take 2 ?h \<noteq> [48, x]" if "x = 120 \<or> x = 88" for x
  proof
    assume "take 2 ?h = [48, x]"
    then have "x \<in> set ?h" by (metis in_set_takeD list.set_intros)
    with set_to_hex [of x k n] that show False by auto
  qed
  show ?thesis
    using strip sign prefix [of 120] prefix [of 88] hex_digits_to_hex [OF k(2), of 0 False "[]"] k(1)
    by (simp add: int_base_16_def)
qed

lemma uuid_text: "uuid_of_str (str_of_uuid u) = Some u"
proof -
  let ?h = "to_hex 32 (unat u)"
  have u: "unat u < 16 ^ 32" using unsigned_less [of u] by simp
  have clean: "c \<notin> set (str_of_uuid u)" if c: "c \<in> {117, 123, 125}" for c
  proof -
    have "c \<notin> set ?h" using set_to_hex [of c 32 "unat u"] c by auto
    then have "c \<notin> set (pyslice ?h a b)" for a b using set_pyslice [of ?h a b] by blast
    then show ?thesis using c by (auto simp: str_of_uuid_def Let_def)
  qed
  have hex: "filter (\<lambda>c. c \<noteq> 45) (pyslice ?h a b) = pyslice ?h a b" for a b
  proof (rule filter_True)
    show "\<forall>c\<in>set (pyslice ?h a b). c \<noteq> 45"
      using set_to_hex [of 45 32 "unat u"] set_pyslice [of ?h a b] by auto
  qed
  have "remove_all (py ''-'') (str_of_uuid u) = pyslice ?h 0 32"
    by (simp add: remove_all_single str_of_uuid_def Let_def hex pyslice_join)
  then have "remove_all (py ''-'') (str_of_uuid u) = ?h" by (simp add: pyslice_def)
  moreover have "remove_all (py ''uuid:'') (remove_all (py ''urn:'') (str_of_uuid u)) = str_of_uuid u"
    using clean [of 117] by (simp add: remove_all_absent)
  moreover have "strip_chars (py ''{}'') (str_of_uuid u) = str_of_uuid u"
    by (rule strip_chars_absent) (use clean in auto)
  ultimately show ?thesis using int_base_16_to_hex [of 32, OF _ u] by (simp add: uuid_of_str_def)
qed


text \<open>The text form of a UUID identifies it: \<open>uuid.UUID(str(u))\<close> is \<open>u\<close>, so room keys, token
  subjects and queue items name the row they were made from.\<close>

lemma uuid_text_roundtrip: "uuid_of_str (str_of_uuid u) = Some u \<and> (str_of_uuid u = str_of_uuid v \<longleftrightarrow> u = v)"
  using uuid_text [of u] uuid_text [of v] by (metis option.inject)

section \<open>Accounts\<close>

text \<open>Rows are keyed by id, usernames and e-mail addresses are unique (the tables' constraints).\<close>
definition users_ok :: "database \<Rightarrow> bool" where
  "users_ok db \<longleftrightarrow> dict_ok (db_users db) \<and>
     (\<forall>i u. dget (db_users db) i = Some u \<longrightarrow> u_id u = i) \<and>
     (\<forall>i j u v. dget (db_users db) i = Some u \<longrightarrow> dget (db_users db) j = Some v \<longrightarrow>
        u_username u = u_username v \<or> u_email u = u_email v \<longrightarrow> i = j)"

lemma users_okD:
  assumes "users_ok db"
  shows "dict_ok (db_users db)" "dget (db_users db) i = Some u \<Longrightarrow> u_id u = i"
    "dget (db_users db) i = Some u \<Longrightarrow> dget (db_users db) j = Some v \<Longrightarrow>
       u_username u = u_username v \<or> u_email u = u_email v \<Longrightarrow> i = j"
  using assms unfolding users_ok_def by blast+

lemma in_users: "users_ok db \<Longrightarrow> u \<in> set (map snd (db_users db)) \<longleftrightarrow> dget (db_users db) (u_id u) = Some u"
proof -
  assume ok: "users_ok db"
  then have "distinct (map fst (db_users db))" by (simp add: users_ok_def dict_ok_def)
  then have "u \<in> set (map snd (db_users db)) \<longleftrightarrow> (\<exists>i. dget (db_users db) i = Some u)" by force
  then show ?thesis using users_okD(2) [OF ok] by metis
qed

lemma distinct_users: "users_ok db \<Longrightarrow> distinct (map snd (db_users db))"
proof -
  assume ok: "users_ok db"
  then have d: "distinct (map fst (db_users db))" by (simp add: users_ok_def dict_ok_def)
  have "u_id (snd p) = fst p" if "p \<in> set (db_users db)" for p
    using users_okD(2) [OF ok, of "fst p" "snd p"] map_of_eq_Some_iff [OF d] that by simp
  then have e: "map u_id (map snd (db_users db)) = map fst (db_users db)" by simp
  have "distinct (map u_id (map snd (db_users db)))" unfolding e by (rule d)
  then show ?thesis using distinct_map [of u_id "map snd (db_users db)"] by blast
qed

lemma filter_single:
  assumes "distinct xs" "x \<in> set xs" "P x" "\<And>y. y \<in> set xs \<Longrightarrow> P y \<Longrightarrow> y = x"
  shows "filter P xs = [x]"
proof -
  have "filter P xs = filter (\<lambda>y. y = x) xs" using assms(3,4) by (intro filter_cong) auto
  also have "\<dots> = [x]" using assms(1,2) by (induction xs) (auto simp: filter_empty_conv)
  finally show ?thesis .
qed

text \<open>The row of a username, and the token's user.\<close>
lemma find_user:
  assumes "users_ok db" "dget (db_users db) i = Some u"
  shows "filter (\<lambda>v. u_username v = u_username u) (map snd (db_users db)) = [u]"
proof (rule filter_single [OF distinct_users [OF assms(1)]])
  show "u \<in> set (map snd (db_users db))" using assms(2) users_okD(2) [OF assms] in_users [OF assms(1), of u] by blast
  show "v = u" if "v \<in> set (map snd (db_users db))" "u_username v = u_username u" for v
    using that(2) users_okD(3) [OF assms(1) _ assms(2), of "u_id v" v] in_users [OF assms(1), of v] that(1) assms(2)
    by (metis option.inject)
qed simp

lemma token_user:
  assumes "users_ok db" "dget (db_users db) i = Some u" "jwt_decode (jwt_encode (
      [(py ''sub'', JStr (str_of_uuid i)), (py ''username'', JStr name), (py ''exp'', JInt expire)] :: claims))
    = Some [(py ''sub'', JStr (str_of_uuid i)), (py ''username'', JStr name), (py ''exp'', JInt expire)]"
  shows "get_current_user jwt_decode db (create_access_token jwt_encode expire (str_of_uuid i) name) = Inr u"
    "get_ws_user jwt_decode db (create_access_token jwt_encode expire (str_of_uuid i) name) = Inr u"
  using assms uuid_text [of i]
  by (simp_all add: get_current_user_def get_ws_user_def create_access_token_def)

definition account_step :: "(pystr \<Rightarrow> pystr) \<Rightarrow> database \<Rightarrow> uuid \<times> RegisterRequest \<Rightarrow> database" where
  "account_step hashpw db entry =
     (case register hashpw (fst entry) db (snd entry) of Inl _ \<Rightarrow> db | Inr (_, db') \<Rightarrow> db')"

definition users_below :: "database \<Rightarrow> database \<Rightarrow> bool" where
  "users_below db db' \<longleftrightarrow> (\<forall>i u. dget (db_users db) i = Some u \<longrightarrow> dget (db_users db') i = Some u)"

lemma scalar_none: "scalar_one_or_none rows = Inr None \<longleftrightarrow> rows = []"
  by (auto simp: scalar_one_or_none_def split: list.splits)

lemma register_Inr:
  assumes "register hashpw i db body = Inr (user, db')"
  shows "user = \<lparr>u_id = i, u_username = rr_username body, u_email = rr_email body,
       u_password_hash = hashpw (rr_password body)\<rparr>"
    "db' = db\<lparr>db_users := dset i user (db_users db)\<rparr>" "dget (db_users db) i = None"
    "\<And>v. v \<in> set (map snd (db_users db)) \<Longrightarrow> u_username v \<noteq> rr_username body \<and> u_email v \<noteq> rr_email body"
  using assms by (auto simp: register_def rbind_Inr_iff scalar_none filter_empty_conv Let_def split: if_splits)

lemma register_ok:
  assumes "users_ok db" "register hashpw i db body = Inr (user, db')"
  shows "users_ok db'" "users_below db db'" "dget (db_users db') i = Some user"
proof -
  note r = register_Inr [OF assms(2)]
  show "users_below db db'" "dget (db_users db') i = Some user" using r(2,3) by (auto simp: users_below_def)
  have new: "u_username v \<noteq> rr_username body \<and> u_email v \<noteq> rr_email body" if "dget (db_users db) j = Some v" for j v
    using r(4) [of v] that users_okD(2) [OF assms(1) that] in_users [OF assms(1), of v] by blast
  have "u_username user = rr_username body" "u_email user = rr_email body" "u_id user = i" using r(1) by simp_all
  then show "users_ok db'"
    using r(2) users_okD [OF assms(1)] new unfolding users_ok_def by (auto split: if_splits) metis+
qed

interpretation accounts: monotone_machine "account_step hashpw" users_ok users_below
  for hashpw :: "pystr \<Rightarrow> pystr"
proof unfold_locales
  fix s op
  assume "users_ok s"
  then show "users_ok (account_step hashpw s op)" "users_below s (account_step hashpw s op)"
    using register_ok [of s hashpw "fst op" "snd op"]
    by (auto simp: account_step_def users_below_def split: sum.split)
qed (auto simp: users_below_def)


text \<open>C31: A registered account keeps working: whatever accounts are registered afterwards, its
  username and password log in; the token identifies exactly this account over HTTP and
  WebSocket as long as the JWT library reads from it the three claims that were written (the account, its name,
  the expiry), which it does until that expiry; every password its hash refuses is answered 401, and usernames and addresses
  stay unique.\<close>

theorem registered_account_logs_in:
  assumes "users_ok db" "register hashpw i db body = Inr (user, db1)"
    and db2: "db2 = run (account_step hashpw) db1 entries"
    and "checkpw (rr_password body) (hashpw (rr_password body))"
    and "c = [(py ''sub'', JStr (str_of_uuid i)), (py ''username'', JStr (rr_username body)), (py ''exp'', JInt expire)]"
    and "jwt_decode (jwt_encode c) = Some c"
  shows "users_ok db2 \<and>
    (\<exists>token. login jwt_encode checkpw expire db2 (rr_username body) (rr_password body) = Inr token \<and>
       get_current_user jwt_decode db2 token = Inr user \<and> get_ws_user jwt_decode db2 token = Inr user) \<and>
    (\<forall>p. \<not> checkpw p (hashpw (rr_password body)) \<longrightarrow>
       login jwt_encode checkpw expire db2 (rr_username body) p = Inl (HTTPException 401 ''Invalid username or password''))"
proof -
  note ok1 = register_ok [OF assms(1,2)]
  have ok2: "users_ok db2" unfolding db2 by (rule accounts.run_inv [OF ok1(1)])
  have row: "dget (db_users db2) i = Some user"
    using accounts.run_below [OF ok1(1), of hashpw entries] ok1(3) unfolding db2 users_below_def by blast
  have user: "u_id user = i" "u_username user = rr_username body" "u_password_hash user = hashpw (rr_password body)"
    using register_Inr(1) [OF assms(2)] by simp_all
  note found = find_user [OF ok2 row, unfolded user(2)]
  let ?token = "create_access_token jwt_encode expire (str_of_uuid i) (rr_username body)"
  have "login jwt_encode checkpw expire db2 (rr_username body) (rr_password body) = Inr ?token"
    using assms(4) by (simp add: login_def found scalar_one_or_none_def user)
  moreover have "login jwt_encode checkpw expire db2 (rr_username body) p = Inl (HTTPException 401 ''Invalid username or password'')"
    if "\<not> checkpw p (hashpw (rr_password body))" for p
    using that by (simp add: login_def found scalar_one_or_none_def user)
  moreover have "get_current_user jwt_decode db2 ?token = Inr user" "get_ws_user jwt_decode db2 ?token = Inr user"
    using token_user [where jwt_decode = jwt_decode and jwt_encode = jwt_encode, OF ok2 row assms(6) [unfolded assms(5)]]
    by simp_all
  ultimately show ?thesis using ok2 by blast
qed

text \<open>A token that is the claims' number.\<close>

instance json :: countable
  by countable_datatype

definition sample_encode :: "claims \<Rightarrow> pystr" where
  "sample_encode c = [to_nat c]"

definition sample_decode :: "pystr \<Rightarrow> claims option" where
  "sample_decode token = Some (from_nat (hd token))"

theorem registered_account_logs_in_witness:
  "\<exists>user db1. register id 5 empty_db \<lparr>rr_username = [97], rr_email = [98], rr_password = [99]\<rparr> = Inr (user, db1) \<and>
     (\<exists>token. login sample_encode (=) 0 db1 [97] [99] = Inr token \<and> get_current_user sample_decode db1 token = Inr user) \<and>
     login sample_encode (=) 0 db1 [97] [100] = Inl (HTTPException 401 ''Invalid username or password'')"
proof -
  let ?body = "\<lparr>rr_username = [97], rr_email = [98], rr_password = [99]\<rparr>"
  have "users_ok empty_db" by (simp add: users_ok_def empty_db_def dict_ok_def)
  moreover obtain user db1 where r: "register id 5 empty_db ?body = Inr (user, db1)"
    by (simp add: register_def empty_db_def scalar_one_or_none_def Let_def)
  moreover have "sample_decode (sample_encode c) = Some c" for c by (simp add: sample_decode_def sample_encode_def)
  ultimately have "(\<exists>token. login sample_encode (=) 0 db1 [97] [99] = Inr token \<and> get_current_user sample_decode db1 token = Inr user) \<and>
     login sample_encode (=) 0 db1 [97] [100] = Inl (HTTPException 401 ''Invalid username or password'')"
    using registered_account_logs_in [of empty_db id 5 ?body user db1 db1 "[]" "(=)" _ 0 sample_decode sample_encode, OF _ _ _ _ refl] by fastforce
  with r show ?thesis by blast
qed

text \<open>C33: \<open>RoleChecker\<close> decides by the role in the membership table alone: on tables that satisfy the
  session invariant it admits a caller exactly when the session is active and the caller's
  role is at least the required one, and the re-check inside the room lock agrees with it.\<close>

theorem role_checker_decides_by_role:
  assumes "db_ok db"
  shows "(role_checker min_role db sid user = Inr v \<longleftrightarrow> v = user \<and>
      (\<exists>s. dget (db_sessions db) sid = Some s \<and> s_is_active s) \<and>
      (\<exists>role. role_of db sid (u_id user) = Some role \<and> min_role \<le> role)) \<and>
    (require_current_editor db sid (u_id user) = Inr () \<longleftrightarrow> role_checker editor db sid user = Inr user)"
proof -
  have "role_checker min_role db sid user = Inr v \<longleftrightarrow> v = user \<and>
      (\<exists>s. dget (db_sessions db) sid = Some s \<and> s_is_active s) \<and>
      (\<exists>role. role_of db sid (u_id user) = Some role \<and> min_role \<le> role)" for min_role v
  proof (cases "dget (db_sessions db) sid")
    case (Some s)
    have own: "role_of db sid (u_id user) = Some owner \<longleftrightarrow> u_id user = s_owner_id s"
      using assms Some by (simp add: db_ok_def single_owner_def)
    show ?thesis
    proof (cases "dget (db_members db) (sid, u_id user)")
      case (Some m)
      have own': "m_role m = owner \<longleftrightarrow> s_owner_id s = u_id user"
        using own Some by (auto simp: role_of_def)
      show ?thesis
        by (cases "s_is_active s"; cases "min_role = owner"; cases "min_role \<le> m_role m")
          (use own' Some \<open>dget (db_sessions db) sid = Some s\<close> in
            \<open>simp_all add: role_checker_def role_of_def rank_less_iff not_less not_le eq_commute [of user v] del: ROLE_RANK.simps\<close>)
    qed (use Some in \<open>simp add: role_checker_def role_of_def\<close>)
  qed (simp add: role_checker_def)
  moreover have "require_current_editor db sid (u_id user) = Inr () \<longleftrightarrow>
      (\<exists>s. dget (db_sessions db) sid = Some s \<and> s_is_active s) \<and>
      (\<exists>role. role_of db sid (u_id user) = Some role \<and> editor \<le> role)"
    by (auto simp: require_current_editor_def role_of_def rank_less_iff not_less [symmetric] simp del: ROLE_RANK.simps
        split: option.splits)
  ultimately show ?thesis by simp
qed

theorem role_checker_decides_by_role_witness:
  "role_checker owner sample_db 7 (sample_user 1) = Inr (sample_user 1) \<and> require_current_editor sample_db 7 2 \<noteq> Inr ()"
proof -
  have "\<exists>s. dget (db_sessions sample_db) 7 = Some s \<and> s_is_active s" "role_of sample_db 7 1 = Some owner"
    "role_of sample_db 7 2 = None"
    by (simp_all add: sample_db_def role_of_def)
  then show ?thesis
    using role_checker_decides_by_role [OF sample_db_ok, of owner 7 "sample_user 1" "sample_user 1"]
      role_checker_decides_by_role [OF sample_db_ok, of editor 7 "sample_user 2" "sample_user 2"]
    by (simp add: sample_user_def)
qed

lemma from_service_Inr: "from_service r = Inr x \<longleftrightarrow> r = Inr x"
  by (auto simp: from_service_def split: sum.splits)

text \<open>Only the owner's token adds members: a successful call of the endpoint was made with a token
  of the active session's owner, gives one user who was no member the requested role, which is
  not owner, and changes nobody else's role anywhere.\<close>

lemma only_owner_adds_members:
  assumes "add_member_endpoint jwt_decode db token sid body role = Inr (m, db')"
  shows "\<exists>u s. get_current_user jwt_decode db token = Inr u \<and> dget (db_sessions db) sid = Some s \<and> s_is_active s \<and>
    s_owner_id s = u_id u \<and> role \<noteq> owner \<and> resolve_member_user_id db body = Inr (m_user_id m) \<and>
    role_of db sid (m_user_id m) = None \<and>
    (\<forall>sid' uid. role_of db' sid' uid = (if sid' = sid \<and> uid = m_user_id m then Some role else role_of db sid' uid))"
proof -
  obtain u v uid where u: "get_current_user jwt_decode db token = Inr u" "role_checker owner db sid u = Inr v"
    "resolve_member_user_id db body = Inr uid" "add_member db sid uid role = Inr (m, db')"
    using assms by (auto simp: add_member_endpoint_def rbind_Inr_iff from_service_Inr)
  obtain s where s: "dget (db_sessions db) sid = Some s" "s_is_active s" "s_owner_id s = u_id u"
    using u(2) by (auto simp: role_checker_def split: option.splits if_splits)
  show ?thesis using u s by (auto simp: add_member_Inr role_of_def)
qed

text \<open>Registering a username that belongs to one account with an e-mail address of another is
  answered by an unhandled error instead of the 409 of a single match.\<close>

lemma register_two_matches_fails:
  assumes "users_ok db" "dget (db_users db) i = Some u" "dget (db_users db) j = Some v" "i \<noteq> j"
    and "rr_username body = u_username u" "rr_email body = u_email v"
  shows "register hashpw k db body = Inl Internal_server_error"
proof -
  let ?rows = "filter (\<lambda>w. u_username w = rr_username body \<or> u_email w = rr_email body) (map snd (db_users db))"
  have "u \<noteq> v" using users_okD(2) [OF assms(1)] assms(2-4) by blast
  moreover have "u \<in> set (map snd (db_users db))" "v \<in> set (map snd (db_users db))"
    using in_users [OF assms(1), of u] in_users [OF assms(1), of v] users_okD(2) [OF assms(1)] assms(2,3) by blast+
  then have "{u, v} \<subseteq> set ?rows" using assms(5,6) by simp
  ultimately have "2 \<le> length ?rows"
    using card_mono [of "set ?rows" "{u, v}"] card_length [of ?rows] by simp
  moreover have "scalar_one_or_none rows = Inl Internal_server_error" if "2 \<le> length rows" for rows :: "User list"
    using that by (auto simp: scalar_one_or_none_def split: list.split)
  ultimately have "scalar_one_or_none ?rows = Inl Internal_server_error" by blast
  then show ?thesis by (simp add: register_def)
qed


definition sample_jwt :: "pystr \<Rightarrow> claims option" where
  "sample_jwt token = Some [(py ''sub'', JStr token)]"

lemma sample_login: "get_current_user sample_jwt sample_db (str_of_uuid 1) = Inr (sample_user 1)"
  using uuid_text [of 1] by (simp add: get_current_user_def sample_jwt_def sample_db_def)

lemma only_owner_adds_members_witness:
  "\<exists>m db'. add_member_endpoint sample_jwt sample_db (str_of_uuid 1) 7 (By_id 2) editor = Inr (m, db') \<and>
     role_of db' 7 2 = Some editor"
proof -
  have "role_checker owner sample_db 7 (sample_user 1) = Inr (sample_user 1)"
    by (simp add: role_checker_def sample_db_def sample_user_def)
  moreover have "\<exists>m db'. add_member sample_db 7 2 editor = Inr (m, db') \<and> m_user_id m = 2"
    by (simp add: add_member_def get_active_session_def sample_db_def Let_def)
  ultimately obtain m db' where a: "add_member_endpoint sample_jwt sample_db (str_of_uuid 1) 7 (By_id 2) editor = Inr (m, db')"
    "m_user_id m = 2"
    by (auto simp: add_member_endpoint_def sample_login resolve_member_user_id_def from_service_def)
  from only_owner_adds_members [OF a(1)] a show ?thesis by auto
qed

lemma register_two_matches_fails_witness:
  "register id 5 (empty_db\<lparr>db_users := [(1, \<lparr>u_id = 1, u_username = [97], u_email = [98], u_password_hash = []\<rparr>),
       (2, \<lparr>u_id = 2, u_username = [99], u_email = [100], u_password_hash = []\<rparr>)]\<rparr>)
     \<lparr>rr_username = [97], rr_email = [100], rr_password = []\<rparr> = Inl Internal_server_error"
proof -
  let ?db = "empty_db\<lparr>db_users := [(1, \<lparr>u_id = 1, u_username = [97], u_email = [98], u_password_hash = []\<rparr>),
       (2, \<lparr>u_id = 2, u_username = [99], u_email = [100], u_password_hash = []\<rparr>)]\<rparr>"
  have "users_ok ?db" by (auto simp: users_ok_def dict_ok_def split: if_splits)
  from register_two_matches_fails [OF this, of 1 _ 2] show ?thesis by simp
qed

end
