(* ===== verification/Audience.thy ===== *)
theory Audience
  imports Collaboration Identity
begin

text \<open>
  Who receives the frames of a room. Revocations and authorization versions are followed through
  every step: a connection that is in a room and not revoked acts on a current authorization
  (\<open>audience_ok\<close>), because a fence revokes every socket in the room it concerns and a joining
  connection looks at the fences again after it is listed. Frames go to sockets that are not
  revoked, so with the authorization invariant they reach current members only.
\<close>

section \<open>Revocations and frames of one step\<close>

definition sends_to :: "(ws \<Rightarrow> bool) \<Rightarrow> 'd hub \<Rightarrow> 'd hub \<Rightarrow> bool" where
  "sends_to P h h' \<longleftrightarrow> (\<exists>new. hb_sent h' = hb_sent h @ new \<and> (\<forall>(t, f)\<in>set new. P t))"

text \<open>Only \<open>w\<close>'s entry may change, and a revocation is not forgotten.\<close>
definition revokes_more :: "ws \<Rightarrow> 'd hub \<Rightarrow> 'd hub \<Rightarrow> bool" where
  "revokes_more w h h' \<longleftrightarrow> (\<forall>w'. w' \<noteq> w \<longrightarrow> hb_revoked h' w' = hb_revoked h w') \<and>
     (hb_revoked h w \<noteq> None \<longrightarrow> hb_revoked h' w \<noteq> None)"

lemma sends_same: "hb_sent h' = hb_sent h \<Longrightarrow> sends_to P h h'"
  unfolding sends_to_def by (rule exI [of _ "[]"]) simp

lemma revokes_same: "hb_revoked h' = hb_revoked h \<Longrightarrow> revokes_more w h h'"
  by (simp add: revokes_more_def)

lemma quiet [simp, frame_simps]:
  "hb_sent (set_phase h w p) = hb_sent h" "hb_revoked (set_phase h w p) = hb_revoked h"
  "hb_sent (close_connections h ws code) = hb_sent h" "hb_revoked (close_connections h ws code) = hb_revoked h"
  "hb_sent (ws_fail h w) = hb_sent h" "hb_revoked (ws_fail h w) = hb_revoked h"
  "hb_sent (finish h w) = hb_sent h" "hb_revoked (finish h w) = hb_revoked h"
  "hb_sent (release h sid) = hb_sent h" "hb_revoked (release h sid) = hb_revoked h"
  "hb_sent (reject h w code) = hb_sent h" "hb_revoked (reject h w code) = hb_revoked h"
  "hb_sent (finish_unjoined h w) = hb_sent h"
  "hb_sent (broadcast_then h w sid frame k) = hb_sent h" "hb_revoked (broadcast_then h w sid frame k) = hb_revoked h"
  "hb_sent (send_bytes h w f) = hb_sent h @ [(w, f)]" "hb_revoked (send_bytes h w f) = hb_revoked h"
  "hb_revoked (send_then h w frame p) = hb_revoked h"
  by (simp_all add: set_phase_def close_connections_def ws_fail_def finish_def release_def reject_def finish_unjoined_def
      broadcast_then_def send_bytes_def send_then_def split: sum.split)

lemma sends_send_then: "hb_sent h1 = hb_sent h \<Longrightarrow> P w \<Longrightarrow> sends_to P h (send_then h1 w frame p)"
  unfolding sends_to_def by (cases frame) (simp_all add: send_then_def)

lemma revoked_handle [simp]: "hb_revoked (handle_binary_message E now h w c data) = hb_revoked h"
  by (auto simp: handle_binary_message_def Let_def split: sum.split ParsedMessage.split prod.split)

lemma sends_handle:
  assumes "hb_revoked h w = None \<Longrightarrow> P w"
  shows "sends_to P h (handle_binary_message E now h w c data)"
proof (cases "hb_revoked h w = None")
  case True
  with assms show ?thesis
    by (auto simp: handle_binary_message_def Let_def intro!: sends_send_then intro: sends_same
        split: sum.split ParsedMessage.split prod.split)
qed (auto simp: handle_binary_message_def intro: sends_same)

lemma revoked_after_prune [simp]: "hb_revoked (after_prune E now h w c k) = hb_revoked h"
  by (simp add: after_prune_def split: after_broadcast.split)

lemma sends_after_prune: "(hb_revoked h w = None \<Longrightarrow> P w) \<Longrightarrow> sends_to P h (after_prune E now h w c k)"
  by (auto simp: after_prune_def intro!: sends_same sends_handle split: after_broadcast.split)

lemma sends_cong: "sends_to P h1 h' \<Longrightarrow> hb_sent h1 = hb_sent h \<Longrightarrow> sends_to P h h'"
  by (simp add: sends_to_def)

lemma close_if_cases:
  assumes "close_if_invalidated h sid uid w = (h', b)"
  shows "hb_sent h' = hb_sent h \<and> revokes_more w h h' \<and> (b \<longrightarrow> hb_revoked h' w \<noteq> None) \<and>
    (\<not> b \<longrightarrow> h' = h \<and> hb_revoked h w = None \<and> authorization_failure h sid uid w = None)"
  using assms
  by (auto simp: close_if_invalidated_def revokes_more_def authorization_failure_def split: option.splits)

lemma step_receive:
  "sends_to (\<lambda>t. hb_revoked h t = None) h (ws_receive E now h w c msg) \<and> revokes_more w h (ws_receive E now h w c msg)"
proof -
  obtain h1 b where k: "close_if_invalidated h (cn_session c) (cn_user c) w = (h1, b)" by fastforce
  note kc = close_if_cases [OF k]
  show ?thesis
  proof (cases "msg = Disconnect \<or> b")
    case True
    with k kc show ?thesis
      by (auto simp: ws_receive_def revokes_more_def intro!: sends_same)
  next
    case False
    obtain store removed where p: "aw_prune_stale (hb_awareness h) (cn_session c) now = (store, removed)" by fastforce
    have "sends_to (\<lambda>t. hb_revoked h t = None) h (after_prune E now (h\<lparr>hb_awareness := store\<rparr>) w c k')" for k'
      by (rule sends_cong [OF sends_after_prune]) simp_all
    with False k kc p show ?thesis
      by (auto simp: ws_receive_def Let_def intro!: sends_same revokes_same)
  qed
qed

lemma sends_greet:
  assumes "hb_sent h1 = hb_sent h" "P w"
  shows "sends_to P h (greet_awareness h1 w c)" "sends_to P h (greet_status E h1 w c)" "sends_to P h (greet_vector E h1 w c)"
proof -
  show a: "sends_to P h (greet_awareness h1 w c)"
    using assms by (auto simp: greet_awareness_def Let_def intro!: sends_send_then intro: sends_same)
  show s: "sends_to P h (greet_status E h1 w c)"
    using assms a by (auto simp: greet_status_def intro!: sends_send_then split: option.split)
  show "sends_to P h (greet_vector E h1 w c)"
    using assms s by (auto simp: greet_vector_def intro!: sends_send_then intro: sends_same split: prod.split sum.split)
qed

lemma revoked_greet_awareness [simp]: "hb_revoked (greet_awareness h w c) = hb_revoked h"
  by (simp add: greet_awareness_def Let_def)

lemma revoked_greet_status [simp]: "hb_revoked (greet_status E h w c) = hb_revoked h"
  by (simp add: greet_status_def split: option.split)

lemma revoked_greet_vector [simp]: "hb_revoked (greet_vector E h w c) = hb_revoked h"
  by (auto simp: greet_vector_def split: prod.split sum.split)

text \<open>Joining: the second look at the fences decides.\<close>
lemma step_joined:
  assumes "hb_stamps h w = Some (cn_stamp c)"
  shows "sends_to (\<lambda>t. hb_revoked h t = None) h (ws_joined E h w c) \<and> revokes_more w h (ws_joined E h w c) \<and>
    (hb_revoked (ws_joined E h w c) w = None \<longrightarrow> fresh h c)"
proof -
  let ?h = "h\<lparr>hb_rooms := (hb_rooms h)(cn_session c \<mapsto> room_list h (cn_session c) @ [(w, cn_user c, cn_role c)])\<rparr>"
  obtain h2 b where k: "close_if_invalidated ?h (cn_session c) (cn_user c) w = (h2, b)" by fastforce
  note kc = close_if_cases [OF k]
  show ?thesis
  proof (cases b)
    case True
    with k kc show ?thesis
      by (auto simp: ws_joined_def Let_def revokes_more_def intro!: sends_same)
  next
    case False
    with kc have e: "h2 = ?h" "hb_revoked h w = None" "authorization_failure ?h (cn_session c) (cn_user c) w = None" by simp_all
    then have "fresh h c" using unfailed_fresh [of ?h c w] assms by (simp add: fresh_def)
    moreover have "sends_to (\<lambda>t. hb_revoked h t = None) h (greet_vector E ?h w c)"
      by (rule sends_greet) (use e in simp_all)
    ultimately show ?thesis using k False e by (auto simp: ws_joined_def Let_def intro!: revokes_same)
  qed
qed


section \<open>Steps of a connection\<close>

text \<open>What a step of connection \<open>w\<close> does to the audience: frames go to sockets that are not revoked
  (the greeting to its own), and only a connection that is fresh enters the room.\<close>
definition audience_step :: "'d hub \<Rightarrow> ws \<Rightarrow> conn \<Rightarrow> 'd hub \<Rightarrow> bool" where
  "audience_step h w c h' \<longleftrightarrow>
     sends_to (\<lambda>t. hb_revoked h t = None \<or> t = w \<and> (cn_phase c = Greet_status \<or> cn_phase c = Greet_awareness)) h h' \<and>
     (\<forall>w'. w' \<noteq> w \<longrightarrow> hb_revoked h' w' = hb_revoked h w') \<and>
     (\<forall>c'. hb_conns h' w = Some c' \<longrightarrow> in_room (cn_phase c') \<longrightarrow> hb_revoked h' w = None \<longrightarrow>
        in_room (cn_phase c) \<and> hb_revoked h w = None \<or> fresh h c)"

lemma sends_mono: "sends_to P h h' \<Longrightarrow> (\<And>t. P t \<Longrightarrow> Q t) \<Longrightarrow> sends_to Q h h'"
  unfolding sends_to_def by fastforce

lemma audience_in_room:
  assumes "in_room (cn_phase c)" "sends_to (\<lambda>t. hb_revoked h t = None \<or> t = w \<and> (cn_phase c = Greet_status \<or> cn_phase c = Greet_awareness)) h h'"
    and "revokes_more w h h'"
  shows "audience_step h w c h'"
  using assms unfolding audience_step_def revokes_more_def by blast

lemma audience_joined:
  assumes "hb_sent h1 = hb_sent h" "hb_revoked h1 = hb_revoked h"
    "hb_member_invalidations h1 = hb_member_invalidations h" "hb_session_invalidations h1 = hb_session_invalidations h"
    "hb_stamps h1 w = Some (cn_stamp c)"
  shows "audience_step h w c (ws_joined E h1 w c)"
proof -
  have "fresh h1 c = fresh h c" using assms by (simp add: fresh_def)
  moreover have "sends_to (\<lambda>t. hb_revoked h t = None \<or> t = w \<and> (cn_phase c = Greet_status \<or> cn_phase c = Greet_awareness)) h
      (ws_joined E h1 w c)"
    by (rule sends_mono [OF sends_cong [OF conjunct1 [OF step_joined [OF assms(5)]] assms(1)]]) (simp add: assms(2))
  ultimately show ?thesis
    using step_joined [OF assms(5), of E] assms(2) by (simp add: audience_step_def revokes_more_def)
qed

lemma audience_outside:
  assumes "hb_sent h' = hb_sent h" "\<And>w'. w' \<noteq> w \<Longrightarrow> hb_revoked h' w' = hb_revoked h w'"
    and "\<And>c'. hb_conns h' w = Some c' \<Longrightarrow> \<not> in_room (cn_phase c')"
  shows "audience_step h w c h'"
  using assms by (auto simp: audience_step_def intro: sends_same)

lemma set_phase_conn: "hb_conns (set_phase h w p) w = map_option (\<lambda>c. c\<lparr>cn_phase := p\<rparr>) (hb_conns h w)"
  by (simp add: set_phase_def)

lemma quiet_call [simp, frame_simps]: "hb_sent (call_docs E h ev) = hb_sent h" "hb_revoked (call_docs E h ev) = hb_revoked h"
  by simp_all

lemma audience_join:
  assumes c: "hb_conns h w = Some c" "hb_stamps h w = Some (cn_stamp c)" and "\<not> in_room (cn_phase c)"
  shows "audience_step h w c (join_room E now h w c)" "audience_step h w c (join_loaded E h w c)"
proof -
  have stay: "audience_step h w c h" by (rule audience_outside) (use assms in auto)
  show "audience_step h w c (join_room E now h w c)"
  proof (cases "hb_locks h (cn_session c) = None \<and> room_list h (cn_session c) = []")
    case True
    have "audience_step h w c (set_phase (call_docs E h1 ev) w Joining)"
      if "hb_sent h1 = hb_sent h" "hb_revoked h1 = hb_revoked h" "hb_conns h1 = hb_conns h" for h1 ev
      by (rule audience_outside) (use that c in \<open>auto simp: set_phase_conn\<close>)
    with True show ?thesis by (simp add: join_room_def Let_def)
  next
    case False
    with stay c(2) show ?thesis by (auto simp: join_room_def Let_def intro!: audience_joined)
  qed
  have "audience_step h w c (close_connections (finish_unjoined (release h (cn_session c)) w) [w] 1011)"
    by (rule audience_outside) (simp_all add: finish_unjoined_def close_connections_def release_def)
  moreover have "audience_step h w c (ws_joined E (release h (cn_session c)) w c)"
    by (rule audience_joined) (use c(2) in \<open>simp_all add: release_def\<close>)
  ultimately show "audience_step h w c (join_loaded E h w c)"
    using stay by (auto simp: join_loaded_def Let_def)
qed

lemma audience_leave:
  assumes c: "hb_conns h w = Some c" "in_room (cn_phase c)"
  shows "audience_step h w c (leave_room E now saved_now h w c)"
proof (cases "hb_locks h (cn_session c) = None")
  case True
  have rev: "w' \<noteq> w \<Longrightarrow> hb_revoked (leave_room E now saved_now h w c) w' = hb_revoked h w'" for w'
    using True by (auto simp: leave_room_def Let_def split: option.split prod.split sum.split)
  have sent: "hb_sent (leave_room E now saved_now h w c) = hb_sent h"
    using True by (auto simp: leave_room_def Let_def split: option.split prod.split sum.split)
  have "\<not> in_room (cn_phase c')" if "hb_conns (leave_room E now saved_now h w c) w = Some c'" for c'
    using True that c(1)
    by (auto simp: leave_room_def Let_def finish_def set_phase_def split: option.splits prod.splits sum.splits if_splits)
  from sent rev this show ?thesis by (rule audience_outside)
next
  case False
  then show ?thesis using c(2) by (intro audience_in_room) (auto simp: leave_room_def intro!: sends_same revokes_same)
qed

lemma step_apply:
  "sends_to (\<lambda>t. hb_revoked h t = None) h (apply_if_authorized E h w c u) \<and> revokes_more w h (apply_if_authorized E h w c u)"
proof -
  have "authorization_failure h (cn_session c) (cn_user c) w = None \<Longrightarrow> hb_revoked h w = None"
    by (auto simp: authorization_failure_def split: option.splits)
  then show ?thesis
    by (auto simp: apply_if_authorized_def Let_def revokes_more_def intro!: sends_send_then intro: sends_same
        split: option.split prod.split sum.split)
qed

lemma step_broadcast:
  "sends_to (\<lambda>t. hb_revoked h t = None) h (broadcast_step E now h w c targets frame k) \<and>
   hb_revoked (broadcast_step E now h w c targets frame k) = hb_revoked h"
proof (cases targets)
  case Nil
  then show ?thesis by (simp add: broadcast_step_def sends_after_prune)
next
  case (Cons t ts)
  then show ?thesis by (cases "hb_revoked h t = None") (simp_all add: broadcast_step_def sends_to_def)
qed


lemma ws_continue_audience:
  assumes auth: "hub_auth h" and c: "hb_conns h w = Some c"
  shows "audience_step h w c (ws_continue E now saved_now h w c)"
proof -
  have stamp: "hb_stamps h w = Some (cn_stamp c)" if "registered (cn_phase c)"
    using registered_stamp [OF hub_authD(1) [OF auth c] that] .
  have mono: "sends_to (\<lambda>t. hb_revoked h t = None) h h' \<Longrightarrow>
    sends_to (\<lambda>t. hb_revoked h t = None \<or> t = w \<and> (cn_phase c = Greet_status \<or> cn_phase c = Greet_awareness)) h h'" for h'
    by (erule sends_mono) simp
  show ?thesis
  proof (cases "cn_phase c")
    case Accepting
    obtain h1 b where k: "close_if_invalidated (h\<lparr>hb_stamps := (hb_stamps h)(w \<mapsto> cn_stamp c)\<rparr>) (cn_session c) (cn_user c) w = (h1, b)"
      by fastforce
    from close_if_cases [OF k] have "hb_sent h1 = hb_sent h" "\<And>w'. w' \<noteq> w \<Longrightarrow> hb_revoked h1 w' = hb_revoked h w'"
      by (auto simp: revokes_more_def)
    moreover have "\<not> in_room (cn_phase c')" if "hb_conns (ws_accepted h w c) w = Some c'" for c'
      using that k by (cases b) (auto simp: ws_accepted_def set_phase_conn)
    ultimately show ?thesis using Accepting k
      by (cases b) (auto simp: ws_continue_def ws_accepted_def intro!: audience_outside)
  next
    case Want_join
    then show ?thesis using audience_join(1) [OF c stamp] by (simp add: ws_continue_def)
  next
    case Joining
    then show ?thesis using audience_join(2) [OF c stamp] by (simp add: ws_continue_def)
  next
    case Greet_status
    have "audience_step h w c (greet_status E h w c)"
      by (rule audience_in_room) (use Greet_status in \<open>auto intro: sends_greet revokes_same\<close>)
    with Greet_status show ?thesis by (simp add: ws_continue_def)
  next
    case Greet_awareness
    have "audience_step h w c (greet_awareness h w c)"
      by (rule audience_in_room) (use Greet_awareness in \<open>auto intro: sends_greet revokes_same\<close>)
    with Greet_awareness show ?thesis by (simp add: ws_continue_def)
  next
    case (Broadcasting targets frame k)
    have "audience_step h w c (broadcast_step E now h w c targets frame k)"
      by (rule audience_in_room) (use Broadcasting step_broadcast [of h E now w c targets frame k] mono in \<open>auto intro: revokes_same\<close>)
    with Broadcasting show ?thesis by (simp add: ws_continue_def)
  next
    case (Want_apply u)
    have "audience_step h w c (apply_if_authorized E h w c u)"
      by (rule audience_in_room) (use Want_apply step_apply [of h E w c u] mono in auto)
    with Want_apply show ?thesis by (simp add: ws_continue_def)
  next
    case Want_leave
    then show ?thesis using audience_leave [OF c] by (simp add: ws_continue_def)
  next
    case (Farewell targets frame)
    have "audience_step h w c (farewell_step h w targets frame)"
    proof (cases targets)
      case (Cons t ts)
      with Farewell c show ?thesis
        by (cases "hb_revoked h t = None") (auto simp: farewell_step_def audience_step_def sends_to_def set_phase_conn send_bytes_def)
    qed (auto simp: farewell_step_def finish_def intro!: audience_outside)
    with Farewell show ?thesis by (simp add: ws_continue_def)
  next
    case Receiving
    then show ?thesis by (intro audience_in_room) (auto simp: ws_continue_def intro: sends_same revokes_same)
  next
    case Replying
    then show ?thesis by (intro audience_in_room) (auto simp: ws_continue_def intro: sends_same revokes_same)
  next
    case Closing_joined
    then show ?thesis by (intro audience_in_room) (auto simp: ws_continue_def intro: sends_same revokes_same)
  qed (use c in \<open>auto simp: ws_continue_def auth_user_def auth_session_def auth_member_def leave_evicted_def set_phase_conn Let_def
      reject_def close_connections_def finish_def finish_unjoined_def release_def
      intro!: audience_outside split: option.splits if_splits\<close>)
qed

lemma ws_error_audience:
  assumes "hb_conns h w = Some c"
  shows "audience_step h w c (ws_error h w c)"
proof (cases "in_room (cn_phase c)")
  case True
  have "hb_sent (ws_error h w c) = hb_sent h" "hb_revoked (ws_error h w c) = hb_revoked h"
    by (simp_all add: ws_error_def split: ws_phase.split)
  with True show ?thesis by (intro audience_in_room sends_same revokes_same)
next
  case False
  then show ?thesis using assms
    by (cases "cn_phase c") (auto simp: ws_error_def set_phase_conn finish_def intro!: audience_outside)
qed

section \<open>The invariant\<close>

text \<open>Whoever is in a room and not revoked acts on a current authorization.\<close>
definition audience_ok :: "'d hub \<Rightarrow> bool" where
  "audience_ok h \<longleftrightarrow>
     (\<forall>w c. hb_conns h w = Some c \<longrightarrow> in_room (cn_phase c) \<longrightarrow> hb_revoked h w = None \<longrightarrow> fresh h c)"

lemma fresh_cong:
  "hb_member_invalidations h' = hb_member_invalidations h \<Longrightarrow> hb_session_invalidations h' = hb_session_invalidations h \<Longrightarrow>
     as_member_version (cn_stamp c') = as_member_version (cn_stamp c) \<Longrightarrow>
     as_session_version (cn_stamp c') = as_session_version (cn_stamp c) \<Longrightarrow>
     cn_session c' = cn_session c \<Longrightarrow> cn_user c' = cn_user c \<Longrightarrow> fresh h' c' = fresh h c"
  by (simp add: fresh_def)

lemma audience_ok_step:
  assumes ok: "audience_ok h" and c: "hb_conns h w = Some c" and moved: "ws_moved h w c h'" and aud: "audience_step h w c h'"
  shows "audience_ok h'"
proof -
  have fr: "hb_member_invalidations h' = hb_member_invalidations h" "hb_session_invalidations h' = hb_session_invalidations h"
    and others: "\<And>w'. w' \<noteq> w \<Longrightarrow> hb_conns h' w' = hb_conns h w'"
    and own: "\<And>c'. hb_conns h' w = Some c' \<Longrightarrow> c' = c\<lparr>cn_phase := cn_phase c'\<rparr>"
    using moved unfolding ws_moved_def ws_frame_def by metis+
  have "fresh h' c'" if c': "hb_conns h' w' = Some c'" "in_room (cn_phase c')" "hb_revoked h' w' = None" for w' c'
  proof (cases "w' = w")
    case True
    then have "in_room (cn_phase c) \<and> hb_revoked h w = None \<or> fresh h c"
      using aud c' unfolding audience_step_def by blast
    then have "fresh h c" using ok c unfolding audience_ok_def by blast
    moreover obtain p where "c' = c\<lparr>cn_phase := p\<rparr>" using own c'(1) True by blast
    ultimately show ?thesis using fr by (simp add: fresh_def)
  next
    case False
    then have "hb_conns h w' = Some c'" "hb_revoked h w' = None"
      using others c' aud unfolding audience_step_def by simp_all
    then have "fresh h c'" using ok c'(2) unfolding audience_ok_def by blast
    then show ?thesis using fr by (simp add: fresh_def)
  qed
  then show ?thesis by (simp add: audience_ok_def)
qed

lemma audience_ok_cong:
  assumes "audience_ok h" "hb_member_invalidations h' = hb_member_invalidations h"
    "hb_session_invalidations h' = hb_session_invalidations h" "hb_revoked h' = hb_revoked h"
    and "\<And>w c. hb_conns h' w = Some c \<Longrightarrow> in_room (cn_phase c) \<Longrightarrow> hb_conns h w = Some c"
  shows "audience_ok h'"
  using assms unfolding audience_ok_def fresh_def by metis

text \<open>Requests: only the fence touches revocations and versions.\<close>

lemma unlock_quiet [simp]:
  "hb_sent (unlock h i r frames) = hb_sent h" "hb_revoked (unlock h i r frames) = hb_revoked h"
  "hb_member_invalidations (unlock h i r frames) = hb_member_invalidations h"
  "hb_session_invalidations (unlock h i r frames) = hb_session_invalidations h"
  "hb_conns (unlock h i r frames) = hb_conns h"
  by (simp_all add: unlock_def http_broadcast_def set_request_def end_request_def release_def split: list.split)

lemma request_quiet [simp]:
  "hb_sent (set_request h i r p) = hb_sent h" "hb_revoked (set_request h i r p) = hb_revoked h"
  "hb_member_invalidations (set_request h i r p) = hb_member_invalidations h"
  "hb_session_invalidations (set_request h i r p) = hb_session_invalidations h"
  "hb_sent (end_request h i) = hb_sent h" "hb_revoked (end_request h i) = hb_revoked h"
  "hb_member_invalidations (end_request h i) = hb_member_invalidations h"
  "hb_session_invalidations (end_request h i) = hb_session_invalidations h"
  by (simp_all add: set_request_def end_request_def)

text \<open>A request's step that is not the fence.\<close>
definition unseen :: "'d hub \<Rightarrow> 'd hub \<Rightarrow> bool" where
  "unseen h h' \<longleftrightarrow> hb_revoked h' = hb_revoked h \<and> hb_member_invalidations h' = hb_member_invalidations h \<and>
     hb_session_invalidations h' = hb_session_invalidations h \<and> hb_conns h' = hb_conns h \<and>
     sends_to (\<lambda>t. hb_revoked h t = None) h h'"

lemma unseen_same:
  "hb_sent h' = hb_sent h \<Longrightarrow> hb_revoked h' = hb_revoked h \<Longrightarrow> hb_member_invalidations h' = hb_member_invalidations h \<Longrightarrow>
     hb_session_invalidations h' = hb_session_invalidations h \<Longrightarrow> hb_conns h' = hb_conns h \<Longrightarrow> unseen h h'"
  by (simp add: unseen_def sends_same)

lemma settle_quiet [simp]:
  "hb_sent (http_settle_doc E now h i r) = hb_sent h" "hb_revoked (http_settle_doc E now h i r) = hb_revoked h"
  "hb_member_invalidations (http_settle_doc E now h i r) = hb_member_invalidations h"
  "hb_session_invalidations (http_settle_doc E now h i r) = hb_session_invalidations h"
  "hb_conns (http_settle_doc E now h i r) = hb_conns h"
  "hb_sent (http_evict_if_idle E now h i r) = hb_sent h" "hb_revoked (http_evict_if_idle E now h i r) = hb_revoked h"
  "hb_member_invalidations (http_evict_if_idle E now h i r) = hb_member_invalidations h"
  "hb_session_invalidations (http_evict_if_idle E now h i r) = hb_session_invalidations h"
  "hb_conns (http_evict_if_idle E now h i r) = hb_conns h"
  by (simp_all add: http_settle_doc_def http_evict_if_idle_def)

lemma http_unseen:
  assumes "hr_phase r \<noteq> H_committed"
  shows "unseen h (http_continue E now h i r)" "unseen h (http_error h i r)"
proof -
  have b: "unseen h (http_broadcast_step h i r targets frame frames)" for targets frame frames
  proof (cases targets)
    case Nil
    then show ?thesis by (intro unseen_same) (simp_all add: http_broadcast_step_def http_broadcast_def split: list.split)
  next
    case (Cons t ts)
    then show ?thesis
      by (cases "hb_revoked h t = None")
        (simp_all add: http_broadcast_step_def unseen_def sends_to_def, simp_all add: send_bytes_def)
  qed
  show "unseen h (http_continue E now h i r)"
  proof (cases "hr_phase r")
    case H_loading
    have "unseen h (http_loaded E now h i r)"
      by (rule unseen_same) (auto simp: http_loaded_def Let_def split: http_op.split prod.split sum.split)
    with H_loading show ?thesis by (simp add: http_continue_def)
  qed (use assms b in \<open>auto simp: http_continue_def http_lock_def http_mutate_def http_check_def http_fetch_def http_insert_def
      http_saved_def Let_def intro!: unseen_same split: http_op.split sum.split prod.split option.split\<close>)
  show "unseen h (http_error h i r)"
    by (auto simp: http_error_def intro!: unseen_same split: http_phase.split)
qed

lemma http_lost_unseen: "unseen h (http_lost now h i r)"
  by (rule http_lost_cases [of now h i r]) (auto intro: unseen_same)

lemma unseen_ok: "audience_ok h \<Longrightarrow> unseen h h' \<Longrightarrow> audience_ok h'"
  by (erule audience_ok_cong) (simp_all add: unseen_def)

text \<open>The fence revokes every socket in the room that its commit concerns.\<close>
lemma fence_audience:
  assumes rooms: "rooms_ok h" and ok: "audience_ok h"
  shows "audience_ok (fence h r)"
proof -
  have "fresh (fence h r) c" if c: "hb_conns h w = Some c" "in_room (cn_phase c)" "hb_revoked (fence h r) w = None" for w c
  proof -
    have listed: "(w, cn_user c, cn_role c) \<in> set (room_list h (cn_session c))" by (rule rooms_okD(2) [OF rooms c(1,2)])
    have "hb_revoked h w = None"
      using c(3) by (auto simp: fence_def reauthenticate_member_connections_def revoke_member_connections_def
          invalidate_member_connections_def close_session_connections_def revoke_all_def close_connections_def Let_def
          split: http_op.splits if_splits)
    then have "fresh h c" using ok c unfolding audience_ok_def by blast
    then show ?thesis using listed c(3)
      by (cases "hr_op r")
        (force simp: fence_def reauthenticate_member_connections_def revoke_member_connections_def fresh_def
          invalidate_member_connections_def close_session_connections_def revoke_all_def close_connections_def Let_def
          room_list_def room_sockets_def split: if_splits)+
  qed
  then show ?thesis by (simp add: audience_ok_def)
qed

definition hub_ok_audience :: "'d hub \<Rightarrow> bool" where
  "hub_ok_audience h \<longleftrightarrow> hub_ok h \<and> audience_ok h"

lemma audience_hub_step:
  assumes "hub_ok_audience h"
  shows "hub_ok_audience (hub_step E h ev)"
proof -
  have hub: "hub_ok h" and ok: "audience_ok h" using assms by (simp_all add: hub_ok_audience_def)
  then have auth: "hub_auth h" and rooms: "rooms_ok h" by (simp_all add: hub_ok_def)
  have "audience_ok (hub_step E h ev)"
  proof (cases ev)
    case (Ws_continue w now saved_now)
    have "audience_ok (ws_continue E now saved_now h w c)" if c: "hb_conns h w = Some c" for c
    proof (cases "knows_role (cn_phase c)")
      case True
      from audience_ok_step [OF ok c ws_continue_moved [OF c hub_authD(1) [OF auth c] True] ws_continue_audience [OF auth c]]
      show ?thesis .
    next
      case False
      with ok c show ?thesis
        by (cases "cn_phase c"; elim audience_ok_cong)
          (auto simp: ws_continue_def auth_user_def auth_session_def auth_member_def reject_def close_connections_def finish_def
            set_phase_def split: option.splits if_splits)
    qed
    with Ws_continue ok show ?thesis by (simp split: option.split)
  next
    case (Ws_error w)
    have "audience_ok (ws_error h w c)" if c: "hb_conns h w = Some c" for c
      by (rule audience_ok_step [OF ok c ws_error_moved [OF c hub_authD(1) [OF auth c]] ws_error_audience [OF c]])
    with Ws_error ok show ?thesis by (simp split: option.split)
  next
    case (Ws_message w msg now)
    have "audience_ok (ws_receive E now h w c msg)" if c: "hb_conns h w = Some c" "cn_phase c = Receiving" for c
    proof -
      have "audience_step h w c (ws_receive E now h w c msg)"
        by (rule audience_in_room) (use c step_receive [of h E now w c msg] in \<open>auto elim: sends_mono\<close>)
      moreover have "ws_moved h w c (ws_receive E now h w c msg)"
        by (rule moved_receive [OF c(1)]) (use registered_stamp [OF hub_authD(1) [OF auth c(1)]] c(2) in simp)
      ultimately show ?thesis by (intro audience_ok_step [OF ok c(1)])
    qed
    with Ws_message ok show ?thesis by (simp split: option.split)
  next
    case (Http_continue i now)
    have "audience_ok (http_continue E now h i r)" if "hb_requests h i = Some r" for r
    proof (cases "hr_phase r = H_committed")
      case True
      have "audience_ok (set_request (fence h r) i r H_closing)"
        by (rule audience_ok_cong [OF fence_audience [OF rooms ok]]) simp_all
      with True show ?thesis by (simp add: http_continue_def)
    qed (use unseen_ok [OF ok http_unseen(1)] in blast)
    with Http_continue ok show ?thesis by (simp split: option.split)
  next
    case (Http_error i)
    have "audience_ok (http_error h i r)" for r
      using unseen_ok [OF ok http_unseen(2)] ok by (cases "hr_phase r = H_committed") (simp_all add: http_error_def)
    with Http_error ok show ?thesis by (simp split: option.split)
  next
    case (Refresh_error i now)
    with unseen_ok [OF ok http_lost_unseen] ok show ?thesis by (simp split: option.split)
  next
    case (Ws_open w token raw)
    have "audience_ok (ws_open E h w token raw)"
      by (rule audience_ok_cong [OF ok])
        (auto simp: ws_open_def authenticate_start_def reject_def finish_def close_connections_def
          split: sum.splits option.splits if_splits)
    with Ws_open ok show ?thesis by simp
  next
    case (Http_open i uid op sid)
    have "audience_ok (http_open h i uid op sid)"
      by (rule audience_ok_cong [OF ok]) (auto simp: http_open_def Let_def split: option.splits sum.splits if_splits)
    with Http_open ok show ?thesis by simp
  next
    case (Database op)
    have "audience_ok (h\<lparr>hb_db := db\<rparr>)" for db by (rule audience_ok_cong [OF ok]) simp_all
    with Database ok show ?thesis by simp
  next
    case (Storage dev)
    have "audience_ok (call_docs E h dev)" by (rule audience_ok_cong [OF ok]) simp_all
    with Storage ok show ?thesis by simp
  qed
  with hub.step_inv [OF hub, of E ev] show ?thesis by (simp add: hub_ok_audience_def)
qed

interpretation audience: invariant_machine "hub_step E" hub_ok_audience for E :: "'d hub_env"
  by unfold_locales (rule audience_hub_step)

lemma audience_new: "hub_ok_audience (new_hub db (new_manager redis database))"
  using hub_ok_new [of db redis database] by (simp add: hub_ok_audience_def audience_ok_def) (simp add: new_hub_def)


section \<open>Who receives what\<close>

definition greeting :: "'d hub \<Rightarrow> hub_event \<Rightarrow> ws \<Rightarrow> bool" where
  "greeting h ev w \<longleftrightarrow>
     (case (ev, hb_conns h w) of
        (Ws_continue w' _ _, Some c) \<Rightarrow> w' = w \<and> (cn_phase c = Greet_status \<or> cn_phase c = Greet_awareness)
      | _ \<Rightarrow> False)"

lemma sends_refl [simp]: "sends_to P h h"
  by (rule sends_same) simp

lemma fence_sent [simp]: "hb_sent (fence h r) = hb_sent h"
  by (simp add: fence_def reauthenticate_member_connections_def revoke_member_connections_def
      invalidate_member_connections_def close_session_connections_def revoke_all_def close_connections_def Let_def
      split: http_op.split)

lemma step_sends:
  assumes auth: "hub_auth h"
  shows "sends_to (\<lambda>t. hb_revoked h t = None \<or> greeting h ev t) h (hub_step E h ev)"
proof (cases ev)
  case (Ws_continue w now saved_now)
  show ?thesis
  proof (cases "hb_conns h w")
    case (Some c)
    have "sends_to (\<lambda>t. hb_revoked h t = None \<or> t = w \<and> (cn_phase c = Greet_status \<or> cn_phase c = Greet_awareness)) h
        (ws_continue E now saved_now h w c)"
      using ws_continue_audience [OF auth Some, of E now saved_now] unfolding audience_step_def by blast
    with Some Ws_continue show ?thesis
      by (auto simp: greeting_def elim!: sends_mono)
  qed (use Ws_continue in \<open>simp\<close>)
next
  case (Ws_error w)
  have "sends_to P h (ws_error h w c)" for P c
    by (rule sends_same) (simp add: ws_error_def split: ws_phase.split)
  with Ws_error show ?thesis by (simp split: option.split)
next
  case (Ws_message w msg now)
  have "sends_to (\<lambda>t. hb_revoked h t = None \<or> greeting h ev t) h (ws_receive E now h w c msg)" for c
    using step_receive [of h E now w c msg] by (auto elim: sends_mono)
  with Ws_message show ?thesis by (simp split: option.split)
next
  case (Http_continue i now)
  have "sends_to (\<lambda>t. hb_revoked h t = None \<or> greeting h ev t) h (http_continue E now h i r)" for r
  proof (cases "hr_phase r = H_committed")
    case True
    then show ?thesis by (auto simp: http_continue_def intro: sends_same)
  next
    case False
    from http_unseen(1) [OF this, of h E now i] show ?thesis unfolding unseen_def by (auto elim: sends_mono)
  qed
  with Http_continue show ?thesis by (simp split: option.split)
next
  case (Http_error i)
  have "sends_to P h (http_error h i r)" for P r
    by (rule sends_same) (simp add: http_error_def split: http_phase.split)
  with Http_error show ?thesis by (simp split: option.split)
next
  case (Refresh_error i now)
  have "sends_to (\<lambda>t. hb_revoked h t = None \<or> greeting h ev t) h (http_lost now h i r)" for r
    using http_lost_unseen [of h now i r] unfolding unseen_def by (auto elim: sends_mono)
  with Refresh_error show ?thesis by (simp split: option.split)
next
  case (Ws_open w token raw)
  then show ?thesis by (auto simp: ws_open_def intro: sends_same split: sum.split)
next
  case (Http_open i uid op sid)
  then show ?thesis
    by (auto simp: http_open_def Let_def intro!: sends_same split: option.split sum.split)
qed (auto intro!: sends_same)

end
