(* ===== verification/Printing.thy ===== *)
theory Printing
  imports Protocol
begin

text \<open>
  \<open>json.dumps\<close> and \<open>json.loads\<close> together (\<open>Json.thy\<close>): a printed value is ASCII text, so it always encodes
  as a string of the wire format, and reading it gives the value back, with the keys of objects
  in the order they were printed. Every frame and every published execution event the server
  makes from a dict goes this way.
\<close>

section \<open>JSON text is ASCII\<close>

abbreviation ascii :: "pystr \<Rightarrow> bool" where
  "ascii s \<equiv> \<forall>c\<in>set s. c < 128"

lemma hex_digit_ascii: "hex_digit (n mod 16) < 128"
  by (simp add: hex_digit_def) linarith

lemma u_escape_ascii: "ascii (u_escape c)"
  by (simp add: u_escape_def hex_digit_ascii)

lemma escape_char_ascii: "ascii (escape_char c)"
  using u_escape_ascii by (auto simp: escape_char_def)

lemma quote_ascii: "ascii (quote s)"
  using escape_char_ascii by (auto simp: quote_def)

lemma nat_digits_ascii: "ascii (nat_digits n)"
proof (induction n rule: nat_digits.induct)
  case (1 n)
  then show ?case using mod_less_divisor [of 10 n] by (subst nat_digits.simps) auto
qed

lemma join_ascii: "ascii sep \<Longrightarrow> (\<And>x. x \<in> set xs \<Longrightarrow> ascii x) \<Longrightarrow> ascii (join sep xs)"
  by (induction sep xs rule: join.induct) auto

text \<open>What can be printed and read again within \<open>d\<close> levels of containers: no floats, no lone surrogates,
  no integer that CPython refuses to convert, and keys of an object that differ.\<close>
fun json_fits :: "nat \<Rightarrow> json \<Rightarrow> bool" where
  "json_fits d (JInt i) \<longleftrightarrow> length (nat_digits (nat \<bar>i\<bar>)) \<le> max_int_digits"
| "json_fits d (JFloat r) \<longleftrightarrow> False"
| "json_fits d (JStr s) \<longleftrightarrow> list_all scalar s"
| "json_fits d (JArr vs) \<longleftrightarrow> 0 < d \<and> (\<forall>v\<in>set vs. json_fits (d - 1) v)"
| "json_fits d (JObj kvs) \<longleftrightarrow> 0 < d \<and> distinct (map fst kvs) \<and>
     (\<forall>kv\<in>set kvs. list_all scalar (fst kv) \<and> json_fits (d - 1) (snd kv))"
| "json_fits d _ \<longleftrightarrow> True"

text \<open>The value that is read back: objects in the order they were printed.\<close>
fun json_sorted :: "bool \<Rightarrow> json \<Rightarrow> json" where
  "json_sorted srt (JArr vs) = JArr (map (json_sorted srt) vs)"
| "json_sorted srt (JObj kvs) =
     JObj (let items = map (\<lambda>(k, v). (k, json_sorted srt v)) kvs in if srt then sort_key fst items else items)"
| "json_sorted srt JNull = JNull"
| "json_sorted srt (JBool b) = JBool b"
| "json_sorted srt (JInt i) = JInt i"
| "json_sorted srt (JFloat r) = JFloat r"
| "json_sorted srt (JStr s) = JStr s"

lemma sort_key_map: "map g (sort_key (\<lambda>x. f (g x)) xs) = sort_key f (map g xs)"
proof -
  have i: "map g (insort_key (\<lambda>x. f (g x)) x xs) = insort_key f (g x) (map g xs)" for x xs
    by (induction xs) auto
  show ?thesis by (induction xs) (simp_all add: i)
qed

lemma sort_pairs: "sort_key fst (map (\<lambda>(k, v). (k, g v)) kvs) = map (\<lambda>(k, v). (k, g v)) (sort_key fst kvs)"
  using sort_key_map [of "\<lambda>(k, v). (k, g v)" fst kvs] by (simp add: split_def)

lemma dumps_obj:
  "json_dumps isep ksep srt (JObj kvs) = 123 # join isep (map (\<lambda>(k, v). quote k @ ksep @ json_dumps isep ksep srt v)
     (if srt then sort_key fst kvs else kvs)) @ [125]"
  by (simp add: sort_pairs, simp add: comp_def split_def)

lemma sorted_obj:
  "json_sorted srt (JObj kvs) = JObj (map (\<lambda>(k, v). (k, json_sorted srt v)) (if srt then sort_key fst kvs else kvs))"
  by (simp add: sort_pairs)

declare json_dumps.simps(7) [simp del] json_sorted.simps(2) [simp del]

lemma dumps_ascii: "json_fits d v \<Longrightarrow> ascii isep \<Longrightarrow> ascii ksep \<Longrightarrow> ascii (json_dumps isep ksep srt v)"
proof (induction isep ksep srt v arbitrary: d rule: json_dumps.induct)
  case (6 isep ksep srt vs)
  then have "ascii (join isep (map (json_dumps isep ksep srt) vs))" by (intro join_ascii) fastforce+
  then show ?case by simp
next
  case (7 isep ksep srt kvs)
  have "ascii (quote k @ ksep @ json_dumps isep ksep srt v)" if "(k, v) \<in> set kvs" for k v
    using 7 that quote_ascii [of k] by fastforce
  then have "ascii (join isep (map (\<lambda>(k, v). quote k @ ksep @ json_dumps isep ksep srt v) (if srt then sort_key fst kvs else kvs)))"
    using 7(3) by (intro join_ascii) (auto split: if_splits)
  then show ?case unfolding dumps_obj by simp
qed (use nat_digits_ascii quote_ascii in \<open>auto simp: int_digits_def py_def\<close>)

section \<open>Reading it back\<close>

text \<open>A text that does not continue a number.\<close>
definition delimits :: "pystr \<Rightarrow> bool" where
  "delimits r = (case r of [] \<Rightarrow> True | c # _ \<Rightarrow> \<not> is_digit c \<and> c \<noteq> 46 \<and> c \<noteq> 101 \<and> c \<noteq> 69)"

lemma hex_value_digit [simp]: "hex_value (hex_digit (n mod 16)) = Some (n mod 16)"
  by (auto simp: hex_value_def hex_digit_def)

lemma hex4_u_escape:
  assumes "c < 0x10000"
  shows "hex4 (drop 2 (u_escape c) @ r) = Some (c, r)"
proof -
  have "c div 4096 mod 16 * 4096 + c div 256 mod 16 * 256 + c div 16 mod 16 * 16 + c mod 16 = c"
  proof -
    have "c div 256 = c div 16 div 16" "c div 4096 = c div 256 div 16" by (simp_all add: div_mult2_eq [symmetric])
    then have "c div 4096 * 16 + c div 256 mod 16 = c div 256" "c div 256 * 16 + c div 16 mod 16 = c div 16"
      by (metis div_mult_mod_eq)+
    moreover have "c div 16 * 16 + c mod 16 = c" "c div 4096 mod 16 = c div 4096" using assms by simp_all
    ultimately show ?thesis by linarith
  qed
  then show ?thesis by (simp add: u_escape_def del: mod_less)
qed

lemma scan_string_char:
  assumes "scalar c"
  shows "scan_string (escape_char c @ r) = rbind (scan_string r) (\<lambda>(s, t). Inr (c # s, t))"
proof -
  consider "c \<in> {34, 92, 10, 13, 9, 12, 8}" | "c \<notin> {34, 92}" "32 \<le> c" "c \<le> 126"
    | "escape_char c = u_escape c" "c < 0x10000" "\<not> high_surrogate c"
    | "escape_char c = u_escape (0xD800 + (c - 0x10000) div 1024) @ u_escape (0xDC00 + (c - 0x10000) mod 1024)" "0x10000 \<le> c"
  proof -
    have "c \<in> {34, 92, 10, 13, 9, 12, 8} \<or> c \<notin> {34, 92} \<and> 32 \<le> c \<and> c \<le> 126 \<or>
       escape_char c = u_escape c \<and> c < 0x10000 \<and> \<not> high_surrogate c \<or>
       escape_char c = u_escape (0xD800 + (c - 0x10000) div 1024) @ u_escape (0xDC00 + (c - 0x10000) mod 1024) \<and> 0x10000 \<le> c"
      using assms by (simp add: escape_char_def scalar_def high_surrogate_def) linarith
    then show ?thesis using that by blast
  qed
  then show ?thesis
  proof cases
    case 1
    then show ?thesis by (subst scan_string.simps) (auto simp: escape_char_def unescape_def)
  next
    case 2
    then show ?thesis by (subst scan_string.simps) (auto simp: escape_char_def)
  next
    case 3
    then show ?thesis using hex4_u_escape [of c r] by (subst scan_string.simps) (simp add: u_escape_def)
  next
    case 4
    define h l where hl: "h = 0xD800 + (c - 0x10000) div 1024" "l = 0xDC00 + (c - 0x10000) mod 1024"
    have c: "c \<le> 0x10FFFF" using assms by (simp add: scalar_def)
    have s: "high_surrogate h" "low_surrogate l" "h < 0x10000" "l < 0x10000" "join_surrogates h l = c"
      using 4(2) c by (simp_all add: high_surrogate_def low_surrogate_def join_surrogates_def hl)
    have esc: "escape_char c = 92 # 117 # drop 2 (u_escape h) @ 92 # 117 # drop 2 (u_escape l)"
      using 4(1) by (simp add: hl [symmetric] u_escape_def)
    show ?thesis
      unfolding esc using hex4_u_escape [of h "92 # 117 # drop 2 (u_escape l) @ r"] hex4_u_escape [of l r] s
      by (subst scan_string.simps) simp
  qed
qed

lemma scan_string_quote: "list_all scalar s \<Longrightarrow> scan_string (concat (map escape_char s) @ 34 # r) = Inr (s, r)"
proof (induction s)
  case Nil
  show ?case by (subst scan_string.simps) simp
qed (simp add: scan_string_char)

lemma nat_digits_ne: "nat_digits n \<noteq> []" by (subst nat_digits.simps) simp

lemma nat_digits_all: "list_all is_digit (nat_digits n)"
proof (induction n rule: nat_digits.induct)
  case (1 n)
  then show ?case by (subst nat_digits.simps) (auto simp: is_digit_def [abs_def])
qed

lemma nat_digits_value: "digits_value (nat_digits n) = int n"
proof (induction n rule: nat_digits.induct)
  case (1 n)
  then show ?case by (subst nat_digits.simps) (auto simp: digits_value_def zdiv_int zmod_int)
qed

lemma nat_digits_zero: "hd (nat_digits n) = 48 \<Longrightarrow> n = 0"
proof (induction n rule: nat_digits.induct)
  case (1 n)
  then show ?case using nat_digits_ne [of "n div 10"] by (subst (asm) (2) nat_digits.simps) (auto split: if_splits)
qed

lemma scan_int:
  assumes "length (nat_digits (nat \<bar>i\<bar>)) \<le> max_int_digits" "delimits r"
  shows "scan_number J (int_digits i @ r) = Inr (JInt i, r)"
proof -
  let ?n = "nat \<bar>i\<bar>" let ?ds = "nat_digits ?n"
  obtain d ds where ds: "?ds = d # ds" using nat_digits_ne by (cases ?ds) auto
  have dig: "is_digit d" "list_all is_digit ds" using nat_digits_all [of ?n] by (simp_all add: ds)
  have r: "takeWhile is_digit r = []" "dropWhile is_digit r = r" "scan_frac r = ([], r)" "scan_exp r = ([], r)"
    using assms(2) by (auto simp: delimits_def scan_frac_def scan_exp_def split: list.splits)
  have tw: "takeWhile is_digit (ds @ r) = ds" "dropWhile is_digit (ds @ r) = r"
    using dig(2) r by (simp_all add: list_all_iff takeWhile_append2 dropWhile_append2)
  have zero: "d = 48 \<Longrightarrow> ds = []" using nat_digits_zero [of ?n] ds by (auto simp: nat_digits.simps [of 0])
  have "digits_value (d # ds) = \<bar>i\<bar>" using nat_digits_value [of ?n] ds by simp
  then show ?thesis
    using dig assms(1) r tw zero ds
    by (auto simp: scan_number_def int_digits_def Let_def is_digit_def abs_if split: if_splits)
qed

text \<open>The first character decides: a printed value starts with none of white space, brackets that close or a colon.\<close>
lemma dumps_first:
  assumes "json_fits d v"
  obtains c t where "json_dumps isep ksep srt v = c # t" "\<not> is_ws c" "c \<noteq> 93" "c \<noteq> 125"
proof (cases v)
  case (JInt i)
  obtain k ks where "nat_digits (nat \<bar>i\<bar>) = k # ks" "is_digit k"
    using nat_digits_ne [of "nat \<bar>i\<bar>"] nat_digits_all [of "nat \<bar>i\<bar>"] by (cases "nat_digits (nat \<bar>i\<bar>)") auto
  then have "int_digits i = 45 # k # ks \<or> int_digits i = k # ks" by (auto simp: int_digits_def)
  then show ?thesis using \<open>is_digit k\<close> JInt that by (auto simp: is_ws_def is_digit_def)
next
  case (JBool x)
  then show ?thesis using that by (cases x) (simp_all add: is_ws_def py_def)
qed (use that assms in \<open>simp_all add: is_ws_def py_def quote_def dumps_obj\<close>)

lemma skip_ws_first: "\<not> is_ws c \<Longrightarrow> skip_ws (c # t) = c # t"
  by (simp add: skip_ws_def)

lemma skip_ws_spaces: "list_all is_ws w \<Longrightarrow> skip_ws (w @ r) = skip_ws r"
  by (induction w) (simp_all add: skip_ws_def)

lemma skip_ws_dumps: "json_fits d v \<Longrightarrow> list_all is_ws w \<Longrightarrow> skip_ws (w @ json_dumps isep ksep srt v @ r) = json_dumps isep ksep srt v @ r"
  by (rule dumps_first [of d v isep ksep srt]) (simp_all add: skip_ws_spaces skip_ws_first)

lemma scan_with_int:
  assumes "json_fits d (JInt i)" "delimits r"
  shows "scan_with J b nested (int_digits i @ r) = Inr (JInt i, r)"
proof -
  obtain k ks where "nat_digits (nat \<bar>i\<bar>) = k # ks" "is_digit k"
    using nat_digits_ne [of "nat \<bar>i\<bar>"] nat_digits_all [of "nat \<bar>i\<bar>"] by (cases "nat_digits (nat \<bar>i\<bar>)") auto
  then have "int_digits i = 45 # k # ks \<or> int_digits i = k # ks" by (auto simp: int_digits_def)
  then show ?thesis using scan_int [of i r J] assms \<open>is_digit k\<close>
    by (auto simp: scan_with_def strip_prefix_def py_def is_digit_def)
qed

lemma scan_with_str: "list_all scalar s \<Longrightarrow> scan_with J b nested (quote s @ r) = Inr (JStr s, r)"
  using scan_string_quote [of s r] by (simp add: scan_with_def quote_def)

lemma array_items_join:
  assumes "vs \<noteq> []" "length vs \<le> n" "list_all is_ws w"
    and "\<And>v r. v \<in> set vs \<Longrightarrow> delimits r \<Longrightarrow> scan (p v @ r) = Inr (g v, r)"
    and "\<And>v r. v \<in> set vs \<Longrightarrow> skip_ws (w @ p v @ r) = p v @ r"
  shows "array_items scan n (join (44 # w) (map p vs) @ 93 # r) = Inr (map g vs, r)"
  using assms
proof (induction vs arbitrary: n)
  case (Cons v vs)
  from Cons.prems(2) obtain n' where n: "n = Suc n'" "length vs \<le> n'" by (cases n) auto
  show ?case
  proof (cases vs)
    case Nil
    with Cons.prems(4) [of v "93 # r"] n show ?thesis by (simp add: delimits_def is_digit_def skip_ws_def is_ws_def)
  next
    case (Cons v' vs')
    let ?rest = "join (44 # w) (map p vs) @ 93 # r"
    have "\<exists>r'. ?rest = p v' @ r'" using Cons by (cases vs') auto
    then have "skip_ws (w @ ?rest) = ?rest" using Cons.prems(5) [of v'] Cons by auto
    with Cons.prems(4) [of v "44 # w @ ?rest"] Cons.IH [of n'] Cons.prems n Cons show ?thesis
      by (simp add: delimits_def is_digit_def skip_ws_def is_ws_def)
  qed
qed simp

lemma object_items_join:
  assumes "kvs \<noteq> []" "length kvs \<le> n" "list_all is_ws w" "list_all is_ws w'"
    and "\<And>k v r. (k, v) \<in> set kvs \<Longrightarrow> delimits r \<Longrightarrow> scan (p v @ r) = Inr (g v, r)"
    and "\<And>k v. (k, v) \<in> set kvs \<Longrightarrow> list_all scalar k"
    and "\<And>k v r. (k, v) \<in> set kvs \<Longrightarrow> skip_ws (w' @ p v @ r) = p v @ r"
  shows "object_items scan n (join (44 # w) (map (\<lambda>(k, v). quote k @ (58 # w') @ p v) kvs) @ 125 # r)
    = Inr (map (\<lambda>(k, v). (k, g v)) kvs, r)"
  using assms
proof (induction kvs arbitrary: n)
  case (Cons kv kvs)
  obtain k v where kv: "kv = (k, v)" by fastforce
  from Cons.prems(2) obtain n' where n: "n = Suc n'" "length kvs \<le> n'" by (cases n) auto
  have str: "scan_string (concat (map escape_char k) @ 34 # r) = Inr (k, r)" for r
    using Cons.prems(6) [of k v] kv by (intro scan_string_quote) auto
  have head: "object_items scan (Suc n') (quote k @ (58 # w') @ p v @ t) =
     (case skip_ws t of [] \<Rightarrow> Inl Json_value_error
              | c # s \<Rightarrow>
                if c = 125 then Inr ([(k, g v)], s)
                else if c = 44 then
                  rbind (object_items scan n' (skip_ws s)) (\<lambda>(kvs, s). Inr ((k, g v) # kvs, s))
                else Inl Json_value_error)" if "delimits t" for t
    using Cons.prems(5) [of k v t] Cons.prems(7) [of k v t] str kv that
    by (simp add: quote_def skip_ws_first is_ws_def)
  show ?case
  proof (cases kvs)
    case Nil
    with head [of "125 # r"] n kv show ?thesis by (simp add: delimits_def is_digit_def skip_ws_def is_ws_def)
  next
    case (Cons kv' kvs')
    let ?rest = "join (44 # w) (map (\<lambda>(k, v). quote k @ (58 # w') @ p v) kvs) @ 125 # r"
    have "\<exists>r'. ?rest = 34 # r'" using Cons by (cases kvs') (auto simp: quote_def split: prod.split)
    moreover have "\<not> is_ws 34" by (simp add: is_ws_def)
    ultimately have "skip_ws (w @ ?rest) = ?rest" using Cons.prems(3) by (metis skip_ws_spaces skip_ws_first)
    moreover have "object_items scan n' ?rest = Inr (map (\<lambda>(k, v). (k, g v)) kvs, r)"
      by (rule Cons.IH) (use Cons Cons.prems(3,4) n in \<open>auto intro: Cons.prems(5-7)\<close>)
    moreover have "join (44 # w) (map (\<lambda>(k, v). quote k @ (58 # w') @ p v) (kv # kvs)) @ 125 # r
        = quote k @ (58 # w') @ p v @ 44 # w @ ?rest"
      using Cons kv by simp
    ultimately show ?thesis using head [of "44 # w @ ?rest"] n kv
      by (simp add: delimits_def is_digit_def skip_ws_first is_ws_def del: join.simps)
  qed
qed simp

lemma dict_of_distinct:
  assumes "distinct (map fst kvs)"
  shows "dict_of kvs = kvs"
proof -
  have "foldl (\<lambda>d (k, v). dset k v d) acc kvs = acc @ kvs" if "distinct (map fst (acc @ kvs))" for acc kvs
    using that
  proof (induction kvs arbitrary: acc)
    case (Cons kv kvs)
    have "dset (fst kv) (snd kv) acc = acc @ [kv]" using Cons.prems by (induction acc) auto
    with Cons show ?case by (simp add: split_def)
  qed simp
  from this [of "[]" kvs] assms show ?thesis by (simp add: dict_of_def)
qed

lemma length_join: "(\<And>x. x \<in> set xs \<Longrightarrow> x \<noteq> []) \<Longrightarrow> length xs \<le> length (join sep xs)"
proof (induction sep xs rule: join.induct)
  case (3 sep x y ys)
  then have "x \<noteq> []" "length (y # ys) \<le> length (join sep (y # ys))" by auto
  then show ?case by (cases x) auto
qed (auto simp: Suc_le_eq)

lemma dumps_ne: "json_fits d v \<Longrightarrow> json_dumps isep ksep srt v \<noteq> []"
  by (rule dumps_first [of d v isep ksep srt]) auto

lemma scan_once_with: "scan_once J b d = scan_with J b (if d = 0 then None else Some (scan_once J b (d - 1)))"
  by (cases d) simp_all

lemma scan_once_dumps:
  assumes "json_fits d v" "delimits r" "list_all is_ws w" "list_all is_ws w'"
  shows "scan_once J b d (json_dumps (44 # w) (58 # w') srt v @ r) = Inr (json_sorted srt v, r)"
  using assms(1,2)
proof (induction v arbitrary: d r rule: json_sorted.induct [of _ srt, consumes 0])
  case (1 srt vs)
  let ?p = "json_dumps (44 # w) (58 # w') srt"
  from 1(2) have d: "0 < d" and fits: "\<And>v. v \<in> set vs \<Longrightarrow> json_fits (d - 1) v" by auto
  show ?case
  proof (cases vs)
    case Nil
    with d show ?thesis by (simp add: scan_once_with scan_with_def skip_ws_first is_ws_def)
  next
    case (Cons v vs')
    let ?t = "join (44 # w) (map ?p vs) @ 93 # r"
    obtain c t where c: "?t = c # t" "\<not> is_ws c" "c \<noteq> 93"
      using fits [of v] Cons by (cases vs') (auto elim: dumps_first [where isep = "44 # w" and ksep = "58 # w'" and srt = srt and v = v])
    have "length vs \<le> length ?t"
    proof -
      have "length (map ?p vs) \<le> length (join (44 # w) (map ?p vs))"
        by (rule length_join) (use dumps_ne [OF fits] in auto)
      then show ?thesis by simp
    qed
    then have "array_items (scan_once J b (d - 1)) (length ?t) ?t = Inr (map (json_sorted srt) vs, r)"
      by (intro array_items_join 1(1) fits skip_ws_dumps [OF fits] assms(3)) (use Cons in auto)
    with c d show ?thesis by (simp add: scan_once_with scan_with_def skip_ws_first)
  qed
next
  case (2 srt kvs)
  define items where "items = (if srt then sort_key fst kvs else kvs)"
  let ?p = "json_dumps (44 # w) (58 # w') srt"
  let ?t = "join (44 # w) (map (\<lambda>(k, v). quote k @ (58 # w') @ ?p v) items) @ 125 # r"
  have items: "set items = set kvs" "length items = length kvs" by (simp_all add: items_def)
  have keys: "map fst items = (if srt then sort (map fst kvs) else map fst kvs)"
    using sort_key_map [of fst "\<lambda>x. x" kvs] by (simp add: items_def)
  from 2(2) have d: "0 < d" and dist: "distinct (map fst items)"
    and fits: "\<And>k v. (k, v) \<in> set items \<Longrightarrow> list_all scalar k \<and> json_fits (d - 1) v"
    unfolding keys items by auto
  have shape: "?p (JObj kvs) @ r = 123 # ?t" "json_sorted srt (JObj kvs) = JObj (map (\<lambda>(k, v). (k, json_sorted srt v)) items)"
    by (simp_all add: dumps_obj sorted_obj items_def)
  show ?case
  proof (cases items)
    case Nil
    with d shape show ?thesis by (simp add: scan_once_with scan_with_def skip_ws_first is_ws_def)
  next
    case (Cons kv items')
    obtain t where c: "?t = 34 # t" using Cons by (cases kv; cases items') (simp_all add: quote_def)
    have ws: "\<not> is_ws 34" by (simp add: is_ws_def)
    have "length items \<le> length ?t"
      using length_join [of "map (\<lambda>(k, v). quote k @ (58 # w') @ ?p v) items" "44 # w"] by (fastforce simp: quote_def)
    then have "object_items (scan_once J b (d - 1)) (length ?t) ?t = Inr (map (\<lambda>(k, v). (k, json_sorted srt v)) items, r)"
    proof (intro object_items_join)
      fix k v r
      assume kv: "(k, v) \<in> set items"
      note f = fits [OF kv]
      show "list_all scalar k" using f by simp
      show "skip_ws (w' @ ?p v @ r) = ?p v @ r" using f assms(4) by (simp add: skip_ws_dumps [of "d - 1"])
      show "delimits r \<Longrightarrow> scan_once J b (d - 1) (?p v @ r) = Inr (json_sorted srt v, r)"
        using 2(1) [of "(k, v)" k v "d - 1" r] kv f items by auto
    qed (use Cons assms(3,4) in auto)
    moreover have "distinct (map fst (map (\<lambda>(k, v). (k, json_sorted srt v)) items))"
      using dist by (simp add: comp_def split_def)
    ultimately show ?thesis unfolding shape c using d
      by (simp add: scan_once_with [of J b d] scan_with_def skip_ws_first [OF ws] dict_of_distinct del: object_items.simps list.size)
  qed
next
  case (3 srt)
  show ?case by (subst scan_once_with) (simp add: scan_with_def strip_prefix_def py_def)
next
  case (4 srt x)
  show ?case by (subst scan_once_with) (simp add: scan_with_def strip_prefix_def py_def)
next
  case (5 srt i)
  then show ?case by (subst scan_once_with) (simp add: scan_with_int)
next
  case (7 srt s)
  then show ?case by (subst scan_once_with) (simp add: scan_with_str)
qed simp

text \<open>JSON round trip: reading what was printed, with any white space behind the separators and with
  sorted keys or not, gives the value back (objects in printed order). The value may hold no
  float, no lone surrogate, no integer CPython refuses to convert, no repeated key, and nest no
  deeper than the interpreter reads.\<close>

lemma json_loads_dumps:
  assumes "json_fits (json_depth J) v" "list_all is_ws w" "list_all is_ws w'"
  shows "json_loads J b (json_dumps (44 # w) (58 # w') srt v) = Inr (json_sorted srt v)"
proof -
  obtain c t where c: "json_dumps (44 # w) (58 # w') srt v = c # t" "\<not> is_ws c" using dumps_first [OF assms(1)] by metis
  moreover have "ascii (json_dumps (44 # w) (58 # w') srt v)"
    by (rule dumps_ascii [OF assms(1)]) (use assms(2,3) in \<open>auto simp: list_all_iff is_ws_def\<close>)
  then have "c < 128" unfolding c by simp
  moreover have "scan_once J b (json_depth J) (json_dumps (44 # w) (58 # w') srt v) = Inr (json_sorted srt v, [])"
    using scan_once_dumps [OF assms(1) _ assms(2,3), of "[]" J b srt] unfolding delimits_def by (simp only: append_Nil2 list.case)
  ultimately show ?thesis
    by (simp only: json_loads_def skip_ws_first) (simp add: skip_ws_def)
qed

lemma json_loads_dumps_example:
  "json_loads sample_env True (json_dumps (py '', '') (py '': '') True
     (JObj [(py ''b'', JArr [JBool True, JNull]), (py ''a'', JInt (- 12))]))
   = Inr (JObj [(py ''a'', JInt (- 12)), (py ''b'', JArr [JBool True, JNull])])"
  using json_loads_dumps [of sample_env "JObj [(py ''b'', JArr [JBool True, JNull]), (py ''a'', JInt (- 12))]" "[32]" "[32]" True True]
  by (simp add: sample_env_def scalar_def is_ws_def py_def max_int_digits_def nat_digits.simps sorted_obj)

text \<open>A printed value is a string of the wire format: it always encodes.\<close>
lemma utf8_ascii:
  assumes "ascii s"
  shows "utf8_encode s = Some (map of_nat s)"
proof -
  have "utf8_encode_nat s = Some s" using assms by (induction s) (auto simp: utf8_char_def)
  then show ?thesis by (simp add: utf8_encode_def)
qed

lemma encode_ascii_string:
  assumes "ascii s" "int (length s) \<le> MAX_SAFE_INTEGER"
  obtains n where "encode_var_string s = Inr (n @ map of_nat s)"
  using assms by (auto simp: encode_var_string_def utf8_ascii encode_var_bytes_def encode_var_uint_def)

end
