(* ===== verification/Guarantees.thy ===== *)
theory Guarantees
  imports Audience Printing
begin

text \<open>
  What the hub as a whole guarantees, from the invariants of \<open>Rooms\<close>, \<open>Collaboration\<close> and \<open>Audience\<close>: accepted
  edits are never lost, frames reach current members, participants have a live document. A
  concrete run (a user connects, is greeted, asks for the awareness and sends an edit) is
  evaluated step by step and shows that the hypotheses can hold.
\<close>

section \<open>Properties of the whole hub\<close>

text \<open>C2: An edit that the hub accepts from a connection is never lost, whatever connections, requests
  and storage operations do afterwards, as long as no read of a checkpoint fails while a document is
  loaded and no checkpoint expires in Redis (\<open>hub_safe_run\<close>; what happens otherwise is
  \<open>Durability.failed_checkpoint_read_discards\<close> and the documented retention of seven days): its
  content, and everything the session had before, stays recoverable from the live document, the
  checkpoint and the database.\<close>

theorem collaboration_never_loses_edits:
  assumes "crdt_laws (he_crdt E) content items" "stored_by_program (he_crdt E) redis database"
    and "hub_safe_run E (new_hub db (new_manager redis database)) (evs @ Ws_continue w now saved_now # later)"
    and "h = run (hub_step E) (new_hub db (new_manager redis database)) evs"
    and "hb_conns h w = Some c" "cn_phase c = Want_apply u" "accepts E h w c u"
  shows "items u \<union> recoverable content items (hb_docs h) (cn_session c)
    \<subseteq> recoverable content items (hb_docs (run (hub_step E) h (Ws_continue w now saved_now # later))) (cn_session c)"
proof -
  let ?sid = "cn_session c" and ?h = "hub_step E h (Ws_continue w now saved_now)"
  have safe: "hub_safe_run E (new_hub db (new_manager redis database)) evs"
    "hub_safe_run E h (Ws_continue w now saved_now # later)"
    using assms(3,4) by (simp_all add: hub_safe_run_append)
  have dur: "hub_durable E content items h" unfolding assms(4) by (rule hub_durable_run [OF assms(1,2) safe(1)])
  have "items u \<subseteq> recoverable content items (hb_docs ?h) ?sid"
    using apply_update_items [OF assms(1), of "hb_docs h" ?sid u "hb_docs ?h"] assms(7)
    by (simp add: accepted_apply [OF assms(5-7)] accepts_def prod_eq_iff del: hub_step.simps)
  moreover have "hub_durable E content items ?h" "hub_retains content items h ?h"
    using hub_safe_step_ok [OF dur, of "Ws_continue w now saved_now"] safe(2) by (simp_all add: hub_safe_step_def)
  moreover have "hub_retains content items ?h (run (hub_step E) ?h later)"
    using collaboration.run_below [OF calculation(2), of later] run_hub_safe [of E ?h later] safe(2) by simp
  ultimately show ?thesis by (simp add: hub_retains_def retains_def) blast
qed

text \<open>C3: What is said in a room stays in the room: a frame that a step sends to a participant reaches a
  user who at that moment is a member of the active session with exactly the role the
  connection was opened with. The exceptions are the connection's own greeting (saved status
  and awareness), the instant between the commit of a change to this very member or session
  and its fence, while the committing request holds the room lock, and a connection that was open
  when such a request failed behind its commit, so that the fence was left out (\<open>hb_unfenced\<close>,
  written by \<open>http_lost\<close> alone).\<close>

theorem frames_reach_current_members:
  assumes "h = run (hub_step E) (new_hub db (new_manager redis database)) evs"
    and "hb_sent (hub_step E h ev) = hb_sent h @ new" "(w, f) \<in> set new"
    and "hb_conns h w = Some c" "in_room (cn_phase c)"
  shows "greeting h ev w \<or> gap h (cn_session c) (cn_user c) \<or> w \<in> hb_unfenced h \<or>
    active_in (hb_db h) (cn_session c) \<and> role_of (hb_db h) (cn_session c) (cn_user c) = Some (cn_role c)"
proof -
  have "hub_ok_audience h" unfolding assms(1) by (rule audience.run_inv [OF audience_new])
  then have auth: "hub_auth h" and aud: "audience_ok h" by (simp_all add: hub_ok_audience_def hub_ok_def)
  have "hb_revoked h w = None \<or> greeting h ev w"
    using step_sends [OF auth, of ev E] assms(2,3) unfolding sends_to_def by fastforce
  moreover have "active_in (hb_db h) (cn_session c) \<and> role_of (hb_db h) (cn_session c) (cn_user c) = Some (cn_role c)"
    if "hb_revoked h w = None" "\<not> gap h (cn_session c) (cn_user c)" "w \<notin> hb_unfenced h"
  proof -
    have "fresh h c" using aud assms(4,5) that(1) unfolding audience_ok_def by blast
    moreover have "knows_active (cn_phase c)" "knows_role (cn_phase c)" using assms(5) by (cases "cn_phase c"; simp)+
    ultimately show ?thesis
      using hub_authD(1) [OF auth assms(4)] that(2,3) by (auto simp: conn_ok_def right_ok_def)
  qed
  ultimately show ?thesis by blast
qed

text \<open>C4: A participant always edits a loaded document: while a connection is in its receive loop,
  it is listed in its session's room, the session's document is live, and no eviction of it is
  running; an eviction runs only for an empty room and under that room's lock.\<close>

theorem participants_have_live_documents:
  assumes "h = run (hub_step E) (new_hub db (new_manager redis database)) evs"
  shows "(\<forall>w c. hb_conns h w = Some c \<longrightarrow> in_room (cn_phase c) \<longrightarrow>
       (w, cn_user c, cn_role c) \<in> set (room_list h (cn_session c)) \<and>
       dm_docs (hb_docs h) (cn_session c) \<noteq> None \<and> \<not> evict_pending (hb_docs h) (cn_session c)) \<and>
    (\<forall>sid. evict_pending (hb_docs h) sid \<longrightarrow> room_list h sid = [] \<and> hb_locks h sid \<noteq> None)"
proof -
  have hub: "hub_ok h" unfolding assms by (rule hub.run_inv [OF hub_ok_new])
  then have auth: "hub_auth h" and ok: "rooms_ok h" by (simp_all add: hub_ok_def)
  have "hb_locks h sid \<noteq> None" if "evictor h sid" for sid
    using that hub_authD [OF auth] unfolding evictor_def by (fastforce simp: conn_ok_def request_ok_def)
  then show ?thesis using rooms_okD(2,4) [OF ok] in_room_live [OF ok] by fastforce
qed

text \<open>C34: A change of a member or session that fails behind its commit leaves the old access in place: when
  \<open>db.refresh\<close> raises after the commit of a change (or the commit itself, although the database has committed) by which the user of a connection may no longer edit, the
  request leaves the room lock without raising the fence. Nothing the hub looks at says then that the
  connection is invalid, and the update it was about to apply is written into the document.\<close>

theorem failed_refresh_keeps_access:
  assumes "hb_requests h i = Some r" "hr_phase r = H_mutating" "hr_session r = cn_session c" "affects (hr_op r) (cn_user c)"
    and "commit_op (hr_view r) (hb_db h) (hr_session r) (hr_op r) = Inr db" "\<not> may_edit db (cn_session c) (cn_user c)"
    and "hb_conns h w = Some c" "cn_phase c = Want_apply u" "accepts E (release h (cn_session c)) w c u"
    and "h' = run (hub_step E) h [Http_continue i now, Refresh_error i later]"
  shows "\<not> may_edit (hb_db h') (cn_session c) (cn_user c) \<and> authorization_failure h' (cn_session c) (cn_user c) w = None \<and>
    w \<in> hb_unfenced h' \<and>
    hb_docs (hub_step E h' (Ws_continue w t saved_now)) = fst (apply_update (he_crdt E) (hb_docs h) (cn_session c) u)"
proof -
  let ?sid = "cn_session c"
  define W where "W = hb_unfenced h \<union>
    {w. case hb_conns h w of None \<Rightarrow> False | Some c \<Rightarrow> cn_session c = hr_session r \<and> affects (hr_op r) (cn_user c)}"
  have w: "w \<in> W" using assms(3,4,7) by (simp add: W_def)
  have h': "h' = (release h ?sid)\<lparr>hb_db := db, hb_unfenced := W, hb_requests := (hb_requests h)(i := None)\<rparr>"
    unfolding assms(10) using assms(1-5)
    by (simp add: W_def http_continue_def http_mutate_def set_request_def http_lost_def unlock_def http_broadcast_def release_def end_request_def
        cong: option.case_cong)
  have acc: "accepts E h' w c u" "hb_conns h' w = Some c" using assms(7,9) by (simp_all add: h' accepts_def authorization_failure_def release_def cong: option.case_cong)
  have "hb_docs (hub_step E h' (Ws_continue w t saved_now)) = fst (apply_update (he_crdt E) (hb_docs h) ?sid u)"
    unfolding accepted_apply [OF acc(2) assms(8) acc(1)] by (simp add: h' release_def)
  with assms(6) w acc(1) show ?thesis by (simp add: h' accepts_def)
qed

section \<open>A run: user 2 connects and edits\<close>

definition team_db :: database where
  "team_db = sample_db\<lparr>db_members := [((7, 1), \<lparr>m_session_id = 7, m_user_id = 1, m_role = owner\<rparr>),
     ((7, 2), \<lparr>m_session_id = 7, m_user_id = 2, m_role = editor\<rparr>)]\<rparr>"

abbreviation team_hub :: "sample_doc hub" where
  "team_hub \<equiv> new_hub team_db (new_manager Map.empty Map.empty)"

abbreviation go :: "ws \<Rightarrow> hub_event" where
  "go w \<equiv> Ws_continue w 0 0"

text \<open>User 2 connects: authentication, the fences, the load of the document, the room.\<close>
abbreviation connect :: "hub_event list" where
  "connect \<equiv> [Ws_open 2 (Some (str_of_uuid 2)) (Some (str_of_uuid 7)), go 2, go 2, go 2, go 2, go 2,
     Storage (Resume 7 Io_ok 0), Storage (Resume 7 Io_ok 0), go 2]"

definition guest :: "RoleEnum \<Rightarrow> ws_phase \<Rightarrow> conn" where
  "guest role p = \<lparr>cn_session = 7, cn_user = 2, cn_stamp = \<lparr>as_member_version = 0, as_session_version = 0\<rparr>,
     cn_role = role, cn_phase = p\<rparr>"

definition docs_after :: "nat \<Rightarrow> sample_doc manager" where
  "docs_after k = run (dm_step sample_crdt) (new_manager Map.empty Map.empty)
     (take k [Call 7 Load 0, Resume 7 Io_ok 0, Resume 7 Io_ok 0])"

lemma guest_sel [simp]:
  "cn_session (guest role p) = 7" "cn_user (guest role p) = 2" "cn_role (guest role p) = role" "cn_phase (guest role p) = p"
  "cn_stamp (guest role p) = \<lparr>as_member_version = 0, as_session_version = 0\<rparr>"
  "(guest role p)\<lparr>cn_phase := q\<rparr> = guest role q" "(guest role p)\<lparr>cn_role := r, cn_phase := q\<rparr> = guest r q"
  by (simp_all add: guest_def)

lemma team_db_rows [simp]:
  "dget (db_users team_db) 2 = Some (sample_user 2)" "dget (db_members team_db) (7, 2) = Some \<lparr>m_session_id = 7, m_user_id = 2, m_role = editor\<rparr>"
  "dget (db_sessions team_db) 7 = Some \<lparr>s_id = 7, s_name = [], s_language = python, s_owner_id = 1, s_is_active = True,
      s_yjs_state = None, s_updated_at = 0\<rparr>"
  by (simp_all add: team_db_def sample_db_def sample_user_def)

text \<open>The hub while user 2 connects, with what matters in the room.\<close>
definition team_at :: "RoleEnum \<Rightarrow> ws_phase \<Rightarrow> bool \<Rightarrow> bool \<Rightarrow> connection_info list option \<Rightarrow> nat \<Rightarrow> (ws \<times> bytes) list \<Rightarrow> sample_doc hub" where
  "team_at role p stamped locked room k sent = (new_hub team_db (docs_after k))
     \<lparr>hb_rooms := Map.empty(7 := room), hb_locks := Map.empty(7 := if locked then Some (Ws_holder 2) else None),
      hb_stamps := Map.empty(2 := if stamped then Some \<lparr>as_member_version = 0, as_session_version = 0\<rparr> else None),
      hb_conns := [2 \<mapsto> guest role p], hb_sent := sent\<rparr>"

lemma team_at_sel [simp]:
  "hb_db (team_at role p stamped locked room k sent) = team_db" "hb_unfenced (team_at role p stamped locked room k sent) = {}"
  "hb_docs (team_at role p stamped locked room k sent) = docs_after k"
  "hb_conns (team_at role p stamped locked room k sent) = [2 \<mapsto> guest role p]"
  "hb_rooms (team_at role p stamped locked room k sent) = Map.empty(7 := room)"
  "hb_locks (team_at role p stamped locked room k sent) = Map.empty(7 := if locked then Some (Ws_holder 2) else None)"
  "hb_stamps (team_at role p stamped locked room k sent) = Map.empty(2 := if stamped then Some \<lparr>as_member_version = 0, as_session_version = 0\<rparr> else None)"
  "hb_revoked (team_at role p stamped locked room k sent) = Map.empty"
  "hb_sent (team_at role p stamped locked room k sent) = sent"
  "hb_awareness (team_at role p stamped locked room k sent) = new_awareness_store 30"
  "hb_member_invalidations (team_at role p stamped locked room k sent) = Map.empty"
  "hb_session_invalidations (team_at role p stamped locked room k sent) = Map.empty"
  by (simp_all add: team_at_def new_hub_def)

lemma team_at_upd [simp]:
  "set_phase (team_at role p stamped locked room k sent) 2 q = team_at role q stamped locked room k sent"
  "send_bytes (team_at role p stamped locked room k sent) w f = team_at role p stamped locked room k (sent @ [(w, f)])"
  "release (team_at role p stamped locked room k sent) 7 = team_at role p stamped False room k sent"
  by (simp_all add: team_at_def new_hub_def set_phase_def send_bytes_def release_def fun_eq_iff)

lemma connect_auth:
  "hub_step sample_hub_env team_hub (Ws_open 2 (Some (str_of_uuid 2)) (Some (str_of_uuid 7)))
     = team_at viewer Auth_user False False None 0 []"
  "hub_step sample_hub_env (team_at viewer Auth_user False False None 0 []) (go 2) = team_at viewer Auth_session False False None 0 []"
  "hub_step sample_hub_env (team_at viewer Auth_session False False None 0 []) (go 2) = team_at viewer Auth_member False False None 0 []"
  "hub_step sample_hub_env (team_at viewer Auth_member False False None 0 []) (go 2) = team_at editor Accepting False False None 0 []"
  "hub_step sample_hub_env (team_at editor Accepting False False None 0 []) (go 2) = team_at editor Want_join True False None 0 []"
proof -
  have "str_of_uuid 2 \<noteq> []" "str_of_uuid 7 \<noteq> []" by (simp_all add: str_of_uuid_def Let_def)
  then show "hub_step sample_hub_env team_hub (Ws_open 2 (Some (str_of_uuid 2)) (Some (str_of_uuid 7)))
     = team_at viewer Auth_user False False None 0 []"
    by (simp add: ws_open_def authenticate_start_def parse_token_def uuid_text current_stamp_def inv_version_def
        sample_hub_env_def team_at_def docs_after_def guest_def new_hub_def fun_eq_iff)
  show "hub_step sample_hub_env (team_at viewer Auth_user False False None 0 []) (go 2) = team_at viewer Auth_session False False None 0 []"
    by (simp add: ws_continue_def auth_user_def)
  show "hub_step sample_hub_env (team_at viewer Auth_session False False None 0 []) (go 2) = team_at viewer Auth_member False False None 0 []"
    by (simp add: ws_continue_def auth_session_def)
  show "hub_step sample_hub_env (team_at viewer Auth_member False False None 0 []) (go 2) = team_at editor Accepting False False None 0 []"
    by (simp add: ws_continue_def auth_member_def, simp add: team_at_def new_hub_def)
  have "(team_at editor Accepting False False None 0 [])\<lparr>hb_stamps := Map.empty(2 \<mapsto> \<lparr>as_member_version = 0, as_session_version = 0\<rparr>)\<rparr>
      = team_at editor Accepting True False None 0 []"
    by (simp add: team_at_def new_hub_def)
  then show "hub_step sample_hub_env (team_at editor Accepting False False None 0 []) (go 2) = team_at editor Want_join True False None 0 []"
    by (simp add: ws_continue_def ws_accepted_def close_if_invalidated_def authorization_failure_def newer_def)
qed

lemma frame_of_empty: "encode_sync_step1 [] = Inr [0, 0, 0]"
  by (simp add: encode_sync_step1_def encode_sync_message_def encode_var_bytes_def message_types SYNC_STEP1_def)


lemma docs_after_steps:
  "dm_event sample_crdt (docs_after 0) (Call 7 Load 0) = (docs_after 1, None)"
  "dm_event sample_crdt (docs_after 1) (Resume 7 Io_ok 0) = (docs_after 2, None)"
  "\<exists>r. dm_event sample_crdt (docs_after 2) (Resume 7 Io_ok 0) = (docs_after 3, r) \<and> (\<forall>x. r \<noteq> Some (Saved x))"
  "load_pending (docs_after 3) 7 = False" "dm_docs (docs_after 3) 7 = Some []" "dm_metadata (docs_after 3) 7 \<noteq> None"
  by (simp_all add: docs_after_def dm_eval load_pending_def numeral_3_eq_3 numeral_2_eq_2)

lemma env_sel [simp]: "he_crdt sample_hub_env = sample_crdt" "he_json sample_hub_env = sample_env"
  by (simp_all add: sample_hub_env_def)

lemma connect_join:
  "hub_step sample_hub_env (team_at editor Want_join True False None 0 []) (go 2) = team_at editor Joining True True (Some []) 1 []"
  "hub_step sample_hub_env (team_at editor Joining True True (Some []) 1 []) (Storage (Resume 7 Io_ok 0))
     = team_at editor Joining True True (Some []) 2 []"
  "hub_step sample_hub_env (team_at editor Joining True True (Some []) 2 []) (Storage (Resume 7 Io_ok 0))
     = team_at editor Joining True True (Some []) 3 []"
  "hub_step sample_hub_env (team_at editor Joining True True (Some []) 3 []) (go 2)
     = team_at editor Greet_status True False (Some [(2, 2, editor)]) 3 [(2, [0, 0, 0])]"
proof -
  have upd: "(team_at role p stamped locked room k sent)\<lparr>hb_docs := docs_after k'\<rparr> = team_at role p stamped locked room k' sent"
    "(team_at role p stamped locked None k sent)\<lparr>hb_rooms := [7 \<mapsto> room'], hb_locks := [7 \<mapsto> Ws_holder 2]\<rparr>
       = team_at role p stamped True (Some room') k sent"
    "(team_at role p stamped locked room k sent)\<lparr>hb_docs := docs_after k', hb_locks := [7 \<mapsto> Ws_holder 2]\<rparr> = team_at role p stamped True room k' sent"
    "(team_at role p stamped locked room k sent)\<lparr>hb_locks := [7 \<mapsto> Ws_holder 2], hb_docs := docs_after k'\<rparr> = team_at role p stamped True room k' sent"
    "(team_at role p stamped locked room k sent)\<lparr>hb_rooms := [7 \<mapsto> room']\<rparr> = team_at role p stamped locked (Some room') k sent"
    for role p stamped locked room k sent k' room'
    by (simp_all add: team_at_def new_hub_def)
  show "hub_step sample_hub_env (team_at editor Want_join True False None 0 []) (go 2) = team_at editor Joining True True (Some []) 1 []"
    using docs_after_steps(1)
    by (simp add: ws_continue_def join_room_def room_list_def Let_def upd call_docs_def del: dm_event.simps One_nat_def)
  show "hub_step sample_hub_env (team_at editor Joining True True (Some []) 1 []) (Storage (Resume 7 Io_ok 0))
     = team_at editor Joining True True (Some []) 2 []"
    using docs_after_steps(2) by (simp add: call_docs_def upd del: dm_event.simps One_nat_def)
  show "hub_step sample_hub_env (team_at editor Joining True True (Some []) 2 []) (Storage (Resume 7 Io_ok 0))
     = team_at editor Joining True True (Some []) 3 []"
    using docs_after_steps(3) by (auto simp: call_docs_def upd simp del: dm_event.simps One_nat_def split: option.split reply.split)
  have "get_state_vector sample_crdt (docs_after 3) 7 = (docs_after 3, Inr [])"
    by (simp add: get_state_vector_def get_or_create_def docs_after_steps) (simp add: sample_crdt_def sample_update_def)
  then show "hub_step sample_hub_env (team_at editor Joining True True (Some []) 3 []) (go 2)
     = team_at editor Greet_status True False (Some [(2, 2, editor)]) 3 [(2, [0, 0, 0])]"
    by (simp add: ws_continue_def join_loaded_def Let_def docs_after_steps ws_joined_def room_list_def upd
        close_if_invalidated_def authorization_failure_def newer_def greet_vector_def send_then_def frame_of_empty)
qed


text \<open>The status of a document is a frame that can always be sent.\<close>
lemma status_payload_fits: 
  assumes "list_all scalar hash" "pred_option (list_all scalar) saved" "pred_option (list_all scalar) sv" "pred_option (list_all scalar) by_whom"
  shows "json_fits 1 (document_saved_payload saved sv hash dirty by_whom)"
  using assms by (auto simp: document_saved_payload_def opt_str_def scalar_def py_def split: option.split)

lemma saved_frame: "\<exists>f. document_saved_frame sample_hub_env None [] [] False None = Inr f"
proof -
  let ?v = "document_saved_payload None (Some []) [] False None"
  let ?s = "json_dumps (py '','') (py '':'') True ?v"
  have "ascii ?s" by (rule dumps_ascii [OF status_payload_fits]) (simp_all add: py_def)
  moreover have "int (length ?s) \<le> MAX_SAFE_INTEGER"
    by (simp add: document_saved_payload_def opt_str_def dumps_obj quote_def escape_char_def py_def MAX_SAFE_INTEGER_def)
  ultimately obtain n where "encode_var_string ?s = Inr (n @ map of_nat ?s)" by (rule encode_ascii_string)
  then show ?thesis
    by (simp add: document_saved_frame_def sample_update_def encode_document_saved_def Let_def encode_var_uint_def message_types MAX_SAFE_INTEGER_def)
qed

lemma docs_after_status:
  "get_document_status sample_crdt (docs_after 3) 7 = Some \<lparr>st_saved_state_vector = [], st_saved_state_hash = [], st_saved_at = None,
     st_dirty = False, st_generation = 0, st_checkpointed_generation = None\<rparr>"
  by (simp add: docs_after_def dm_eval get_document_status_def sample_update_def)

lemma connect_greeted:
  "\<exists>f. hub_step sample_hub_env (team_at editor Greet_status True False (Some [(2, 2, editor)]) 3 [(2, [0, 0, 0])]) (go 2)
     = team_at editor Greet_awareness True False (Some [(2, 2, editor)]) 3 [(2, [0, 0, 0]), (2, f)]"
proof -
  obtain f where "document_saved_frame sample_hub_env None [] [] False None = Inr f" using saved_frame ..
  then show ?thesis
    by (intro exI [of _ f]) (simp add: ws_continue_def greet_status_def docs_after_status send_then_def)
qed

abbreviation "roster \<equiv> Some [(2, 2, editor)]"

text \<open>User 2 asks for the awareness of the room, then sends an edit.\<close>
lemma receiving:
  "hub_step sample_hub_env (team_at editor Greet_awareness True False roster 3 sent) (go 2)
     = team_at editor Receiving True False roster 3 sent"
  "hub_step sample_hub_env (team_at editor Receiving True False roster 3 sent) (Ws_message 2 (Binary [3]) 0)
     = team_at editor Replying True False roster 3 (sent @ [(2, [1, 1, 0])])"
  "hub_step sample_hub_env (team_at editor Receiving True False roster 3 sent) (Ws_message 2 (Binary (0 # 2 # 10 # sample_edit)) 0)
     = team_at editor (Want_apply sample_edit) True False roster 3 sent"
proof -
  show "hub_step sample_hub_env (team_at editor Greet_awareness True False roster 3 sent) (go 2)
     = team_at editor Receiving True False roster 3 sent"
    by (simp add: ws_continue_def greet_awareness_def active_entries_def room_of_def new_awareness_store_def)
  have rcv: "hub_step sample_hub_env (team_at editor Receiving True False roster 3 sent) (Ws_message 2 (Binary data) 0)
    = handle_binary_message sample_hub_env 0 (team_at editor Receiving True False roster 3 sent) 2 (guest editor Receiving) data" for data
  proof -
    have "(team_at editor Receiving True False roster 3 sent)\<lparr>hb_awareness := \<lparr>aw_sessions = [], aw_stale_timeout = 30\<rparr>\<rparr>
        = team_at editor Receiving True False roster 3 sent"
      by (simp add: team_at_def new_hub_def new_awareness_store_def)
    note upd = this
    show ?thesis
      by (simp add: upd ws_receive_def close_if_invalidated_def authorization_failure_def newer_def aw_prune_stale_def
          with_room_def new_awareness_store_def after_prune_def)
  qed
  have "parse_message sample_env [3] = Inr AwarenessQuery"
    by (simp add: parse_message_def decode_var_uint_def decode_var_uint_loop.simps message_types ensure_finished_def MAX_MESSAGE_SIZE_def MAX_SAFE_INTEGER_def)
  then show "hub_step sample_hub_env (team_at editor Receiving True False roster 3 sent) (Ws_message 2 (Binary [3]) 0)
     = team_at editor Replying True False roster 3 (sent @ [(2, [1, 1, 0])])"
    by (simp add: rcv del: hub_step.simps) (simp add: handle_binary_message_def send_then_def encode_awareness_message_def encode_var_bytes_def message_types
        active_entries_def room_of_def new_awareness_store_def)
  have "length sample_edit = 10" by (simp add: sample_edit_def sample_update_def prod_encode_def triangle_def)
  then have "parse_message sample_env (0 # 2 # 10 # sample_edit) = Inr (SyncMessage SYNC_UPDATE sample_edit)"
    by (simp add: parse_message_def decode_var_uint_def decode_var_uint_loop.simps decode_var_bytes_def pyslice_def message_types
        sync_types ensure_finished_def ensure_def MAX_MESSAGE_SIZE_def MAX_SAFE_INTEGER_def)
  then show "hub_step sample_hub_env (team_at editor Receiving True False roster 3 sent) (Ws_message 2 (Binary (0 # 2 # 10 # sample_edit)) 0)
     = team_at editor (Want_apply sample_edit) True False roster 3 sent"
    by (simp add: rcv del: hub_step.simps) (simp add: handle_binary_message_def sync_types)
qed

lemma connected:
  obtains f where "run (hub_step sample_hub_env) team_hub (connect @ [go 2, go 2])
     = team_at editor Receiving True False roster 3 [(2, [0, 0, 0]), (2, f)]"
proof -
  have "run (hub_step sample_hub_env) team_hub connect = team_at editor Greet_status True False roster 3 [(2, [0, 0, 0])]"
    using connect_auth connect_join by (simp del: One_nat_def)
  with connect_greeted receiving(1) that show ?thesis by (auto simp: run_append)
qed

lemma team_db_sel: "active_in team_db 7" "role_of team_db 7 2 = Some editor"
  by (simp_all add: active_in_def role_of_def)

lemma team_requests: "hb_requests (team_at role p stamped locked room k sent) = Map.empty"
  by (simp add: team_at_def new_hub_def)

lemma edit_accepted: "accepts sample_hub_env (team_at editor (Want_apply sample_edit) True False roster 3 sent) 2 (guest editor (Want_apply sample_edit)) sample_edit"
  using docs_after_steps(6) by (auto simp: accepts_def authorization_failure_def newer_def apply_update_def get_or_create_def docs_after_steps CRDT_MAX_UPDATE_BYTES_def
      bump_generation_def sample_crdt_def split: option.split)

section \<open>The run meets the hypotheses\<close>

theorem participants_have_live_documents_witness:
  "dm_docs (docs_after 3) 7 \<noteq> None \<and> \<not> evict_pending (docs_after 3) 7"
proof -
  obtain f where f: "run (hub_step sample_hub_env) team_hub (connect @ [go 2, go 2])
     = team_at editor Receiving True False roster 3 [(2, [0, 0, 0]), (2, f)]"
    by (rule connected)
  show ?thesis using conjunct1 [OF participants_have_live_documents [OF f [symmetric]], THEN spec [of _ 2], THEN spec [of _ "guest editor Receiving"]]
    by simp
qed

theorem collaboration_never_loses_edits_witness:
  "(0, 2) \<in> recoverable set (set \<circ> sample_items) (hb_docs (run (hub_step sample_hub_env)
     (run (hub_step sample_hub_env) team_hub (connect @ [go 2, go 2, Ws_message 2 (Binary (0 # 2 # 10 # sample_edit)) 0]))
       [go 2, Ws_message 2 Disconnect 0, go 2])) 7"
proof -
  obtain f where f: "run (hub_step sample_hub_env) team_hub (connect @ [go 2, go 2])
     = team_at editor Receiving True False roster 3 [(2, [0, 0, 0]), (2, f)]"
    by (rule connected)
  let ?evs = "connect @ [go 2, go 2, Ws_message 2 (Binary (0 # 2 # 10 # sample_edit)) 0]"
  have e: "?evs = (connect @ [go 2, go 2]) @ [Ws_message 2 (Binary (0 # 2 # 10 # sample_edit)) 0]" by simp
  have h: "run (hub_step sample_hub_env) team_hub ?evs
     = team_at editor (Want_apply sample_edit) True False roster 3 [(2, [0, 0, 0]), (2, f)]"
    unfolding e run_append [of _ _ "connect @ [go 2, go 2]"] f by (simp add: receiving(3) del: hub_step.simps)
  have safe: "hub_safe_run sample_hub_env team_hub (?evs @ go 2 # [Ws_message 2 Disconnect 0, go 2])"
    by (simp add: hub_safe_def del: hub_step.simps split: option.split task.split)
  have laws: "crdt_laws (he_crdt sample_hub_env) set (set \<circ> sample_items)" "stored_by_program (he_crdt sample_hub_env) Map.empty Map.empty"
    by (simp_all add: sample_crdt_laws stored_by_program_empty)
  have conn: "hb_conns (team_at editor (Want_apply sample_edit) True False roster 3 [(2, [0, 0, 0]), (2, f)]) 2
      = Some (guest editor (Want_apply sample_edit))" by simp
  show ?thesis
    using collaboration_never_loses_edits [OF laws safe h [symmetric] conn _ edit_accepted] unfolding h by auto
qed

theorem frames_reach_current_members_witness:
  "active_in team_db 7 \<and> role_of team_db 7 2 = Some editor"
proof -
  obtain f where f: "run (hub_step sample_hub_env) team_hub (connect @ [go 2, go 2])
     = team_at editor Receiving True False roster 3 [(2, [0, 0, 0]), (2, f)]"
    by (rule connected)
  show ?thesis
    using frames_reach_current_members [OF f [symmetric], of "Ws_message 2 (Binary [3]) 0" "[(2, [1, 1, 0])]" 2 "[1, 1, 0]"]
    by (simp add: receiving(2) greeting_def gap_def team_requests del: hub_step.simps)
qed

text \<open>User 1 demotes user 2, who is about to send an edit.\<close>
definition demotion :: "sample_doc hub" where
  "demotion = run (hub_step sample_hub_env) (team_at editor (Want_apply sample_edit) True False roster 3 [])
     [Http_open 0 1 (Change_role 2 viewer) 7, Http_continue 0 0]"

lemma demotion_state:
  "\<exists>r. hb_requests demotion 0 = Some r \<and> hr_phase r = H_mutating \<and> hr_session r = 7 \<and> hr_op r = Change_role 2 viewer \<and> hr_view r = team_db"
  "hb_db demotion = team_db" "hb_conns demotion 2 = Some (guest editor (Want_apply sample_edit))"
  "accepts sample_hub_env (release demotion 7) 2 (guest editor (Want_apply sample_edit)) sample_edit"
proof -
  have d: "demotion = (team_at editor (Want_apply sample_edit) True False roster 3 [])
    \<lparr>hb_requests := [0 \<mapsto> \<lparr>hr_op = Change_role 2 viewer, hr_session = 7, hr_user = 1, hr_view = team_db,
       hr_has_connections = True, hr_snapshot = [], hr_frames = [], hr_phase = H_mutating\<rparr>],
     hb_locks := Map.empty(7 := Some (Http_holder 0))\<rparr>"
    by (simp add: demotion_def http_open_def http_continue_def http_lock_def set_request_def role_checker_def room_list_def team_db_def
        sample_db_def sample_user_def empty_db_def team_requests body_ok_def min_role_of_def Let_def)
  show "\<exists>r. hb_requests demotion 0 = Some r \<and> hr_phase r = H_mutating \<and> hr_session r = 7 \<and> hr_op r = Change_role 2 viewer \<and> hr_view r = team_db"
    "hb_db demotion = team_db" "hb_conns demotion 2 = Some (guest editor (Want_apply sample_edit))"
    by (simp_all add: d)
  show "accepts sample_hub_env (release demotion 7) 2 (guest editor (Want_apply sample_edit)) sample_edit"
    using edit_accepted [of "[]"] by (simp add: d accepts_def release_def authorization_failure_def newer_def)
qed

lemma demotion_commits:
  "\<exists>db. commit_op team_db team_db 7 (Change_role 2 viewer) = Inr db \<and> \<not> may_edit db 7 2"
  by (simp add: commit_op_def update_member_role_def get_active_session_def identity_map_def team_db_def sample_db_def empty_db_def
      may_edit_def role_of_def dmap_def Let_def less_eq_RoleEnum_def)

theorem failed_refresh_keeps_access_witness:
  "\<exists>h. hb_docs (hub_step sample_hub_env h (go 2)) = fst (apply_update sample_crdt (hb_docs demotion) 7 sample_edit) \<and> \<not> may_edit (hb_db h) 7 2"
proof -
  let ?c = "guest editor (Want_apply sample_edit)"
  have c: "cn_session ?c = 7" "cn_user ?c = 2" "cn_phase ?c = Want_apply sample_edit" by (simp_all add: guest_def)
  obtain r where r: "hb_requests demotion 0 = Some r" "hr_phase r = H_mutating" "hr_session r = 7" "hr_op r = Change_role 2 viewer" "hr_view r = team_db"
    using demotion_state(1) by blast
  obtain db where db: "commit_op team_db team_db 7 (Change_role 2 viewer) = Inr db" "\<not> may_edit db 7 2" using demotion_commits by blast
  have crdt: "he_crdt sample_hub_env = sample_crdt" by (simp add: sample_hub_env_def)
  show ?thesis
    using failed_refresh_keeps_access [of demotion 0 r ?c db 2 sample_edit sample_hub_env _ 0 0 0 0]
    unfolding c r(3-5) demotion_state(2) crdt using r(1,2) db demotion_state(3,4) by (intro exI conjI) auto
qed

end
