(* ===== verification/Jobs.thy ===== *)
theory Jobs
  imports Identity Snapshots Printing
begin

text \<open>
  The execution service: \<open>backend/app/execution/queue.py\<close> (the Redis keys and their operations),
  \<open>backend/app/execution/service.py\<close> and \<open>backend/app/execution/router.py\<close> (creating, reading,
  listing and cancelling executions, with their HTTP errors), and the row operations and
  messages of \<open>backend/app/execution/worker.py\<close>. \<open>Worker\<close> composes them with the worker loop.

  A transaction with \<open>SELECT ... FOR UPDATE\<close> that awaits nothing but the database before its
  commit is one function on the tables. Redis is a record of lists, keys and published messages.
\<close>

section \<open>Redis\<close>

record redis =
  rd_lists :: "pystr \<Rightarrow> pystr list"
  rd_keys :: "pystr \<rightharpoonup> pystr"
  rd_published :: "(pystr \<times> pystr) list"

definition empty_redis :: redis where
  "empty_redis = \<lparr>rd_lists = (\<lambda>_. []), rd_keys = Map.empty, rd_published = []\<rparr>"

definition EXECUTION_QUEUE_KEY :: pystr where
  "EXECUTION_QUEUE_KEY = py ''concord:execution:queue''"

definition EXECUTION_PROCESSING_QUEUE_KEY :: pystr where
  "EXECUTION_PROCESSING_QUEUE_KEY = py ''concord:execution:processing''"

definition EXECUTION_EVENT_CHANNEL_PREFIX :: pystr where
  "EXECUTION_EVENT_CHANNEL_PREFIX = py ''concord:execution:events:''"

definition rpush :: "pystr \<Rightarrow> pystr \<Rightarrow> redis \<Rightarrow> redis" where
  "rpush k v r = r\<lparr>rd_lists := (rd_lists r)(k := rd_lists r k @ [v])\<rparr>"

text \<open>\<open>LREM key 0 value\<close> removes every occurrence.\<close>
definition lrem :: "pystr \<Rightarrow> pystr \<Rightarrow> redis \<Rightarrow> redis" where
  "lrem k v r = r\<lparr>rd_lists := (rd_lists r)(k := removeAll v (rd_lists r k))\<rparr>"

text \<open>\<open>BLMOVE src dst LEFT RIGHT\<close> on a list that is not empty.\<close>
definition blmove :: "pystr \<Rightarrow> pystr \<Rightarrow> redis \<Rightarrow> redis" where
  "blmove src dst r =
     (case rd_lists r src of [] \<Rightarrow> r
      | v # vs \<Rightarrow> rpush dst v (r\<lparr>rd_lists := (rd_lists r)(src := vs)\<rparr>))"

definition publish :: "pystr \<Rightarrow> pystr \<Rightarrow> redis \<Rightarrow> redis" where
  "publish channel message r = r\<lparr>rd_published := rd_published r @ [(channel, message)]\<rparr>"

definition cancellation_key :: "uuid \<Rightarrow> pystr" where
  "cancellation_key execution_id = py ''concord:execution:'' @ str_of_uuid execution_id @ py '':cancel''"

definition enqueue :: "uuid \<Rightarrow> redis \<Rightarrow> redis" where
  "enqueue execution_id r = rpush EXECUTION_QUEUE_KEY (str_of_uuid execution_id) r"

text \<open>The key expires by itself later; expiry is an event of its own.\<close>
definition request_cancellation :: "uuid \<Rightarrow> redis \<Rightarrow> redis" where
  "request_cancellation execution_id r = r\<lparr>rd_keys := (rd_keys r)(cancellation_key execution_id \<mapsto> py ''1'')\<rparr>"

section \<open>Service\<close>

fun status_value :: "ExecutionStatus \<Rightarrow> string" where
  "status_value QUEUED = ''QUEUED''"
| "status_value STARTING = ''STARTING''"
| "status_value RUNNING = ''RUNNING''"
| "status_value COMPLETED = ''COMPLETED''"
| "status_value FAILED = ''FAILED''"
| "status_value TIMEOUT = ''TIMEOUT''"
| "status_value CANCELLED = ''CANCELLED''"

datatype execution_error =
    ExecutionNotFoundError string
  | ExecutionConflictError string
  | ExecutionQueueError string

fun raise_execution_error :: "execution_error \<Rightarrow> http_exception" where
  "raise_execution_error (ExecutionNotFoundError d) = HTTPException 404 d"
| "raise_execution_error (ExecutionConflictError d) = HTTPException 409 d"
| "raise_execution_error (ExecutionQueueError d) = HTTPException 503 d"

abbreviation set_execution :: "Execution \<Rightarrow> database \<Rightarrow> database" where
  "set_execution x db \<equiv> db\<lparr>db_executions := dset (x_id x) x (db_executions db)\<rparr>"

text \<open>The row \<open>create_queued_execution\<close> commits before it hands the identifier to Redis; the primary
  key and the foreign keys are the database's.\<close>
definition insert_execution ::
    "uuid \<Rightarrow> datetime \<Rightarrow> database \<Rightarrow> uuid \<Rightarrow> uuid \<Rightarrow> pystr \<Rightarrow> LanguageEnum \<Rightarrow> (Execution \<times> database) option" where
  "insert_execution new_id now db session_id triggered_by code language =
     (let execution = \<lparr>x_id = new_id, x_session_id = session_id, x_triggered_by = Some triggered_by,
            x_status = QUEUED, x_code = code, x_language = language, x_stdout = None, x_stderr = None,
            x_exit_code = None, x_elapsed_ms = None, x_created_at = now, x_finished_at = None\<rparr>
      in if dget (db_executions db) new_id \<noteq> None \<or> dget (db_sessions db) session_id = None \<or>
            dget (db_users db) triggered_by = None
         then None else Some (execution, set_execution execution db))"

definition delete_execution :: "uuid \<Rightarrow> database \<Rightarrow> database" where
  "delete_execution execution_id db = db\<lparr>db_executions := dpop execution_id (db_executions db)\<rparr>"

definition get_execution :: "database \<Rightarrow> uuid \<Rightarrow> uuid \<Rightarrow> execution_error + Execution" where
  "get_execution db session_id execution_id =
     (case dget (db_executions db) execution_id of
        None \<Rightarrow> Inl (ExecutionNotFoundError ''Execution not found'')
      | Some x \<Rightarrow> if x_session_id x = session_id then Inr x else Inl (ExecutionNotFoundError ''Execution not found''))"

definition executions_of :: "database \<Rightarrow> uuid \<Rightarrow> Execution list" where
  "executions_of db session_id = filter (\<lambda>x. x_session_id x = session_id) (map snd (db_executions db))"

definition list_executions :: "database \<Rightarrow> uuid \<Rightarrow> nat \<Rightarrow> nat \<Rightarrow> Execution list \<times> nat" where
  "list_executions db session_id limit offset =
     (take limit (drop offset (rev (sort_key x_created_at (sort_key x_id (executions_of db session_id))))),
      length (executions_of db session_id))"

text \<open>\<open>cancel_execution\<close> up to the await of Redis: what it does with the locked row.\<close>
definition check_cancel :: "database \<Rightarrow> uuid \<Rightarrow> uuid \<Rightarrow> execution_error + Execution" where
  "check_cancel db session_id execution_id =
     rbind (get_execution db session_id execution_id) (\<lambda>x.
       if x_status x \<notin> set [QUEUED, RUNNING]
       then Inl (ExecutionConflictError (''Execution in state '' @ status_value (x_status x) @ '' cannot be cancelled''))
       else Inr x)"

text \<open>The rest, behind the signal to a running job.\<close>
definition commit_cancel :: "datetime \<Rightarrow> Execution \<Rightarrow> database \<Rightarrow> transition_error + Execution \<times> database" where
  "commit_cancel now x db =
     rbind (transition_to x CANCELLED) (\<lambda>x.
       let x = x\<lparr>x_finished_at := Some now\<rparr> in Inr (x, set_execution x db))"

section \<open>Rows and messages of the worker\<close>

record Runtime =
  rt_image :: string
  rt_filename :: string
  rt_command :: "string list"

fun RUNTIMES :: "LanguageEnum \<Rightarrow> Runtime" where
  "RUNTIMES python = \<lparr>rt_image = ''python:3.12-slim'', rt_filename = ''main.py'', rt_command = [''python3'', ''-u'', ''/code/main.py'']\<rparr>"
| "RUNTIMES javascript = \<lparr>rt_image = ''node:22-slim'', rt_filename = ''main.js'', rt_command = [''node'', ''/code/main.js'']\<rparr>"
| "RUNTIMES cpp = \<lparr>rt_image = ''gcc:13'', rt_filename = ''main.cpp'',
     rt_command = [''sh'', ''-c'', ''g++ /code/main.cpp -o /tmp/a.out && /tmp/a.out'']\<rparr>"

definition truncation_suffix :: bytes where
  "truncation_suffix = map of_nat (py [CHR 0x0A] @ py ''[output truncated]'' @ py [CHR 0x0A])"

definition bounded_bytes :: "nat \<Rightarrow> bytes \<Rightarrow> bytes" where
  "bounded_bytes limit data =
     (if length data > limit then take (limit - length truncation_suffix) data @ truncation_suffix else data)"

definition bounded :: "nat \<Rightarrow> bytes \<Rightarrow> pystr" where
  "bounded limit data = utf8_decode_replace (bounded_bytes limit data)"


text \<open>\<open>_transition\<close> and \<open>_finish\<close> on the row \<open>SELECT ... FOR UPDATE\<close> finds; \<open>None\<close> is their early return.\<close>
definition transition_row ::
    "database \<Rightarrow> uuid \<Rightarrow> ExecutionStatus \<Rightarrow> ExecutionStatus \<Rightarrow> transition_error + (Execution \<times> database) option" where
  "transition_row db execution_id expected target =
     (case dget (db_executions db) execution_id of
        None \<Rightarrow> Inr None
      | Some x \<Rightarrow>
          if x_status x \<noteq> expected then Inr None
          else rbind (transition_to x target) (\<lambda>x. Inr (Some (x, set_execution x db))))"

definition finish_row ::
    "database \<Rightarrow> uuid \<Rightarrow> ExecutionStatus \<Rightarrow> pystr \<Rightarrow> pystr \<Rightarrow> int option \<Rightarrow> int \<Rightarrow> datetime \<Rightarrow>
     transition_error + (Execution \<times> database) option" where
  "finish_row db execution_id target stdout stderr exit_code elapsed_ms now =
     (case dget (db_executions db) execution_id of
        None \<Rightarrow> Inr None
      | Some x \<Rightarrow>
          rbind (if x_status x \<noteq> CANCELLED then transition_to x target else Inr x) (\<lambda>x.
            let x = x\<lparr>x_stdout := Some stdout, x_stderr := Some stderr, x_exit_code := exit_code,
                      x_elapsed_ms := Some elapsed_ms, x_finished_at := Some now\<rparr>
            in Inr (Some (x, set_execution x db))))"

text \<open>The row of a job that a worker which stopped had claimed.\<close>
definition recover_row :: "database \<Rightarrow> Execution \<Rightarrow> datetime \<Rightarrow> transition_error + Execution \<times> database" where
  "recover_row db x now =
     rbind (transition_to x FAILED) (\<lambda>x.
       let x = x\<lparr>x_stderr := Some (py ''Execution worker restarted before completion.''), x_finished_at := Some now\<rparr>
       in Inr (x, set_execution x db))"

definition opt_int :: "int option \<Rightarrow> json" where
  "opt_int m = (case m of None \<Rightarrow> JNull | Some i \<Rightarrow> JInt i)"

definition status_event :: "Execution \<Rightarrow> (pystr, json) dict" where
  "status_event x =
     [(py ''type'', JStr (py ''execution_status'')),
      (py ''execution_id'', JStr (str_of_uuid (x_id x))),
      (py ''session_id'', JStr (str_of_uuid (x_session_id x))),
      (py ''status'', JStr (py (status_value (x_status x)))),
      (py ''stdout'', opt_str (x_stdout x)),
      (py ''stderr'', opt_str (x_stderr x)),
      (py ''exit_code'', opt_int (x_exit_code x)),
      (py ''elapsed_ms'', opt_int (x_elapsed_ms x))]"

datatype stream_name = Stdout | Stderr

fun stream_text :: "stream_name \<Rightarrow> string" where
  "stream_text Stdout = ''stdout''"
| "stream_text Stderr = ''stderr''"

definition output_event :: "Execution \<Rightarrow> stream_name \<Rightarrow> pystr \<Rightarrow> (pystr, json) dict" where
  "output_event x stream data =
     [(py ''type'', JStr (py ''execution_output'')),
      (py ''execution_id'', JStr (str_of_uuid (x_id x))),
      (py ''session_id'', JStr (str_of_uuid (x_session_id x))),
      (py ''stream'', JStr (py (stream_text stream))),
      (py ''data'', JStr data),
      (py ''status'', JStr (py (status_value RUNNING)))]"

definition event_channel :: "Execution \<Rightarrow> pystr" where
  "event_channel x = EXECUTION_EVENT_CHANNEL_PREFIX @ str_of_uuid (x_session_id x)"

text \<open>\<open>json.dumps(event)\<close> with the default separators.\<close>
definition event_text :: "(pystr, json) dict \<Rightarrow> pystr" where
  "event_text event = json_dumps (py '', '') (py '': '') False (JObj event)"

definition publish_status :: "Execution \<Rightarrow> redis \<Rightarrow> redis" where
  "publish_status x r = publish (event_channel x) (event_text (status_event x)) r"

definition publish_output :: "Execution \<Rightarrow> stream_name \<Rightarrow> pystr \<Rightarrow> redis \<Rightarrow> redis" where
  "publish_output x stream data r = publish (event_channel x) (event_text (output_event x stream data)) r"

text \<open>What \<open>_stream_output\<close> keeps while the sandbox runs, and what it does with one chunk: the texts it
  publishes for it, in order.\<close>
record stream =
  sm_emitted :: "stream_name \<Rightarrow> nat"
  sm_truncated :: "stream_name \<Rightarrow> bool"

definition new_stream :: stream where
  "new_stream = \<lparr>sm_emitted = (\<lambda>_. 0), sm_truncated = (\<lambda>_. False)\<rparr>"

definition truncation_marker :: pystr where
  "truncation_marker = py [CHR 0x0A] @ py ''[output truncated]'' @ py [CHR 0x0A]"

definition stream_chunk :: "nat \<Rightarrow> stream_name \<Rightarrow> bytes \<Rightarrow> stream \<Rightarrow> stream \<times> pystr list" where
  "stream_chunk limit name chunk s =
     (let remaining = limit - sm_emitted s name;
          accepted = take remaining chunk;
          cut = (length chunk > remaining \<and> \<not> sm_truncated s name)
      in (s\<lparr>sm_emitted := (sm_emitted s)(name := sm_emitted s name + length accepted),
            sm_truncated := (if cut then (sm_truncated s)(name := True) else sm_truncated s)\<rparr>,
          (if accepted \<noteq> [] then [utf8_decode_replace accepted] else []) @
          (if cut then [truncation_marker] else [])))"

section \<open>Events for the rooms\<close>

text \<open>\<open>backend/app/execution/events.py\<close>. A message of Redis is text or bytes. Two exceptions leave
  \<open>validate_execution_event\<close>: a type that is a list or an object cannot be looked up in a set, and
  a text may nest deeper than the interpreter reads.\<close>
datatype redis_text = Str pystr | Bytes bytes

fun text_of :: "redis_text \<Rightarrow> pystr" where
  "text_of (Str s) = s"
| "text_of (Bytes b) = utf8_decode_replace b"

datatype relay_exception = Unhashable_type | Recursion_error

fun hashable :: "json option \<Rightarrow> bool" where
  "hashable (Some (JArr _)) = False"
| "hashable (Some (JObj _)) = False"
| "hashable _ = True"

text \<open>\<open>uuid.UUID(str(v))\<close> for a JSON value: the text of a number may be one, that of a constant, a float,
  a list or a dict never is.\<close>
fun uuid_of_json :: "json option \<Rightarrow> uuid option" where
  "uuid_of_json (Some (JStr s)) = uuid_of_str s"
| "uuid_of_json (Some (JInt i)) = uuid_of_str (int_digits i)"
| "uuid_of_json _ = None"

definition validate_execution_event ::
    "json_env \<Rightarrow> redis_text \<Rightarrow> redis_text \<Rightarrow> relay_exception + (pystr \<times> (pystr, json) dict) option" where
  "validate_execution_event J channel payload =
     (let channel = text_of channel; payload = text_of payload;
          n = length EXECUTION_EVENT_CHANNEL_PREFIX
      in if take n channel \<noteq> EXECUTION_EVENT_CHANNEL_PREFIX then Inr None
         else let session_id = drop n channel
           in if uuid_of_str session_id = None then Inr None
              else case json_loads J True payload of
                Inl Json_value_error \<Rightarrow> Inr None
              | Inl Json_recursion_error \<Rightarrow> Inl Recursion_error
              | Inr (JObj event) \<Rightarrow>
                  if \<not> hashable (dget event (py ''type'')) then Inl Unhashable_type
                  else if dget event (py ''type'') \<notin> set [Some (JStr (py ''execution_status'')), Some (JStr (py ''execution_output''))]
                  then Inr None
                  else if dget event (py ''session_id'') \<noteq> Some (JStr session_id) then Inr None
                  else if uuid_of_json (dget event (py ''execution_id'')) = None then Inr None
                  else Inr (Some (session_id, event))
              | Inr _ \<Rightarrow> Inr None)"

text \<open>The inner loop of \<open>run_execution_event_relay\<close> over what \<open>get_message\<close> returns: the events it hands to
  \<open>broadcast_execution_event\<close>, and the exception that ends the task, if there is one.\<close>
record pubsub_message =
  pm_type :: pystr
  pm_channel :: redis_text
  pm_data :: redis_text

fun relay ::
    "json_env \<Rightarrow> pubsub_message option list \<Rightarrow> (pystr \<times> (pystr, json) dict) list \<times> relay_exception option" where
  "relay J [] = ([], None)"
| "relay J (None # ms) = relay J ms"
| "relay J (Some m # ms) =
     (if pm_type m \<noteq> py ''pmessage'' then relay J ms
      else case validate_execution_event J (pm_channel m) (pm_data m) of
        Inl e \<Rightarrow> ([], Some e)
      | Inr None \<Rightarrow> relay J ms
      | Inr (Some ev) \<Rightarrow> (case relay J ms of (evs, e) \<Rightarrow> (ev # evs, e)))"

section \<open>Output\<close>

lemma suffix_length [simp]: "length truncation_suffix = 20"
  by (simp add: truncation_suffix_def)

lemma bounded_bytes_length: "length (bounded_bytes limit data) \<le> max limit 20"
  by (auto simp: bounded_bytes_def)

lemma bounded_props: "list_all scalar (bounded limit data)" "length (bounded limit data) \<le> max limit 20"
  using bounded_bytes_length [of limit data] utf8_replace_length [of "map unat (bounded_bytes limit data)"]
  by (auto simp: bounded_def utf8_decode_replace_def utf8_replace_scalar)

text \<open>The stream state and the texts after a sequence of chunks of one stream.\<close>
fun stream_chunks :: "nat \<Rightarrow> (stream_name \<times> bytes) list \<Rightarrow> stream \<Rightarrow> stream \<times> (stream_name \<times> pystr) list" where
  "stream_chunks limit [] s = (s, [])"
| "stream_chunks limit ((name, chunk) # cs) s =
     (case stream_chunk limit name chunk s of (s, texts) \<Rightarrow>
        (case stream_chunks limit cs s of (s, rest) \<Rightarrow> (s, map (Pair name) texts @ rest)))"

text \<open>The bytes of one stream.\<close>
definition bytes_of :: "stream_name \<Rightarrow> (stream_name \<times> bytes) list \<Rightarrow> bytes" where
  "bytes_of name cs = concat (map snd (filter (\<lambda>c. fst c = name) cs))"

definition texts_of :: "stream_name \<Rightarrow> (stream_name \<times> pystr) list \<Rightarrow> pystr list" where
  "texts_of name ts = map snd (filter (\<lambda>t. fst t = name) ts)"

definition stream_ok :: "nat \<Rightarrow> stream \<Rightarrow> bool" where
  "stream_ok limit s \<longleftrightarrow> (\<forall>name. sm_emitted s name \<le> limit \<and> (sm_truncated s name \<longrightarrow> sm_emitted s name = limit))"

lemma stream_chunks_props:
  assumes "stream_ok limit s" "stream_chunks limit cs s = (s', ts)"
  shows "stream_ok limit s' \<and>
    sm_emitted s' name = min limit (sm_emitted s name + length (bytes_of name cs)) \<and>
    sm_truncated s' name = (sm_truncated s name \<or> limit < sm_emitted s name + length (bytes_of name cs)) \<and>
    (\<exists>parts. concat parts = take (limit - sm_emitted s name) (bytes_of name cs) \<and> [] \<notin> set parts \<and>
       texts_of name ts = map utf8_decode_replace parts @
         (if sm_truncated s' name \<and> \<not> sm_truncated s name then [truncation_marker] else []))"
  using assms
proof (induction cs arbitrary: s ts)
  case Nil
  then have "\<not> limit < sm_emitted s name" by (auto simp: stream_ok_def not_less)
  with Nil show ?case by (auto simp: bytes_of_def texts_of_def stream_ok_def intro!: exI [of _ "[]"])
next
  case (Cons c cs)
  obtain n chunk where c: "c = (n, chunk)" by fastforce
  let ?rem = "limit - sm_emitted s n"
  obtain s1 texts where one: "stream_chunk limit n chunk s = (s1, texts)" by fastforce
  obtain ts' where rest: "stream_chunks limit cs s1 = (s', ts')" and ts: "ts = map (Pair n) texts @ ts'"
    using Cons.prems(2) one c by (auto split: prod.splits)
  have s: "sm_emitted s m \<le> limit" "sm_truncated s m \<Longrightarrow> sm_emitted s m = limit" for m
    using Cons.prems(1) by (auto simp: stream_ok_def)
  have s1: "sm_emitted s1 = (sm_emitted s)(n := min limit (sm_emitted s n + length chunk))"
    "sm_truncated s1 = (sm_truncated s)(n := sm_truncated s n \<or> limit < sm_emitted s n + length chunk)"
    "texts = (if take ?rem chunk \<noteq> [] then [utf8_decode_replace (take ?rem chunk)] else []) @
       (if limit < sm_emitted s n + length chunk \<and> \<not> sm_truncated s n then [truncation_marker] else [])"
    using one s(1) [of n] by (auto simp: stream_chunk_def Let_def fun_eq_iff min_def split: if_splits)
  have ok1: "stream_ok limit s1" using s s1(1,2) by (auto simp: stream_ok_def)
  note ih = Cons.IH [OF ok1 rest]
  show ?case
  proof (cases "n = name")
    case False
    then have same: "bytes_of name (c # cs) = bytes_of name cs" "texts_of name ts = texts_of name ts'"
      by (auto simp: bytes_of_def texts_of_def c ts)
    have kept: "sm_emitted s1 name = sm_emitted s name" "sm_truncated s1 name = sm_truncated s name" using s1(1,2) False by simp_all
    show ?thesis unfolding same using ih unfolding kept .
  next
    case True
    have b: "bytes_of name (c # cs) = chunk @ bytes_of name cs" by (simp add: bytes_of_def c True)
    have t: "texts_of name ts = texts @ texts_of name ts'" by (simp add: texts_of_def ts True comp_def)
    from ih obtain parts where parts: "concat parts = take (limit - sm_emitted s1 name) (bytes_of name cs)" "[] \<notin> set parts"
      "texts_of name ts' = map utf8_decode_replace parts @ (if sm_truncated s' name \<and> \<not> sm_truncated s1 name then [truncation_marker] else [])"
      by blast
    let ?parts = "(if take ?rem chunk \<noteq> [] then [take ?rem chunk] else []) @ parts"
    have e1: "sm_emitted s1 name = min limit (sm_emitted s name + length chunk)"
      "sm_truncated s1 name \<longleftrightarrow> sm_truncated s name \<or> limit < sm_emitted s name + length chunk" using s1 True by simp_all
    have tr: "sm_truncated s' name \<longleftrightarrow> sm_truncated s1 name \<or> limit < sm_emitted s1 name + length (bytes_of name cs)" using ih by blast
    have em: "sm_emitted s' name = min limit (sm_emitted s1 name + length (bytes_of name cs))" using ih by blast
    have "concat ?parts = take (limit - sm_emitted s name) (bytes_of name (c # cs)) \<and> [] \<notin> set ?parts"
      using parts(1,2) e1(1) s(1) [of name] by (auto simp: b True min_def)
    moreover have "texts_of name ts = map utf8_decode_replace ?parts @ (if sm_truncated s' name \<and> \<not> sm_truncated s name then [truncation_marker] else [])"
    proof (cases "limit < sm_emitted s name + length chunk")
      case True
      then have "limit - sm_emitted s1 name = 0" "sm_truncated s1 name" "sm_truncated s' name" using e1 tr by auto
      with parts(1,2) have "parts = []" by (cases parts) auto
      with t s1(3) parts(3) True \<open>n = name\<close> \<open>sm_truncated s1 name\<close> \<open>sm_truncated s' name\<close> show ?thesis by simp
    next
      case False
      then have "sm_truncated s1 name = sm_truncated s name" using e1 by simp
      with False t s1(3) parts(3) True show ?thesis by simp
    qed
    moreover have "sm_emitted s' name = min limit (sm_emitted s name + length (bytes_of name (c # cs)))"
      using em e1(1) b by simp
    moreover have "sm_truncated s' name = (sm_truncated s name \<or> limit < sm_emitted s name + length (bytes_of name (c # cs)))"
      using tr e1 b by auto
    ultimately show ?thesis using ih by blast
  qed
qed

text \<open>What a program prints reaches the room once, in order and bounded: per stream the published texts
  decode the first \<open>limit\<close> bytes chunk by chunk, and one truncation marker follows exactly if there
  was more; the stored output is at most \<open>limit\<close> bytes, cut with the same marker, and text that fits
  is stored as it was printed.\<close>
lemma output_is_bounded:
  assumes "20 \<le> limit"
  shows "length (bounded_bytes limit data) \<le> limit \<and> length (bounded limit data) \<le> limit \<and>
    (\<forall>printed. utf8_encode printed = Some data \<and> length data \<le> limit \<longrightarrow> bounded limit data = printed) \<and>
    (\<exists>parts. concat parts = take limit (bytes_of name cs) \<and>
       texts_of name (snd (stream_chunks limit cs new_stream)) = map utf8_decode_replace parts @
         (if limit < length (bytes_of name cs) then [truncation_marker] else []))"
proof -
  obtain s' ts where run: "stream_chunks limit cs new_stream = (s', ts)" by fastforce
  have "stream_ok limit new_stream" by (simp add: stream_ok_def new_stream_def)
  from stream_chunks_props [OF this run, of name] have
    "\<exists>parts. concat parts = take limit (bytes_of name cs) \<and>
       texts_of name ts = map utf8_decode_replace parts @ (if limit < length (bytes_of name cs) then [truncation_marker] else [])"
    by (auto simp: new_stream_def)
  moreover have "utf8_encode printed = Some data \<and> length data \<le> limit \<longrightarrow> bounded limit data = printed" for printed
    using utf8_decode_replace_encode by (auto simp: bounded_def bounded_bytes_def)
  ultimately show ?thesis
    using assms bounded_bytes_length [of limit data] bounded_props(2) [of limit data] run by (simp add: max_def split: if_splits)
qed

lemma ascii_scalar: "ascii s \<Longrightarrow> list_all scalar s"
  by (induction s) (auto simp: scalar_def)

lemma str_of_uuid_ascii: "ascii (str_of_uuid u)"
proof -
  have h: "hex_char (n mod 16) < 128" for n by (simp add: hex_char_def) linarith
  have "ascii (to_hex k n)" for k n
    by (induction k n rule: to_hex.induct) (simp_all add: h)
  then show ?thesis by (fastforce simp: str_of_uuid_def Let_def pyslice_def dest!: in_set_takeD dest: in_set_dropD)
qed

section \<open>Events\<close>

text \<open>Rows hold text without surrogates, as PostgreSQL does, and the numbers of an exit.\<close>
definition row_printable :: "Execution \<Rightarrow> bool" where
  "row_printable x \<longleftrightarrow> pred_option (list_all scalar) (x_stdout x) \<and> pred_option (list_all scalar) (x_stderr x) \<and>
     pred_option (\<lambda>i. length (nat_digits (nat \<bar>i\<bar>)) \<le> max_int_digits) (x_exit_code x) \<and>
     pred_option (\<lambda>i. length (nat_digits (nat \<bar>i\<bar>)) \<le> max_int_digits) (x_elapsed_ms x)"

lemma uuid_scalar [simp]: "list_all scalar (str_of_uuid u)"
  by (rule ascii_scalar [OF str_of_uuid_ascii])

lemma status_text_scalar [simp]: "list_all scalar (py (status_value st))" "list_all scalar (py (stream_text name))"
  by (cases st; simp add: scalar_def) (cases name; simp add: scalar_def)

lemma status_event_fits: "row_printable x \<Longrightarrow> json_fits 1 (JObj (status_event x))"
  by (auto simp: status_event_def row_printable_def opt_str_def opt_int_def scalar_def split: option.splits)

lemma output_event_fits: "list_all scalar data \<Longrightarrow> json_fits 1 (JObj (output_event x name data))"
  by (simp add: output_event_def scalar_def)

lemma json_sorted_flat:
  assumes "\<And>k v. (k, v) \<in> set kvs \<Longrightarrow> json_fits 0 v"
  shows "json_sorted False (JObj kvs) = JObj kvs"
proof -
  have "json_sorted False v = v" if "json_fits 0 v" for v
    using that by (cases v) auto
  with assms show ?thesis by (auto simp: sorted_obj intro!: map_idI)
qed

lemma event_read_back:
  assumes "json_fits 1 (JObj ev)" "0 < json_depth J"
  shows "json_loads J True (event_text ev) = Inr (JObj ev)"
proof -
  have "json_fits d v" if "json_fits 0 v" for d v
    using that by (cases v) auto
  then have "json_fits (json_depth J) (JObj ev)" using assms by auto
  then have "json_loads J True (event_text ev) = Inr (json_sorted False (JObj ev))"
    unfolding event_text_def using json_loads_dumps [of J "JObj ev" "[32]" "[32]" True False] by (simp add: is_ws_def)
  moreover have "json_sorted False (JObj ev) = JObj ev" using assms(1) by (intro json_sorted_flat) auto
  ultimately show ?thesis by simp
qed

lemma worker_event_arrives:
  assumes "0 < json_depth J" "ev = status_event x \<and> row_printable x \<or> (\<exists>name data. ev = output_event x name data \<and> list_all scalar data)"
    and "text_of channel = event_channel x" "text_of payload = event_text ev"
  shows "validate_execution_event J channel payload = Inr (Some (str_of_uuid (x_session_id x), ev))"
proof -
  have "json_fits 1 (JObj ev)" using assms(2) status_event_fits output_event_fits by blast
  note read = event_read_back [OF this assms(1)]
  have "dget ev (py ''type'') \<in> {Some (JStr (py ''execution_status'')), Some (JStr (py ''execution_output''))}"
    "dget ev (py ''session_id'') = Some (JStr (str_of_uuid (x_session_id x)))"
    "dget ev (py ''execution_id'') = Some (JStr (str_of_uuid (x_id x)))"
    using assms(2) by (auto simp: status_event_def output_event_def)
  then show ?thesis
    using read assms(3,4) uuid_text by (auto simp: validate_execution_event_def event_channel_def Let_def)
qed

text \<open>C28: What the worker publishes arrives: for text or bytes, the relay takes a status or output event of the
  worker for what it is, and hands it to the rooms of exactly the execution's session, unchanged.\<close>
theorem published_events_arrive:
  assumes "0 < json_depth J" "ev = status_event x \<and> row_printable x \<or> (\<exists>name data. ev = output_event x name data \<and> list_all scalar data)"
    and "text_of channel = event_channel x" "text_of payload = event_text ev"
  shows "validate_execution_event J channel payload = Inr (Some (str_of_uuid (x_session_id x), ev))"
  by (rule worker_event_arrives [OF assms])

text \<open>Only well-formed events pass: the channel names a session by a UUID, the event is one of the two types,
  is meant for that session and names an execution.\<close>
lemma validated_events_are_bound:
  "validate_execution_event J channel payload = Inr (Some (sid, ev)) \<longleftrightarrow>
     text_of channel = EXECUTION_EVENT_CHANNEL_PREFIX @ sid \<and> uuid_of_str sid \<noteq> None \<and>
     json_loads J True (text_of payload) = Inr (JObj ev) \<and>
     dget ev (py ''type'') \<in> {Some (JStr (py ''execution_status'')), Some (JStr (py ''execution_output''))} \<and>
     dget ev (py ''session_id'') = Some (JStr sid) \<and> uuid_of_json (dget ev (py ''execution_id'')) \<noteq> None"
  (is "?v = _ \<longleftrightarrow> ?bound")
proof
  show ?bound if v: "?v = Inr (Some (sid, ev))"
  proof -
    let ?n = "length EXECUTION_EVENT_CHANNEL_PREFIX"
    have p: "take ?n (text_of channel) = EXECUTION_EVENT_CHANNEL_PREFIX" "drop ?n (text_of channel) = sid"
      using v by (auto simp: validate_execution_event_def Let_def split: if_splits sum.splits json.splits json_error.splits)
    then have "text_of channel = EXECUTION_EVENT_CHANNEL_PREFIX @ sid" by (metis append_take_drop_id)
    moreover have "uuid_of_str sid \<noteq> None \<and> json_loads J True (text_of payload) = Inr (JObj ev) \<and>
     dget ev (py ''type'') \<in> {Some (JStr (py ''execution_status'')), Some (JStr (py ''execution_output''))} \<and>
     dget ev (py ''session_id'') = Some (JStr sid) \<and> uuid_of_json (dget ev (py ''execution_id'')) \<noteq> None"
      using v p by (auto simp: validate_execution_event_def Let_def split: if_splits sum.splits json.splits json_error.splits)
    ultimately show ?thesis by blast
  qed
  show "?v = Inr (Some (sid, ev))" if ?bound
    using that by (auto simp: validate_execution_event_def Let_def)
qed

definition sample_execution :: Execution where
  "sample_execution = \<lparr>x_id = 9, x_session_id = 7, x_triggered_by = Some 2, x_status = COMPLETED, x_code = py ''1'',
     x_language = python, x_stdout = Some (py ''1''), x_stderr = Some [], x_exit_code = Some 0, x_elapsed_ms = Some 12,
     x_created_at = 0, x_finished_at = Some 5\<rparr>"

theorem published_events_arrive_witness:
  "validate_execution_event sample_env (Bytes (map of_nat (event_channel sample_execution))) (Str (event_text (status_event sample_execution)))
     = Inr (Some (str_of_uuid 7, status_event sample_execution))"
proof -
  have "ascii (event_channel sample_execution)"
    using str_of_uuid_ascii by (auto simp: event_channel_def EXECUTION_EVENT_CHANNEL_PREFIX_def)
  then have "utf8_decode_replace (map of_nat (event_channel sample_execution)) = event_channel sample_execution"
    by (intro utf8_decode_replace_encode utf8_ascii)
  moreover have "row_printable sample_execution"
    by (simp add: row_printable_def sample_execution_def scalar_def max_int_digits_def nat_digits.simps)
  moreover have "x_session_id sample_execution = 7" by (simp add: sample_execution_def)
  ultimately show ?thesis
    using published_events_arrive [of sample_env "status_event sample_execution" sample_execution
        "Bytes (map of_nat (event_channel sample_execution))" "Str (event_text (status_event sample_execution))"]
    by (simp add: sample_env_def)
qed

text \<open>One malformed message ends the relay: an event whose type is a list or an object raises \<open>TypeError\<close> in
  the set lookup, outside every \<open>try\<close>; the exception is not one the loop retries, so no later event
  reaches a room.\<close>
lemma unhashable_type_ends_relay:
  assumes "text_of (pm_channel m) = EXECUTION_EVENT_CHANNEL_PREFIX @ sid" "uuid_of_str sid \<noteq> None"
    and "json_loads J True (text_of (pm_data m)) = Inr (JObj ev)" "dget ev (py ''type'') = Some (JArr vs)"
    and "pm_type m = py ''pmessage''"
  shows "relay J (Some m # ms) = ([], Some Unhashable_type)"
  using assms by (auto simp: validate_execution_event_def Let_def)

lemma unhashable_type_ends_sample_relay:
  "relay sample_env (Some \<lparr>pm_type = py ''pmessage'', pm_channel = Str (event_channel sample_execution),
       pm_data = Str (event_text [(py ''type'', JArr [])])\<rparr> # [None]) = ([], Some Unhashable_type)"
proof -
  have "json_loads sample_env True (event_text [(py ''type'', JArr [])]) = Inr (JObj [(py ''type'', JArr [])])"
    unfolding event_text_def
    using json_loads_dumps [of sample_env "JObj [(py ''type'', JArr [])]" "[32]" "[32]" True False]
    by (simp add: sample_env_def is_ws_def scalar_def sorted_obj)
  then show ?thesis
    by (intro unhashable_type_ends_relay [where sid = "str_of_uuid 7" and ev = "[(py ''type'', JArr [])]" and vs = "[]"])
      (simp_all add: event_channel_def sample_execution_def uuid_text)
qed

text \<open>Keys of different executions differ, so a cancellation signal reaches one job.\<close>
lemma cancellation_key_inj: "cancellation_key i = cancellation_key j \<longleftrightarrow> i = j"
  using uuid_text_roundtrip [of i j] by (simp add: cancellation_key_def)

end
