(* ===== verification/Worker.thy ===== *)
theory Worker
  imports Jobs
begin

text \<open>
  The execution worker of \<open>backend/app/execution/worker.py\<close> with the requests of
  \<open>backend/app/execution/service.py\<close> that share its rows and queue, as one state machine: every
  \<open>await\<close> of \<open>run\<close>, \<open>process\<close>, \<open>_create_container\<close>, \<open>_monitor\<close>, \<open>_recover_processing\<close>, of the stream task and of the
  service functions is a phase, and an event says how the awaited call ended. Requests, the
  stream task, the expiry of Redis keys and the death of the worker interleave freely.

  A row transaction (\<open>SELECT ... FOR UPDATE\<close> up to its commit) is one step; only \<open>cancel_execution\<close> awaits
  Redis inside one, so it holds a row lock in the model. One worker process runs at a time, as
  deployed. Docker is a set of resources by execution.
\<close>

section \<open>State\<close>

record worker_env =
  we_output_limit :: nat
  we_timeout :: real
  we_memory_limit :: string
  we_cpu_limit :: int
  we_pids_limit :: int

text \<open>The options of the container that runs the user's code.\<close>
record sandbox =
  sb_image :: string
  sb_command :: "string list"
  sb_network_disabled :: bool
  sb_network_mode :: string
  sb_mem_limit :: string
  sb_memswap_limit :: string
  sb_nano_cpus :: int
  sb_pids_limit :: int
  sb_read_only :: bool
  sb_user :: string
  sb_cap_drop :: "string list"
  sb_security_opt :: "string list"
  sb_code_mode :: string

definition sandbox_of :: "worker_env \<Rightarrow> Execution \<Rightarrow> sandbox" where
  "sandbox_of E x =
     \<lparr>sb_image = rt_image (RUNTIMES (x_language x)), sb_command = rt_command (RUNTIMES (x_language x)),
      sb_network_disabled = True, sb_network_mode = ''none'',
      sb_mem_limit = we_memory_limit E, sb_memswap_limit = we_memory_limit E,
      sb_nano_cpus = we_cpu_limit E * 1000000000, sb_pids_limit = we_pids_limit E,
      sb_read_only = True, sb_user = ''65534:65534'', sb_cap_drop = [''ALL''],
      sb_security_opt = [''no-new-privileges:true''], sb_code_mode = ''ro''\<rparr>"

datatype resource = Volume uuid | Writer uuid string | Runner uuid sandbox

datatype stream_task = Streaming Execution stream "(stream_name \<times> pystr) list" | Stream_done | Stream_error pystr

record job =
  jb_raw :: pystr
  jb_execution :: Execution
  jb_started :: real
  jb_sandbox :: bool

datatype j_phase =
    J_image | J_volume | J_writer | J_archive | J_unwriter "pystr option" | J_unvolume pystr | J_runner
  | J_launch | J_run | J_run_publish Execution | J_kill_lost
  | J_exists real | J_reload real | J_sleep real | J_kill ExecutionStatus
  | J_wait "ExecutionStatus option" | J_join "ExecutionStatus option" int
  | J_stdout "ExecutionStatus option" int | J_stderr "ExecutionStatus option" int pystr
  | J_finish ExecutionStatus pystr pystr int int | J_finish_publish Execution
  | J_fail pystr int | J_fail_publish Execution
  | J_delete_key bool | J_cleanup bool

datatype w_phase =
    W_stopped | W_orphans | W_lrange | W_recover "pystr list" | W_recover_publish pystr Execution "pystr list"
  | W_recover_ack pystr "pystr list" | W_idle
  | W_start pystr uuid | W_start_publish pystr Execution | W_job job j_phase | W_ack pystr bool

datatype job_request = Rq_refresh Execution | Rq_enqueue Execution | Rq_discard Execution | Rq_signal Execution | Rq_commit Execution

record exec_world =
  ew_db :: database
  ew_redis :: redis
  ew_locks :: "uuid \<rightharpoonup> nat"
  ew_requests :: "nat \<rightharpoonup> job_request"
  ew_results :: "nat \<rightharpoonup> http_exception + Execution"
  ew_docker :: "resource list"
  ew_worker :: w_phase
  ew_stream :: "stream_task option"
  ew_ids :: "uuid set"

text \<open>How an awaited call of the worker ended and what it brought: the clocks behind it, the text of the
  exception, whether the container has exited, its exit code and logs, and the resources whose
  removal failed. \<open>ew_ids\<close> above are the identifiers \<open>uuid4\<close> has drawn; it does not draw one twice.\<close>
record w_input =
  wi_io :: io
  wi_error :: pystr
  wi_clock :: real
  wi_now :: datetime
  wi_exited :: bool
  wi_code :: int
  wi_logs :: bytes
  wi_kept :: "resource list"

datatype job_event =
    Submit nat uuid datetime uuid uuid pystr LanguageEnum io
  | Cancel nat uuid uuid datetime io
  | Request nat io datetime
  | Start
  | Kill
  | Worker w_input
  | Chunk stream_name bytes
  | Chunk_publish io pystr
  | Chunk_end
  | Expire uuid

definition new_world :: "database \<Rightarrow> exec_world" where
  "new_world db = \<lparr>ew_db = db, ew_redis = empty_redis, ew_locks = Map.empty, ew_requests = Map.empty,
     ew_results = Map.empty, ew_docker = [], ew_worker = W_stopped, ew_stream = None,
     ew_ids = fst ` set (db_executions db)\<rparr>"

section \<open>Requests\<close>

text \<open>What a call leaves behind that may have failed with or without effect.\<close>
abbreviation redis_call :: "exec_world \<Rightarrow> io \<Rightarrow> (redis \<Rightarrow> redis) \<Rightarrow> exec_world" where
  "redis_call w io f \<equiv> w\<lparr>ew_redis := (if takes_effect io then f (ew_redis w) else ew_redis w)\<rparr>"

abbreviation commit :: "exec_world \<Rightarrow> io \<Rightarrow> database \<Rightarrow> exec_world" where
  "commit w io db \<equiv> w\<lparr>ew_db := (if takes_effect io then db else ew_db w)\<rparr>"

abbreviation docker_call :: "exec_world \<Rightarrow> io \<Rightarrow> (resource list \<Rightarrow> resource list) \<Rightarrow> exec_world" where
  "docker_call w io f \<equiv> w\<lparr>ew_docker := (if takes_effect io then f (ew_docker w) else ew_docker w)\<rparr>"

text \<open>An exception ends a request; the endpoint turns the service's errors into responses.\<close>
definition end_job_request :: "exec_world \<Rightarrow> nat \<Rightarrow> (http_exception + Execution) \<Rightarrow> exec_world" where
  "end_job_request w n r = w\<lparr>ew_requests := (ew_requests w)(n := None), ew_results := (ew_results w)(n \<mapsto> r)\<rparr>"

abbreviation set_job_request :: "exec_world \<Rightarrow> nat \<Rightarrow> job_request \<Rightarrow> exec_world" where
  "set_job_request w n q \<equiv> w\<lparr>ew_requests := (ew_requests w)(n \<mapsto> q)\<rparr>"

definition submit :: "exec_world \<Rightarrow> nat \<Rightarrow> uuid \<Rightarrow> datetime \<Rightarrow> uuid \<Rightarrow> uuid \<Rightarrow> pystr \<Rightarrow> LanguageEnum \<Rightarrow> io \<Rightarrow> exec_world" where
  "submit w n new_id now session_id user code language io =
     (if ew_requests w n \<noteq> None \<or> ew_results w n \<noteq> None \<or> new_id \<in> ew_ids w then w
      else let w = w\<lparr>ew_ids := insert new_id (ew_ids w)\<rparr>
        in case insert_execution new_id now (ew_db w) session_id user code language of
             None \<Rightarrow> end_job_request w n (Inl Internal_server_error)
           | Some (x, db) \<Rightarrow>
               let w = commit w io db
               in if io = Io_ok then set_job_request w n (Rq_refresh x)
                  else end_job_request w n (Inl Internal_server_error))"

text \<open>\<open>cancel_execution\<close> behind the role check and inside the room lock; a locked row makes it wait.\<close>
definition cancel :: "exec_world \<Rightarrow> nat \<Rightarrow> uuid \<Rightarrow> uuid \<Rightarrow> datetime \<Rightarrow> io \<Rightarrow> exec_world" where
  "cancel w n session_id execution_id now io =
     (if ew_requests w n \<noteq> None \<or> ew_results w n \<noteq> None \<or> ew_locks w execution_id \<noteq> None then w
      else case check_cancel (ew_db w) session_id execution_id of
        Inl e \<Rightarrow> end_job_request w n (Inl (if io = Io_ok then raise_execution_error e else Internal_server_error))
      | Inr x \<Rightarrow>
          if x_status x = RUNNING then
            (if io = Io_ok then set_job_request (w\<lparr>ew_locks := (ew_locks w)(execution_id \<mapsto> n)\<rparr>) n (Rq_signal x)
             else end_job_request w n (Inl Internal_server_error))
          else case commit_cancel now x (ew_db w) of
            Inl _ \<Rightarrow> end_job_request w n (Inl Internal_server_error)
          | Inr (x, db) \<Rightarrow>
              end_job_request (commit w io db) n
                (if io = Io_ok then Inr x else Inl Internal_server_error))"

definition unlock_row :: "exec_world \<Rightarrow> uuid \<Rightarrow> exec_world" where
  "unlock_row w execution_id = w\<lparr>ew_locks := (ew_locks w)(execution_id := None)\<rparr>"

definition continue_request :: "exec_world \<Rightarrow> nat \<Rightarrow> job_request \<Rightarrow> io \<Rightarrow> datetime \<Rightarrow> exec_world" where
  "continue_request w n q io now =
     (case q of
        Rq_refresh x \<Rightarrow>
          if io = Io_ok then set_job_request w n (Rq_enqueue x) else end_job_request w n (Inl Internal_server_error)
      | Rq_enqueue x \<Rightarrow>
          let w = redis_call w io (enqueue (x_id x))
          in if io = Io_ok then end_job_request w n (Inr x) else set_job_request w n (Rq_discard x)
      | Rq_discard x \<Rightarrow>
          if ew_locks w (x_id x) \<noteq> None then w
          else end_job_request (commit w io (delete_execution (x_id x) (ew_db w))) n
                 (Inl (if io = Io_ok then raise_execution_error (ExecutionQueueError ''Execution queue is unavailable'')
                       else Internal_server_error))
      | Rq_signal x \<Rightarrow>
          let w = redis_call w io (request_cancellation (x_id x))
          in if io = Io_ok then set_job_request w n (Rq_commit x)
             else end_job_request (unlock_row w (x_id x)) n
                    (Inl (raise_execution_error (ExecutionQueueError ''Cancellation service is unavailable'')))
      | Rq_commit x \<Rightarrow>
          (case commit_cancel now x (ew_db w) of
             Inl _ \<Rightarrow> end_job_request (unlock_row w (x_id x)) n (Inl Internal_server_error)
           | Inr (x, db) \<Rightarrow>
               end_job_request (unlock_row (commit w io db) (x_id x)) n
                 (if io = Io_ok then Inr x else Inl Internal_server_error)))"


section \<open>The worker\<close>

abbreviation to_phase :: "exec_world \<Rightarrow> w_phase \<Rightarrow> exec_world" where
  "to_phase w p \<equiv> w\<lparr>ew_worker := p\<rparr>"

definition elapsed_ms :: "job \<Rightarrow> w_input \<Rightarrow> int" where
  "elapsed_ms j i = \<lfloor>(wi_clock i - jb_started j) * 1000\<rfloor>"

text \<open>The \<open>except\<close> of \<open>process\<close> for an exception with text \<open>e\<close>, and the step from one call in the \<open>try\<close> to the next.\<close>
definition failing :: "exec_world \<Rightarrow> job \<Rightarrow> w_input \<Rightarrow> pystr \<Rightarrow> exec_world" where
  "failing w j i e = to_phase w (W_job j (J_fail e (elapsed_ms j i)))"

definition then_phase :: "exec_world \<Rightarrow> job \<Rightarrow> w_input \<Rightarrow> j_phase \<Rightarrow> exec_world" where
  "then_phase w j i p = (if wi_io i = Io_ok then to_phase w (W_job j p) else failing w j i (wi_error i))"

text \<open>The calls of \<open>_create_container\<close>.\<close>
definition create_step :: "worker_env \<Rightarrow> w_input \<Rightarrow> exec_world \<Rightarrow> job \<Rightarrow> j_phase \<Rightarrow> exec_world" where
  "create_step E i w j p =
     (let x = jb_execution j; xid = x_id x; io = wi_io i; runtime = RUNTIMES (x_language x) in
      case p of
        J_image \<Rightarrow> then_phase w j i J_volume
      | J_volume \<Rightarrow> then_phase (docker_call w io (List.insert (Volume xid))) j i J_writer
      | J_writer \<Rightarrow>
          let w = docker_call w io (List.insert (Writer xid (rt_image runtime)))
          in to_phase w (W_job j (if io = Io_ok then J_archive else J_unvolume (wi_error i)))
      | J_archive \<Rightarrow>
          to_phase w (W_job j (J_unwriter
            (if io = Io_ok \<and> utf8_encode (x_code x) \<noteq> None then None else Some (wi_error i))))
      | J_unwriter pending \<Rightarrow>
          let w = docker_call w io (removeAll (Writer xid (rt_image runtime)))
          in to_phase w (W_job j (if io \<noteq> Io_ok then J_unvolume (wi_error i)
               else case pending of None \<Rightarrow> J_runner | Some e \<Rightarrow> J_unvolume e))
      | J_unvolume e \<Rightarrow>
          failing (docker_call w io (removeAll (Volume xid))) j i (if io = Io_ok then e else wi_error i)
      | J_runner \<Rightarrow>
          let w = docker_call w io (List.insert (Runner xid (sandbox_of E x)))
          in if io = Io_ok then to_phase (w\<lparr>ew_stream := Some (Streaming x new_stream [])\<rparr>) (W_job (j\<lparr>jb_sandbox := True\<rparr>) J_launch)
             else to_phase w (W_job j (J_unvolume (wi_error i)))
      | _ \<Rightarrow> w)"

text \<open>The calls of \<open>_monitor\<close>.\<close>
definition monitor_step :: "w_input \<Rightarrow> exec_world \<Rightarrow> job \<Rightarrow> j_phase \<Rightarrow> exec_world" where
  "monitor_step i w j p =
     (case p of
        J_exists deadline \<Rightarrow>
          then_phase w j i
            (if rd_keys (ew_redis w) (cancellation_key (x_id (jb_execution j))) \<noteq> None then J_kill CANCELLED else J_reload deadline)
      | J_reload deadline \<Rightarrow>
          then_phase w j i
            (if wi_exited i then J_wait None else if deadline \<le> wi_clock i then J_kill TIMEOUT else J_sleep deadline)
      | J_sleep deadline \<Rightarrow> to_phase w (W_job j (J_exists deadline))
      | J_kill forced \<Rightarrow> then_phase w j i (J_wait (Some forced))
      | _ \<Rightarrow> w)"

text \<open>Behind the monitor: the result, the logs, the final transition.\<close>
definition result_step :: "worker_env \<Rightarrow> w_input \<Rightarrow> exec_world \<Rightarrow> job \<Rightarrow> j_phase \<Rightarrow> exec_world" where
  "result_step E i w j p =
     (let xid = x_id (jb_execution j); io = wi_io i; limit = we_output_limit E in
      case p of
        J_wait forced \<Rightarrow> then_phase w j i (J_join forced (wi_code i))
      | J_join forced code \<Rightarrow>
          (case ew_stream w of
             Some (Streaming _ _ _) \<Rightarrow> w
           | Some (Stream_error e) \<Rightarrow> failing w j i e
           | _ \<Rightarrow> to_phase w (W_job j (J_stdout forced code)))
      | J_stdout forced code \<Rightarrow> then_phase w j i (J_stderr forced code (bounded limit (wi_logs i)))
      | J_stderr forced code out \<Rightarrow>
          then_phase w j i (J_finish
            (case forced of Some target \<Rightarrow> target | None \<Rightarrow> if code = 0 then COMPLETED else FAILED)
            out (bounded limit (wi_logs i)) code (elapsed_ms j i))
      | J_finish target out err code ms \<Rightarrow>
          if ew_locks w xid \<noteq> None then w
          else (case finish_row (ew_db w) xid target out err (Some code) ms (wi_now i) of
             Inl _ \<Rightarrow> failing w j i (wi_error i)
           | Inr None \<Rightarrow> then_phase w j i (J_delete_key False)
           | Inr (Some (x, db)) \<Rightarrow> then_phase (commit w io db) j i (J_finish_publish x))
      | J_finish_publish x \<Rightarrow> then_phase (redis_call w io (publish_status x)) j i (J_delete_key False)
      | J_fail e ms \<Rightarrow>
          if ew_locks w xid \<noteq> None then w
          else (case finish_row (ew_db w) xid FAILED [] e None ms (wi_now i) of
             Inl _ \<Rightarrow> to_phase w (W_job j (J_delete_key True))
           | Inr None \<Rightarrow> to_phase w (W_job j (J_delete_key (io \<noteq> Io_ok)))
           | Inr (Some (x, db)) \<Rightarrow>
               to_phase (commit w io db) (W_job j (if io = Io_ok then J_fail_publish x else J_delete_key True)))
      | J_fail_publish x \<Rightarrow>
          to_phase (redis_call w io (publish_status x)) (W_job j (J_delete_key (io \<noteq> Io_ok)))
      | _ \<Rightarrow> w)"

definition job_step :: "worker_env \<Rightarrow> w_input \<Rightarrow> exec_world \<Rightarrow> job \<Rightarrow> j_phase \<Rightarrow> exec_world" where
  "job_step E i w j p =
     (let x = jb_execution j; xid = x_id x; io = wi_io i in
      case p of
        J_launch \<Rightarrow> then_phase w j i J_run
      | J_run \<Rightarrow>
          if ew_locks w xid \<noteq> None then w
          else (case transition_row (ew_db w) xid STARTING RUNNING of
             Inl _ \<Rightarrow> failing w j i (wi_error i)
           | Inr None \<Rightarrow> then_phase w j i J_kill_lost
           | Inr (Some (x, db)) \<Rightarrow> then_phase (commit w io db) j i (J_run_publish x))
      | J_run_publish x \<Rightarrow>
          then_phase (redis_call w io (publish_status x)) j i (J_exists (wi_clock i + we_timeout E))
      | J_kill_lost \<Rightarrow> then_phase w j i (J_delete_key False)
      | J_delete_key raised \<Rightarrow>
          let w = redis_call w io (\<lambda>r. r\<lparr>rd_keys := (rd_keys r)(cancellation_key xid := None)\<rparr>)
          in if io = Io_ok then to_phase w (W_job j (J_cleanup raised)) else to_phase w (W_ack (jb_raw j) True)
      | J_cleanup raised \<Rightarrow>
          to_phase (w\<lparr>ew_stream := None,
              ew_docker := (if jb_sandbox j
                then filter (\<lambda>r. r \<in> set (wi_kept i) \<or> r \<notin> set [Runner xid (sandbox_of E x), Volume xid]) (ew_docker w)
                else ew_docker w)\<rparr>)
            (W_ack (jb_raw j) raised)
      | J_finish _ _ _ _ _ \<Rightarrow> result_step E i w j p
      | J_finish_publish _ \<Rightarrow> result_step E i w j p
      | J_fail _ _ \<Rightarrow> result_step E i w j p
      | J_fail_publish _ \<Rightarrow> result_step E i w j p
      | J_wait _ \<Rightarrow> result_step E i w j p
      | J_join _ _ \<Rightarrow> result_step E i w j p
      | J_stdout _ _ \<Rightarrow> result_step E i w j p
      | J_stderr _ _ _ \<Rightarrow> result_step E i w j p
      | J_exists _ \<Rightarrow> monitor_step i w j p
      | J_reload _ \<Rightarrow> monitor_step i w j p
      | J_sleep _ \<Rightarrow> monitor_step i w j p
      | J_kill _ \<Rightarrow> monitor_step i w j p
      | _ \<Rightarrow> create_step E i w j p)"

abbreviation next_item :: "pystr list \<Rightarrow> w_phase" where
  "next_item items \<equiv> (if items = [] then W_idle else W_recover items)"

text \<open>\<open>_recover_processing\<close>: one claimed item.\<close>
definition recover_step :: "w_input \<Rightarrow> exec_world \<Rightarrow> pystr \<Rightarrow> pystr list \<Rightarrow> exec_world" where
  "recover_step i w raw items =
     (let io = wi_io i in
      case uuid_of_str raw of
        None \<Rightarrow> to_phase (redis_call w io (lrem EXECUTION_PROCESSING_QUEUE_KEY raw)) (if io = Io_ok then next_item items else W_stopped)
      | Some xid \<Rightarrow>
          if ew_locks w xid \<noteq> None then w
          else (case dget (db_executions (ew_db w)) xid of
             None \<Rightarrow> to_phase w (if io = Io_ok then W_recover_ack raw items else W_stopped)
           | Some x \<Rightarrow>
               if x_status x = QUEUED
               then to_phase (redis_call w io (rpush EXECUTION_QUEUE_KEY raw)) (if io = Io_ok then W_recover_ack raw items else W_stopped)
               else if x_status x \<in> set [STARTING, RUNNING] then
                 (case recover_row (ew_db w) x (wi_now i) of
                    Inl _ \<Rightarrow> to_phase w W_stopped
                  | Inr (x, db) \<Rightarrow>
                      to_phase (commit w io db) (if io = Io_ok then W_recover_publish raw x items else W_stopped))
               else if io \<noteq> Io_ok then to_phase w W_stopped
               else if x_status x = FAILED then to_phase w (W_recover_publish raw x items)
               else to_phase w (W_recover_ack raw items)))"

text \<open>An exception that leaves \<open>run\<close> ends the process; \<open>blmove\<close> alone is retried when the connection fails.\<close>
definition w_step :: "worker_env \<Rightarrow> w_input \<Rightarrow> exec_world \<Rightarrow> exec_world" where
  "w_step E i w =
     (let io = wi_io i in
      case ew_worker w of
        W_stopped \<Rightarrow> w
      | W_orphans \<Rightarrow>
          to_phase (w\<lparr>ew_docker := filter (\<lambda>r. r \<in> set (wi_kept i)) (ew_docker w)\<rparr>) (if io = Io_ok then W_lrange else W_stopped)
      | W_lrange \<Rightarrow>
          to_phase w (if io = Io_ok then next_item (rd_lists (ew_redis w) EXECUTION_PROCESSING_QUEUE_KEY) else W_stopped)
      | W_recover [] \<Rightarrow> to_phase w W_idle
      | W_recover (raw # items) \<Rightarrow> recover_step i w raw items
      | W_recover_publish raw x items \<Rightarrow>
          to_phase (redis_call w io (publish_status x)) (if io = Io_ok then W_recover_ack raw items else W_stopped)
      | W_recover_ack raw items \<Rightarrow>
          to_phase (redis_call w io (lrem EXECUTION_PROCESSING_QUEUE_KEY raw)) (if io = Io_ok then next_item items else W_stopped)
      | W_idle \<Rightarrow>
          (case rd_lists (ew_redis w) EXECUTION_QUEUE_KEY of
             [] \<Rightarrow> w
           | raw # _ \<Rightarrow>
               let w = redis_call w io (blmove EXECUTION_QUEUE_KEY EXECUTION_PROCESSING_QUEUE_KEY)
               in if io \<noteq> Io_ok then w
                  else to_phase w (case uuid_of_str raw of None \<Rightarrow> W_ack raw False | Some xid \<Rightarrow> W_start raw xid))
      | W_start raw xid \<Rightarrow>
          if ew_locks w xid \<noteq> None then w
          else (case transition_row (ew_db w) xid QUEUED STARTING of
             Inl _ \<Rightarrow> to_phase w (W_ack raw True)
           | Inr None \<Rightarrow> to_phase w (W_ack raw (io \<noteq> Io_ok))
           | Inr (Some (x, db)) \<Rightarrow>
               to_phase (commit w io db) (if io = Io_ok then W_start_publish raw x else W_ack raw True))
      | W_start_publish raw x \<Rightarrow>
          to_phase (redis_call w io (publish_status x))
            (if io = Io_ok then W_job \<lparr>jb_raw = raw, jb_execution = x, jb_started = wi_clock i, jb_sandbox = False\<rparr> J_image
             else W_ack raw True)
      | W_job j p \<Rightarrow> job_step E i w j p
      | W_ack raw raised \<Rightarrow>
          let w = redis_call w io (lrem EXECUTION_PROCESSING_QUEUE_KEY raw)
          in if io = Io_ok \<and> \<not> raised then to_phase w W_idle else to_phase (w\<lparr>ew_stream := None\<rparr>) W_stopped)"

definition stream_step :: "worker_env \<Rightarrow> exec_world \<Rightarrow> job_event \<Rightarrow> exec_world" where
  "stream_step E w ev =
     (case (ew_stream w, ev) of
        (Some (Streaming x s []), Chunk name data) \<Rightarrow>
          if data = [] then w
          else (case stream_chunk (we_output_limit E) name data s of
            (s, texts) \<Rightarrow> w\<lparr>ew_stream := Some (Streaming x s (map (Pair name) texts))\<rparr>)
      | (Some (Streaming x s []), Chunk_end) \<Rightarrow> w\<lparr>ew_stream := Some Stream_done\<rparr>
      | (Some (Streaming x s ((name, data) # rest)), Chunk_publish io e) \<Rightarrow>
          (redis_call w io (publish_output x name data))\<lparr>ew_stream :=
             Some (if io = Io_ok then Streaming x s rest else Stream_error e)\<rparr>
      | _ \<Rightarrow> w)"

definition exec_step :: "worker_env \<Rightarrow> exec_world \<Rightarrow> job_event \<Rightarrow> exec_world" where
  "exec_step E w ev =
     (case ev of
        Submit n new_id now session_id user code language io \<Rightarrow> submit w n new_id now session_id user code language io
      | Cancel n session_id execution_id now io \<Rightarrow> cancel w n session_id execution_id now io
      | Request n io now \<Rightarrow> (case ew_requests w n of None \<Rightarrow> w | Some q \<Rightarrow> continue_request w n q io now)
      | Start \<Rightarrow> if ew_worker w = W_stopped then to_phase w W_orphans else w
      | Kill \<Rightarrow> w\<lparr>ew_worker := W_stopped, ew_stream := None\<rparr>
      | Worker i \<Rightarrow> w_step E i w
      | Expire xid \<Rightarrow> w\<lparr>ew_redis := (ew_redis w)\<lparr>rd_keys := (rd_keys (ew_redis w))(cancellation_key xid := None)\<rparr>\<rparr>
      | _ \<Rightarrow> stream_step E w ev)"

end
