(* ===== verification/JobOrder.thy ===== *)
theory JobOrder
  imports Worker
begin

text \<open>
  The order in which executions move, whatever fails: every step of the worker, the requests and
  the stream task keeps the tables consistent, moves the status of a row only along the
  transitions of the model, changes nothing that was submitted, and never gives a deleted
  execution another row. A cancel request that awaits Redis holds its row as it read it.
\<close>

section \<open>Rows only move forward\<close>

definition later :: "ExecutionStatus \<Rightarrow> ExecutionStatus \<Rightarrow> bool" where
  "later st st' \<longleftrightarrow> st = st' \<or> stage st < stage st'"

lemma later_terminal: "later st st' \<Longrightarrow> terminal st \<Longrightarrow> st' = st"
  using stage_bound [of st'] by (cases st) (auto simp: later_def terminal_iff)

lemma later_refl [simp]: "later st st" by (simp add: later_def)

lemma later_trans: "later a b \<Longrightarrow> later b c \<Longrightarrow> later a c"
  by (auto simp: later_def)

text \<open>A row keeps what was submitted, and its status only moves on.\<close>
definition row_below :: "Execution \<Rightarrow> Execution \<Rightarrow> bool" where
  "row_below x y \<longleftrightarrow> x_id y = x_id x \<and> x_session_id y = x_session_id x \<and> x_triggered_by y = x_triggered_by x \<and>
     x_code y = x_code x \<and> x_language y = x_language x \<and> x_created_at y = x_created_at x \<and> later (x_status x) (x_status y)"

lemma row_below_refl [simp]: "row_below x x" by (simp add: row_below_def)

lemma row_below_trans: "row_below x y \<Longrightarrow> row_below y z \<Longrightarrow> row_below x z"
  by (auto simp: row_below_def intro: later_trans)

abbreviation rows :: "exec_world \<Rightarrow> uuid \<Rightarrow> Execution option" where
  "rows w \<equiv> dget (db_executions (ew_db w))"

lemma transition_below: "transition_to x st = Inr y \<Longrightarrow> row_below x y"
  by (auto simp: transition_to_Inr row_below_def later_def dest: transition_forward)

lemma transition_row_Some:
  assumes "transition_row db xid expected target = Inr (Some (y, db'))"
  obtains x where "dget (db_executions db) xid = Some x" "x_status x = expected" "target \<in> set (VALID_TRANSITIONS expected)"
    "y = x\<lparr>x_status := target\<rparr>" "db' = set_execution y db"
  using assms by (auto simp: transition_row_def transition_to_Inr rbind_Inr_iff split: option.splits if_splits)

lemma finish_row_Some:
  assumes "finish_row db xid target out err code ms now = Inr (Some (y, db'))"
  obtains x st where "dget (db_executions db) xid = Some x" "db' = set_execution y db"
    "if x_status x = CANCELLED then st = CANCELLED else target \<in> set (VALID_TRANSITIONS (x_status x)) \<and> st = target"
    "y = x\<lparr>x_status := st, x_stdout := Some out, x_stderr := Some err, x_exit_code := code, x_elapsed_ms := Some ms,
       x_finished_at := Some now\<rparr>"
  using assms by (fastforce simp: finish_row_def transition_to_Inr rbind_Inr_iff Let_def split: option.splits if_splits)

lemma recover_row_Inr:
  assumes "recover_row db x now = Inr (y, db')"
  shows "FAILED \<in> set (VALID_TRANSITIONS (x_status x))" "db' = set_execution y db"
    "y = x\<lparr>x_status := FAILED, x_stderr := Some (py ''Execution worker restarted before completion.''), x_finished_at := Some now\<rparr>"
  using assms by (auto simp: recover_row_def transition_to_Inr rbind_Inr_iff Let_def)

lemma commit_cancel_Inr:
  assumes "commit_cancel now x db = Inr (y, db')"
  shows "CANCELLED \<in> set (VALID_TRANSITIONS (x_status x))" "db' = set_execution y db"
    "y = x\<lparr>x_status := CANCELLED, x_finished_at := Some now\<rparr>"
  using assms by (auto simp: commit_cancel_def transition_to_Inr rbind_Inr_iff Let_def)

lemma status_below: "st \<in> set (VALID_TRANSITIONS (x_status x)) \<Longrightarrow> row_below x (x\<lparr>x_status := st, x_finished_at := t\<rparr>)"
  by (auto simp: row_below_def later_def dest: transition_forward)

text \<open>The world outside the worker stays, and of the rows one that is not locked may move.\<close>
definition worker_moves :: "exec_world \<Rightarrow> exec_world \<Rightarrow> bool" where
  "worker_moves w w' \<longleftrightarrow>
     ew_locks w' = ew_locks w \<and> ew_requests w' = ew_requests w \<and> ew_results w' = ew_results w \<and> ew_ids w' = ew_ids w \<and>
     (ew_db w' = ew_db w \<or>
      (\<exists>xid x y. rows w xid = Some x \<and> ew_locks w xid = None \<and> row_below x y \<and> (x_id x = xid \<longrightarrow> ew_db w' = set_execution y (ew_db w))))"

lemma moves_same:
  "ew_locks w' = ew_locks w \<Longrightarrow> ew_requests w' = ew_requests w \<Longrightarrow> ew_results w' = ew_results w \<Longrightarrow> ew_ids w' = ew_ids w \<Longrightarrow>
   ew_db w' = ew_db w \<Longrightarrow> worker_moves w w'"
  by (simp add: worker_moves_def)

lemma moves_row:
  "ew_locks w' = ew_locks w \<Longrightarrow> ew_requests w' = ew_requests w \<Longrightarrow> ew_results w' = ew_results w \<Longrightarrow> ew_ids w' = ew_ids w \<Longrightarrow>
   rows w xid = Some x \<Longrightarrow> ew_locks w xid = None \<Longrightarrow> row_below x y \<Longrightarrow> ew_db w' = ew_db w \<or> ew_db w' = set_execution y (ew_db w) \<Longrightarrow>
   worker_moves w w'"
  unfolding worker_moves_def by blast

lemma phase_frames [simp]:
  "ew_locks (then_phase w j i p) = ew_locks w" "ew_requests (then_phase w j i p) = ew_requests w"
  "ew_results (then_phase w j i p) = ew_results w" "ew_ids (then_phase w j i p) = ew_ids w" "ew_db (then_phase w j i p) = ew_db w"
  "ew_locks (failing w j i e) = ew_locks w" "ew_requests (failing w j i e) = ew_requests w"
  "ew_results (failing w j i e) = ew_results w" "ew_ids (failing w j i e) = ew_ids w" "ew_db (failing w j i e) = ew_db w"
  by (simp_all add: then_phase_def failing_def)

lemma create_moves: "worker_moves w (create_step E i w j p)"
  by (rule moves_same) (auto simp: create_step_def Let_def split: j_phase.split option.split)

lemma monitor_moves: "worker_moves w (monitor_step i w j p)"
  by (rule moves_same) (auto simp: monitor_step_def split: j_phase.split)

lemma finish_below:
  assumes "finish_row db xid target out err code ms now = Inr (Some (y, db'))"
  shows "\<exists>x. dget (db_executions db) xid = Some x \<and> row_below x y \<and> db' = set_execution y db"
  using assms by (rule finish_row_Some) (auto simp: row_below_def later_def split: if_splits dest: transition_forward)

lemma transition_row_below:
  assumes "transition_row db xid expected target = Inr (Some (y, db'))"
  shows "\<exists>x. dget (db_executions db) xid = Some x \<and> row_below x y \<and> db' = set_execution y db"
  using assms by (rule transition_row_Some) (auto simp: row_below_def later_def dest: transition_forward)

lemma moves_commit:
  assumes "\<exists>x. rows w xid = Some x \<and> row_below x y \<and> db' = set_execution y (ew_db w)" "ew_locks w xid = None"
    and "ew_locks w' = ew_locks w" "ew_requests w' = ew_requests w" "ew_results w' = ew_results w" "ew_ids w' = ew_ids w"
    and "ew_db w' = ew_db w \<or> ew_db w' = db'"
  shows "worker_moves w w'"
  using assms by (auto intro: moves_row)

text \<open>A transaction on a row that no request has locked.\<close>
lemma row_step_moves:
  assumes "\<And>e. r = Inl e \<Longrightarrow> worker_moves w (a e)" "r = Inr None \<Longrightarrow> worker_moves w b"
    and "\<And>y db'. r = Inr (Some (y, db')) \<Longrightarrow> ew_locks w xid = None \<Longrightarrow> worker_moves w (c y db')"
  shows "worker_moves w (if ew_locks w xid \<noteq> None then w else
    case r of Inl e \<Rightarrow> a e | Inr None \<Rightarrow> b | Inr (Some (y, db')) \<Rightarrow> c y db')"
  using assms by (auto intro: moves_same split: sum.split option.split)

lemma result_moves: "worker_moves w (result_step E i w j p)"
proof (cases p)
  case (J_finish target out err code ms)
  show ?thesis unfolding J_finish result_step_def Let_def j_phase.case
    by (rule row_step_moves) (auto intro: moves_same moves_commit [OF finish_below])
next
  case (J_fail e ms)
  show ?thesis unfolding J_fail result_step_def Let_def j_phase.case
    by (rule row_step_moves) (auto intro: moves_same moves_commit [OF finish_below])
qed (auto intro!: moves_same simp: result_step_def Let_def split: option.split stream_task.split)

lemma job_moves: "worker_moves w (job_step E i w j p)"
proof (cases p)
  case J_run
  show ?thesis unfolding J_run job_step_def Let_def j_phase.case
    by (rule row_step_moves) (auto intro: moves_same moves_commit [OF transition_row_below])
qed (simp_all add: job_step_def Let_def create_moves monitor_moves result_moves, auto intro: moves_same)

lemma recover_below: "recover_row db x now = Inr (y, db') \<Longrightarrow> row_below x y \<and> db' = set_execution y db"
  using recover_row_Inr [of db x now y db'] by (auto simp: row_below_def later_def dest: transition_forward)

lemma cancel_below: "commit_cancel now x db = Inr (y, db') \<Longrightarrow> row_below x y \<and> x_status y = CANCELLED \<and> db' = set_execution y db"
  using commit_cancel_Inr [of now x db y db'] by (auto simp: row_below_def later_def dest: transition_forward)

lemma recover_moves: "worker_moves w (recover_step i w raw items)"
proof -
  have "worker_moves w w'" if "recover_row (ew_db w) x now = Inr (y, db')" "rows w xid = Some x" "ew_locks w xid = None"
    "ew_locks w' = ew_locks w" "ew_requests w' = ew_requests w" "ew_results w' = ew_results w" "ew_ids w' = ew_ids w"
    "ew_db w' = ew_db w \<or> ew_db w' = db'" for x xid y db' now w'
    by (rule moves_commit [of w xid y db']) (use recover_below [OF that(1)] that(2-8) in auto)
  then show ?thesis
    by (auto simp: recover_step_def Let_def intro: moves_same split: option.split sum.split)
qed

lemma w_step_moves: "worker_moves w (w_step E i w)"
proof (cases "ew_worker w")
  case (W_start raw xid)
  show ?thesis unfolding W_start w_step_def Let_def w_phase.case
    by (rule row_step_moves) (auto intro: moves_same moves_commit [OF transition_row_below])
next
  case (W_recover items)
  then show ?thesis by (cases items) (auto simp: w_step_def Let_def recover_moves intro: moves_same)
qed (auto simp: w_step_def Let_def job_moves intro!: moves_same split: list.split option.split)

lemma stream_moves: "worker_moves w (stream_step E w ev)"
  by (rule moves_same)
    (auto simp: stream_step_def split: option.split stream_task.split list.split job_event.split prod.split)

section \<open>The order on worlds\<close>

text \<open>An identifier that was drawn never gets another row, and its row only moves on or is deleted.\<close>
definition exec_below :: "exec_world \<Rightarrow> exec_world \<Rightarrow> bool" where
  "exec_below w w' \<longleftrightarrow> ew_ids w \<subseteq> ew_ids w' \<and>
     (\<forall>xid\<in>ew_ids w. (rows w xid = None \<longrightarrow> rows w' xid = None) \<and>
        (\<forall>x y. rows w xid = Some x \<longrightarrow> rows w' xid = Some y \<longrightarrow> row_below x y))"

lemma exec_below_refl: "exec_below w w" by (simp add: exec_below_def)

lemma exec_below_trans:
  assumes "exec_below u v" "exec_below v w"
  shows "exec_below u w"
proof -
  have "(rows u xid = None \<longrightarrow> rows w xid = None) \<and> (\<forall>x y. rows u xid = Some x \<longrightarrow> rows w xid = Some y \<longrightarrow> row_below x y)"
    if "xid \<in> ew_ids u" for xid
  proof -
    from that assms(1) have "xid \<in> ew_ids v" by (auto simp: exec_below_def)
    with that assms show ?thesis
      by (cases "rows v xid") (auto simp: exec_below_def dest!: bspec intro: row_below_trans)
  qed
  moreover have "ew_ids u \<subseteq> ew_ids w" using assms by (auto simp: exec_below_def)
  ultimately show ?thesis by (simp add: exec_below_def)
qed

definition known :: "exec_world \<Rightarrow> Execution \<Rightarrow> bool" where
  "known w x \<longleftrightarrow> x_id x \<in> ew_ids w \<and> (\<forall>y. rows w (x_id x) = Some y \<longrightarrow> row_below x y)"

lemma known_below: "known w x \<Longrightarrow> exec_below w w' \<Longrightarrow> known w' x"
  unfolding known_def exec_below_def by (cases "rows w (x_id x)") (fastforce intro: row_below_trans)+

fun request_row :: "job_request \<Rightarrow> Execution" where
  "request_row (Rq_refresh x) = x"
| "request_row (Rq_enqueue x) = x"
| "request_row (Rq_discard x) = x"
| "request_row (Rq_signal x) = x"
| "request_row (Rq_commit x) = x"

fun cancelling :: "job_request \<Rightarrow> bool" where
  "cancelling (Rq_signal _) = True"
| "cancelling (Rq_commit _) = True"
| "cancelling _ = False"

definition requests_known :: "exec_world \<Rightarrow> bool" where
  "requests_known w \<longleftrightarrow> (\<forall>n q. ew_requests w n = Some q \<longrightarrow> known w (request_row q)) \<and>
     (\<forall>n x. ew_results w n = Some (Inr x) \<longrightarrow> known w x)"

text \<open>A row is locked exactly by the cancel request that awaits Redis, and it is as that request read it.\<close>
definition locks_held :: "exec_world \<Rightarrow> bool" where
  "locks_held w \<longleftrightarrow>
     (\<forall>n q. ew_requests w n = Some q \<longrightarrow> cancelling q \<longrightarrow>
        ew_locks w (x_id (request_row q)) = Some n \<and> rows w (x_id (request_row q)) = Some (request_row q) \<and>
        x_status (request_row q) = RUNNING) \<and>
     (\<forall>xid n. ew_locks w xid = Some n \<longrightarrow> (\<exists>q. ew_requests w n = Some q \<and> cancelling q \<and> x_id (request_row q) = xid))"

definition exec_ok :: "exec_world \<Rightarrow> bool" where
  "exec_ok w \<longleftrightarrow> (\<forall>xid x. rows w xid = Some x \<longrightarrow> x_id x = xid \<and> xid \<in> ew_ids w) \<and> requests_known w \<and> locks_held w"

lemma exec_okD:
  assumes "exec_ok w"
  shows "rows w xid = Some x \<Longrightarrow> x_id x = xid \<and> xid \<in> ew_ids w" "requests_known w" "locks_held w"
  using assms by (auto simp: exec_ok_def)

lemma worker_below:
  assumes "exec_ok w" "worker_moves w w'"
  shows "exec_ok w' \<and> exec_below w w'"
proof -
  note ok = exec_okD [OF assms(1)]
  have rows: "rows w' xid = rows w xid \<or> ew_locks w xid = None \<and> (\<exists>x y. rows w xid = Some x \<and> rows w' xid = Some y \<and> row_below x y)" for xid
  proof -
    from assms(2) consider "ew_db w' = ew_db w"
      | z x y where "rows w z = Some x" "ew_locks w z = None" "row_below x y" "x_id x = z \<longrightarrow> ew_db w' = set_execution y (ew_db w)"
      by (auto simp: worker_moves_def)
    then show ?thesis
    proof cases
      case 2
      then have "x_id x = z" "x_id y = z" using ok(1) by (auto simp: row_below_def)
      with 2 show ?thesis by (cases "z = xid") auto
    qed simp
  qed
  have same: "ew_locks w' = ew_locks w" "ew_requests w' = ew_requests w" "ew_results w' = ew_results w" "ew_ids w' = ew_ids w"
    using assms(2) by (simp_all add: worker_moves_def)
  have below: "exec_below w w'"
    unfolding exec_below_def same using rows by (metis order_refl option.distinct(1) option.inject row_below_refl)
  moreover have "requests_known w'"
    using ok(2) known_below [OF _ below] by (auto simp: requests_known_def same)
  moreover have "locks_held w'"
    using ok(3) rows unfolding locks_held_def same by (metis option.distinct(1))
  moreover have "rows w' xid = Some x \<Longrightarrow> x_id x = xid \<and> xid \<in> ew_ids w'" for xid x
    using rows [of xid] ok(1) [of xid] unfolding same row_below_def by (metis option.inject)
  ultimately show ?thesis by (simp add: exec_ok_def)
qed

section \<open>Requests\<close>

lemma below_same: "ew_db w' = ew_db w \<Longrightarrow> ew_ids w' = ew_ids w \<Longrightarrow> exec_below w w'"
  by (simp add: exec_below_def)

lemma below_set:
  assumes "rows w (x_id y) = Some x" "row_below x y" "ew_db w' = ew_db w \<or> ew_db w' = set_execution y (ew_db w)" "ew_ids w' = ew_ids w"
  shows "exec_below w w'"
  using assms by (auto simp: exec_below_def split: if_splits)

lemma below_delete: "ew_db w' = ew_db w \<or> ew_db w' = delete_execution xid (ew_db w) \<Longrightarrow> ew_ids w' = ew_ids w \<Longrightarrow> exec_below w w'"
  by (auto simp: exec_below_def delete_execution_def split: if_splits)

lemma req_ok:
  assumes "exec_ok w" "exec_below w w'" "\<And>xid x. rows w' xid = Some x \<Longrightarrow> x_id x = xid \<and> xid \<in> ew_ids w'"
    and "\<And>m. m \<noteq> n \<Longrightarrow> ew_requests w' m = ew_requests w m \<and> ew_results w' m = ew_results w m"
    and "\<And>q. ew_requests w' n = Some q \<Longrightarrow> known w' (request_row q)" "\<And>x. ew_results w' n = Some (Inr x) \<Longrightarrow> known w' x"
    and "locks_held w'"
  shows "exec_ok w' \<and> exec_below w w'"
proof -
  have "requests_known w'"
    unfolding requests_known_def
  proof (intro conjI allI impI)
    show "known w' (request_row q)" if "ew_requests w' m = Some q" for m q
      using that assms(4,5) exec_okD(2) [OF assms(1)] known_below [OF _ assms(2)]
      by (cases "m = n") (auto simp: requests_known_def)
    show "known w' x" if "ew_results w' m = Some (Inr x)" for m x
      using that assms(4,6) exec_okD(2) [OF assms(1)] known_below [OF _ assms(2)]
      by (cases "m = n") (auto simp: requests_known_def)
  qed
  with assms show ?thesis by (auto simp: exec_ok_def)
qed

lemma locks_held_other:
  assumes "locks_held w" "\<And>m. m \<noteq> n \<Longrightarrow> ew_requests w' m = ew_requests w m" "ew_locks w' = ew_locks w"
    and "\<And>q. ew_requests w n = Some q \<Longrightarrow> \<not> cancelling q" "\<And>q. ew_requests w' n = Some q \<Longrightarrow> \<not> cancelling q"
    and "\<And>xid. ew_locks w xid \<noteq> None \<Longrightarrow> rows w' xid = rows w xid"
  shows "locks_held w'"
  unfolding locks_held_def
proof (intro conjI allI impI)
  fix m q
  assume q: "ew_requests w' m = Some q" "cancelling q"
  with assms(2,5) have "ew_requests w m = Some q" by (cases "m = n") auto
  with q assms(1,3,6) show "ew_locks w' (x_id (request_row q)) = Some m" "rows w' (x_id (request_row q)) = Some (request_row q)"
    "x_status (request_row q) = RUNNING"
    by (simp_all add: locks_held_def)
next
  fix xid m
  assume "ew_locks w' xid = Some m"
  with assms(1,3) obtain q where "ew_requests w m = Some q" "cancelling q" "x_id (request_row q) = xid"
    unfolding locks_held_def by metis
  with assms(2,4) show "\<exists>q. ew_requests w' m = Some q \<and> cancelling q \<and> x_id (request_row q) = xid" by (cases "m = n") auto
qed

lemma locks_held_release:
  assumes "locks_held w" "\<And>m. m \<noteq> n \<Longrightarrow> ew_requests w' m = ew_requests w m" "ew_requests w n = Some q" "cancelling q"
    and "ew_requests w' n = None" "ew_locks w' = (ew_locks w)(x_id (request_row q) := None)"
    and "\<And>xid. xid \<noteq> x_id (request_row q) \<Longrightarrow> rows w' xid = rows w xid"
  shows "locks_held w'"
  unfolding locks_held_def
proof (intro conjI allI impI)
  fix m p
  assume p: "ew_requests w' m = Some p" "cancelling p"
  with assms(2,5) have m: "m \<noteq> n" "ew_requests w m = Some p" by (cases "m = n"; simp)+
  with assms(1,3,4) p have "x_id (request_row p) \<noteq> x_id (request_row q)"
    unfolding locks_held_def by (metis option.inject)
  with m p assms(1,6,7) show "ew_locks w' (x_id (request_row p)) = Some m" "rows w' (x_id (request_row p)) = Some (request_row p)"
    "x_status (request_row p) = RUNNING"
    by (simp_all add: locks_held_def)
next
  fix xid m
  assume "ew_locks w' xid = Some m"
  with assms(6) have x: "xid \<noteq> x_id (request_row q)" "ew_locks w xid = Some m" by (auto split: if_splits)
  with assms(1) obtain p where p: "ew_requests w m = Some p" "cancelling p" "x_id (request_row p) = xid"
    unfolding locks_held_def by metis
  with x assms(2,3) show "\<exists>q. ew_requests w' m = Some q \<and> cancelling q \<and> x_id (request_row q) = xid" by (cases "m = n") auto
qed

lemma locks_held_acquire:
  assumes "locks_held w" "\<And>m. m \<noteq> n \<Longrightarrow> ew_requests w' m = ew_requests w m" "ew_requests w n = None"
    and "ew_requests w' n = Some (Rq_signal x)" "ew_locks w (x_id x) = None" "ew_locks w' = (ew_locks w)(x_id x \<mapsto> n)"
    and "rows w (x_id x) = Some x" "x_status x = RUNNING" "ew_db w' = ew_db w"
  shows "locks_held w'"
  unfolding locks_held_def
proof (intro conjI allI impI)
  fix m p
  assume p: "ew_requests w' m = Some p" "cancelling p"
  show "ew_locks w' (x_id (request_row p)) = Some m" "rows w' (x_id (request_row p)) = Some (request_row p)"
    "x_status (request_row p) = RUNNING"
  proof (atomize (full), cases "m = n")
    case True
    with p assms(4) have "p = Rq_signal x" by simp
    with True assms(6-9) show "ew_locks w' (x_id (request_row p)) = Some m \<and> rows w' (x_id (request_row p)) = Some (request_row p) \<and>
      x_status (request_row p) = RUNNING" by simp
  next
    case False
    with p assms(2) have "ew_requests w m = Some p" by simp
    with p(2) assms(1) have h: "ew_locks w (x_id (request_row p)) = Some m" "rows w (x_id (request_row p)) = Some (request_row p)"
      "x_status (request_row p) = RUNNING" unfolding locks_held_def by blast+
    with assms(5) have "x_id (request_row p) \<noteq> x_id x" by auto
    with h assms(6,9) show "ew_locks w' (x_id (request_row p)) = Some m \<and> rows w' (x_id (request_row p)) = Some (request_row p) \<and>
      x_status (request_row p) = RUNNING" by simp
  qed
next
  fix xid m
  assume l: "ew_locks w' xid = Some m"
  show "\<exists>q. ew_requests w' m = Some q \<and> cancelling q \<and> x_id (request_row q) = xid"
  proof (cases "xid = x_id x")
    case True
    with l assms(4,6) show ?thesis by auto
  next
    case False
    with l assms(6) have "ew_locks w xid = Some m" by simp
    with assms(1) obtain p where "ew_requests w m = Some p" "cancelling p" "x_id (request_row p) = xid"
      unfolding locks_held_def by metis
    with assms(2,3) show ?thesis by (cases "m = n") auto
  qed
qed

lemma end_request_sel [simp]:
  "ew_db (end_job_request w n r) = ew_db w" "ew_redis (end_job_request w n r) = ew_redis w"
  "ew_locks (end_job_request w n r) = ew_locks w" "ew_ids (end_job_request w n r) = ew_ids w"
  "ew_worker (end_job_request w n r) = ew_worker w"
  "ew_requests (end_job_request w n r) = (ew_requests w)(n := None)" "ew_results (end_job_request w n r) = (ew_results w)(n \<mapsto> r)"
  by (simp_all add: end_job_request_def)

lemma unlock_row_sel [simp]:
  "ew_db (unlock_row w xid) = ew_db w" "ew_redis (unlock_row w xid) = ew_redis w"
  "ew_locks (unlock_row w xid) = (ew_locks w)(xid := None)" "ew_ids (unlock_row w xid) = ew_ids w"
  "ew_worker (unlock_row w xid) = ew_worker w"
  "ew_requests (unlock_row w xid) = ew_requests w" "ew_results (unlock_row w xid) = ew_results w"
  by (simp_all add: unlock_row_def)

lemma insert_execution_Some:
  assumes "insert_execution new_id now db sid user code language = Some (x, db')"
  shows "x_id x = new_id" "x_status x = QUEUED" "x_session_id x = sid" "x_code x = code" "x_language x = language"
    "db' = set_execution x db" "dget (db_executions db) new_id = None"
  using assms by (auto simp: insert_execution_def Let_def split: if_splits)

lemma known_self: "exec_ok w \<Longrightarrow> rows w (x_id x) = Some x \<Longrightarrow> known w x"
  using exec_okD(1) [of w "x_id x" x] by (simp add: known_def)

lemma submit_ok:
  assumes "exec_ok w"
  shows "exec_ok (submit w n new_id now sid user code language io) \<and> exec_below w (submit w n new_id now sid user code language io)"
proof (cases "ew_requests w n \<noteq> None \<or> ew_results w n \<noteq> None \<or> new_id \<in> ew_ids w")
  case True
  with assms show ?thesis by (simp add: submit_def exec_below_refl)
next
  case False
  let ?w' = "submit w n new_id now sid user code language io"
  from False have new: "ew_requests w n = None" "ew_results w n = None" "new_id \<notin> ew_ids w" by simp_all
  show ?thesis
  proof (rule req_ok [OF assms])
    obtain r where r: "r = insert_execution new_id now (ew_db w) sid user code language" by simp
    have fields: "ew_ids ?w' = insert new_id (ew_ids w)" "ew_locks ?w' = ew_locks w"
      "\<And>m. m \<noteq> n \<Longrightarrow> ew_requests ?w' m = ew_requests w m \<and> ew_results ?w' m = ew_results w m"
      using new by (auto simp: submit_def Let_def split: option.split)
    have rows: "rows ?w' xid = rows w xid \<or> xid = new_id \<and> (\<exists>x. rows ?w' xid = Some x \<and> x_id x = new_id)" for xid
      using new insert_execution_Some [of new_id now "ew_db w" sid user code language]
      by (auto simp: submit_def Let_def split: option.split if_splits)
    show "exec_below w ?w'" unfolding exec_below_def using rows new(3) fields(1)
      by (metis insertI2 option.inject row_below_refl subset_insertI)
    show "x_id x = xid \<and> xid \<in> ew_ids ?w'" if "rows ?w' xid = Some x" for xid x
      using rows [of xid] exec_okD(1) [OF assms, of xid x] that unfolding fields(1) by (metis insertI1 insertI2 option.inject)
    show "\<And>m. m \<noteq> n \<Longrightarrow> ew_requests ?w' m = ew_requests w m \<and> ew_results ?w' m = ew_results w m" by (rule fields(3))
    show "known ?w' (request_row q)" if "ew_requests ?w' n = Some q" for q
    proof (cases r)
      case (Some p)
      obtain x db' where p: "p = (x, db')" by fastforce
      with Some r that new show ?thesis using insert_execution_Some [of new_id now "ew_db w" sid user code language x db']
        by (auto simp: submit_def Let_def known_def split: if_splits)
    qed (use r that new in \<open>auto simp: submit_def Let_def\<close>)
    show "known ?w' x" if "ew_results ?w' n = Some (Inr x)" for x
      using that new by (auto simp: submit_def Let_def split: option.splits if_splits)
    show "locks_held ?w'"
    proof (rule locks_held_other [OF exec_okD(3) [OF assms], of n])
      show "rows ?w' xid = rows w xid" if "ew_locks w xid \<noteq> None" for xid
      proof -
        from that obtain m where "ew_locks w xid = Some m" by blast
        then obtain y where "rows w xid = Some y" using exec_okD(3) [OF assms] unfolding locks_held_def by metis
        then have "xid \<in> ew_ids w" using exec_okD(1) [OF assms] by blast
        then show ?thesis using rows [of xid] new(3) by metis
      qed
      show "\<not> cancelling q" if "ew_requests ?w' n = Some q" for q
        using that new by (auto simp: submit_def Let_def split: option.splits if_splits)
    qed (use fields new in auto)
  qed
qed

lemma check_cancel_Inr:
  assumes "check_cancel db sid xid = Inr x"
  shows "dget (db_executions db) xid = Some x" "x_session_id x = sid" "x_status x = QUEUED \<or> x_status x = RUNNING"
  using assms by (auto simp: check_cancel_def get_execution_def rbind_Inr_iff split: option.splits if_splits)

text \<open>Ending a request that holds no lock, possibly with a change of one row that is not locked.\<close>
lemma end_request_ok:
  assumes "exec_ok w" "\<And>q. ew_requests w n = Some q \<Longrightarrow> \<not> cancelling q" "r = Inr x \<Longrightarrow> known (w\<lparr>ew_db := db\<rparr>) x"
    and "exec_below w (w\<lparr>ew_db := db\<rparr>)" "\<And>xid x. dget (db_executions db) xid = Some x \<Longrightarrow> x_id x = xid \<and> xid \<in> ew_ids w"
    and "\<And>xid. ew_locks w xid \<noteq> None \<Longrightarrow> dget (db_executions db) xid = rows w xid"
    and "\<And>x'. r = Inr x' \<Longrightarrow> x' = x"
  shows "exec_ok (end_job_request (w\<lparr>ew_db := db\<rparr>) n r) \<and> exec_below w (end_job_request (w\<lparr>ew_db := db\<rparr>) n r)"
proof (rule req_ok [OF assms(1), of _ n])
  let ?w' = "end_job_request (w\<lparr>ew_db := db\<rparr>) n r"
  have k: "known ?w' y \<longleftrightarrow> known (w\<lparr>ew_db := db\<rparr>) y" for y by (simp add: known_def)
  show "exec_below w ?w'" using assms(4) by (simp add: exec_below_def)
  show "known ?w' y" if "ew_results ?w' n = Some (Inr y)" for y
    using that assms(3,7) k by auto
  show "locks_held ?w'"
    by (rule locks_held_other [OF exec_okD(3) [OF assms(1)], of n]) (use assms(2,6) in auto)
qed (use assms(5) in auto)

lemma commit_keys:
  assumes "exec_ok w" "rows w (x_id y) = Some x" "row_below x y" "db = ew_db w \<or> db = set_execution y (ew_db w)"
  shows "dget (db_executions db) xid = Some z \<Longrightarrow> x_id z = xid \<and> xid \<in> ew_ids w"
  using assms exec_okD(1) [OF assms(1)] by (fastforce split: if_splits)

lemma cancel_ok:
  assumes "exec_ok w"
  shows "exec_ok (cancel w n sid xid now io) \<and> exec_below w (cancel w n sid xid now io)"
proof (cases "ew_requests w n \<noteq> None \<or> ew_results w n \<noteq> None \<or> ew_locks w xid \<noteq> None")
  case True
  with assms show ?thesis by (simp add: cancel_def exec_below_refl)
next
  case False
  then have new: "ew_requests w n = None" "ew_results w n = None" "ew_locks w xid = None" by simp_all
  have failed: "exec_ok (end_job_request w n (Inl e)) \<and> exec_below w (end_job_request w n (Inl e))" for e
    using end_request_ok [OF assms, of n "Inl e" undefined "ew_db w"] new exec_okD(1) [OF assms] by (simp add: exec_below_refl)
  show ?thesis
  proof (cases "check_cancel (ew_db w) sid xid")
    case (Inl e)
    with new failed show ?thesis by (simp add: cancel_def)
  next
    case (Inr x)
    note x = check_cancel_Inr [OF Inr]
    have id: "x_id x = xid" using exec_okD(1) [OF assms x(1)] by simp
    show ?thesis
    proof (cases "x_status x = RUNNING")
      case True
      show ?thesis
      proof (cases "io = Io_ok")
        case False
        with True Inr new failed show ?thesis by (simp add: cancel_def)
      next
        case ok: True
        let ?w' = "set_job_request (w\<lparr>ew_locks := (ew_locks w)(xid \<mapsto> n)\<rparr>) n (Rq_signal x)"
        have "exec_ok ?w' \<and> exec_below w ?w'"
        proof (rule req_ok [OF assms, of _ n])
          show "known ?w' (request_row q)" if "ew_requests ?w' n = Some q" for q
            using that known_self [OF assms, of x] x(1) id by (auto simp: known_def)
          show "locks_held ?w'"
            by (rule locks_held_acquire [OF exec_okD(3) [OF assms], of n _ x]) (use new id x(1) True in auto)
        qed (use new exec_okD(1) [OF assms] in \<open>auto simp: exec_below_def\<close>)
        with True Inr new ok show ?thesis by (simp add: cancel_def)
      qed
    next
      case False
      show ?thesis
      proof (cases "commit_cancel now x (ew_db w)")
        case (Inl e)
        with False Inr new failed show ?thesis by (simp add: cancel_def)
      next
        case (Inr p)
        obtain y db' where p: "p = (y, db')" by fastforce
        note y = cancel_below [OF Inr [unfolded p]]
        have idy: "x_id y = xid" using y id by (simp add: row_below_def)
        let ?db = "if takes_effect io then db' else ew_db w"
        have db: "?db = ew_db w \<or> ?db = set_execution y (ew_db w)" using y by simp
        have "exec_ok (end_job_request (w\<lparr>ew_db := ?db\<rparr>) n (if io = Io_ok then Inr y else Inl Internal_server_error)) \<and>
           exec_below w (end_job_request (w\<lparr>ew_db := ?db\<rparr>) n (if io = Io_ok then Inr y else Inl Internal_server_error))"
        proof (rule end_request_ok [OF assms])
          show "known (w\<lparr>ew_db := ?db\<rparr>) y" if "(if io = Io_ok then Inr y else Inl Internal_server_error) = Inr y"
            using that y idy id x(1) exec_okD(1) [OF assms x(1)] by (auto simp: known_def split: if_splits)
          show "exec_below w (w\<lparr>ew_db := ?db\<rparr>)" by (rule below_set [of w y x]) (use x(1) idy y db in auto)
          show "dget (db_executions ?db) z = Some v \<Longrightarrow> x_id v = z \<and> z \<in> ew_ids w" for z v
            by (rule commit_keys [OF assms, of y x ?db z v]) (use x(1) idy y db in auto)
          show "dget (db_executions ?db) z = rows w z" if "ew_locks w z \<noteq> None" for z
            using that new(3) db idy by auto
        qed (use new in \<open>auto split: if_splits\<close>)
        then show ?thesis using False \<open>check_cancel (ew_db w) sid xid = Inr x\<close> new Inr p
          by (simp add: cancel_def split: if_splits)
      qed
    qed
  qed
qed

lemma locks_held_swap:
  assumes "locks_held w" "ew_requests w n = Some q" "request_row q' = request_row q" "cancelling q' = cancelling q"
    and "ew_requests w' = (ew_requests w)(n \<mapsto> q')" "ew_locks w' = ew_locks w" "ew_db w' = ew_db w"
  shows "locks_held w'"
  unfolding locks_held_def
proof (intro conjI allI impI)
  fix m p
  assume p: "ew_requests w' m = Some p" "cancelling p"
  obtain p' where "ew_requests w m = Some p'" "cancelling p'" "request_row p' = request_row p"
    using p assms(2-5) by (cases "m = n") auto
  with assms(1,6,7) show "ew_locks w' (x_id (request_row p)) = Some m" "rows w' (x_id (request_row p)) = Some (request_row p)"
    "x_status (request_row p) = RUNNING"
    unfolding locks_held_def by metis+
next
  fix xid m
  assume "ew_locks w' xid = Some m"
  with assms(1,6) obtain p where "ew_requests w m = Some p" "cancelling p" "x_id (request_row p) = xid"
    unfolding locks_held_def by metis
  with assms(2-5) show "\<exists>p. ew_requests w' m = Some p \<and> cancelling p \<and> x_id (request_row p) = xid"
    by (cases "m = n") auto
qed

lemma release_ok:
  assumes "exec_ok w" "ew_requests w n = Some q" "cancelling q" "rows w (x_id (request_row q)) = Some x" "row_below x y"
    and "db = ew_db w \<or> db = set_execution y (ew_db w)" "\<And>z. r = Inr z \<Longrightarrow> z = y \<and> db = set_execution y (ew_db w)"
    and "ew_ids w1 = ew_ids w" "ew_locks w1 = ew_locks w" "ew_requests w1 = ew_requests w" "ew_results w1 = ew_results w"
  shows "exec_ok (end_job_request (unlock_row (w1\<lparr>ew_db := db\<rparr>) (x_id (request_row q))) n r) \<and>
    exec_below w (end_job_request (unlock_row (w1\<lparr>ew_db := db\<rparr>) (x_id (request_row q))) n r)"
proof -
  let ?w' = "end_job_request (unlock_row (w1\<lparr>ew_db := db\<rparr>) (x_id (request_row q))) n r"
  have id: "x_id x = x_id (request_row q)" using exec_okD(1) [OF assms(1,4)] by simp
  then have idy: "x_id y = x_id (request_row q)" using assms(5) by (simp add: row_below_def)
  show ?thesis
  proof (rule req_ok [OF assms(1), of _ n])
    show "exec_below w ?w'" by (rule below_set [of w y x]) (use assms idy in auto)
    show "x_id v = k \<and> k \<in> ew_ids ?w'" if "rows ?w' k = Some v" for k v
      using commit_keys [OF assms(1) _ assms(5,6), of k v] that assms(4,8) idy by simp
    show "known ?w' v" if "ew_results ?w' n = Some (Inr v)" for v
    proof -
      from that assms(7) [of v] have "v = y" "db = set_execution y (ew_db w)" by auto
      moreover have "x_id y \<in> ew_ids w" using exec_okD(1) [OF assms(1,4)] idy by simp
      ultimately show ?thesis using assms(8) by (simp add: known_def)
    qed
    show "locks_held ?w'"
      by (rule locks_held_release [OF exec_okD(3) [OF assms(1)], of n _ q]) (use assms idy in auto)
  qed (use assms in auto)
qed

lemma continue_request_ok:
  assumes "exec_ok w" "ew_requests w n = Some q"
  shows "exec_ok (continue_request w n q io now) \<and> exec_below w (continue_request w n q io now)"
proof -
  have knownq: "known w (request_row q)" using exec_okD(2) [OF assms(1)] assms(2) by (simp add: requests_known_def)
  have keys: "dget (db_executions (ew_db w)) k = Some v \<Longrightarrow> x_id v = k \<and> k \<in> ew_ids w" for k v
    using exec_okD(1) [OF assms(1)] by blast
  have redis: "exec_ok (w\<lparr>ew_redis := r\<rparr>) \<and> exec_below w (w\<lparr>ew_redis := r\<rparr>)" for r
    using worker_below [OF assms(1), of "w\<lparr>ew_redis := r\<rparr>"] by (simp add: moves_same)
  have set: "exec_ok (set_job_request (w\<lparr>ew_redis := r\<rparr>) n q') \<and> exec_below w (set_job_request (w\<lparr>ew_redis := r\<rparr>) n q')"
    if "request_row q' = request_row q" "cancelling q' = cancelling q" for q' r
  proof (rule req_ok [OF assms(1), of _ n])
    let ?w' = "set_job_request (w\<lparr>ew_redis := r\<rparr>) n q'"
    show "known ?w' (request_row p)" if "ew_requests ?w' n = Some p" for p
      using that \<open>request_row q' = request_row q\<close> knownq by (auto simp: known_def)
    show "known ?w' v" if "ew_results ?w' n = Some (Inr v)" for v
      using that exec_okD(2) [OF assms(1)] by (auto simp: known_def requests_known_def)
    show "locks_held ?w'"
      by (rule locks_held_swap [OF exec_okD(3) [OF assms(1)] assms(2) that]) simp_all
  qed (use keys in \<open>auto simp: exec_below_def\<close>)
  have failed: "exec_ok (end_job_request (w\<lparr>ew_redis := r\<rparr>) n (Inl e)) \<and> exec_below w (end_job_request (w\<lparr>ew_redis := r\<rparr>) n (Inl e))"
    if "\<not> cancelling q" for e r
    using end_request_ok [of "w\<lparr>ew_redis := r\<rparr>" n "Inl e" undefined "ew_db w"] redis [of r] that assms(2) keys
    by (simp add: exec_below_def)
  show ?thesis
  proof (cases q)
    case (Rq_refresh x)
    with set [of "Rq_enqueue x" "ew_redis w"] failed [of "ew_redis w"] show ?thesis by (simp add: continue_request_def)
  next
    case (Rq_enqueue x)
    let ?r = "if takes_effect io then enqueue (x_id x) (ew_redis w) else ew_redis w"
    let ?w = "w\<lparr>ew_redis := ?r\<rparr>"
    have "exec_ok (end_job_request (?w\<lparr>ew_db := ew_db w\<rparr>) n (Inr x)) \<and> exec_below ?w (end_job_request (?w\<lparr>ew_db := ew_db w\<rparr>) n (Inr x))"
      by (rule end_request_ok [where x = x])
        (use redis [of ?r] Rq_enqueue assms(2) knownq keys in \<open>simp_all add: known_def exec_below_def\<close>)
    then have answered: "exec_ok (end_job_request ?w n (Inr x)) \<and> exec_below w (end_job_request ?w n (Inr x))"
      by (simp add: exec_below_def)
    show ?thesis
    proof (cases "io = Io_ok")
      case True
      with answered Rq_enqueue show ?thesis by (simp add: continue_request_def)
    next
      case False
      with set [of "Rq_discard x" ?r] Rq_enqueue show ?thesis by (simp add: continue_request_def Let_def)
    qed
  next
    case (Rq_discard x)
    let ?db = "if takes_effect io then delete_execution (x_id x) (ew_db w) else ew_db w"
    have "exec_ok (end_job_request (w\<lparr>ew_db := ?db\<rparr>) n (Inl e)) \<and> exec_below w (end_job_request (w\<lparr>ew_db := ?db\<rparr>) n (Inl e))"
      if "ew_locks w (x_id x) = None" for e
    proof (rule end_request_ok [OF assms(1), where x = undefined])
      show "exec_below w (w\<lparr>ew_db := ?db\<rparr>)" by (rule below_delete [of _ w "x_id x"]) auto
      show "x_id v = k \<and> k \<in> ew_ids w" if "dget (db_executions ?db) k = Some v" for k v
        using that keys [of k v] by (auto simp: delete_execution_def split: if_splits)
      show "dget (db_executions ?db) k = rows w k" if "ew_locks w k \<noteq> None" for k
        using that \<open>ew_locks w (x_id x) = None\<close> by (auto simp: delete_execution_def)
    qed (use assms(2) Rq_discard in auto)
    with assms(1) Rq_discard show ?thesis by (auto simp: continue_request_def exec_below_refl)
  next
    case (Rq_signal x)
    let ?r = "if takes_effect io then request_cancellation (x_id x) (ew_redis w) else ew_redis w"
    let ?w = "w\<lparr>ew_redis := ?r\<rparr>"
    have row: "rows w (x_id (request_row q)) = Some x"
      using exec_okD(3) [OF assms(1)] assms(2) Rq_signal by (fastforce simp: locks_held_def)
    have "exec_ok (end_job_request (unlock_row (?w\<lparr>ew_db := ew_db w\<rparr>) (x_id (request_row q))) n (Inl e)) \<and>
       exec_below w (end_job_request (unlock_row (?w\<lparr>ew_db := ew_db w\<rparr>) (x_id (request_row q))) n (Inl e))" for e
      by (rule release_ok [OF assms _ row row_below_refl]) (use Rq_signal in auto)
    with set [of "Rq_commit x" ?r] Rq_signal show ?thesis by (cases "io = Io_ok") (simp_all add: continue_request_def Let_def)
  next
    case (Rq_commit x)
    have row: "rows w (x_id (request_row q)) = Some x"
      using exec_okD(3) [OF assms(1)] assms(2) Rq_commit by (fastforce simp: locks_held_def)
    have failed: "exec_ok (end_job_request (unlock_row (w\<lparr>ew_db := ew_db w\<rparr>) (x_id (request_row q))) n (Inl e)) \<and>
       exec_below w (end_job_request (unlock_row (w\<lparr>ew_db := ew_db w\<rparr>) (x_id (request_row q))) n (Inl e))" for e
      by (rule release_ok [OF assms _ row row_below_refl]) (use Rq_commit in auto)
    show ?thesis
    proof (cases "commit_cancel now x (ew_db w)")
      case (Inl e)
      with failed Rq_commit show ?thesis by (simp add: continue_request_def)
    next
      case (Inr p)
      obtain y db' where p: "p = (y, db')" by fastforce
      note y = cancel_below [OF Inr [unfolded p]]
      let ?db = "if takes_effect io then db' else ew_db w" and ?r = "if io = Io_ok then Inr y else Inl Internal_server_error"
      have "exec_ok (end_job_request (unlock_row (w\<lparr>ew_db := ?db\<rparr>) (x_id (request_row q))) n ?r) \<and>
         exec_below w (end_job_request (unlock_row (w\<lparr>ew_db := ?db\<rparr>) (x_id (request_row q))) n ?r)"
        by (rule release_ok [OF assms _ row]) (use y Rq_commit in \<open>auto split: if_splits\<close>)
      moreover have "x_id y = x_id x" using y by (simp add: row_below_def)
      ultimately show ?thesis using Rq_commit Inr p by (cases "takes_effect io"; cases "io = Io_ok") (simp_all add: continue_request_def)
    qed
  qed
qed

lemma exec_step_ok:
  assumes "exec_ok w"
  shows "exec_ok (exec_step E w ev) \<and> exec_below w (exec_step E w ev)"
proof (cases ev)
  case (Submit n new_id now sid user code language io)
  then show ?thesis using submit_ok [OF assms] by (simp add: exec_step_def)
next
  case (Cancel n sid xid now io)
  then show ?thesis using cancel_ok [OF assms] by (simp add: exec_step_def)
next
  case (Request n io now)
  then show ?thesis using continue_request_ok [OF assms] assms by (auto simp: exec_step_def exec_below_refl split: option.split)
next
  case (Worker i)
  then show ?thesis using worker_below [OF assms w_step_moves] by (simp add: exec_step_def)
qed (auto simp: exec_step_def intro!: worker_below [OF assms] stream_moves moves_same)

interpretation jobs: monotone_machine "exec_step E" exec_ok exec_below for E
  by unfold_locales (use exec_step_ok exec_below_refl exec_below_trans in blast)+

lemma exec_ok_new: "(\<And>xid x. dget (db_executions db) xid = Some x \<Longrightarrow> x_id x = xid) \<Longrightarrow> exec_ok (new_world db)"
  by (force simp: exec_ok_def new_world_def requests_known_def locks_held_def dest: map_of_SomeD)

end
