(* ===== verification/JobPlaces.thy ===== *)
theory JobPlaces
  imports JobOrder
begin

text \<open>
  Where a job is: an invariant of the execution machine that ties the status of every row to the
  queue, to the list of claimed jobs and to the phase of the worker. A queued execution is in one of
  the lists or its request is still enqueueing it; one that is starting or running is claimed, and
  the worker has it in hand or will look at it when it recovers. The lemmas follow the phases of the
  worker: the steps of one job, of recovery, of claiming and of acknowledging.
\<close>

section \<open>Where a job is\<close>

abbreviation queue :: "exec_world \<Rightarrow> pystr list" where
  "queue w \<equiv> rd_lists (ew_redis w) EXECUTION_QUEUE_KEY"

abbreviation processing :: "exec_world \<Rightarrow> pystr list" where
  "processing w \<equiv> rd_lists (ew_redis w) EXECUTION_PROCESSING_QUEUE_KEY"

lemma keys_differ [simp]: "EXECUTION_QUEUE_KEY \<noteq> EXECUTION_PROCESSING_QUEUE_KEY" "EXECUTION_PROCESSING_QUEUE_KEY \<noteq> EXECUTION_QUEUE_KEY"
  by (simp_all add: EXECUTION_QUEUE_KEY_def EXECUTION_PROCESSING_QUEUE_KEY_def)

lemma raw_inj [simp]: "str_of_uuid i = str_of_uuid j \<longleftrightarrow> i = j"
  using uuid_text_roundtrip by blast

lemma raw_parse [simp]: "uuid_of_str (str_of_uuid i) = Some i"
  using uuid_text_roundtrip by blast

definition created :: "exec_world \<Rightarrow> uuid \<Rightarrow> bool" where
  "created w xid \<longleftrightarrow> (\<exists>n q. ew_requests w n = Some q \<and> \<not> cancelling q \<and> x_id (request_row q) = xid)"

definition placed :: "exec_world \<Rightarrow> uuid \<Rightarrow> bool" where
  "placed w xid \<longleftrightarrow> str_of_uuid xid \<in> set (queue w) \<or> str_of_uuid xid \<in> set (processing w) \<or> created w xid"

text \<open>The statuses a job's row can have while the worker is in a phase of it.\<close>
fun allowed :: "j_phase \<Rightarrow> ExecutionStatus list" where
  "allowed J_image = [STARTING]"
| "allowed J_volume = [STARTING]"
| "allowed J_writer = [STARTING]"
| "allowed J_archive = [STARTING]"
| "allowed (J_unwriter _) = [STARTING]"
| "allowed (J_unvolume _) = [STARTING]"
| "allowed J_runner = [STARTING]"
| "allowed J_launch = [STARTING]"
| "allowed J_run = [STARTING]"
| "allowed (J_fail _ _) = [STARTING, RUNNING, COMPLETED, FAILED, TIMEOUT, CANCELLED]"
| "allowed J_kill_lost = [COMPLETED, FAILED, TIMEOUT, CANCELLED]"
| "allowed (J_finish_publish _) = [COMPLETED, FAILED, TIMEOUT, CANCELLED]"
| "allowed (J_fail_publish _) = [COMPLETED, FAILED, TIMEOUT, CANCELLED]"
| "allowed (J_delete_key _) = [COMPLETED, FAILED, TIMEOUT, CANCELLED]"
| "allowed (J_cleanup _) = [COMPLETED, FAILED, TIMEOUT, CANCELLED]"
| "allowed _ = [RUNNING, CANCELLED]"

text \<open>The final statuses a job is on its way to.\<close>
fun forced_ok :: "j_phase \<Rightarrow> bool" where
  "forced_ok (J_kill target) = (target \<in> set [TIMEOUT, CANCELLED])"
| "forced_ok (J_wait forced) = pred_option (\<lambda>st. st \<in> set [TIMEOUT, CANCELLED]) forced"
| "forced_ok (J_join forced _) = pred_option (\<lambda>st. st \<in> set [TIMEOUT, CANCELLED]) forced"
| "forced_ok (J_stdout forced _) = pred_option (\<lambda>st. st \<in> set [TIMEOUT, CANCELLED]) forced"
| "forced_ok (J_stderr forced _ _) = pred_option (\<lambda>st. st \<in> set [TIMEOUT, CANCELLED]) forced"
| "forced_ok (J_finish target _ _ _ _) = (target \<in> set [COMPLETED, FAILED, TIMEOUT, CANCELLED])"
| "forced_ok _ = True"

text \<open>Whether the worker answers for a job that is starting or running, and what it knows of a job's status.\<close>
fun answers_for :: "w_phase \<Rightarrow> uuid \<Rightarrow> bool" where
  "answers_for W_stopped xid = True"
| "answers_for W_orphans xid = True"
| "answers_for W_lrange xid = True"
| "answers_for (W_recover items) xid = (str_of_uuid xid \<in> set items)"
| "answers_for (W_recover_publish _ _ items) xid = (str_of_uuid xid \<in> set items)"
| "answers_for (W_recover_ack _ items) xid = (str_of_uuid xid \<in> set items)"
| "answers_for (W_start_publish raw x) xid = (x_id x = xid)"
| "answers_for (W_job j p) xid = (x_id (jb_execution j) = xid)"
| "answers_for _ xid = False"

fun knows :: "w_phase \<Rightarrow> uuid \<Rightarrow> ExecutionStatus \<Rightarrow> bool" where
  "knows (W_start_publish raw x) xid st = (x_id x = xid \<longrightarrow> st = STARTING)"
| "knows (W_job j p) xid st = (x_id (jb_execution j) = xid \<longrightarrow> st \<in> set (allowed p))"
| "knows (W_ack raw _) xid st = (raw = str_of_uuid xid \<longrightarrow> terminal st)"
| "knows (W_recover_publish raw _ _) xid st = (raw = str_of_uuid xid \<longrightarrow> terminal st)"
| "knows (W_recover_ack raw _) xid st = (raw = str_of_uuid xid \<longrightarrow> terminal st \<or> st = QUEUED)"
| "knows _ xid st = True"

text \<open>An item that recovery put back is in the queue again.\<close>
definition requeued :: "exec_world \<Rightarrow> bool" where
  "requeued w \<longleftrightarrow> (\<forall>raw items xid x. ew_worker w = W_recover_ack raw items \<longrightarrow> raw = str_of_uuid xid \<longrightarrow> rows w xid = Some x \<longrightarrow>
     x_status x = QUEUED \<longrightarrow> raw \<in> set (queue w) \<or> created w xid)"

definition job_ok :: "exec_world \<Rightarrow> uuid \<Rightarrow> Execution \<Rightarrow> bool" where
  "job_ok w xid x \<longleftrightarrow>
     (x_status x = QUEUED \<longrightarrow> placed w xid) \<and>
     (x_status x = STARTING \<or> x_status x = RUNNING \<longrightarrow> str_of_uuid xid \<in> set (processing w) \<and> answers_for (ew_worker w) xid) \<and>
     knows (ew_worker w) xid (x_status x)"

text \<open>The texts the worker handles are identifiers that were drawn, and its job is claimed.\<close>
definition text_ok :: "exec_world \<Rightarrow> pystr \<Rightarrow> bool" where
  "text_ok w raw \<longleftrightarrow> raw \<in> str_of_uuid ` ew_ids w"

fun phase_ok :: "exec_world \<Rightarrow> w_phase \<Rightarrow> bool" where
  "phase_ok w (W_recover items) = (\<forall>raw\<in>set items. text_ok w raw)"
| "phase_ok w (W_recover_publish raw _ items) = (\<forall>raw\<in>set (raw # items). text_ok w raw)"
| "phase_ok w (W_recover_ack raw items) = (\<forall>raw\<in>set (raw # items). text_ok w raw)"
| "phase_ok w (W_start raw xid) = (raw = str_of_uuid xid \<and> text_ok w raw \<and> raw \<in> set (processing w))"
| "phase_ok w (W_start_publish raw x) = (raw = str_of_uuid (x_id x) \<and> text_ok w raw \<and> raw \<in> set (processing w))"
| "phase_ok w (W_job j p) = (jb_raw j = str_of_uuid (x_id (jb_execution j)) \<and> text_ok w (jb_raw j) \<and> jb_raw j \<in> set (processing w) \<and>
     forced_ok p)"
| "phase_ok w (W_ack raw _) = text_ok w raw"
| "phase_ok w _ = True"

definition jobs_ok :: "exec_world \<Rightarrow> bool" where
  "jobs_ok w \<longleftrightarrow> exec_ok w \<and> (\<forall>raw\<in>set (queue w) \<union> set (processing w). text_ok w raw) \<and> phase_ok w (ew_worker w) \<and>
     requeued w \<and> (\<forall>xid x. rows w xid = Some x \<longrightarrow> job_ok w xid x)"

text \<open>Failures that the code does not survive without losing a job: the commit that creates it taking effect
  although it raises, an exception between that commit and the queue, one while a failed
  submission is taken back, one around the first transition of a claimed job, and one while the
  failure of a job is recorded. Everything else may fail, and the worker may die at any time.\<close>
definition careful :: "exec_world \<Rightarrow> job_event \<Rightarrow> bool" where
  "careful w ev \<longleftrightarrow>
     (case ev of
        Submit _ _ _ _ _ _ _ io \<Rightarrow> io = Io_ok \<or> \<not> takes_effect io
      | Request n io _ \<Rightarrow>
          (case ew_requests w n of
             Some (Rq_refresh _) \<Rightarrow> io = Io_ok
           | Some (Rq_discard _) \<Rightarrow> io = Io_ok
           | _ \<Rightarrow> True)
      | Worker i \<Rightarrow>
          (case ew_worker w of
             W_start _ _ \<Rightarrow> wi_io i = Io_ok
           | W_start_publish _ _ \<Rightarrow> wi_io i = Io_ok
           | W_job _ (J_fail _ _) \<Rightarrow> wi_io i = Io_ok
           | _ \<Rightarrow> True)
      | _ \<Rightarrow> True)"

section \<open>Steps of a job\<close>

lemma publish_lists [simp]:
  "rd_lists (publish_status x r) = rd_lists r" "rd_lists (publish_output x name d r) = rd_lists r"
  by (simp_all add: publish_status_def publish_output_def publish_def)

lemma phase_sel [simp]:
  "ew_redis (then_phase w j i p) = ew_redis w" "ew_redis (failing w j i e) = ew_redis w"
  "ew_worker (failing w j i e) = W_job j (J_fail e (elapsed_ms j i))"
  "ew_worker (then_phase w j i p) = W_job j (if wi_io i = Io_ok then p else J_fail (wi_error i) (elapsed_ms j i))"
  by (simp_all add: then_phase_def failing_def)

definition job_stays :: "exec_world \<Rightarrow> job \<Rightarrow> exec_world \<Rightarrow> bool" where
  "job_stays w j w' \<longleftrightarrow>
     rd_lists (ew_redis w') = rd_lists (ew_redis w) \<and>
     (\<forall>xid. xid \<noteq> x_id (jb_execution j) \<longrightarrow> rows w' xid = rows w xid) \<and>
     (\<exists>j' p'. ew_worker w' = W_job j' p' \<and> jb_raw j' = jb_raw j \<and> jb_execution j' = jb_execution j \<and> forced_ok p' \<and>
        (\<forall>x. rows w' (x_id (jb_execution j)) = Some x \<longrightarrow> x_status x \<in> set (allowed p')) \<or>
      (\<exists>raised. ew_worker w' = W_ack (jb_raw j) raised \<and>
        (\<forall>x. rows w' (x_id (jb_execution j)) = Some x \<longrightarrow> terminal (x_status x))))"

lemma stays_job:
  assumes "rd_lists (ew_redis w') = rd_lists (ew_redis w)" "ew_db w' = ew_db w" "ew_worker w' = W_job j' p'"
    "jb_raw j' = jb_raw j" "jb_execution j' = jb_execution j" "forced_ok p'"
    "\<And>x. rows w (x_id (jb_execution j)) = Some x \<Longrightarrow> x_status x \<in> set (allowed p')"
  shows "job_stays w j w'"
  using assms by (auto simp: job_stays_def)

lemma create_stays:
  assumes "allowed p = [STARTING]" "p \<noteq> J_launch" "p \<noteq> J_run" "\<And>x. rows w (x_id (jb_execution j)) = Some x \<Longrightarrow> x_status x = STARTING"
  shows "job_stays w j (create_step E i w j p)"
  using assms(1-3)
  by (cases p; simp)
    (auto simp: create_step_def Let_def dest: assms(4) intro!: stays_job split: option.split)

lemma monitor_stays:
  assumes "p \<in> {J_exists d, J_reload d, J_sleep d} \<union> range J_kill"
    and "\<And>x. rows w (x_id (jb_execution j)) = Some x \<Longrightarrow> x_status x \<in> set (allowed p)" "forced_ok p"
  shows "job_stays w j (monitor_step i w j p)"
  using assms(1) by (elim UnE insertE rangeE; simp)
    (use assms(2,3) in \<open>force simp: monitor_step_def intro!: stays_job\<close>)+

lemma stays_row:
  assumes "rd_lists (ew_redis w') = rd_lists (ew_redis w)" "ew_db w' = (if b then set_execution y (ew_db w) else ew_db w)"
    "x_id y = x_id (jb_execution j)" "ew_worker w' = W_job j' p'" "jb_raw j' = jb_raw j" "jb_execution j' = jb_execution j"
    "forced_ok p'" "b \<Longrightarrow> x_status y \<in> set (allowed p')"
    "\<And>x. \<not> b \<Longrightarrow> rows w (x_id (jb_execution j)) = Some x \<Longrightarrow> x_status x \<in> set (allowed p')"
  shows "job_stays w j w'"
  using assms by (auto simp: job_stays_def)

lemma terminal_cases: "terminal st \<longleftrightarrow> st \<in> set [COMPLETED, FAILED, TIMEOUT, CANCELLED]"
  by (auto simp: terminal_iff)

lemma no_row: "finish_row db xid target out err code ms now = Inr None \<Longrightarrow> dget (db_executions db) xid = None"
  by (auto simp: finish_row_def Let_def rbind_Inr_iff split: option.splits if_splits)

lemma finish_stays:
  assumes "exec_ok w" "\<And>x. rows w (x_id (jb_execution j)) = Some x \<Longrightarrow> x_status x \<in> set [RUNNING, CANCELLED]"
    and "target \<in> set [COMPLETED, FAILED, TIMEOUT, CANCELLED]" "ew_worker w = W_job j (J_finish target out err code ms)"
  shows "job_stays w j (result_step E i w j (J_finish target out err code ms))"
proof -
  let ?xid = "x_id (jb_execution j)"
  let ?f = "finish_row (ew_db w) ?xid target out err (Some code) ms (wi_now i)"
  have stay: "job_stays w j w" using assms by (intro stays_job) auto
  consider "ew_locks w ?xid \<noteq> None" | "ew_locks w ?xid = None" "rows w ?xid = None"
    | x where "ew_locks w ?xid = None" "rows w ?xid = Some x" by blast
  then show ?thesis
  proof cases
    case 1
    with stay show ?thesis by (simp add: result_step_def)
  next
    case 2
    then show ?thesis by (auto simp: result_step_def finish_row_def Let_def intro!: stays_job)
  next
    case 3
    then obtain y db' where f: "?f = Inr (Some (y, db'))"
      using assms(2,3) by (auto simp: finish_row_def transition_to_def Let_def)
    then have y: "db' = set_execution y (ew_db w)" "x_id y = ?xid" "x_status y \<in> set [COMPLETED, FAILED, TIMEOUT, CANCELLED]"
      using 3 exec_okD(1) [OF assms(1) 3(2)] assms(2) [OF 3(2)] assms(3)
      by (auto elim!: finish_row_Some split: if_splits)
    with f 3 assms(2) [OF 3(2)] show ?thesis
      by (intro stays_row [of _ w "takes_effect (wi_io i)" y]) (auto simp: result_step_def Let_def)
  qed
qed

lemma fail_stays:
  assumes "exec_ok w" "\<And>x. rows w (x_id (jb_execution j)) = Some x \<Longrightarrow> x_status x \<noteq> QUEUED"
    and "ew_worker w = W_job j (J_fail e ms)" "wi_io i = Io_ok"
  shows "job_stays w j (result_step E i w j (J_fail e ms))"
proof -
  let ?xid = "x_id (jb_execution j)"
  let ?f = "finish_row (ew_db w) ?xid FAILED [] e None ms (wi_now i)"
  have all: "st \<noteq> QUEUED \<Longrightarrow> st \<in> set (allowed (J_fail e ms))" for st by (cases st) auto
  have stay: "job_stays w j w" using assms(2,3) all by (intro stays_job) auto
  consider "ew_locks w ?xid \<noteq> None" | "ew_locks w ?xid = None" "rows w ?xid = None"
    | x where "ew_locks w ?xid = None" "rows w ?xid = Some x" by blast
  then show ?thesis
  proof cases
    case 1
    with stay show ?thesis by (simp add: result_step_def)
  next
    case 2
    then show ?thesis by (auto simp: result_step_def finish_row_def Let_def intro!: stays_job)
  next
    case 3
    show ?thesis
    proof (cases ?f)
      case (Inl err)
      then have "terminal (x_status x)" using 3 assms(2) [OF 3(2)]
        by (cases "x_status x") (auto simp: finish_row_def transition_to_def Let_def terminal_iff)
      with Inl 3 show ?thesis by (auto simp: result_step_def terminal_cases intro!: stays_job)
    next
      case (Inr r)
      then obtain y db' where f: "?f = Inr (Some (y, db'))" using 3 no_row [of "ew_db w" ?xid] by (cases r) fastforce+
      then have y: "db' = set_execution y (ew_db w)" "x_id y = ?xid" "x_status y \<in> set [COMPLETED, FAILED, TIMEOUT, CANCELLED]"
        using 3 exec_okD(1) [OF assms(1) 3(2)] by (auto elim!: finish_row_Some split: if_splits)
      with f 3 assms(4) show ?thesis
        by (intro stays_row [of _ w True y]) (auto simp: result_step_def Let_def)
    qed
  qed
qed

lemma transition_none:
  "transition_row db xid expected target = Inr None \<Longrightarrow> dget (db_executions db) xid = Some x \<Longrightarrow> x_status x \<noteq> expected"
  by (auto simp: transition_row_def rbind_Inr_iff split: if_splits)

lemma run_stays:
  assumes "exec_ok w" "\<And>x. rows w (x_id (jb_execution j)) = Some x \<Longrightarrow> x_status x = STARTING" "ew_worker w = W_job j J_run"
  shows "job_stays w j (job_step E i w j J_run)"
proof -
  let ?xid = "x_id (jb_execution j)"
  have stay: "job_stays w j w" using assms by (intro stays_job) auto
  consider "ew_locks w ?xid \<noteq> None" | "ew_locks w ?xid = None" "rows w ?xid = None"
    | x where "ew_locks w ?xid = None" "rows w ?xid = Some x" by blast
  then show ?thesis
  proof cases
    case 1
    with stay show ?thesis by (simp add: job_step_def)
  next
    case 2
    then show ?thesis by (auto simp: job_step_def transition_row_def Let_def intro!: stays_job)
  next
    case 3
    let ?y = "x\<lparr>x_status := RUNNING\<rparr>"
    have "transition_row (ew_db w) ?xid STARTING RUNNING = Inr (Some (?y, set_execution ?y (ew_db w)))"
      using 3 assms(2) by (simp add: transition_row_def transition_to_def)
    then show ?thesis using 3 exec_okD(1) [OF assms(1) 3(2)] assms(2) [OF 3(2)]
      by (intro stays_row [of _ w "takes_effect (wi_io i)" ?y]) (auto simp: job_step_def Let_def)
  qed
qed

lemma job_step_stays:
  assumes "exec_ok w" "ew_worker w = W_job j p" "forced_ok p" "\<And>e ms. p = J_fail e ms \<Longrightarrow> wi_io i = Io_ok"
    and row: "\<And>x. rows w (x_id (jb_execution j)) = Some x \<Longrightarrow> x_status x \<in> set (allowed p)"
  shows "job_stays w j (job_step E i w j p)"
proof (cases p)
  case J_run
  with run_stays [OF assms(1)] assms(2) row show ?thesis by simp
next
  case (J_finish target out err code ms)
  with finish_stays [OF assms(1)] assms(2,3) row show ?thesis by (simp add: job_step_def)
next
  case (J_fail e ms)
  with fail_stays [OF assms(1)] assms(2,4) row show ?thesis by (fastforce simp: job_step_def)
next
  case (J_exists d)
  with monitor_stays [of p d w j i] row show ?thesis by (simp add: job_step_def)
next
  case (J_reload d)
  with monitor_stays [of p d w j i] row show ?thesis by (simp add: job_step_def)
next
  case (J_sleep d)
  with monitor_stays [of p d w j i] row show ?thesis by (simp add: job_step_def)
next
  case (J_kill target)
  with monitor_stays [of p undefined w j i] row assms(3) show ?thesis by (simp add: job_step_def)
next
  case (J_delete_key raised)
  then show ?thesis using row
    by (auto simp: job_step_def Let_def job_stays_def terminal_cases)
next
  case (J_cleanup raised)
  then show ?thesis using row by (auto simp: job_step_def Let_def job_stays_def terminal_cases)
next
  case (J_join forced code)
  then show ?thesis using row assms(2,3)
    by (auto simp: job_step_def result_step_def intro!: stays_job split: option.split stream_task.split)
next
  case (J_stderr forced code out)
  then show ?thesis using row assms(3)
    by (auto simp: job_step_def result_step_def Let_def intro!: stays_job split: option.split)
qed (use row assms(3) create_stays [of p w j E i] in \<open>auto simp: job_step_def result_step_def Let_def intro!: stays_job\<close>)

section \<open>Steps of the worker\<close>

lemma created_upd [simp]:
  "created (ew_db_update f w) = created w" "created (ew_redis_update g w) = created w" "created (ew_worker_update h w) = created w"
  "created (ew_docker_update k w) = created w" "created (ew_stream_update l w) = created w" "created (ew_locks_update m w) = created w"
  by (simp_all add: created_def fun_eq_iff)

lemma text_ok_upd [simp]:
  "text_ok (ew_db_update f w) = text_ok w" "text_ok (ew_redis_update g w) = text_ok w" "text_ok (ew_worker_update h w) = text_ok w"
  "text_ok (ew_docker_update k w) = text_ok w" "text_ok (ew_stream_update l w) = text_ok w" "text_ok (ew_locks_update m w) = text_ok w"
  by (simp_all add: text_ok_def fun_eq_iff)

lemma list_ops [simp]:
  "rd_lists (rpush k v r) = (rd_lists r)(k := rd_lists r k @ [v])"
  "rd_lists (lrem k v r) = (rd_lists r)(k := removeAll v (rd_lists r k))"
  by (simp_all add: rpush_def lrem_def)

lemma blmove_lists:
  "rd_lists r EXECUTION_QUEUE_KEY = v # vs \<Longrightarrow>
   rd_lists (blmove EXECUTION_QUEUE_KEY EXECUTION_PROCESSING_QUEUE_KEY r)
     = (rd_lists r)(EXECUTION_QUEUE_KEY := vs, EXECUTION_PROCESSING_QUEUE_KEY := rd_lists r EXECUTION_PROCESSING_QUEUE_KEY @ [v])"
  by (auto simp: blmove_def)

text \<open>What a step has to show; identifiers and requests stay.\<close>
lemma jobs_okI:
  assumes "exec_ok w'" "ew_ids w' = ew_ids w" "ew_requests w' = ew_requests w" "jobs_ok w"
    and "set (queue w') \<union> set (processing w') \<subseteq> set (queue w) \<union> set (processing w) \<union> str_of_uuid ` ew_ids w"
    and "phase_ok w' (ew_worker w')" "requeued w'" "\<And>xid x. rows w' xid = Some x \<Longrightarrow> job_ok w' xid x"
  shows "jobs_ok w'"
  using assms by (auto simp: jobs_ok_def text_ok_def)

lemma jobs_okD:
  assumes "jobs_ok w"
  shows "exec_ok w" "raw \<in> set (queue w) \<union> set (processing w) \<Longrightarrow> text_ok w raw" "phase_ok w (ew_worker w)" "requeued w"
    "rows w xid = Some x \<Longrightarrow> job_ok w xid x"
  using assms by (auto simp: jobs_ok_def)

lemma frames_of_moves:
  assumes "worker_moves w w'"
  shows "ew_ids w' = ew_ids w" "ew_requests w' = ew_requests w" "created w' = created w" "text_ok w' = text_ok w"
  using assms by (auto simp: worker_moves_def created_def text_ok_def fun_eq_iff)

lemma requeued_other: "(\<And>raw items. ew_worker w \<noteq> W_recover_ack raw items) \<Longrightarrow> requeued w"
  by (auto simp: requeued_def)

lemma job_worker_ok:
  assumes "jobs_ok w" "careful w (Worker i)" "ew_worker w = W_job j p"
  shows "jobs_ok (w_step E i w)"
proof -
  let ?w' = "w_step E i w" and ?xid = "x_id (jb_execution j)"
  note ok = jobs_okD [OF assms(1)]
  have moves: "worker_moves w ?w'" by (rule w_step_moves)
  note frames = frames_of_moves [OF moves]
  have ph: "jb_raw j = str_of_uuid ?xid" "text_ok w (jb_raw j)" "jb_raw j \<in> set (processing w)" "forced_ok p"
    using ok(3) unfolding assms(3) phase_ok.simps by blast+
  have row: "x_status x \<in> set (allowed p)" if "rows w ?xid = Some x" for x
    using ok(5) [OF that] assms(3) by (simp add: job_ok_def)
  have "job_stays w j (job_step E i w j p)"
    by (rule job_step_stays [OF ok(1) assms(3) ph(4) _ row]) (use assms(2,3) in \<open>auto simp: careful_def\<close>)
  then have stays: "job_stays w j ?w'" using assms(3) by (simp add: w_step_def)
  then have lists: "rd_lists (ew_redis ?w') = rd_lists (ew_redis w)" and other: "xid \<noteq> ?xid \<Longrightarrow> rows ?w' xid = rows w xid" for xid
    by (auto simp: job_stays_def)
  have placed: "placed ?w' xid = placed w xid" for xid by (simp add: placed_def lists frames)
  from stays consider (job) j' p' where "ew_worker ?w' = W_job j' p'" "jb_raw j' = jb_raw j" "jb_execution j' = jb_execution j" "forced_ok p'"
      "\<And>x. rows ?w' ?xid = Some x \<Longrightarrow> x_status x \<in> set (allowed p')"
    | (ack) raised where "ew_worker ?w' = W_ack (jb_raw j) raised" "\<And>x. rows ?w' ?xid = Some x \<Longrightarrow> terminal (x_status x)"
    by (auto simp: job_stays_def)
  then show ?thesis
  proof cases
    case job
    show ?thesis
    proof (rule jobs_okI [OF _ frames(1,2) assms(1)])
      show "exec_ok ?w'" using worker_below [OF ok(1) moves] by simp
      show "job_ok ?w' xid x" if x: "rows ?w' xid = Some x" for xid x
      proof (cases "xid = ?xid")
        case True
        have "x_status x \<noteq> QUEUED" using job(5) x True by (cases p') auto
        with True job x ph show ?thesis by (auto simp: job_ok_def lists)
      next
        case False
        with x other have "rows w xid = Some x" by simp
        from ok(5) [OF this] assms(3) False job show ?thesis by (simp add: job_ok_def placed)
      qed
    qed (use job lists frames ph in \<open>auto intro: requeued_other\<close>)
  next
    case ack
    show ?thesis
    proof (rule jobs_okI [OF _ frames(1,2) assms(1)])
      show "exec_ok ?w'" using worker_below [OF ok(1) moves] by simp
      show "job_ok ?w' xid x" if x: "rows ?w' xid = Some x" for xid x
      proof (cases "xid = ?xid")
        case True
        with ack x ph show ?thesis by (auto simp: job_ok_def terminal_iff)
      next
        case False
        with x other have "rows w xid = Some x" by simp
        from ok(5) [OF this] assms(3) False ack ph show ?thesis by (simp add: job_ok_def placed)
      qed
    qed (use ack lists frames ph in \<open>auto intro: requeued_other\<close>)
  qed
qed

lemma text_okE:
  assumes "text_ok w raw"
  obtains xid where "raw = str_of_uuid xid" "xid \<in> ew_ids w"
  using assms by (auto simp: text_ok_def)

lemma active_iff: "\<not> terminal st \<longleftrightarrow> st = QUEUED \<or> st = STARTING \<or> st = RUNNING"
  by (cases st) (auto simp: terminal_iff)

text \<open>A step that only changes the phase.\<close>
lemma phase_step_ok:
  assumes "jobs_ok w" "worker_moves w w'" "ew_db w' = ew_db w" "rd_lists (ew_redis w') = rd_lists (ew_redis w)"
    and "phase_ok w (ew_worker w')" "requeued w'"
    and "\<And>xid x. rows w xid = Some x \<Longrightarrow> x_status x = STARTING \<or> x_status x = RUNNING \<Longrightarrow>
       str_of_uuid xid \<in> set (processing w) \<Longrightarrow> answers_for (ew_worker w) xid \<Longrightarrow> answers_for (ew_worker w') xid"
    and "\<And>xid x. rows w xid = Some x \<Longrightarrow> job_ok w xid x \<Longrightarrow> knows (ew_worker w') xid (x_status x)"
  shows "jobs_ok w'"
proof -
  note frames = frames_of_moves [OF assms(2)]
  note ok = jobs_okD [OF assms(1)]
  show ?thesis
  proof (rule jobs_okI [OF _ frames(1,2) assms(1)])
    show "exec_ok w'" using worker_below [OF ok(1) assms(2)] by simp
    show "phase_ok w' (ew_worker w')" using assms(5) frames(4) by (cases "ew_worker w'") (auto simp: assms(4))
    show "job_ok w' xid x" if "rows w' xid = Some x" for xid x
    proof -
      have x: "rows w xid = Some x" using that assms(3) by simp
      have "placed w' xid = placed w xid" by (simp add: placed_def frames assms(4))
      with ok(5) [OF x] assms(7,8) [OF x] show ?thesis by (auto simp: job_ok_def assms(4))
    qed
  qed (use assms(4,6) in auto)
qed

lemma ack_ok:
  assumes "jobs_ok w" "worker_moves w w'" "ew_db w' = ew_db w" "text_ok w raw"
    and "rd_lists (ew_redis w') = rd_lists (ew_redis w) \<or>
       rd_lists (ew_redis w') = (rd_lists (ew_redis w))(EXECUTION_PROCESSING_QUEUE_KEY := removeAll raw (processing w))"
    and "phase_ok w' (ew_worker w')" "\<And>r items. ew_worker w' \<noteq> W_recover_ack r items"
    and "\<And>xid x. rows w xid = Some x \<Longrightarrow> raw = str_of_uuid xid \<Longrightarrow> job_ok w xid x \<Longrightarrow>
       terminal (x_status x) \<or> x_status x = QUEUED \<and> (raw \<in> set (queue w) \<or> created w xid)"
    and "\<And>xid x. rows w xid = Some x \<Longrightarrow> x_status x = STARTING \<or> x_status x = RUNNING \<Longrightarrow> raw \<noteq> str_of_uuid xid \<Longrightarrow>
       str_of_uuid xid \<in> set (processing w) \<Longrightarrow> answers_for (ew_worker w) xid \<Longrightarrow> answers_for (ew_worker w') xid"
    and "\<And>xid x. knows (ew_worker w') xid x"
  shows "jobs_ok w'"
proof -
  note frames = frames_of_moves [OF assms(2)]
  note ok = jobs_okD [OF assms(1)]
  obtain xid0 where raw: "raw = str_of_uuid xid0" using assms(4) by (rule text_okE)
  have proc: "r \<in> set (processing w) \<Longrightarrow> r \<noteq> raw \<Longrightarrow> r \<in> set (processing w')" and queue: "queue w' = queue w" for r
    using assms(5) by auto
  show ?thesis
  proof (rule jobs_okI [OF _ frames(1,2) assms(1)])
    show "exec_ok w'" using worker_below [OF ok(1) assms(2)] by simp
    show "job_ok w' xid x" if "rows w' xid = Some x" for xid x
    proof -
      have x: "rows w xid = Some x" using that assms(3) by simp
      show ?thesis
      proof (cases "xid = xid0")
        case True
        with assms(8) [OF x] ok(5) [OF x] raw queue frames(3) assms(10) show ?thesis
          by (auto simp: job_ok_def placed_def terminal_iff)
      next
        case False
        then have "str_of_uuid xid \<noteq> raw" using raw by simp
        then show ?thesis using ok(5) [OF x] assms(9) [OF x] proc queue frames(3) assms(10)
          by (auto simp: job_ok_def placed_def)
      qed
    qed
  qed (use assms(5,6,7) in \<open>auto intro: requeued_other\<close>)
qed

lemma recover_ok:
  assumes "jobs_ok w" "ew_worker w = W_recover (str_of_uuid xid0 # items)"
  shows "jobs_ok (recover_step i w (str_of_uuid xid0) items)"
proof -
  let ?raw = "str_of_uuid xid0"
  let ?w' = "recover_step i w ?raw items"
  note ok = jobs_okD [OF assms(1)]
  have moves: "worker_moves w ?w'" by (rule recover_moves)
  note frames = frames_of_moves [OF moves]
  have items: "text_ok w ?raw" "\<And>r. r \<in> set items \<Longrightarrow> text_ok w r" using ok(3) assms(2) by simp_all
  consider "ew_locks w xid0 \<noteq> None" | "ew_locks w xid0 = None" "rows w xid0 = None"
    | x where "ew_locks w xid0 = None" "rows w xid0 = Some x" by blast
  then show ?thesis
  proof cases
    case 1
    with assms(1) show ?thesis by (simp add: recover_step_def)
  next
    case 2
    then have w': "?w' = to_phase w (if wi_io i = Io_ok then W_recover_ack ?raw items else W_stopped)"
      by (simp add: recover_step_def Let_def)
    show ?thesis
      by (rule phase_step_ok [OF assms(1) moves])
        (use 2 items assms(2) in \<open>auto simp: w' requeued_def\<close>)
  next
    case 3
    have id: "x_id x = xid0" using exec_okD(1) [OF ok(1) 3(2)] by simp
    consider "x_status x = QUEUED" | "x_status x = STARTING \<or> x_status x = RUNNING" | "terminal (x_status x)"
      using active_iff by blast
    then show ?thesis
    proof cases
      case 1
      then have w': "?w' = to_phase (redis_call w (wi_io i) (rpush EXECUTION_QUEUE_KEY ?raw)) (if wi_io i = Io_ok then W_recover_ack ?raw items else W_stopped)"
        using 3 by (simp add: recover_step_def Let_def)
      show ?thesis
      proof (rule jobs_okI [OF _ frames(1,2) assms(1)])
        show "exec_ok ?w'" using worker_below [OF ok(1) moves] by simp
        show "job_ok ?w' xid y" if "rows ?w' xid = Some y" for xid y
        proof -
          from that have y: "rows w xid = Some y" by (simp add: w')
          from ok(5) [OF y] assms(2) frames(3) 1 3 y show ?thesis
            by (cases "xid = xid0") (auto simp: job_ok_def placed_def w')
        qed
      qed (use items 1 3 in \<open>auto simp: w' requeued_def text_ok_def\<close>)
    next
      case 2
      then obtain y db' where y: "recover_row (ew_db w) x (wi_now i) = Inr (y, db')"
        by (auto simp: recover_row_def transition_to_def Let_def)
      note yy = recover_row_Inr [OF y]
      have w': "?w' = to_phase (commit w (wi_io i) db') (if wi_io i = Io_ok then W_recover_publish ?raw y items else W_stopped)"
        using 2 3 y by (auto simp: recover_step_def Let_def)
      have idy: "x_id y = xid0" "x_status y = FAILED" using yy id by simp_all
      show ?thesis
      proof (rule jobs_okI [OF _ frames(1,2) assms(1)])
        show "exec_ok ?w'" using worker_below [OF ok(1) moves] by simp
        show "job_ok ?w' xid z" if z: "rows ?w' xid = Some z" for xid z
        proof (cases "xid = xid0")
          case True
          then have "z = y \<or> z = x \<and> wi_io i \<noteq> Io_ok" using z yy(2) idy 3 by (auto simp: w' split: if_splits)
          then show ?thesis using ok(5) [OF 3(2)] idy True by (auto simp: job_ok_def w' terminal_iff placed_def frames(3) [unfolded w'])
        next
          case False
          then have "rows w xid = Some z" using z yy(2) idy by (auto simp: w' split: if_splits)
          from ok(5) [OF this] assms(2) False show ?thesis
            by (auto simp: job_ok_def placed_def frames(3) [unfolded w'] w')
        qed
      qed (use items in \<open>auto simp: w' requeued_def text_ok_def\<close>)
    next
      case 3
      show ?thesis
        by (rule phase_step_ok [OF assms(1) moves])
          (use 3 \<open>rows w xid0 = Some x\<close> items assms(2) in \<open>auto simp: recover_step_def Let_def requeued_def terminal_iff split: option.split\<close>)
    qed
  qed
qed

lemma start_ok:
  assumes "jobs_ok w" "careful w (Worker i)" "ew_worker w = W_start raw xid0"
  shows "jobs_ok (w_step E i w)"
proof -
  let ?w' = "w_step E i w" and ?raw = "str_of_uuid xid0"
  note ok = jobs_okD [OF assms(1)]
  have moves: "worker_moves w ?w'" by (rule w_step_moves)
  note frames = frames_of_moves [OF moves]
  have io: "wi_io i = Io_ok" using assms(2,3) by (simp add: careful_def)
  have raw: "raw = ?raw" "text_ok w ?raw" "?raw \<in> set (processing w)" using ok(3) assms(3) by auto
  consider "ew_locks w xid0 \<noteq> None" | "ew_locks w xid0 = None" "transition_row (ew_db w) xid0 QUEUED STARTING = Inr None"
    | x where "ew_locks w xid0 = None" "rows w xid0 = Some x" "x_status x = QUEUED"
  proof -
    have "transition_row (ew_db w) xid0 QUEUED STARTING = Inr None" if "\<nexists>x. rows w xid0 = Some x \<and> x_status x = QUEUED"
      using that by (cases "rows w xid0") (auto simp: transition_row_def)
    then show thesis using that by blast
  qed
  then show ?thesis
  proof cases
    case 1
    with assms(1,3) show ?thesis by (simp add: w_step_def)
  next
    case 2
    then have w': "?w' = to_phase w (W_ack ?raw False)" using assms(3) io raw(1) by (simp add: w_step_def)
    have "terminal (x_status x)" if x: "rows w xid0 = Some x" for x
      using transition_none [OF 2(2) x] ok(5) [OF x] assms(3) active_iff by (auto simp: job_ok_def)
    then show ?thesis unfolding w'
      by (intro phase_step_ok [OF assms(1) moves [unfolded w']]) (use raw(2) assms(3) in \<open>auto simp: requeued_def\<close>)
  next
    case 3
    let ?y = "x\<lparr>x_status := STARTING\<rparr>"
    have id: "x_id x = xid0" using exec_okD(1) [OF ok(1) 3(2)] by simp
    have w': "?w' = to_phase (w\<lparr>ew_db := set_execution ?y (ew_db w)\<rparr>) (W_start_publish ?raw ?y)"
      using 3 assms(3) io raw(1) by (simp add: w_step_def transition_row_def transition_to_def)
    show ?thesis
    proof (rule jobs_okI [OF _ frames(1,2) assms(1)])
      show "exec_ok ?w'" using worker_below [OF ok(1) moves] by simp
      show "job_ok ?w' xid z" if z: "rows ?w' xid = Some z" for xid z
      proof (cases "xid = xid0")
        case True
        with z id raw show ?thesis by (auto simp: job_ok_def w')
      next
        case False
        then have "rows w xid = Some z" using z id by (simp add: w')
        from ok(5) [OF this] assms(3) False id show ?thesis
          by (auto simp: job_ok_def placed_def frames(3) [unfolded w'] w')
      qed
    qed (use raw id in \<open>auto simp: w' requeued_def text_ok_def\<close>)
  qed
qed

lemma idle_ok:
  assumes "jobs_ok w" "ew_worker w = W_idle"
  shows "jobs_ok (w_step E i w)"
proof (cases "queue w")
  case Nil
  with assms show ?thesis by (simp add: w_step_def)
next
  case (Cons raw rest)
  let ?w' = "w_step E i w"
  note ok = jobs_okD [OF assms(1)]
  have moves: "worker_moves w ?w'" by (rule w_step_moves)
  note frames = frames_of_moves [OF moves]
  have "text_ok w raw" using ok(2) Cons by simp
  then obtain xid0 where raw: "raw = str_of_uuid xid0" by (rule text_okE)
  have known0: "text_ok w (str_of_uuid xid0)" using \<open>text_ok w raw\<close> raw by simp
  let ?r = "if takes_effect (wi_io i) then blmove EXECUTION_QUEUE_KEY EXECUTION_PROCESSING_QUEUE_KEY (ew_redis w) else ew_redis w"
  have w': "?w' = w\<lparr>ew_redis := ?r, ew_worker := (if wi_io i = Io_ok then W_start (str_of_uuid xid0) xid0 else W_idle)\<rparr>"
    using assms(2) Cons raw by (simp add: w_step_def Let_def)
  have lists: "set (queue ?w') \<union> set (processing ?w') = set (queue w) \<union> set (processing w)"
    "set (processing w) \<subseteq> set (processing ?w')" "wi_io i = Io_ok \<Longrightarrow> str_of_uuid xid0 \<in> set (processing ?w')"
    using Cons raw by (auto simp: w' blmove_lists split: if_splits)
  show ?thesis
  proof (rule jobs_okI [OF _ frames(1,2) assms(1)])
    show "exec_ok ?w'" using worker_below [OF ok(1) moves] by simp
    show "phase_ok ?w' (ew_worker ?w')" using lists(3) known0 frames(4) by (simp add: w')
    show "job_ok ?w' xid z" if "rows ?w' xid = Some z" for xid z
    proof -
      from that have "rows w xid = Some z" by (simp add: w')
      from ok(5) [OF this] assms(2) lists(1) frames(3) show ?thesis
        by (auto simp: job_ok_def placed_def w')
    qed
    show "requeued ?w'" by (rule requeued_other) (simp add: w')
  qed (use lists(1) in blast)
qed

lemma worker_ok:
  assumes "jobs_ok w" "careful w (Worker i)"
  shows "jobs_ok (w_step E i w)"
proof (cases "ew_worker w")
  case W_stopped
  with assms show ?thesis by (simp add: w_step_def)
next
  case W_orphans
  then show ?thesis
    by (intro phase_step_ok [OF assms(1) w_step_moves]) (auto simp: w_step_def requeued_def)
next
  case W_lrange
  note ok = jobs_okD [OF assms(1)]
  show ?thesis
    by (intro phase_step_ok [OF assms(1) w_step_moves])
      (use W_lrange ok(2) in \<open>auto simp: w_step_def requeued_def split: if_splits\<close>)
next
  case (W_recover items)
  show ?thesis
  proof (cases items)
    case Nil
    with W_recover show ?thesis
      by (intro phase_step_ok [OF assms(1) w_step_moves]) (auto simp: w_step_def requeued_def)
  next
    case (Cons raw rest)
    have "text_ok w raw" using jobs_okD(3) [OF assms(1)] W_recover Cons by simp
    then obtain xid0 where "raw = str_of_uuid xid0" by (rule text_okE)
    with recover_ok [OF assms(1), of xid0 rest] W_recover Cons show ?thesis by (simp add: w_step_def)
  qed
next
  case (W_recover_publish raw x items)
  show ?thesis
  proof (rule phase_step_ok [OF assms(1) w_step_moves])
    show "knows (ew_worker (w_step E i w)) xid (x_status y)" if "rows w xid = Some y" "job_ok w xid y" for xid y
      using that(2) W_recover_publish by (auto simp: w_step_def Let_def job_ok_def)
    have "x_status y \<noteq> QUEUED" if "rows w xid = Some y" "raw = str_of_uuid xid" for xid y
      using jobs_okD(5) [OF assms(1) that(1)] that(2) W_recover_publish by (auto simp: job_ok_def terminal_iff)
    moreover have "ew_db (w_step E i w) = ew_db w" "ew_worker (w_step E i w) = W_recover_ack r its \<Longrightarrow> r = raw" for r its
      using W_recover_publish by (auto simp: w_step_def Let_def split: if_splits)
    ultimately show "requeued (w_step E i w)"
      unfolding requeued_def by metis
  qed (use W_recover_publish jobs_okD(3) [OF assms(1)] in \<open>auto simp: w_step_def Let_def\<close>)
next
  case (W_recover_ack raw items)
  note ok = jobs_okD [OF assms(1)]
  show ?thesis
    by (rule ack_ok [OF assms(1) w_step_moves, of E i raw])
      (use W_recover_ack ok(3,4) in \<open>auto simp: w_step_def Let_def requeued_def job_ok_def text_ok_def\<close>)
next
  case W_idle
  with assms idle_ok show ?thesis by blast
next
  case (W_start raw xid)
  with assms start_ok show ?thesis by blast
next
  case (W_start_publish raw x)
  have io: "wi_io i = Io_ok" using assms(2) W_start_publish by (simp add: careful_def)
  let ?j = "\<lparr>jb_raw = raw, jb_execution = x, jb_started = wi_clock i, jb_sandbox = False\<rparr>"
  have worker: "ew_worker (w_step E i w) = W_job ?j J_image" and rest: "ew_db (w_step E i w) = ew_db w"
    "rd_lists (ew_redis (w_step E i w)) = rd_lists (ew_redis w)"
    using W_start_publish io by (simp_all add: w_step_def Let_def)
  show ?thesis
  proof (rule phase_step_ok [OF assms(1) w_step_moves rest])
    show "phase_ok w (ew_worker (w_step E i w))" unfolding worker
      using jobs_okD(3) [OF assms(1), unfolded W_start_publish] unfolding phase_ok.simps job.simps forced_ok.simps by blast
    show "requeued (w_step E i w)" by (rule requeued_other) (simp add: worker)
    show "answers_for (ew_worker (w_step E i w)) xid" if "answers_for (ew_worker w) xid" for xid
      using that unfolding worker W_start_publish by simp
    show "knows (ew_worker (w_step E i w)) xid (x_status y)" if "job_ok w xid y" for xid y
      using that unfolding worker job_ok_def W_start_publish knows.simps allowed.simps job.simps list.set by blast
  qed
next
  case (W_job j p)
  with assms job_worker_ok show ?thesis by blast
next
  case (W_ack raw raised)
  note ok = jobs_okD [OF assms(1)]
  show ?thesis
    by (rule ack_ok [OF assms(1) w_step_moves, of E i raw])
      (use W_ack ok(3) in \<open>auto simp: w_step_def Let_def job_ok_def\<close>)
qed

end
