(* ===== verification/JobSafety.thy ===== *)
theory JobSafety
  imports JobPlaces
begin

text \<open>
  No execution is lost: the invariant of \<open>JobPlaces\<close> under the requests, the stream task, worker deaths
  and restarts, for every run in which the calls of \<open>careful\<close> do not fail; and the failure that
  does lose one, with the proof that nothing moves it afterwards. The order of executions of
  \<open>JobOrder\<close> is stated here as a property of runs.
\<close>

section \<open>Requests and restarts\<close>

lemma knows_cancelled:
  assumes "knows p xid st" "st = QUEUED \<or> st = RUNNING"
  shows "knows p xid CANCELLED"
proof (cases p)
  case (W_job j ph)
  with assms show ?thesis by (cases ph) auto
qed (use assms in \<open>auto simp: terminal_iff\<close>)

lemma knows_fresh:
  assumes "phase_ok w p" "xid \<notin> ew_ids w"
  shows "knows p xid st"
proof -
  have "\<not> text_ok w (str_of_uuid xid)" using assms(2) by (auto simp: text_ok_def)
  with assms(1) show ?thesis by (cases p) auto
qed

text \<open>A request leaves the worker and the claimed jobs alone. It adds rows that it goes on to enqueue, cancels
  rows, or takes back one of its own.\<close>
lemma request_step_ok:
  assumes "jobs_ok w" "exec_ok w'" "ew_worker w' = ew_worker w" "processing w' = processing w" "ew_ids w \<subseteq> ew_ids w'"
    and queue: "set (queue w) \<subseteq> set (queue w')" "set (queue w') \<subseteq> set (queue w) \<union> str_of_uuid ` ew_ids w'"
    and created: "\<And>xid x. rows w' xid = Some x \<Longrightarrow> x_status x = QUEUED \<Longrightarrow> created w xid \<Longrightarrow>
      created w' xid \<or> str_of_uuid xid \<in> set (queue w')"
    and rows: "\<And>xid y. rows w' xid = Some y \<Longrightarrow>
      xid \<notin> ew_ids w \<and> x_status y = QUEUED \<and> created w' xid \<or>
      (\<exists>x. rows w xid = Some x \<and> (x_status y = x_status x \<or> x_status y = CANCELLED \<and> (x_status x = QUEUED \<or> x_status x = RUNNING)))"
  shows "jobs_ok w'"
proof -
  note ok = jobs_okD [OF assms(1)]
  have known: "text_ok w r \<Longrightarrow> text_ok w' r" for r using assms(5) by (auto simp: text_ok_def)
  have place: "placed w' xid" if "placed w xid" "rows w' xid = Some y" "x_status y = QUEUED" for xid y
    using that created [OF that(2,3)] queue(1) assms(4) by (auto simp: placed_def)
  have "job_ok w' xid y" if y: "rows w' xid = Some y" for xid y
  proof -
    consider "xid \<notin> ew_ids w" "x_status y = QUEUED" "created w' xid"
      | x where "rows w xid = Some x" "x_status y = x_status x"
      | x where "rows w xid = Some x" "x_status y = CANCELLED" "x_status x = QUEUED \<or> x_status x = RUNNING"
      using rows [OF y] by blast
    then show ?thesis
    proof cases
      case 1
      then show ?thesis using knows_fresh [OF ok(3)] assms(3) by (simp add: job_ok_def placed_def)
    next
      case (2 x)
      then show ?thesis using ok(5) [OF 2(1)] place [OF _ y] assms(3,4) by (simp add: job_ok_def)
    next
      case (3 x)
      then show ?thesis using ok(5) [OF 3(1)] knows_cancelled [of "ew_worker w" xid "x_status x"] assms(3)
        by (simp add: job_ok_def)
    qed
  qed
  moreover have "requeued w'"
    unfolding requeued_def
  proof (intro allI impI)
    fix raw items xid y
    assume h: "ew_worker w' = W_recover_ack raw items" "raw = str_of_uuid xid" "rows w' xid = Some y" "x_status y = QUEUED"
    then have "xid \<in> ew_ids w" using ok(3) assms(3) by (auto simp: text_ok_def)
    with rows [OF h(3)] h(4) obtain x where "rows w xid = Some x" "x_status x = QUEUED" by auto
    with ok(4) h assms(3) have "raw \<in> set (queue w) \<or> created w xid" unfolding requeued_def by metis
    then show "raw \<in> set (queue w') \<or> created w' xid" using created [OF h(3,4)] queue(1) h(2) by blast
  qed
  moreover have "phase_ok w' (ew_worker w')"
    using ok(3) known unfolding assms(3) by (cases "ew_worker w") (auto simp: assms(4))
  moreover have "text_ok w' raw" if "raw \<in> set (queue w') \<union> set (processing w')" for raw
    using that queue(2) assms(4) known ok(2) by (auto simp: text_ok_def)
  ultimately show ?thesis using assms(2) by (simp add: jobs_ok_def)
qed

lemma createdI: "ew_requests w n = Some q \<Longrightarrow> \<not> cancelling q \<Longrightarrow> x_id (request_row q) = xid \<Longrightarrow> created w xid"
  by (auto simp: created_def)

text \<open>Other requests stay created when one slot changes.\<close>
lemma created_other:
  assumes "created w xid" "\<And>m. m \<noteq> n \<Longrightarrow> ew_requests w' m = ew_requests w m"
    and "\<And>q. ew_requests w n = Some q \<Longrightarrow> \<not> cancelling q \<Longrightarrow> x_id (request_row q) = xid \<Longrightarrow> created w' xid"
  shows "created w' xid"
proof -
  obtain m q where q: "ew_requests w m = Some q" "\<not> cancelling q" "x_id (request_row q) = xid"
    using assms(1) by (auto simp: created_def)
  show ?thesis
  proof (cases "m = n")
    case True with q assms(3) show ?thesis by blast
  next
    case False with q assms(2) show ?thesis by (intro createdI [of w' m q]) auto
  qed
qed

lemma submit_jobs:
  assumes "jobs_ok w" "io = Io_ok \<or> \<not> takes_effect io"
  shows "jobs_ok (submit w n new_id now sid user code language io)"
proof (cases "ew_requests w n \<noteq> None \<or> ew_results w n \<noteq> None \<or> new_id \<in> ew_ids w")
  case True
  with assms show ?thesis by (simp add: submit_def)
next
  case False
  let ?w' = "submit w n new_id now sid user code language io"
  note ok = jobs_okD [OF assms(1)]
  have new: "ew_requests w n = None" "ew_results w n = None" "new_id \<notin> ew_ids w" using False by simp_all
  have same: "ew_redis ?w' = ew_redis w" "ew_worker ?w' = ew_worker w" "ew_ids ?w' = insert new_id (ew_ids w)"
    "\<And>m. m \<noteq> n \<Longrightarrow> ew_requests ?w' m = ew_requests w m"
    using new by (auto simp: submit_def Let_def split: option.split)
  have "created ?w' xid" if "created w xid" for xid
    by (rule created_other [OF that same(4)]) (use new in auto)
  moreover have "xid \<notin> ew_ids w \<and> x_status y = QUEUED \<and> created ?w' xid \<or> rows w xid = Some y"
    if y: "rows ?w' xid = Some y" for xid y
  proof (cases "io = Io_ok \<and> insert_execution new_id now (ew_db w) sid user code language \<noteq> None")
    case True
    then obtain x db' where i: "insert_execution new_id now (ew_db w) sid user code language = Some (x, db')" by auto
    note x = insert_execution_Some [OF i]
    have "ew_requests ?w' n = Some (Rq_refresh x)" using True i new by (simp add: submit_def)
    then have "created ?w' new_id" using x by (auto intro: createdI)
    moreover have "rows ?w' = (rows w)(new_id \<mapsto> x)" using True i new x by (auto simp: submit_def fun_eq_iff)
    ultimately show ?thesis using y x(2) new(3) by (auto split: if_splits)
  next
    case False
    then have "ew_db ?w' = ew_db w" using assms(2) new by (auto simp: submit_def Let_def split: option.split)
    with y show ?thesis by simp
  qed
  ultimately show ?thesis
    by (intro request_step_ok [OF assms(1)]) (use submit_ok [OF ok(1)] same in \<open>simp_all, blast+\<close>)
qed

lemma cancel_jobs:
  assumes "jobs_ok w"
  shows "jobs_ok (cancel w n sid xid now io)"
proof (cases "ew_requests w n \<noteq> None \<or> ew_results w n \<noteq> None \<or> ew_locks w xid \<noteq> None")
  case True
  with assms show ?thesis by (simp add: cancel_def)
next
  case False
  let ?w' = "cancel w n sid xid now io"
  note ok = jobs_okD [OF assms]
  have new: "ew_requests w n = None" "ew_results w n = None" "ew_locks w xid = None" using False by simp_all
  have same: "ew_redis ?w' = ew_redis w" "ew_worker ?w' = ew_worker w" "ew_ids ?w' = ew_ids w"
    "\<And>m. m \<noteq> n \<Longrightarrow> ew_requests ?w' m = ew_requests w m"
    using new by (auto simp: cancel_def split: sum.split)
  have "created ?w' z" if "created w z" for z
    by (rule created_other [OF that same(4)]) (use new in auto)
  moreover have "\<exists>x. rows w z = Some x \<and> (x_status y = x_status x \<or> x_status y = CANCELLED \<and> (x_status x = QUEUED \<or> x_status x = RUNNING))"
    if y: "rows ?w' z = Some y" for z y
  proof (cases "ew_db ?w' = ew_db w")
    case False
    then obtain x v db' where x: "check_cancel (ew_db w) sid xid = Inr x" and c: "commit_cancel now x (ew_db w) = Inr (v, db')"
      and db: "ew_db ?w' = db'"
      using new by (auto simp: cancel_def split: sum.splits if_splits)
    note v = cancel_below [OF c]
    note x = check_cancel_Inr [OF x]
    have "x_id v = xid" using v exec_okD(1) [OF ok(1) x(1)] by (simp add: row_below_def)
    then have "rows ?w' = (rows w)(xid \<mapsto> v)" using v db by (auto simp: fun_eq_iff)
    with y x v show ?thesis by (auto split: if_splits)
  qed (use y in simp)
  ultimately show ?thesis
    by (intro request_step_ok [OF assms]) (use cancel_ok [OF ok(1)] same in auto)
qed

lemma enqueue_lists: "rd_lists (enqueue xid r) = (rd_lists r)(EXECUTION_QUEUE_KEY := rd_lists r EXECUTION_QUEUE_KEY @ [str_of_uuid xid])"
  by (simp add: enqueue_def)

lemma signal_lists [simp]: "rd_lists (request_cancellation xid r) = rd_lists r"
  by (simp add: request_cancellation_def)

lemma continue_jobs:
  assumes "jobs_ok w" "ew_requests w n = Some q" "careful w (Request n io now)"
  shows "jobs_ok (continue_request w n q io now)"
proof -
  let ?w' = "continue_request w n q io now"
  note ok = jobs_okD [OF assms(1)]
  have same: "ew_worker ?w' = ew_worker w" "ew_ids ?w' = ew_ids w" "processing ?w' = processing w"
    "\<And>m. m \<noteq> n \<Longrightarrow> ew_requests ?w' m = ew_requests w m"
    using assms(2) by (auto simp: continue_request_def Let_def enqueue_lists split: job_request.split sum.split)
  have known: "x_id (request_row q) \<in> ew_ids w"
    using exec_okD(2) [OF ok(1)] assms(2) by (simp add: requests_known_def known_def)
  have queue: "set (queue w) \<subseteq> set (queue ?w')" "set (queue ?w') \<subseteq> set (queue w) \<union> str_of_uuid ` ew_ids ?w'"
    using known same(2) by (cases q; auto simp: continue_request_def Let_def enqueue_lists split: sum.split)+
  have c: "created ?w' xid \<or> str_of_uuid xid \<in> set (queue ?w')"
    if "rows ?w' xid = Some y" "x_status y = QUEUED" "created w xid" for xid y
  proof (cases "\<not> cancelling q \<and> x_id (request_row q) = xid")
    case False
    have "created ?w' xid" by (rule created_other [OF that(3) same(4)]) (use assms(2) False in auto)
    then show ?thesis ..
  next
    case True
    then show ?thesis
    proof (cases q)
      case (Rq_refresh x)
      then have "ew_requests ?w' n = Some (Rq_enqueue x)" using assms(2,3) by (simp add: continue_request_def careful_def)
      with Rq_refresh True show ?thesis by (auto intro: createdI)
    next
      case (Rq_enqueue x)
      then have "io \<noteq> Io_ok \<Longrightarrow> ew_requests ?w' n = Some (Rq_discard x)" by (simp add: continue_request_def Let_def)
      moreover have "io = Io_ok \<Longrightarrow> str_of_uuid xid \<in> set (queue ?w')" using Rq_enqueue True
        by (simp add: continue_request_def enqueue_lists)
      ultimately show ?thesis using Rq_enqueue True by (cases "io = Io_ok") (auto intro: createdI)
    next
      case (Rq_discard x)
      have "io = Io_ok" using assms(2,3) Rq_discard by (simp add: careful_def)
      with Rq_discard True that(1,3) show ?thesis
        by (cases "ew_locks w (x_id x)") (auto simp: continue_request_def delete_execution_def)
    qed auto
  qed
  have rows: "\<exists>x. rows w z = Some x \<and> (x_status y = x_status x \<or> x_status y = CANCELLED \<and> (x_status x = QUEUED \<or> x_status x = RUNNING))"
    if y: "rows ?w' z = Some y" for z y
  proof (cases q)
    case (Rq_discard x)
    with y show ?thesis by (auto simp: continue_request_def delete_execution_def split: if_splits)
  next
    case (Rq_commit x)
    have x: "rows w (x_id x) = Some x" "x_status x = RUNNING"
      using exec_okD(3) [OF ok(1)] assms(2) Rq_commit unfolding locks_held_def
      by (metis cancelling.simps(2) request_row.simps(5))+
    show ?thesis
    proof (cases "ew_db ?w' = ew_db w")
      case False
      then obtain v db' where c: "commit_cancel now x (ew_db w) = Inr (v, db')" and db: "ew_db ?w' = db'"
        using Rq_commit by (auto simp: continue_request_def split: sum.splits if_splits)
      note v = cancel_below [OF c]
      have "rows ?w' = (rows w)(x_id x \<mapsto> v)" using v db by (auto simp: fun_eq_iff row_below_def)
      with y x v show ?thesis by (auto split: if_splits)
    qed (use y in simp)
  qed (use y in \<open>auto simp: continue_request_def Let_def split: if_splits\<close>)
  show ?thesis
    by (rule request_step_ok [OF assms(1) _ same(1,3) _ queue]) (use continue_request_ok [OF ok(1) assms(2)] same(2) c rows in auto)
qed

lemma quiet_step_ok:
  assumes "jobs_ok w" "ew_db w' = ew_db w" "rd_lists (ew_redis w') = rd_lists (ew_redis w)" "ew_ids w' = ew_ids w"
    and "ew_requests w' = ew_requests w" "ew_locks w' = ew_locks w" "ew_results w' = ew_results w"
    and "ew_worker w' = ew_worker w \<or> ew_worker w' = W_stopped \<or> ew_worker w' = W_orphans"
  shows "jobs_ok w'"
proof (rule phase_step_ok [OF assms(1) _ assms(2,3)])
  note ok = jobs_okD [OF assms(1)]
  show "worker_moves w w'" using assms by (intro moves_same) auto
  show "phase_ok w (ew_worker w')" using ok(3) assms(8) by auto
  have "created w' = created w" using assms(5) by (simp add: created_def fun_eq_iff)
  then show "requeued w'" using ok(4) assms(2,3,8) by (auto simp: requeued_def)
  show "knows (ew_worker w') xid (x_status x)" if "job_ok w xid x" for xid x
    using that assms(8) by (auto simp: job_ok_def)
qed (use assms(8) in auto)

lemma stream_quiet:
  "ew_db (stream_step E w ev) = ew_db w" "rd_lists (ew_redis (stream_step E w ev)) = rd_lists (ew_redis w)"
  "ew_ids (stream_step E w ev) = ew_ids w" "ew_requests (stream_step E w ev) = ew_requests w"
  "ew_locks (stream_step E w ev) = ew_locks w" "ew_results (stream_step E w ev) = ew_results w"
  "ew_worker (stream_step E w ev) = ew_worker w"
  by (auto simp: stream_step_def split: option.split stream_task.split list.split job_event.split prod.split)

lemma exec_step_jobs:
  assumes "jobs_ok w" "careful w ev"
  shows "jobs_ok (exec_step E w ev)"
proof (cases ev)
  case (Submit n new_id now sid user code language io)
  with assms submit_jobs show ?thesis by (simp add: exec_step_def careful_def)
next
  case (Cancel n sid xid now io)
  with assms cancel_jobs show ?thesis by (simp add: exec_step_def)
next
  case (Request n io now)
  with assms continue_jobs [OF assms(1)] show ?thesis by (auto simp: exec_step_def split: option.split)
next
  case (Worker i)
  with assms worker_ok show ?thesis by (simp add: exec_step_def)
qed (auto simp: exec_step_def stream_quiet intro!: quiet_step_ok [OF assms(1)])

section \<open>Careful runs\<close>

fun careful_run :: "worker_env \<Rightarrow> exec_world \<Rightarrow> job_event list \<Rightarrow> bool" where
  "careful_run E w [] = True"
| "careful_run E w (ev # evs) = (careful w ev \<and> careful_run E (exec_step E w ev) evs)"

interpretation careful_jobs: invariant_machine "\<lambda>w ev. if careful w ev then exec_step E w ev else w" jobs_ok for E
  by unfold_locales (use exec_step_jobs in auto)

lemma careful_run_jobs: "careful_run E w evs \<Longrightarrow> jobs_ok w \<Longrightarrow> jobs_ok (run (exec_step E) w evs)"
proof -
  have "careful_run E w evs \<Longrightarrow> run (exec_step E) w evs = run (\<lambda>w ev. if careful w ev then exec_step E w ev else w) w evs"
    by (induction evs arbitrary: w) auto
  then show "careful_run E w evs \<Longrightarrow> jobs_ok w \<Longrightarrow> jobs_ok (run (exec_step E) w evs)"
    using careful_jobs.run_inv by simp
qed

text \<open>Where the service starts: no execution is under way and the lists are empty.\<close>
definition settled :: "database \<Rightarrow> bool" where
  "settled db \<longleftrightarrow> (\<forall>(xid, x)\<in>set (db_executions db). x_id x = xid \<and> terminal (x_status x))"

lemma jobs_ok_new:
  assumes "settled db"
  shows "jobs_ok (new_world db)"
proof -
  have "x_id x = xid \<and> terminal (x_status x)" if "dget (db_executions db) xid = Some x" for xid x
    using assms map_of_SomeD [OF that] by (auto simp: settled_def)
  then show ?thesis
    using exec_ok_new [of db] by (fastforce simp: jobs_ok_def new_world_def empty_redis_def requeued_def job_ok_def terminal_cases)
qed

section \<open>A stranded execution\<close>

text \<open>Nothing that could still move an execution that is starting refers to it.\<close>
fun mentions :: "w_phase \<Rightarrow> uuid \<Rightarrow> bool" where
  "mentions (W_recover items) xid = (\<exists>raw\<in>set items. uuid_of_str raw = Some xid)"
| "mentions (W_recover_publish raw _ items) xid = (\<exists>raw\<in>set items. uuid_of_str raw = Some xid)"
| "mentions (W_recover_ack raw items) xid = (\<exists>raw\<in>set items. uuid_of_str raw = Some xid)"
| "mentions (W_start raw xid') xid = (xid' = xid)"
| "mentions (W_start_publish raw x) xid = (x_id x = xid)"
| "mentions (W_job j p) xid = (x_id (jb_execution j) = xid)"
| "mentions _ xid = False"

definition stranded :: "uuid \<Rightarrow> exec_world \<Rightarrow> bool" where
  "stranded xid w \<longleftrightarrow> (\<exists>x. rows w xid = Some x \<and> x_status x = STARTING) \<and>
     (\<forall>raw\<in>set (queue w) \<union> set (processing w). uuid_of_str raw \<noteq> Some xid) \<and>
     (\<forall>n q. ew_requests w n = Some q \<longrightarrow> x_id (request_row q) \<noteq> xid) \<and> \<not> mentions (ew_worker w) xid"


text \<open>A job changes its own row only.\<close>
definition own_row :: "exec_world \<Rightarrow> job \<Rightarrow> exec_world \<Rightarrow> bool" where
  "own_row w j w' \<longleftrightarrow>
     rd_lists (ew_redis w') = rd_lists (ew_redis w) \<and>
     (\<forall>xid. xid \<noteq> x_id (jb_execution j) \<longrightarrow> rows w' xid = rows w xid) \<and>
     (\<exists>j' p'. ew_worker w' = W_job j' p' \<and> jb_execution j' = jb_execution j \<or> (\<exists>raw raised. ew_worker w' = W_ack raw raised))"

lemma own_row_phase:
  "rd_lists (ew_redis w') = rd_lists (ew_redis w) \<Longrightarrow> ew_db w' = ew_db w \<Longrightarrow>
   (ew_worker w' = W_job j' p' \<and> jb_execution j' = jb_execution j) \<or> (\<exists>raw raised. ew_worker w' = W_ack raw raised) \<Longrightarrow> own_row w j w'"
  by (auto simp: own_row_def)

lemma finish_id: "exec_ok w \<Longrightarrow> finish_row (ew_db w) xid target out err code ms now = Inr (Some (y, db')) \<Longrightarrow>
  x_id y = xid \<and> db' = set_execution y (ew_db w)"
  by (erule finish_row_Some) (auto dest: exec_okD(1))

lemma transition_id: "exec_ok w \<Longrightarrow> transition_row (ew_db w) xid expected target = Inr (Some (y, db')) \<Longrightarrow>
  x_id y = xid \<and> db' = set_execution y (ew_db w)"
  by (erule transition_row_Some) (auto dest: exec_okD(1))

lemma job_own_row:
  assumes "exec_ok w" "ew_worker w = W_job j p"
  shows "own_row w j (job_step E i w j p)"
proof (cases p)
  case J_run
  then show ?thesis using assms(2)
    by (auto simp: job_step_def Let_def own_row_def dest!: transition_id [OF assms(1)] split: sum.split option.split)
next
  case (J_finish target out err code ms)
  then show ?thesis using assms(2)
    by (auto simp: job_step_def result_step_def Let_def own_row_def dest!: finish_id [OF assms(1)] split: sum.split option.split)
next
  case (J_fail e ms)
  then show ?thesis using assms(2)
    by (auto simp: job_step_def result_step_def Let_def own_row_def dest!: finish_id [OF assms(1)] split: sum.split option.split)
qed (use assms(2) in \<open>auto simp: job_step_def create_step_def monitor_step_def result_step_def Let_def
    intro!: own_row_phase split: option.split stream_task.split\<close>)


lemma recover_id: "exec_ok w \<Longrightarrow> rows w xid = Some x \<Longrightarrow> recover_row (ew_db w) x now = Inr (y, db') \<Longrightarrow>
  x_id y = xid \<and> db' = set_execution y (ew_db w)"
  using recover_row_Inr [of "ew_db w" x now y db'] exec_okD(1) [of w xid x] by simp

lemma recover_other:
  assumes "exec_ok w" "uuid_of_str raw \<noteq> Some xid" "\<And>r. r \<in> set items \<Longrightarrow> uuid_of_str r \<noteq> Some xid" "\<not> mentions (ew_worker w) xid"
  shows "rows (recover_step i w raw items) xid = rows w xid \<and>
    set (queue (recover_step i w raw items)) \<subseteq> insert raw (set (queue w)) \<and>
    set (processing (recover_step i w raw items)) \<subseteq> set (processing w) \<and>
    \<not> mentions (ew_worker (recover_step i w raw items)) xid"
proof (cases "uuid_of_str raw")
  case None
  then show ?thesis using assms(3) by (auto simp: recover_step_def Let_def)
next
  case (Some z)
  then have z: "z \<noteq> xid" using assms(2) by simp
  show ?thesis using Some z assms(3,4)
    by (auto simp: recover_step_def Let_def dest!: recover_id [OF assms(1)] split: option.split sum.split)
qed

lemma stranded_worker:
  assumes "exec_ok w" "stranded xid w"
  shows "stranded xid (w_step E i w)"
proof -
  let ?w' = "w_step E i w"
  have same: "ew_requests ?w' = ew_requests w" using w_step_moves [of w E i] by (simp add: worker_moves_def)
  have lists: "uuid_of_str raw \<noteq> Some xid" if "raw \<in> set (queue w) \<or> raw \<in> set (processing w)" for raw
    using that assms(2) by (auto simp: stranded_def)
  have phase: "\<not> mentions (ew_worker w) xid" using assms(2) by (simp add: stranded_def)
  have "rows ?w' xid = rows w xid \<and> (\<forall>raw\<in>set (queue ?w') \<union> set (processing ?w'). uuid_of_str raw \<noteq> Some xid) \<and>
    \<not> mentions (ew_worker ?w') xid"
  proof (cases "ew_worker w")
    case (W_job j p)
    then show ?thesis using job_own_row [OF assms(1) W_job, of E i] phase lists
      by (auto simp: w_step_def own_row_def)
  next
    case (W_recover items)
    show ?thesis
    proof (cases items)
      case Nil
      with W_recover lists show ?thesis by (auto simp: w_step_def)
    next
      case (Cons raw rest)
      have none: "uuid_of_str raw \<noteq> Some xid" "\<And>r. r \<in> set rest \<Longrightarrow> uuid_of_str r \<noteq> Some xid"
        using phase W_recover Cons by auto
      have "?w' = recover_step i w raw rest" using W_recover Cons by (simp add: w_step_def)
      with recover_other [where w = w and raw = raw and xid = xid and items = rest and i = i, OF assms(1) none(1) none(2) phase] none lists
      show ?thesis by auto
    qed
  next
    case W_idle
    then show ?thesis using lists
      by (cases "queue w") (auto simp: w_step_def Let_def blmove_lists split: option.split)
  next
    case (W_start raw xid')
    then show ?thesis using phase lists
      by (auto simp: w_step_def Let_def dest!: transition_id [OF assms(1)] split: option.split sum.split)
  next
    case W_lrange
    then show ?thesis using lists by (auto simp: w_step_def)
  qed (use phase lists in \<open>auto simp: w_step_def Let_def\<close>)
  with assms(2) same show ?thesis by (simp add: stranded_def)
qed

lemma stranded_row: "exec_ok w \<Longrightarrow> stranded xid w \<Longrightarrow> xid \<in> ew_ids w"
  by (auto simp: stranded_def dest: exec_okD(1))

lemma stranded_keep:
  assumes "stranded xid w" "rows w' xid = rows w xid" "ew_worker w' = ew_worker w \<or> \<not> mentions (ew_worker w') xid"
    and "\<And>raw. raw \<in> set (queue w') \<union> set (processing w') \<Longrightarrow> raw \<in> set (queue w) \<union> set (processing w) \<or> uuid_of_str raw \<noteq> Some xid"
    and "\<And>n q. ew_requests w' n = Some q \<Longrightarrow> ew_requests w n = Some q \<or> x_id (request_row q) \<noteq> xid"
  shows "stranded xid w'"
  using assms unfolding stranded_def by metis

lemma stranded_submit:
  assumes "exec_ok w" "stranded xid w"
  shows "stranded xid (submit w n new_id now sid user code language io)"
proof (cases "insert_execution new_id now (ew_db w) sid user code language")
  case None
  show ?thesis by (rule stranded_keep [OF assms(2)]) (use None in \<open>auto simp: submit_def Let_def split: if_splits\<close>)
next
  case (Some p)
  obtain x db' where p: "p = (x, db')" by fastforce
  note x = insert_execution_Some [OF Some [unfolded p]]
  have "new_id = xid \<Longrightarrow> submit w n new_id now sid user code language io = w"
    using stranded_row [OF assms] by (simp add: submit_def)
  then show ?thesis
    by (cases "new_id = xid"; intro stranded_keep [OF assms(2)])
      (use Some p x in \<open>auto simp: submit_def Let_def split: if_splits\<close>)
qed

lemma stranded_cancel:
  assumes "exec_ok w" "stranded xid w"
  shows "stranded xid (cancel w n sid xid' now io)"
proof -
  have other: "xid' \<noteq> xid" if "check_cancel (ew_db w) sid xid' = Inr x" for x
    using check_cancel_Inr [OF that] assms(2) by (auto simp: stranded_def)
  have id: "x_id x = xid'" if "check_cancel (ew_db w) sid xid' = Inr x" for x
    using check_cancel_Inr(1) [OF that] exec_okD(1) [OF assms(1)] by blast
  have row: "x_id y = x_id x \<and> db' = set_execution y (ew_db w)" if "commit_cancel now x (ew_db w) = Inr (y, db')" for x y db'
    using cancel_below [OF that] by (simp add: row_below_def)
  show ?thesis
  proof (rule stranded_keep [OF assms(2)])
    show "rows (cancel w n sid xid' now io) xid = rows w xid"
      using other id by (auto simp: cancel_def dest!: row split: sum.split)
    show "ew_requests w m = Some q \<or> x_id (request_row q) \<noteq> xid" if "ew_requests (cancel w n sid xid' now io) m = Some q" for m q
      using that other id by (auto simp: cancel_def split: sum.splits if_splits)
  qed (auto simp: cancel_def split: sum.splits if_splits)
qed

lemma stranded_request:
  assumes "stranded xid w" "ew_requests w n = Some q"
  shows "stranded xid (continue_request w n q io now)"
proof -
  let ?w' = "continue_request w n q io now"
  have id: "x_id (request_row q) \<noteq> xid" using assms by (auto simp: stranded_def)
  have row: "x_id y = x_id x \<and> db' = set_execution y (ew_db w)" if "commit_cancel now x (ew_db w) = Inr (y, db')" for x y db'
    using cancel_below [OF that] by (simp add: row_below_def)
  show ?thesis
  proof (rule stranded_keep [OF assms(1)])
    show "rows ?w' xid = rows w xid"
      using id by (cases q) (auto simp: continue_request_def Let_def delete_execution_def dest!: row split: sum.split)
    show "raw \<in> set (queue w) \<union> set (processing w) \<or> uuid_of_str raw \<noteq> Some xid"
      if "raw \<in> set (queue ?w') \<union> set (processing ?w')" for raw
      using that id by (cases q) (auto simp: continue_request_def Let_def enqueue_lists split: sum.splits if_splits)
    show "ew_requests w m = Some p \<or> x_id (request_row p) \<noteq> xid" if "ew_requests ?w' m = Some p" for m p
      using that id assms(2) by (cases q) (auto simp: continue_request_def Let_def split: sum.splits if_splits)
    show "ew_worker ?w' = ew_worker w \<or> \<not> mentions (ew_worker ?w') xid"
      by (cases q) (auto simp: continue_request_def Let_def split: sum.split)
  qed
qed

lemma stranded_step:
  assumes "exec_ok w" "stranded xid w"
  shows "stranded xid (exec_step E w ev)"
proof (cases ev)
  case (Submit n new_id now sid user code language io)
  with assms stranded_submit show ?thesis by (simp add: exec_step_def)
next
  case (Cancel n sid xid now io)
  with assms stranded_cancel show ?thesis by (simp add: exec_step_def)
next
  case (Request n io now)
  with assms stranded_request show ?thesis by (auto simp: exec_step_def split: option.split)
next
  case (Worker i)
  with assms stranded_worker show ?thesis by (simp add: exec_step_def)
qed (auto simp: exec_step_def stream_quiet intro!: stranded_keep [OF assms(2)])

interpretation stranding: invariant_machine "exec_step E" "\<lambda>w. exec_ok w \<and> stranded xid w" for E xid
  by unfold_locales (use exec_step_ok stranded_step in blast)

text \<open>A claim whose row is committed but whose publication raises is dropped from both lists.\<close>
lemma failed_claim:
  assumes "jobs_ok w" "ew_worker w = W_start_publish raw x" "rows w (x_id x) \<noteq> None" "raw \<notin> set (queue w)"
    and "\<And>n q. ew_requests w n = Some q \<Longrightarrow> x_id (request_row q) \<noteq> x_id x" "wi_io i \<noteq> Io_ok" "wi_io k = Io_ok"
  shows "stranded (x_id x) (run (exec_step E) w [Worker i, Worker k])"
proof -
  let ?w1 = "w_step E i w" and ?w2 = "w_step E k (w_step E i w)"
  note ok = jobs_okD [OF assms(1)]
  have raw: "raw = str_of_uuid (x_id x)" using ok(3) assms(2) by simp
  have one: "ew_worker ?w1 = W_ack raw True" "ew_db ?w1 = ew_db w" "rd_lists (ew_redis ?w1) = rd_lists (ew_redis w)"
    "ew_requests ?w1 = ew_requests w"
    using assms(2,6) by (simp_all add: w_step_def Let_def)
  then have two: "ew_worker ?w2 = W_stopped" "ew_db ?w2 = ew_db w" "queue ?w2 = queue w" "processing ?w2 = removeAll raw (processing w)"
    "ew_requests ?w2 = ew_requests w"
    using assms(7) by (simp_all add: w_step_def Let_def)
  obtain y where y: "rows w (x_id x) = Some y" using assms(3) by blast
  then have "x_status y = STARTING" using ok(5) [OF y] assms(2) by (simp add: job_ok_def)
  moreover have "uuid_of_str r \<noteq> Some (x_id x)" if "r \<in> set (queue ?w2) \<union> set (processing ?w2)" for r
  proof
    assume "uuid_of_str r = Some (x_id x)"
    moreover have "text_ok w r" using that two ok(2) by auto
    then obtain z where "r = str_of_uuid z" by (rule text_okE)
    ultimately have "r = raw" using raw by simp
    with that two(3,4) assms(4) show False by auto
  qed
  ultimately have "stranded (x_id x) ?w2" using y two assms(5) by (auto simp: stranded_def)
  then show ?thesis by (simp add: exec_step_def)
qed

section \<open>Properties\<close>

text \<open>C15: Whatever fails and however requests, worker restarts and the stream interleave: an execution keeps
  its session, code and language, its status only moves on, a final status is never left, an
  execution that was deleted does not come back, and a cancellation that was answered with success
  stays.\<close>

theorem executions_only_move_forward:
  assumes "\<And>xid x. dget (db_executions db) xid = Some x \<Longrightarrow> x_id x = xid"
    and "w = run (exec_step E) (new_world db) evs" "w' = run (exec_step E) w later_evs"
  shows "(\<forall>xid x y. rows w xid = Some x \<and> rows w' xid = Some y \<longrightarrow>
       x_session_id y = x_session_id x \<and> x_code y = x_code x \<and> x_language y = x_language x \<and>
       stage (x_status x) \<le> stage (x_status y) \<and> (terminal (x_status x) \<longrightarrow> x_status y = x_status x)) \<and>
    (\<forall>xid\<in>ew_ids w. rows w xid = None \<longrightarrow> rows w' xid = None) \<and>
    (\<forall>n x y. ew_results w n = Some (Inr x) \<and> x_status x = CANCELLED \<and> rows w' (x_id x) = Some y \<longrightarrow> x_status y = CANCELLED)"
proof -
  have ok: "exec_ok w" unfolding assms(2) by (rule jobs.run_inv [OF exec_ok_new]) (rule assms(1))
  have below: "exec_below w w'" unfolding assms(3) by (rule jobs.run_below [OF ok])
  have "x_session_id y = x_session_id x \<and> x_code y = x_code x \<and> x_language y = x_language x \<and>
       stage (x_status x) \<le> stage (x_status y) \<and> (terminal (x_status x) \<longrightarrow> x_status y = x_status x)"
    if h: "rows w xid = Some x \<and> rows w' xid = Some y" for xid x y
  proof -
    have "xid \<in> ew_ids w" using exec_okD(1) [OF ok, of xid x] h by simp
    then have "row_below x y" using h below by (simp add: exec_below_def)
    then show ?thesis using later_terminal [of "x_status x" "x_status y"] by (auto simp: row_below_def later_def)
  qed
  moreover have "x_status y = CANCELLED"
    if h: "ew_results w n = Some (Inr x) \<and> x_status x = CANCELLED \<and> rows w' (x_id x) = Some y" for n x y
  proof -
    have "known w x" using exec_okD(2) [OF ok] h unfolding requests_known_def by blast
    then have "row_below x y" using known_below [OF _ below] h unfolding known_def by blast
    then show ?thesis using h later_terminal [of "x_status x" "x_status y"] by (simp add: row_below_def terminal_iff)
  qed
  moreover from below have "\<forall>xid\<in>ew_ids w. rows w xid = None \<longrightarrow> rows w' xid = None" by (simp add: exec_below_def)
  ultimately show ?thesis by (intro conjI allI impI) metis+
qed

text \<open>C12: No execution is stranded: whatever interleaving of submissions, cancellations, output, key expiry,
  worker deaths and restarts, and whatever calls fail apart from those of \<open>careful\<close>, a QUEUED
  execution is in one of the two lists or its submission is still being carried out, and a STARTING
  or RUNNING one is in the processing list and in the worker's hands or ahead of its recovery; in
  particular none is under way while the worker waits for the queue.\<close>

theorem no_execution_is_stranded:
  assumes "settled db" "careful_run E (new_world db) evs" "w = run (exec_step E) (new_world db) evs"
    and "rows w xid = Some x"
  shows "(x_status x = QUEUED \<longrightarrow> str_of_uuid xid \<in> set (queue w) \<or> str_of_uuid xid \<in> set (processing w) \<or>
      (\<exists>n q. ew_requests w n = Some q \<and> \<not> cancelling q \<and> x_id (request_row q) = xid)) \<and>
    (x_status x \<in> {STARTING, RUNNING} \<longrightarrow> str_of_uuid xid \<in> set (processing w) \<and> answers_for (ew_worker w) xid) \<and>
    (ew_worker w = W_idle \<longrightarrow> x_status x \<notin> {STARTING, RUNNING})"
proof -
  have "jobs_ok w" unfolding assms(3) by (rule careful_run_jobs [OF assms(2) jobs_ok_new [OF assms(1)]])
  from jobs_okD(5) [OF this assms(4)] show ?thesis by (auto simp: job_ok_def placed_def created_def)
qed

text \<open>C38: One failure does strand an execution: when \<open>redis.publish\<close> raises behind the commit of
  QUEUED to STARTING, the \<open>finally\<close> of \<open>run\<close> takes the claim off the processing list. The row then stays
  STARTING whatever happens later, restarts of the worker included, and it cannot be cancelled.\<close>

theorem publish_failure_strands:
  assumes "settled db" "careful_run E (new_world db) evs" "w = run (exec_step E) (new_world db) evs"
    and "ew_worker w = W_start_publish raw x" "rows w (x_id x) \<noteq> None" "raw \<notin> set (queue w)"
    and "\<And>n q. ew_requests w n = Some q \<Longrightarrow> x_id (request_row q) \<noteq> x_id x" "wi_io i \<noteq> Io_ok" "wi_io k = Io_ok"
    and "w' = run (exec_step E) w (Worker i # Worker k # later_evs)"
  shows "\<exists>y. rows w' (x_id x) = Some y \<and> x_status y = STARTING \<and>
    check_cancel (ew_db w') (x_session_id y) (x_id x) = Inl (ExecutionConflictError ''Execution in state STARTING cannot be cancelled'')"
proof -
  have ok: "jobs_ok w" unfolding assms(3) by (rule careful_run_jobs [OF assms(2) jobs_ok_new [OF assms(1)]])
  let ?w2 = "run (exec_step E) w [Worker i, Worker k]"
  have "exec_ok ?w2" by (rule jobs.run_inv [OF jobs_okD(1) [OF ok]])
  moreover have "stranded (x_id x) ?w2" by (rule failed_claim [OF ok]) (fact assms)+
  ultimately have "stranded (x_id x) (run (exec_step E) ?w2 later_evs)" using stranding.run_inv by blast
  then show ?thesis unfolding assms(10) by (auto simp: stranded_def check_cancel_def get_execution_def)
qed

section \<open>Concrete runs\<close>

text \<open>One execution is submitted and queued; one worker starts, claims it and commits its first transition.\<close>

definition calm :: w_input where
  "calm = \<lparr>wi_io = Io_ok, wi_error = [], wi_clock = 0, wi_now = 1, wi_exited = True, wi_code = 0, wi_logs = [], wi_kept = []\<rparr>"

definition refused :: w_input where
  "refused = calm\<lparr>wi_io := Io_failed False\<rparr>"

definition sample_job :: "ExecutionStatus \<Rightarrow> Execution" where
  "sample_job st = \<lparr>x_id = 9, x_session_id = 7, x_triggered_by = Some 1, x_status = st, x_code = [49], x_language = python,
     x_stdout = None, x_stderr = None, x_exit_code = None, x_elapsed_ms = None, x_created_at = 0, x_finished_at = None\<rparr>"

definition sample_world :: "Execution list \<Rightarrow> pystr list \<Rightarrow> pystr list \<Rightarrow> w_phase \<Rightarrow> exec_world" where
  "sample_world xs q p ph = (new_world sample_db)\<lparr>ew_db := sample_db\<lparr>db_executions := map (\<lambda>x. (x_id x, x)) xs\<rparr>,
     ew_redis := empty_redis\<lparr>rd_lists := (\<lambda>_. [])(EXECUTION_QUEUE_KEY := q, EXECUTION_PROCESSING_QUEUE_KEY := p)\<rparr>,
     ew_results := [0 \<mapsto> Inr (sample_job QUEUED)], ew_worker := ph, ew_ids := {9}\<rparr>"

abbreviation submission :: "job_event list" where
  "submission \<equiv> [Submit 0 9 0 7 1 [49] python Io_ok, Request 0 Io_ok 0, Request 0 Io_ok 0]"

lemma sample_settled: "settled sample_db" by (simp add: settled_def sample_db_def empty_db_def)

lemma submission_run:
  "run (exec_step E) (new_world sample_db) submission = sample_world [sample_job QUEUED] [str_of_uuid 9] [] W_stopped"
  "careful_run E (new_world sample_db) submission"
  by (simp_all add: sample_world_def exec_step_def submit_def Let_def insert_execution_def continue_request_def careful_def sample_job_def new_world_def
      end_job_request_def enqueue_def rpush_def empty_redis_def sample_db_def empty_db_def fun_eq_iff sample_user_def)


lemma sample_sel [simp]: "x_id (sample_job st) = 9" "x_status (sample_job st) = st" "(sample_job st)\<lparr>x_status := st'\<rparr> = sample_job st'"
  "x_session_id (sample_job st) = 7"
  by (simp_all add: sample_job_def)

lemma sample_world_sel [simp]:
  "rows (sample_world xs q p ph) = map_of (map (\<lambda>x. (x_id x, x)) xs)" "queue (sample_world xs q p ph) = q"
  "processing (sample_world xs q p ph) = p" "ew_requests (sample_world xs q p ph) = Map.empty"
  "ew_worker (sample_world xs q p ph) = ph"
  by (simp_all add: sample_world_def new_world_def)

lemma claim_steps:
  "exec_step E (sample_world [sample_job QUEUED] q p W_stopped) Start = sample_world [sample_job QUEUED] q p W_orphans"
  "exec_step E (sample_world [sample_job QUEUED] q p W_orphans) (Worker calm) = sample_world [sample_job QUEUED] q p W_lrange"
  "exec_step E (sample_world [sample_job QUEUED] q [] W_lrange) (Worker calm) = sample_world [sample_job QUEUED] q [] W_idle"
  "exec_step E (sample_world [sample_job QUEUED] [str_of_uuid 9] [] W_idle) (Worker calm)
     = sample_world [sample_job QUEUED] [] [str_of_uuid 9] (W_start (str_of_uuid 9) 9)"
  "exec_step E (sample_world [sample_job QUEUED] [] p (W_start (str_of_uuid 9) 9)) (Worker calm)
     = sample_world [sample_job STARTING] [] p (W_start_publish (str_of_uuid 9) (sample_job STARTING))"
  by (simp_all add: sample_world_def exec_step_def w_step_def calm_def new_world_def sample_db_def empty_db_def blmove_def rpush_def empty_redis_def
      transition_row_def transition_to_def fun_eq_iff)


lemma careful_append: "careful_run E w (xs @ ys) \<longleftrightarrow> careful_run E w xs \<and> careful_run E (run (exec_step E) w xs) ys"
  by (induction xs arbitrary: w) auto

abbreviation claiming :: "job_event list" where
  "claiming \<equiv> submission @ [Start, Worker calm, Worker calm, Worker calm, Worker calm]"

abbreviation claimed_world :: exec_world where
  "claimed_world \<equiv> sample_world [sample_job STARTING] [] [str_of_uuid 9] (W_start_publish (str_of_uuid 9) (sample_job STARTING))"

definition sample_worker :: worker_env where
  "sample_worker = \<lparr>we_output_limit = 1048576, we_timeout = 10, we_memory_limit = ''128m'', we_cpu_limit = 1, we_pids_limit = 64\<rparr>"

lemma claim_run:
  "run (exec_step E) (new_world sample_db) claiming = claimed_world" "careful_run E (new_world sample_db) claiming"
proof -
  show "run (exec_step E) (new_world sample_db) claiming = claimed_world"
    unfolding run_append submission_run by (simp only: run.simps claim_steps)
  have "careful_run E (sample_world [sample_job QUEUED] [str_of_uuid 9] [] W_stopped) [Start, Worker calm, Worker calm, Worker calm, Worker calm]"
    unfolding careful_run.simps claim_steps by (simp add: careful_def calm_def)
  then show "careful_run E (new_world sample_db) claiming"
    using submission_run(2) by (simp only: careful_append submission_run(1) simp_thms)
qed

theorem publish_failure_strands_witness:
  "\<exists>y. rows (run (exec_step sample_worker) claimed_world (Worker refused # Worker calm # [Start, Worker calm, Worker calm])) 9 = Some y \<and>
     x_status y = STARTING"
proof -
  have job: "ew_worker claimed_world = W_start_publish (str_of_uuid 9) (sample_job STARTING)" "rows claimed_world 9 \<noteq> None"
    "str_of_uuid 9 \<notin> set (queue claimed_world)" "\<And>n q. ew_requests claimed_world n = Some q \<Longrightarrow> x_id (request_row q) \<noteq> 9"
    by simp_all
  have io: "wi_io refused \<noteq> Io_ok" "wi_io calm = Io_ok" by (simp_all add: refused_def calm_def)
  note strands = publish_failure_strands [OF sample_settled claim_run(2) claim_run(1) [symmetric], where
      x = "sample_job STARTING" and raw = "str_of_uuid 9" and i = refused and k = calm, unfolded sample_sel]
  show ?thesis using strands [OF job(1-3) _ io refl] by fastforce
qed

theorem no_execution_is_stranded_witness:
  "str_of_uuid 9 \<in> set (processing claimed_world) \<and> answers_for (ew_worker claimed_world) 9"
  using no_execution_is_stranded [OF sample_settled claim_run(2) claim_run(1) [symmetric], of 9 "sample_job STARTING"] by simp

abbreviation cancelled_events :: "job_event list" where
  "cancelled_events \<equiv> submission @ [Cancel 1 7 9 5 Io_ok]"

abbreviation cancelled_job :: Execution where
  "cancelled_job \<equiv> (sample_job CANCELLED)\<lparr>x_finished_at := Some 5\<rparr>"

lemma cancel_run:
  "run (exec_step E) (new_world sample_db) cancelled_events =
     (sample_world [cancelled_job] [str_of_uuid 9] [] W_stopped)\<lparr>ew_results := [0 \<mapsto> Inr (sample_job QUEUED), 1 \<mapsto> Inr cancelled_job]\<rparr>"
  unfolding run_append submission_run
  by (simp add: sample_world_def exec_step_def cancel_def Let_def check_cancel_def get_execution_def commit_cancel_def transition_to_def new_world_def
      sample_db_def empty_db_def end_job_request_def fun_eq_iff)

text \<open>A run for the order of executions: the cancellation is answered before the worker gets to the job.\<close>

theorem executions_only_move_forward_witness:
  "pred_option (\<lambda>y. x_status y = CANCELLED)
     (rows (run (exec_step sample_worker) (run (exec_step sample_worker) (new_world sample_db) cancelled_events)
        [Start, Worker calm, Worker calm, Worker calm, Worker calm]) 9)"
proof -
  have "dget (db_executions sample_db) xid = Some x \<Longrightarrow> x_id x = xid" for xid x by (simp add: sample_db_def empty_db_def)
  note forward = executions_only_move_forward [where db = sample_db and E = sample_worker and evs = cancelled_events, OF this refl refl,
      THEN conjunct2, THEN conjunct2]
  have "ew_results (run (exec_step sample_worker) (new_world sample_db) cancelled_events) 1 = Some (Inr cancelled_job)"
    unfolding cancel_run by simp
  moreover have "x_id cancelled_job = 9" "x_status cancelled_job = CANCELLED" by (simp_all add: sample_job_def)
  ultimately have "x_status y = CANCELLED" if "rows (run (exec_step sample_worker) (run (exec_step sample_worker) (new_world sample_db) cancelled_events)
      [Start, Worker calm, Worker calm, Worker calm, Worker calm]) 9 = Some y" for y
    using forward that by metis
  then show ?thesis by (simp add: pred_option_def elem_set)
qed

end
