(* ===== verification/JobProgress.thy ===== *)
theory JobProgress
  imports JobSafety
begin

text \<open>
  A claimed execution ends. Every phase of the worker has a rank that bounds the steps left: the
  phases of one job in the order of \<open>process\<close>, and three steps for every poll of \<open>_monitor\<close> that still fits
  before the deadline. A turn of the worker lowers the rank unless it has to wait for a row lock or
  for the stream task; no other event raises it. The last theorem states this for every infinite
  schedule that is fair to the worker.
\<close>

section \<open>How far a job is from its end\<close>

text \<open>The polls of \<open>_monitor\<close> that fit between a clock value and the deadline.\<close>
definition polls :: "real \<Rightarrow> real \<Rightarrow> nat" where
  "polls poll time = nat \<lceil>time / poll\<rceil>"

lemma polls_mono: "0 < poll \<Longrightarrow> a \<le> b \<Longrightarrow> polls poll a \<le> polls poll b"
  unfolding polls_def by (intro nat_mono ceiling_mono divide_right_mono) auto

lemma polls_next:
  assumes "0 < poll" "0 < a" "b \<le> a - poll"
  shows "polls poll b < polls poll a"
proof -
  have "b / poll \<le> a / poll - 1" using assms by (simp add: field_simps)
  then have "\<lceil>b / poll\<rceil> \<le> \<lceil>a / poll - 1\<rceil>" by (rule ceiling_mono)
  moreover have "0 < \<lceil>a / poll\<rceil>" using assms by simp
  ultimately show ?thesis unfolding polls_def by (simp only: ceiling_diff_one)
qed

text \<open>A bound on the steps left, given the polls of a whole run and the last clock value.\<close>
fun job_rank :: "nat \<Rightarrow> real \<Rightarrow> real \<Rightarrow> j_phase \<Rightarrow> nat" where
  "job_rank k poll t J_image = 24 + 3 * k"
| "job_rank k poll t J_volume = 23 + 3 * k"
| "job_rank k poll t J_writer = 22 + 3 * k"
| "job_rank k poll t J_archive = 21 + 3 * k"
| "job_rank k poll t (J_unwriter _) = 20 + 3 * k"
| "job_rank k poll t J_runner = 19 + 3 * k"
| "job_rank k poll t J_launch = 18 + 3 * k"
| "job_rank k poll t J_run = 17 + 3 * k"
| "job_rank k poll t (J_run_publish _) = 16 + 3 * k"
| "job_rank k poll t (J_exists d) = 15 + 3 * polls poll (d - t)"
| "job_rank k poll t (J_reload d) = 14 + 3 * polls poll (d - t)"
| "job_rank k poll t (J_sleep d) = 13 + 3 * polls poll (d - t)"
| "job_rank k poll t (J_kill _) = 12"
| "job_rank k poll t (J_wait _) = 11"
| "job_rank k poll t (J_join _ _) = 10"
| "job_rank k poll t (J_stdout _ _) = 9"
| "job_rank k poll t (J_stderr _ _ _) = 8"
| "job_rank k poll t (J_finish _ _ _ _ _) = 7"
| "job_rank k poll t (J_finish_publish _) = 6"
| "job_rank k poll t J_kill_lost = 6"
| "job_rank k poll t (J_unvolume _) = 6"
| "job_rank k poll t (J_fail _ _) = 5"
| "job_rank k poll t (J_fail_publish _) = 4"
| "job_rank k poll t (J_delete_key _) = 3"
| "job_rank k poll t (J_cleanup _) = 2"

fun phase_rank :: "nat \<Rightarrow> real \<Rightarrow> real \<Rightarrow> w_phase \<Rightarrow> nat" where
  "phase_rank k poll t (W_start _ _) = 26 + 3 * k"
| "phase_rank k poll t (W_start_publish _ _) = 25 + 3 * k"
| "phase_rank k poll t (W_job j p) = job_rank k poll t p"
| "phase_rank k poll t _ = 0"

text \<open>The claim the worker has in hand, and whether it waits: for a row that a cancellation holds, or for
  the stream task.\<close>
fun in_hand :: "pystr \<Rightarrow> w_phase \<Rightarrow> bool" where
  "in_hand raw (W_start raw' _) = (raw' = raw)"
| "in_hand raw (W_start_publish raw' _) = (raw' = raw)"
| "in_hand raw (W_job j _) = (jb_raw j = raw)"
| "in_hand raw _ = False"

fun takes_row :: "j_phase \<Rightarrow> bool" where
  "takes_row J_run = True"
| "takes_row (J_finish _ _ _ _ _) = True"
| "takes_row (J_fail _ _) = True"
| "takes_row _ = False"

definition waits :: "exec_world \<Rightarrow> bool" where
  "waits w \<longleftrightarrow>
     (case ew_worker w of
        W_start _ xid \<Rightarrow> ew_locks w xid \<noteq> None
      | W_job j p \<Rightarrow> takes_row p \<and> ew_locks w (x_id (jb_execution j)) \<noteq> None \<or>
          (\<exists>forced code x s texts. p = J_join forced code \<and> ew_stream w = Some (Streaming x s texts))
      | _ \<Rightarrow> False)"

text \<open>The clock does not go back, and a sleep lasts its interval.\<close>
definition on_time :: "real \<Rightarrow> real \<Rightarrow> exec_world \<Rightarrow> job_event \<Rightarrow> bool" where
  "on_time poll t w ev \<longleftrightarrow>
     (case ev of
        Worker i \<Rightarrow> (case ew_worker w of W_job _ (J_sleep _) \<Rightarrow> t + poll \<le> wi_clock i | _ \<Rightarrow> t \<le> wi_clock i)
      | _ \<Rightarrow> True)"

fun tick :: "real \<Rightarrow> job_event \<Rightarrow> real" where
  "tick t (Worker i) = wi_clock i"
| "tick t _ = t"

fun asleep_until :: "w_phase \<Rightarrow> real option" where
  "asleep_until (W_job _ (J_sleep d)) = Some d"
| "asleep_until _ = None"

definition closer :: "nat \<Rightarrow> real \<Rightarrow> pystr \<Rightarrow> nat \<Rightarrow> real \<Rightarrow> w_phase \<Rightarrow> bool" where
  "closer k poll raw n t p \<longleftrightarrow>
     (\<exists>raised. p = W_ack raw raised) \<or>
     in_hand raw p \<and> phase_rank k poll t p < n \<and> (\<forall>d. asleep_until p = Some d \<longrightarrow> t < d)"

lemma closer_job: "job_rank k poll t p < n \<Longrightarrow> (\<And>d. p = J_sleep d \<Longrightarrow> t < d) \<Longrightarrow> jb_raw j = raw \<Longrightarrow> closer k poll raw n t (W_job j p)"
  by (cases p) (auto simp: closer_def)

lemma closer_ack: "closer k poll raw n t (W_ack raw raised)"
  by (simp add: closer_def)

lemma create_closer:
  assumes "p \<in> {J_image, J_volume, J_writer, J_archive, J_runner} \<union> range J_unwriter \<union> range J_unvolume"
  shows "closer k poll (jb_raw j) (job_rank k poll t p) t' (ew_worker (create_step E i w j p))"
  using assms by (elim UnE insertE rangeE emptyE; simp)
    (auto simp: create_step_def Let_def intro!: closer_job split: option.split)

lemma monitor_closer:
  assumes "0 < poll" "t \<le> wi_clock i" "p = J_sleep d \<Longrightarrow> t + poll \<le> wi_clock i \<and> t < d" "p \<in> {J_exists d, J_reload d, J_sleep d} \<union> range J_kill"
  shows "closer k poll (jb_raw j) (job_rank k poll t p) (wi_clock i) (ew_worker (monitor_step i w j p))"
proof -
  have mono: "polls poll (d - wi_clock i) \<le> polls poll (d - t)" by (rule polls_mono) (use assms in auto)
  have slept: "polls poll (d - wi_clock i) < polls poll (d - t)" if "p = J_sleep d"
    by (rule polls_next) (use assms that in auto)
  from assms(4) show ?thesis
    by (elim UnE insertE rangeE emptyE; simp)
      (use mono slept in \<open>auto simp: monitor_step_def intro!: closer_job\<close>)
qed

lemma job_closer:
  assumes "0 < poll" "t \<le> wi_clock i" "\<And>d. p = J_sleep d \<Longrightarrow> t + poll \<le> wi_clock i \<and> t < d"
    and "ew_worker w = W_job j p" "\<not> waits w" "k = polls poll (we_timeout E)"
  shows "closer k poll (jb_raw j) (job_rank k poll t p) (wi_clock i) (ew_worker (job_step E i w j p))"
proof (cases p)
  case (J_exists d)
  with monitor_closer [OF assms(1,2), of p d k j w] assms(3) show ?thesis by (simp add: job_step_def)
next
  case (J_reload d)
  with monitor_closer [OF assms(1,2), of p d k j w] assms(3) show ?thesis by (simp add: job_step_def)
next
  case (J_sleep d)
  with monitor_closer [OF assms(1,2), of p d k j w] assms(3) show ?thesis by (simp add: job_step_def)
next
  case (J_kill target)
  with monitor_closer [OF assms(1,2), of p undefined k j w] show ?thesis by (simp add: job_step_def)
next
  case (J_join forced code)
  then show ?thesis using assms(4,5)
    by (auto simp: job_step_def result_step_def waits_def intro!: closer_job split: option.split stream_task.split)
next
  case J_run
  then show ?thesis using assms(4,5)
    by (auto simp: job_step_def waits_def Let_def intro!: closer_job split: option.split sum.split)
next
  case (J_finish target out err code ms)
  then show ?thesis using assms(4,5)
    by (auto simp: job_step_def result_step_def waits_def Let_def intro!: closer_job split: option.split sum.split)
next
  case (J_fail e ms)
  then show ?thesis using assms(4,5)
    by (auto simp: job_step_def result_step_def waits_def Let_def intro!: closer_job split: option.split sum.split)
next
  case (J_delete_key raised)
  then show ?thesis by (auto simp: job_step_def Let_def intro!: closer_job closer_ack)
next
  case (J_cleanup raised)
  then show ?thesis by (auto simp: job_step_def Let_def closer_ack)
qed (use assms(6) create_closer [of p k poll j t "wi_clock i" E i w] in
      \<open>auto simp: job_step_def result_step_def Let_def intro!: closer_job split: option.split\<close>)


lemma worker_closer:
  assumes "0 < poll" "on_time poll t w (Worker i)" "\<And>d. asleep_until (ew_worker w) = Some d \<Longrightarrow> t < d"
    and "in_hand raw (ew_worker w)" "\<not> waits w" "careful w (Worker i)" "k = polls poll (we_timeout E)"
  shows "closer k poll raw (phase_rank k poll t (ew_worker w)) (wi_clock i) (ew_worker (w_step E i w))"
proof (cases "ew_worker w")
  case (W_start raw' xid)
  then show ?thesis using assms(4-6)
    by (auto simp: w_step_def Let_def waits_def careful_def closer_def split: option.split sum.split)
next
  case (W_start_publish raw' x)
  then show ?thesis using assms(4,6) by (auto simp: w_step_def Let_def careful_def intro!: closer_job)
next
  case (W_job j p)
  have "closer k poll (jb_raw j) (job_rank k poll t p) (wi_clock i) (ew_worker (job_step E i w j p))"
  proof (rule job_closer [OF assms(1) _ _ W_job assms(5,7)])
    show "t \<le> wi_clock i" using assms(1,2) W_job by (auto simp: on_time_def split: j_phase.splits)
    show "t + poll \<le> wi_clock i \<and> t < d" if "p = J_sleep d" for d
      using assms(2,3) W_job that by (auto simp: on_time_def)
  qed
  then show ?thesis using W_job assms(4) by (simp add: w_step_def)
qed (use assms(4) in auto)

text \<open>A step that has to wait changes nothing.\<close>
lemma waiting_row: "takes_row p \<Longrightarrow> ew_locks w (x_id (jb_execution j)) \<noteq> None \<Longrightarrow> job_step E i w j p = w"
  by (cases p) (auto simp: job_step_def result_step_def Let_def)

lemma waiting: "waits w \<Longrightarrow> w_step E i w = w"
  by (cases "ew_worker w") (auto simp: waits_def w_step_def waiting_row, auto simp: job_step_def result_step_def)

lemma waiting_rank:
  assumes "waits w"
  shows "phase_rank k poll t' (ew_worker w) = phase_rank k poll t (ew_worker w)" "asleep_until (ew_worker w) = None"
proof -
  have "takes_row p \<Longrightarrow> job_rank k poll t' p = job_rank k poll t p \<and> (\<forall>d. p \<noteq> J_sleep d)" for p by (cases p) auto
  moreover have "(\<forall>d. p \<noteq> J_sleep d) \<Longrightarrow> asleep_until (W_job j p) = None" for j p by (cases p) auto
  ultimately show "phase_rank k poll t' (ew_worker w) = phase_rank k poll t (ew_worker w)" "asleep_until (ew_worker w) = None"
    using assms by (cases "ew_worker w"; fastforce simp: waits_def)+
qed

lemma worker_untouched: "(\<And>i. ev \<noteq> Worker i) \<Longrightarrow> ev \<noteq> Kill \<Longrightarrow> ew_worker w \<noteq> W_stopped \<Longrightarrow> ew_worker (exec_step E w ev) = ew_worker w"
  by (cases ev) (auto simp: exec_step_def submit_def cancel_def continue_request_def Let_def stream_quiet
      split: option.split sum.split job_request.split)

section \<open>Runs\<close>

fun timely :: "worker_env \<Rightarrow> real \<Rightarrow> real \<Rightarrow> exec_world \<Rightarrow> job_event list \<Rightarrow> bool" where
  "timely E poll t w [] = True"
| "timely E poll t w (ev # evs) = (on_time poll t w ev \<and> timely E poll (tick t ev) (exec_step E w ev) evs)"

text \<open>The steps of the worker that did not have to wait.\<close>
fun turns :: "worker_env \<Rightarrow> exec_world \<Rightarrow> job_event list \<Rightarrow> nat" where
  "turns E w [] = 0"
| "turns E w (ev # evs) = (if (\<exists>i. ev = Worker i) \<and> \<not> waits w then 1 else 0) + turns E (exec_step E w ev) evs"

lemma turns_append: "turns E w (xs @ ys) = turns E w xs + turns E (run (exec_step E) w xs) ys"
  by (induction xs arbitrary: w) auto

lemma timely_append: "timely E poll t w (xs @ ys) \<longleftrightarrow> timely E poll t w xs \<and> timely E poll (fold (\<lambda>ev t. tick t ev) xs t) (run (exec_step E) w xs) ys"
  by (induction xs arbitrary: t w) auto

lemma step_closer:
  assumes "0 < poll" "on_time poll t w ev" "\<And>d. asleep_until (ew_worker w) = Some d \<Longrightarrow> t < d"
    and "in_hand raw (ew_worker w)" "careful w ev" "ev \<noteq> Kill" "k = polls poll (we_timeout E)"
  shows "closer k poll raw (Suc (phase_rank k poll t (ew_worker w)) - turns E w [ev]) (tick t ev) (ew_worker (exec_step E w ev))"
proof (cases "\<exists>i. ev = Worker i")
  case True
  then obtain i where i: "ev = Worker i" ..
  show ?thesis
  proof (cases "waits w")
    case True
    with i assms(4) waiting_rank(1) [OF True, of k poll "wi_clock i" t] waiting_rank(2) [OF True] show ?thesis
      by (simp add: exec_step_def waiting closer_def)
  next
    case False
    with i worker_closer [OF assms(1) assms(2) [unfolded i] assms(3,4) False assms(5) [unfolded i] assms(7)] show ?thesis
      by (simp add: exec_step_def)
  qed
next
  case False
  have "ew_worker w \<noteq> W_stopped" using assms(4) by auto
  then have "ew_worker (exec_step E w ev) = ew_worker w" by (intro worker_untouched) (use False assms(6) in auto)
  moreover have "tick t ev = t" using False by (cases ev) auto
  ultimately show ?thesis using assms(3,4) False by (auto simp: closer_def)
qed

text \<open>Until it is acknowledged, a claim is in hand and every turn of the worker brings its end closer.\<close>
lemma run_closer:
  assumes "0 < poll" "k = polls poll (we_timeout E)"
  shows "timely E poll t w evs \<Longrightarrow> careful_run E w evs \<Longrightarrow> Kill \<notin> set evs \<Longrightarrow> in_hand raw (ew_worker w) \<Longrightarrow>
    (\<And>d. asleep_until (ew_worker w) = Some d \<Longrightarrow> t < d) \<Longrightarrow>
    (\<exists>n\<le>length evs. \<exists>raised. ew_worker (run (exec_step E) w (take n evs)) = W_ack raw raised \<and>
       turns E w (take n evs) \<le> phase_rank k poll t (ew_worker w)) \<or>
    turns E w evs < phase_rank k poll t (ew_worker w)"
proof (induction evs arbitrary: w t)
  case Nil
  have "0 < job_rank k poll t p" for p by (cases p) auto
  then have "0 < phase_rank k poll t (ew_worker w)" using Nil.prems(4) by (cases "ew_worker w") auto
  then show ?case by simp
next
  case (Cons ev evs)
  let ?w = "exec_step E w ev" and ?t = "tick t ev"
  have pos: "0 < phase_rank k poll t (ew_worker w)"
  proof -
    have "0 < job_rank k poll t p" for p by (cases p) auto
    then show ?thesis using Cons.prems(4) by (cases "ew_worker w") auto
  qed
  have one: "turns E w [ev] \<le> 1" by simp
  have step: "closer k poll raw (Suc (phase_rank k poll t (ew_worker w)) - turns E w [ev]) ?t (ew_worker ?w)"
    by (rule step_closer [OF assms(1) _ _ Cons.prems(4) _ _ assms(2)]) (use Cons.prems in auto)
  show ?case
  proof (cases "\<exists>raised. ew_worker ?w = W_ack raw raised")
    case True
    then have "\<exists>raised. ew_worker (run (exec_step E) w (take 1 (ev # evs))) = W_ack raw raised \<and>
      turns E w (take 1 (ev # evs)) \<le> phase_rank k poll t (ew_worker w)" using one pos by simp
    then show ?thesis by (intro disjI1 exI [of _ 1]) auto
  next
    case False
    with step have less: "phase_rank k poll ?t (ew_worker ?w) < Suc (phase_rank k poll t (ew_worker w)) - turns E w [ev]"
      and hand: "in_hand raw (ew_worker ?w)" "\<And>d. asleep_until (ew_worker ?w) = Some d \<Longrightarrow> ?t < d"
      by (auto simp: closer_def)
    from Cons.IH [OF _ _ _ hand] Cons.prems(1-3)
    have "(\<exists>n\<le>length evs. \<exists>raised. ew_worker (run (exec_step E) ?w (take n evs)) = W_ack raw raised \<and>
       turns E ?w (take n evs) \<le> phase_rank k poll ?t (ew_worker ?w)) \<or> turns E ?w evs < phase_rank k poll ?t (ew_worker ?w)"
      by simp
    then show ?thesis
    proof (elim disjE exE conjE)
      fix n raised
      assume n: "n \<le> length evs" "ew_worker (run (exec_step E) ?w (take n evs)) = W_ack raw raised"
        "turns E ?w (take n evs) \<le> phase_rank k poll ?t (ew_worker ?w)"
      have "turns E w (take (Suc n) (ev # evs)) \<le> phase_rank k poll t (ew_worker w)"
        using n(3) less by simp
      with n show ?thesis by (intro disjI1 exI [of _ "Suc n"]) auto
    next
      assume "turns E ?w evs < phase_rank k poll ?t (ew_worker ?w)"
      with less have "turns E w (ev # evs) < phase_rank k poll t (ew_worker w)" by (simp split: if_splits)
      then show ?thesis ..
    qed
  qed
qed


text \<open>The world after the first events of a schedule, and a schedule that is fair to the worker until a claim is
  acknowledged: again and again it gets a turn that does not have to wait.\<close>
abbreviation world_at :: "worker_env \<Rightarrow> exec_world \<Rightarrow> (nat \<Rightarrow> job_event) \<Rightarrow> nat \<Rightarrow> exec_world" where
  "world_at E w schedule n \<equiv> run (exec_step E) w (map schedule [0..<n])"

definition acknowledged :: "pystr \<Rightarrow> exec_world \<Rightarrow> bool" where
  "acknowledged raw w \<longleftrightarrow> (\<exists>raised. ew_worker w = W_ack raw raised)"

lemma enough_turns:
  assumes fair: "\<And>n. (\<And>m. m \<le> n \<Longrightarrow> \<not> acknowledged raw (world_at E w schedule m)) \<Longrightarrow>
      \<exists>m\<ge>n. (\<exists>i. schedule m = Worker i) \<and> \<not> waits (world_at E w schedule m)"
  shows "(\<exists>n. acknowledged raw (world_at E w schedule n)) \<or> (\<exists>n. b \<le> turns E w (map schedule [0..<n]))"
proof (induction b)
  case 0
  then show ?case by simp
next
  case (Suc b)
  show ?case
  proof (cases "\<exists>n. acknowledged raw (world_at E w schedule n)")
    case False
    with Suc obtain n where n: "b \<le> turns E w (map schedule [0..<n])" by blast
    obtain m where m: "n \<le> m" "\<exists>i. schedule m = Worker i" "\<not> waits (world_at E w schedule m)" using fair False by blast
    have "turns E w (map schedule [0..<Suc m]) = turns E w (map schedule [0..<m]) + 1"
      using m(2,3) by (simp add: turns_append)
    moreover have "map schedule [0..<m] = map schedule [0..<n] @ map schedule [n..<m]"
      using m(1) by (metis le_add_diff_inverse map_append upt_add_eq_append zero_le)
    then have "turns E w (map schedule [0..<n]) \<le> turns E w (map schedule [0..<m])" by (simp add: turns_append)
    ultimately show ?thesis using n by (intro disjI2 exI [of _ "Suc m"]) simp
  qed simp
qed

section \<open>Properties\<close>

text \<open>C14: A claimed execution ends: if the worker is not killed, calls may fail apart from those of
  \<open>careful\<close>, the clock does not go back, a sleep lasts its interval, and the worker gets turns in which it
  waits neither for a row lock nor for the stream task, then it comes to acknowledge the claim, after at
  most 26 turns and 3 for every poll interval of the timeout, and the execution then has a final
  status, unless its row was deleted.\<close>

theorem worker_finishes_job:
  assumes "settled db" "careful_run E (new_world db) evs" "w = run (exec_step E) (new_world db) evs"
    and "ew_worker w = W_start (str_of_uuid xid) xid" "0 < poll"
    and "\<And>n. careful_run E w (map schedule [0..<n])" "\<And>n. timely E poll t w (map schedule [0..<n])" "\<And>n. schedule n \<noteq> Kill"
    and "\<And>n. (\<And>m. m \<le> n \<Longrightarrow> \<not> acknowledged (str_of_uuid xid) (world_at E w schedule m)) \<Longrightarrow>
      \<exists>m\<ge>n. (\<exists>i. schedule m = Worker i) \<and> \<not> waits (world_at E w schedule m)"
  shows "\<exists>n. acknowledged (str_of_uuid xid) (world_at E w schedule n) \<and>
    turns E w (map schedule [0..<n]) \<le> 26 + 3 * nat \<lceil>we_timeout E / poll\<rceil> \<and>
    (\<forall>x. rows (world_at E w schedule n) xid = Some x \<longrightarrow> terminal (x_status x))"
proof -
  let ?raw = "str_of_uuid xid" and ?b = "26 + 3 * nat \<lceil>we_timeout E / poll\<rceil>"
  have rank: "phase_rank (polls poll (we_timeout E)) poll t (ew_worker w) = ?b" using assms(4) by (simp add: polls_def)
  have closer: "(\<exists>m\<le>n. acknowledged ?raw (world_at E w schedule m) \<and> turns E w (map schedule [0..<m]) \<le> ?b) \<or>
    turns E w (map schedule [0..<n]) < ?b" for n
  proof -
    have "Kill \<notin> set (map schedule [0..<n])" using assms(8) by (metis imageE set_map)
    with run_closer [OF assms(5) refl assms(7,6), of n ?raw] assms(4)
    have "(\<exists>m\<le>n. acknowledged ?raw (run (exec_step E) w (take m (map schedule [0..<n]))) \<and>
       turns E w (take m (map schedule [0..<n])) \<le> ?b) \<or> turns E w (map schedule [0..<n]) < ?b"
      unfolding rank acknowledged_def by auto
    moreover have "take m (map schedule [0..<n]) = map schedule [0..<m]" if "m \<le> n" for m using that by (simp add: take_map)
    ultimately show ?thesis by metis
  qed
  obtain n where n: "acknowledged ?raw (world_at E w schedule n)" "turns E w (map schedule [0..<n]) \<le> ?b"
  proof (cases "\<exists>n. acknowledged ?raw (world_at E w schedule n)")
    case True
    then obtain n where "acknowledged ?raw (world_at E w schedule n)" ..
    with closer [of n] show thesis using that by (meson less_imp_le)
  next
    case False
    with enough_turns [where b = ?b and raw = ?raw and w = w and E = E and schedule = schedule, OF assms(9)] closer that show thesis by (meson not_less)
  qed
  let ?w = "world_at E w schedule n"
  have "jobs_ok ?w"
    by (intro careful_run_jobs [OF assms(6)]) (simp add: assms(3) careful_run_jobs [OF assms(2) jobs_ok_new [OF assms(1)]])
  then have "terminal (x_status x)" if "rows ?w xid = Some x" for x
    using jobs_okD(5) [OF _ that] n(1) by (auto simp: acknowledged_def job_ok_def)
  with n show ?thesis by blast
qed

text \<open>The sample execution, claimed; its image cannot be had, and its failure is recorded.\<close>

definition failing_job :: "nat \<Rightarrow> job_event" where
  "failing_job n = Worker ((if n = 2 then refused else calm)\<lparr>wi_clock := real n\<rparr>)"

abbreviation awaiting :: "job_event list" where
  "awaiting \<equiv> submission @ [Start, Worker calm, Worker calm, Worker calm]"

abbreviation awaiting_world :: exec_world where
  "awaiting_world \<equiv> sample_world [sample_job QUEUED] [] [str_of_uuid 9] (W_start (str_of_uuid 9) 9)"

lemma awaiting_run:
  "run (exec_step E) (new_world sample_db) awaiting = awaiting_world" "careful_run E (new_world sample_db) awaiting"
proof -
  show "run (exec_step E) (new_world sample_db) awaiting = awaiting_world"
    unfolding run_append submission_run by (simp only: run.simps claim_steps)
  have "careful_run E (sample_world [sample_job QUEUED] [str_of_uuid 9] [] W_stopped) [Start, Worker calm, Worker calm, Worker calm]"
    unfolding careful_run.simps claim_steps by (simp add: careful_def calm_def)
  then show "careful_run E (new_world sample_db) awaiting"
    using submission_run(2) by (simp only: careful_append submission_run(1) simp_thms)
qed

lemma failing_phases:
  fixes E :: worker_env
  defines "w \<equiv> world_at E awaiting_world failing_job"
  shows "\<exists>j x e ms. ew_worker (w 0) = W_start (str_of_uuid 9) 9 \<and> ew_worker (w 1) = W_start_publish (str_of_uuid 9) (sample_job STARTING) \<and>
    ew_worker (w 2) = W_job j J_image \<and> ew_worker (w 3) = W_job j (J_fail e ms) \<and> ew_worker (w 4) = W_job j (J_fail_publish x) \<and>
    ew_worker (w 5) = W_job j (J_delete_key False) \<and> ew_worker (w 6) = W_job j (J_cleanup False) \<and>
    ew_worker (w 7) = W_ack (str_of_uuid 9) False"
    "ew_locks (w n) = Map.empty"
proof -
  have suc: "w (Suc n) = w_step E ((if n = 2 then refused else calm)\<lparr>wi_clock := real n\<rparr>) (w n)" for n
    by (simp add: w_def run_append exec_step_def failing_job_def)
  have start: "ew_worker (w 0) = W_start (str_of_uuid 9) 9" "rows (w 0) 9 = Some (sample_job QUEUED)" "ew_locks (w 0) = Map.empty"
    by (simp_all add: w_def sample_world_def new_world_def)
  show locks: "ew_locks (w n) = Map.empty" for n
    using start(3) w_step_moves unfolding worker_moves_def by (induction n) (metis suc)+
  let ?j = "\<lparr>jb_raw = str_of_uuid 9, jb_execution = sample_job STARTING, jb_started = 1, jb_sandbox = False\<rparr>"
  have 1: "ew_worker (w 1) = W_start_publish (str_of_uuid 9) (sample_job STARTING)" "rows (w 1) 9 = Some (sample_job STARTING)"
    using start locks [of 0] by (simp_all add: suc [of 0, simplified] w_step_def calm_def transition_row_def transition_to_def)
  have 2: "ew_worker (w 2) = W_job ?j J_image" "rows (w 2) 9 = Some (sample_job STARTING)"
    using 1 by (simp_all add: suc [of 1, simplified] numeral_2_eq_2 w_step_def calm_def Let_def)
  have 3: "ew_worker (w 3) = W_job ?j (J_fail [] 1000)" "rows (w 3) 9 = Some (sample_job STARTING)"
    using 2 by (simp_all add: suc [of 2, simplified] w_step_def job_step_def create_step_def then_phase_def failing_def elapsed_ms_def
        refused_def calm_def)
  let ?x = "(sample_job FAILED)\<lparr>x_stdout := Some [], x_stderr := Some [], x_elapsed_ms := Some 1000, x_finished_at := Some 1\<rparr>"
  have 4: "ew_worker (w 4) = W_job ?j (J_fail_publish ?x)"
    using 3 locks [of 3] by (simp add: suc [of 3, simplified] w_step_def job_step_def result_step_def calm_def finish_row_def
        transition_to_def sample_job_def Let_def)
  have 5: "ew_worker (w 5) = W_job ?j (J_delete_key False)"
    using 4 by (simp add: suc [of 4, simplified] w_step_def job_step_def result_step_def calm_def)
  have 6: "ew_worker (w 6) = W_job ?j (J_cleanup False)"
    using 5 by (simp add: suc [of 5, simplified] w_step_def job_step_def calm_def)
  have 7: "ew_worker (w 7) = W_ack (str_of_uuid 9) False"
    using 6 by (simp add: suc [of 6, simplified] w_step_def job_step_def calm_def)
  show "\<exists>j x e ms. ew_worker (w 0) = W_start (str_of_uuid 9) 9 \<and> ew_worker (w 1) = W_start_publish (str_of_uuid 9) (sample_job STARTING) \<and>
    ew_worker (w 2) = W_job j J_image \<and> ew_worker (w 3) = W_job j (J_fail e ms) \<and> ew_worker (w 4) = W_job j (J_fail_publish x) \<and>
    ew_worker (w 5) = W_job j (J_delete_key False) \<and> ew_worker (w 6) = W_job j (J_cleanup False) \<and>
    ew_worker (w 7) = W_ack (str_of_uuid 9) False"
    using start(1) 1(1) 2(1) 3(1) 4 5 6 7 by blast
qed

lemma schedule_ok:
  assumes "\<And>n. on_time poll (clock n) (world_at E w schedule n) (schedule n)" "\<And>n. clock (Suc n) = tick (clock n) (schedule n)"
  shows "timely E poll (clock 0) w (map schedule [0..<n])"
proof -
  have "fold (\<lambda>ev t. tick t ev) (map schedule [0..<n]) (clock 0) = clock n" for n
    by (induction n) (simp_all add: assms(2))
  then show ?thesis using assms(1) by (induction n) (simp_all add: timely_append)
qed

theorem worker_finishes_job_witness:
  "\<exists>n. acknowledged (str_of_uuid 9) (world_at sample_worker awaiting_world failing_job n) \<and>
    turns sample_worker awaiting_world (map failing_job [0..<n]) \<le> 26 + 3 * nat \<lceil>we_timeout sample_worker / 1\<rceil> \<and>
    pred_option (\<lambda>x. terminal (x_status x)) (rows (world_at sample_worker awaiting_world failing_job n) 9)"
proof -
  have "\<exists>n. acknowledged (str_of_uuid 9) (world_at sample_worker awaiting_world failing_job n) \<and>
    turns sample_worker awaiting_world (map failing_job [0..<n]) \<le> 26 + 3 * nat \<lceil>we_timeout sample_worker / 1\<rceil> \<and>
    (\<forall>x. rows (world_at sample_worker awaiting_world failing_job n) 9 = Some x \<longrightarrow> terminal (x_status x))"
  proof (rule worker_finishes_job [OF sample_settled awaiting_run(2) awaiting_run(1) [symmetric]])
    let ?w = "world_at sample_worker awaiting_world failing_job"
    obtain j x e ms where p: "ew_worker (?w 0) = W_start (str_of_uuid 9) 9" "ew_worker (?w 1) = W_start_publish (str_of_uuid 9) (sample_job STARTING)"
      "ew_worker (?w 2) = W_job j J_image" "ew_worker (?w 3) = W_job j (J_fail e ms)" "ew_worker (?w 4) = W_job j (J_fail_publish x)"
      "ew_worker (?w 5) = W_job j (J_delete_key False)" "ew_worker (?w 6) = W_job j (J_cleanup False)"
      "ew_worker (?w 7) = W_ack (str_of_uuid 9) False"
      using failing_phases(1) by blast
    have "careful (?w n) (failing_job n)" for n
      using p(3) by (cases "n = 2") (auto simp: careful_def failing_job_def calm_def split: w_phase.split j_phase.split)
    then show "careful_run sample_worker awaiting_world (map failing_job [0..<n])" for n
      by (induction n) (simp_all add: careful_append)
    have "on_time 1 (real n - 1) (?w n) (failing_job n)" for n
      by (auto simp: on_time_def failing_job_def split: w_phase.split j_phase.split)
    from schedule_ok [of 1 "\<lambda>n. real n - 1", OF this]
    show "timely sample_worker 1 (real 0 - 1) awaiting_world (map failing_job [0..<n])" for n
      by (simp add: failing_job_def)
    show "failing_job n \<noteq> Kill" for n by (simp add: failing_job_def)
    show "\<exists>m\<ge>n. (\<exists>i. failing_job m = Worker i) \<and> \<not> waits (?w m)"
      if "\<And>m. m \<le> n \<Longrightarrow> \<not> acknowledged (str_of_uuid 9) (?w m)" for n
    proof -
      have "n < 7" using that [of 7] p(8) by (force simp: acknowledged_def)
      then have "n \<in> {0, 1, 2, 3, 4, 5, 6}" by auto
      then have "\<not> waits (?w n)" using p failing_phases(2) [of sample_worker n] by (elim insertE emptyE) (auto simp: waits_def)
      then show ?thesis by (auto simp: failing_job_def)
    qed
  qed simp_all
  then show ?thesis by (auto simp: pred_option_def elem_set)
qed

end
