(* ===== verification/Relay.thy ===== *)
theory Relay
  imports Guarantees JobProgress
begin

text \<open>The execution events on their way to the users: \<open>run_execution_event_relay\<close>
  (\<open>app/execution/events.py\<close>) and \<open>broadcast_execution_event\<close> (\<open>app/collaboration/websocket.py\<close>)
  between the worker's world of theory Jobs and the hub of theory Hub. A state is the hub, the jobs' world
  and the relay; the events of all three interleave freely. \<open>service_ok\<close> is invariant: the sockets
  in a room, and those the relay is sending a frame to, belong to the session they are used for.\<close>

declare hub_step.simps [simp del]

section \<open>Whose rooms sockets are in\<close>

text \<open>A step lists a socket only in the room of its own session, and a connection keeps its session.\<close>
definition placed_by :: "'d hub \<Rightarrow> hub_event \<Rightarrow> 'd hub \<Rightarrow> bool" where
  "placed_by h ev h' \<longleftrightarrow>
     (\<forall>sid w. w \<in> set (room_sockets h' sid) \<longrightarrow> w \<in> set (room_sockets h sid) \<or> (\<exists>c. hb_conns h w = Some c \<and> cn_session c = sid)) \<and>
     (\<forall>w c'. hb_conns h' w = Some c' \<longrightarrow>
        (\<exists>c. hb_conns h w = Some c \<and> cn_session c' = cn_session c) \<or> (\<exists>token raw. ev = Ws_open w token raw))"

lemma placed_by_conns:
  assumes "hb_rooms h' = hb_rooms h" "\<And>w' c'. hb_conns h' w' = Some c' \<Longrightarrow> \<exists>c. hb_conns h w' = Some c \<and> cn_session c' = cn_session c"
  shows "placed_by h ev h'"
  using assms by (simp add: placed_by_def room_sockets_def room_list_def)

lemma rooms_greet [simp]: "hb_rooms (greet_awareness h w c) = hb_rooms h" "hb_rooms (greet_status E h w c) = hb_rooms h"
  "hb_rooms (greet_vector E h w c) = hb_rooms h"
proof -
  show a: "hb_rooms (greet_awareness h w c) = hb_rooms h" for h :: "'a hub" by (simp add: greet_awareness_def Let_def)
  show s: "hb_rooms (greet_status E h w c) = hb_rooms h" for h :: "'a hub" by (simp add: greet_status_def a split: option.split)
  show "hb_rooms (greet_vector E h w c) = hb_rooms h" by (simp add: greet_vector_def s split: prod.split sum.split)
qed

lemma rooms_handle [simp]: "hb_rooms (handle_binary_message E now h w c data) = hb_rooms h"
  by (auto simp: handle_binary_message_def Let_def split: sum.split option.split prod.split ParsedMessage.split)

lemma rooms_apply [simp]: "hb_rooms (apply_if_authorized E h w c u) = hb_rooms h"
  by (auto simp: apply_if_authorized_def Let_def split: sum.split option.split prod.split)

lemma rooms_broadcast [simp]: "hb_rooms (broadcast_step E now h w c targets f k) = hb_rooms h"
  "hb_rooms (farewell_step h w targets f) = hb_rooms h"
  by (auto simp: broadcast_step_def after_prune_def farewell_step_def split: list.split after_broadcast.split)

lemma rooms_close: "close_if_invalidated h sid uid w = (h', b) \<Longrightarrow> hb_rooms h' = hb_rooms h"
  using close_if_invalidated_frames by blast

lemma rooms_joined [simp]:
  "hb_rooms (ws_joined E h w c) = (hb_rooms h)(cn_session c \<mapsto> room_list h (cn_session c) @ [(w, cn_user c, cn_role c)])"
  by (auto simp: ws_joined_def Let_def dest!: rooms_close split: prod.split bool.split)

lemma rooms_receive [simp]: "hb_rooms (ws_receive E now h w c msg) = hb_rooms h"
  by (auto simp: ws_receive_def after_prune_def Let_def dest!: rooms_close split: prod.split bool.split ws_message.split)

lemma rooms_accepted [simp]: "hb_rooms (ws_accepted h w c) = hb_rooms h"
  by (auto simp: ws_accepted_def Let_def dest!: rooms_close split: prod.split bool.split)

lemma lost_placed: "placed_by h ev (http_lost now h i r)"
  by (rule http_lost_cases [of now h i r]) (auto intro!: placed_by_conns simp: unlock_rooms)

text \<open>What a step of one connection does to the rooms.\<close>
lemma rooms_continue:
  "w' \<in> set (room_sockets (ws_continue E now saved_now h w c) sid) \<Longrightarrow> w' \<in> set (room_sockets h sid) \<or> w' = w \<and> sid = cn_session c"
proof (cases "cn_phase c")
  case Want_join
  then show "w' \<in> set (room_sockets (ws_continue E now saved_now h w c) sid) \<Longrightarrow> ?thesis"
    by (auto simp: ws_continue_def join_room_def Let_def room_sockets_def room_list_def split: if_splits option.splits)
next
  case Joining
  then show "w' \<in> set (room_sockets (ws_continue E now saved_now h w c) sid) \<Longrightarrow> ?thesis"
    by (auto simp: ws_continue_def join_loaded_def Let_def room_sockets_def room_list_def split: if_splits option.splits)
next
  case Want_leave
  then show "w' \<in> set (room_sockets (ws_continue E now saved_now h w c) sid) \<Longrightarrow> ?thesis"
    by (auto simp: ws_continue_def leave_room_def Let_def room_sockets_def room_list_def split: if_splits option.splits prod.splits sum.splits)
next
  case Leaving
  then show "w' \<in> set (room_sockets (ws_continue E now saved_now h w c) sid) \<Longrightarrow> ?thesis"
    by (auto simp: ws_continue_def leave_evicted_def Let_def room_sockets_def room_list_def split: if_splits)
qed (auto simp: ws_continue_def auth_user_def auth_session_def auth_member_def room_sockets_def room_list_def split: option.splits if_splits)

lemma unlock_room_map [simp]: "hb_rooms (unlock h i r frames) = hb_rooms h"
  by (simp add: unlock_def http_broadcast_def split: list.split)

lemma http_rooms_conns [simp]:
  "hb_rooms (http_continue E now h i r) = hb_rooms h" "hb_conns (http_continue E now h i r) = hb_conns h"
proof -
  have b: "hb_rooms (http_broadcast_step h i r targets f fs) = hb_rooms h" for targets f fs
    by (simp_all add: http_broadcast_step_def http_broadcast_def split: list.split)
  have f: "hb_rooms (fence h r) = hb_rooms h" "hb_conns (fence h r) = hb_conns h"
    by (simp_all add: fence_def reauthenticate_member_connections_def revoke_member_connections_def Let_def
      invalidate_member_connections_def close_session_connections_def revoke_all_def close_connections_def split: http_op.split)
  have s: "hb_rooms (http_settle_doc E now h i r) = hb_rooms h" "hb_rooms (http_evict_if_idle E now h i r) = hb_rooms h" for h r
    by (simp_all add: http_settle_doc_def http_evict_if_idle_def)
  have l: "hb_rooms (http_loaded E now h i r) = hb_rooms h"
    by (auto simp: http_loaded_def Let_def s split: http_op.split prod.split sum.split)
  show "hb_rooms (http_continue E now h i r) = hb_rooms h"
  proof (cases "hr_phase r")
    case H_queued
    have "hb_rooms (http_lock E now h i r) = hb_rooms h" by (simp add: http_lock_def Let_def split: http_op.split)
    with H_queued show ?thesis by (simp add: http_continue_def)
  next
    case H_fetching
    have "hb_rooms (http_fetch E now h i r) = hb_rooms h" by (simp add: http_fetch_def split: http_op.split sum.split)
    with H_fetching show ?thesis by (simp add: http_continue_def)
  next
    case (H_inserting state)
    have "hb_rooms (http_insert E now h i r state) = hb_rooms h" by (simp add: http_insert_def s split: http_op.split sum.split prod.split)
    with H_inserting show ?thesis by (simp add: http_continue_def)
  qed (simp_all add: http_continue_def http_mutate_def http_check_def http_saved_def Let_def b f l s
      split: sum.split option.split http_op.split)
  show "hb_conns (http_continue E now h i r) = hb_conns h"
  proof (cases "hr_phase r = H_committed")
    case True
    then show ?thesis by (simp add: http_continue_def f)
  next
    case False
    from http_unseen(1) [OF this] show ?thesis unfolding unseen_def by metis
  qed
qed

lemma http_error_conns [simp]: "hb_rooms (http_error h i r) = hb_rooms h" "hb_conns (http_error h i r) = hb_conns h"
  by (simp_all add: http_error_def split: http_phase.split)

lemma http_open_conns [simp]: "hb_rooms (http_open h i uid op sid) = hb_rooms h" "hb_conns (http_open h i uid op sid) = hb_conns h"
  by (simp_all add: http_open_def Let_def split: option.split sum.split)

lemma session_moved:
  assumes "ws_moved h w c h'" "hb_conns h w = Some c" "hb_conns h' w' = Some c'"
  shows "\<exists>c. hb_conns h w' = Some c \<and> cn_session c' = cn_session c"
proof (cases "w' = w")
  case True
  with assms have "c' = c\<lparr>cn_phase := cn_phase c'\<rparr>" by (simp add: ws_moved_def)
  then have "cn_session c' = cn_session c" by (metis conn.select_convs(1) conn.surjective conn.update_convs(5))
  with True assms(2) show ?thesis by auto
next
  case False
  with assms show ?thesis by (simp add: ws_moved_def ws_frame_def)
qed

lemma session_auth:
  assumes "hb_conns h w = Some c" "\<not> knows_role (cn_phase c)" "h' = ws_continue E now saved_now h w c \<or> h' = ws_error h w c"
    and "hb_conns h' w' = Some c'"
  shows "\<exists>c. hb_conns h w' = Some c \<and> cn_session c' = cn_session c"
  using assms by (cases "cn_phase c")
    (auto simp: ws_continue_def ws_error_def auth_user_def auth_session_def auth_member_def reject_def finish_def
      close_connections_def set_phase_def split: option.splits if_splits)

lemma placed_by_step:
  assumes "hub_auth h"
  shows "placed_by h ev (hub_step E h ev)"
proof -
  note auth = hub_authD(1) [OF assms]
  have same: "placed_by h ev h" by (rule placed_by_conns) auto
  show ?thesis
  proof (cases ev)
    case (Ws_open w token raw)
    have "placed_by h ev (ws_open E h w token raw)"
      using Ws_open by (auto simp: placed_by_def ws_open_def reject_def finish_def close_connections_def room_sockets_def room_list_def
          split: sum.splits if_splits)
    with same Ws_open show ?thesis by (simp add: hub_step.simps)
  next
    case (Ws_continue w now saved_now)
    have "placed_by h ev (ws_continue E now saved_now h w c)" if c: "hb_conns h w = Some c" for c
    proof -
      have "\<exists>c. hb_conns h w' = Some c \<and> cn_session c' = cn_session c"
        if "hb_conns (ws_continue E now saved_now h w c) w' = Some c'" for w' c'
        using session_moved [OF ws_continue_moved [OF c auth [OF c]] c that] session_auth [OF c _ disjI1 [OF refl] that] by blast
      moreover have "w' \<in> set (room_sockets h sid) \<or> (\<exists>c. hb_conns h w' = Some c \<and> cn_session c = sid)"
        if "w' \<in> set (room_sockets (ws_continue E now saved_now h w c) sid)" for w' sid
        using rooms_continue [OF that] c by blast
      ultimately show ?thesis unfolding placed_by_def by blast
    qed
    with same Ws_continue show ?thesis by (simp add: hub_step.simps split: option.split)
  next
    case (Ws_error w)
    have "placed_by h ev (ws_error h w c)" if c: "hb_conns h w = Some c" for c
    proof (rule placed_by_conns)
      show "hb_rooms (ws_error h w c) = hb_rooms h" by (simp add: ws_error_def split: ws_phase.split)
      show "\<exists>c. hb_conns h w' = Some c \<and> cn_session c' = cn_session c" if "hb_conns (ws_error h w c) w' = Some c'" for w' c'
        using session_moved [OF ws_error_moved [OF c auth [OF c]] c that] by blast
    qed
    with same Ws_error show ?thesis by (simp add: hub_step.simps split: option.split)
  next
    case (Ws_message w msg now)
    have "placed_by h ev (ws_receive E now h w c msg)" if c: "hb_conns h w = Some c" "cn_phase c = Receiving" for c
    proof (rule placed_by_conns)
      have "hb_stamps h w = Some (cn_stamp c)" using registered_stamp [OF auth [OF c(1)]] c(2) by simp
      note moved = moved_receive [OF c(1) this]
      show "\<exists>c. hb_conns h w' = Some c \<and> cn_session c' = cn_session c" if "hb_conns (ws_receive E now h w c msg) w' = Some c'" for w' c'
        by (rule session_moved [OF moved c(1) that])
    qed simp
    with same Ws_message show ?thesis by (simp add: hub_step.simps split: option.split)
  next
    case (Http_continue i now)
    have "placed_by h ev (http_continue E now h i r)" for r
      by (rule placed_by_conns) simp_all
    with same Http_continue show ?thesis by (simp add: hub_step.simps split: option.split)
  next
    case (Refresh_error i now)
    with same show ?thesis by (simp add: hub_step.simps lost_placed split: option.split)
  qed (use same in \<open>auto simp: hub_step.simps intro!: placed_by_conns split: option.split\<close>)
qed

section \<open>The service\<close>

text \<open>\<open>run_execution_event_relay\<close> next to the hub and the worker. Redis delivers what is published while
  the relay is subscribed, in order; a reconnection loses what came in between. The relay is down,
  waiting in \<open>get_message\<close>, sending a frame to the sockets captured by \<open>_broadcast_binary\<close>, or ended by an
  exception it does not catch. A socket object is opened once.\<close>
datatype relay_phase = Relay_down | Relay_waiting | Relay_sending pystr "ws list" bytes | Relay_ended

record 'd service =
  sv_hub :: "'d hub"
  sv_exec :: exec_world
  sv_inbox :: "(pystr \<times> pystr) list"
  sv_relay :: relay_phase
  sv_opened :: "ws set"

datatype service_event =
    Hub_event hub_event
  | Exec_event job_event
  | Relay_subscribe
  | Relay_get
  | Relay_send bool
  | Relay_lost

record 'd service_env =
  se_hub :: "'d hub_env"
  se_worker :: worker_env

text \<open>Rooms are keyed by the canonical text of a session's identifier.\<close>
definition sockets_of :: "'d hub \<Rightarrow> pystr \<Rightarrow> ws list" where
  "sockets_of h session_id =
     (case uuid_of_str session_id of
        None \<Rightarrow> []
      | Some sid \<Rightarrow> if str_of_uuid sid = session_id then room_sockets h sid else [])"

definition broadcast_execution_event :: "'d hub \<Rightarrow> pystr \<Rightarrow> (pystr, json) dict \<Rightarrow> relay_phase" where
  "broadcast_execution_event h session_id event =
     (case encode_execution_event event of
        Inl _ \<Rightarrow> Relay_ended
      | Inr f \<Rightarrow> Relay_sending session_id (sockets_of h session_id) f)"

definition relay_get :: "json_env \<Rightarrow> 'd service \<Rightarrow> 'd service" where
  "relay_get J s =
     (case (sv_relay s, sv_inbox s) of
        (Relay_waiting, (channel, data) # inbox) \<Rightarrow>
          s\<lparr>sv_inbox := inbox, sv_relay :=
             (case validate_execution_event J (Str channel) (Str data) of
                Inl _ \<Rightarrow> Relay_ended
              | Inr None \<Rightarrow> Relay_waiting
              | Inr (Some (session_id, event)) \<Rightarrow> broadcast_execution_event (sv_hub s) session_id event)\<rparr>
      | _ \<Rightarrow> s)"

text \<open>One socket of the loop in \<open>_broadcast_binary\<close>; a send that raises is skipped.\<close>
definition relay_send :: "bool \<Rightarrow> 'd service \<Rightarrow> 'd service" where
  "relay_send ok s =
     (case sv_relay s of
        Relay_sending _ [] _ \<Rightarrow> s\<lparr>sv_relay := Relay_waiting\<rparr>
      | Relay_sending session_id (w # ws) f \<Rightarrow>
          s\<lparr>sv_hub := (if hb_revoked (sv_hub s) w \<noteq> None \<or> \<not> ok then sv_hub s else send_bytes (sv_hub s) w f),
            sv_relay := Relay_sending session_id ws f\<rparr>
      | _ \<Rightarrow> s)"

definition subscribed :: "relay_phase \<Rightarrow> bool" where
  "subscribed p \<longleftrightarrow> p \<noteq> Relay_down \<and> p \<noteq> Relay_ended"

definition published :: "exec_world \<Rightarrow> (pystr \<times> pystr) list" where
  "published w = rd_published (ew_redis w)"

definition service_step :: "'d service_env \<Rightarrow> 'd service \<Rightarrow> service_event \<Rightarrow> 'd service" where
  "service_step S s ev =
     (case ev of
        Hub_event ev \<Rightarrow>
          (case ev of
             Ws_open w token raw \<Rightarrow>
               if w \<in> sv_opened s then s
               else s\<lparr>sv_hub := hub_step (se_hub S) (sv_hub s) ev, sv_opened := insert w (sv_opened s)\<rparr>
           | _ \<Rightarrow> s\<lparr>sv_hub := hub_step (se_hub S) (sv_hub s) ev\<rparr>)
      | Exec_event ev \<Rightarrow>
          let w = exec_step (se_worker S) (sv_exec s) ev
          in s\<lparr>sv_exec := w, sv_inbox :=
               (if subscribed (sv_relay s) then sv_inbox s @ drop (length (published (sv_exec s))) (published w) else sv_inbox s)\<rparr>
      | Relay_subscribe \<Rightarrow> if sv_relay s = Relay_down then s\<lparr>sv_relay := Relay_waiting, sv_inbox := []\<rparr> else s
      | Relay_get \<Rightarrow> relay_get (he_json (se_hub S)) s
      | Relay_send ok \<Rightarrow> relay_send ok s
      | Relay_lost \<Rightarrow> if sv_relay s = Relay_waiting then s\<lparr>sv_relay := Relay_down\<rparr> else s)"

definition new_service :: "'d hub \<Rightarrow> exec_world \<Rightarrow> 'd service" where
  "new_service h w = \<lparr>sv_hub = h, sv_exec = w, sv_inbox = [], sv_relay = Relay_down, sv_opened = {}\<rparr>"

section \<open>Who gets execution events\<close>

text \<open>Sockets the rooms or the relay refer to were opened, and belong to the session they are used for.\<close>
definition owned :: "'d service \<Rightarrow> pystr \<Rightarrow> ws list \<Rightarrow> bool" where
  "owned s session_id ws \<longleftrightarrow> (\<forall>w\<in>set ws. w \<in> sv_opened s \<and>
     (\<forall>c. hb_conns (sv_hub s) w = Some c \<longrightarrow> str_of_uuid (cn_session c) = session_id))"

definition frame_bound :: "pystr \<Rightarrow> bytes \<Rightarrow> bool" where
  "frame_bound session_id f \<longleftrightarrow>
     (\<exists>event. encode_execution_event event = Inr f \<and> dget event (py ''session_id'') = Some (JStr session_id))"

definition service_ok :: "'d service \<Rightarrow> bool" where
  "service_ok s \<longleftrightarrow> hub_ok_audience (sv_hub s) \<and>
     (\<forall>w c. hb_conns (sv_hub s) w = Some c \<longrightarrow> w \<in> sv_opened s) \<and>
     (\<forall>sid. owned s (str_of_uuid sid) (room_sockets (sv_hub s) sid)) \<and>
     (\<forall>session_id ws f. sv_relay s = Relay_sending session_id ws f \<longrightarrow> owned s session_id ws \<and> frame_bound session_id f)"

lemma service_okD:
  assumes "service_ok s"
  shows "hub_ok_audience (sv_hub s)" "hb_conns (sv_hub s) w = Some c \<Longrightarrow> w \<in> sv_opened s"
    "owned s (str_of_uuid sid) (room_sockets (sv_hub s) sid)"
    "sv_relay s = Relay_sending session_id ws f \<Longrightarrow> owned s session_id ws \<and> frame_bound session_id f"
  using assms by (auto simp: service_ok_def)

lemma owned_cong: "hb_conns (sv_hub s') = hb_conns (sv_hub s) \<Longrightarrow> sv_opened s' = sv_opened s \<Longrightarrow> owned s' sid ws = owned s sid ws"
  by (simp add: owned_def)

lemma hub_event_ok:
  assumes "service_ok s" "sv_hub s' = hub_step E (sv_hub s) ev" "sv_relay s' = sv_relay s" "sv_opened s \<subseteq> sv_opened s'"
    and new: "\<And>w token raw. ev = Ws_open w token raw \<Longrightarrow> w \<notin> sv_opened s \<and> w \<in> sv_opened s'"
  shows "service_ok s'"
proof -
  note ok = service_okD [OF assms(1)]
  have "hub_auth (sv_hub s)" using ok(1) by (simp add: hub_ok_audience_def hub_ok_def)
  note placed = placed_by_step [OF this, of ev E, folded assms(2), unfolded placed_by_def]
  have conns: "(\<exists>c. hb_conns (sv_hub s) w = Some c \<and> cn_session c' = cn_session c) \<or> (\<exists>token raw. ev = Ws_open w token raw)"
    if "hb_conns (sv_hub s') w = Some c'" for w c' using placed that by blast
  have keep: "owned s' session_id ws" if "owned s session_id ws" for session_id ws
    unfolding owned_def
  proof (intro ballI conjI allI impI)
    fix w assume w: "w \<in> set ws"
    then have o: "w \<in> sv_opened s" "\<And>c. hb_conns (sv_hub s) w = Some c \<Longrightarrow> str_of_uuid (cn_session c) = session_id"
      using that by (auto simp: owned_def)
    with assms(4) show "w \<in> sv_opened s'" by blast
    show "str_of_uuid (cn_session c) = session_id" if "hb_conns (sv_hub s') w = Some c" for c
      using conns [OF that] o new by metis
  qed
  show ?thesis
    unfolding service_ok_def
  proof (intro conjI allI impI)
    show "hub_ok_audience (sv_hub s')" unfolding assms(2) by (rule audience_hub_step [OF ok(1)])
    show "w \<in> sv_opened s'" if "hb_conns (sv_hub s') w = Some c" for w c
      using conns [OF that] ok(2) new assms(4) by blast
    show "owned s' (str_of_uuid sid) (room_sockets (sv_hub s') sid)" for sid
      unfolding owned_def
    proof (intro ballI conjI allI impI)
      fix w assume "w \<in> set (room_sockets (sv_hub s') sid)"
      then have w: "w \<in> set (room_sockets (sv_hub s) sid) \<or> (\<exists>c. hb_conns (sv_hub s) w = Some c \<and> cn_session c = sid)"
        using placed by blast
      then have o: "w \<in> sv_opened s" "\<And>c. hb_conns (sv_hub s) w = Some c \<Longrightarrow> cn_session c = sid"
        using ok(2) ok(3) [of sid] by (auto simp: owned_def)
      with assms(4) show "w \<in> sv_opened s'" by blast
      show "str_of_uuid (cn_session c) = str_of_uuid sid" if "hb_conns (sv_hub s') w = Some c" for c
        using conns [OF that] o new by metis
    qed
    show "owned s' session_id ws" "frame_bound session_id f" if "sv_relay s' = Relay_sending session_id ws f" for session_id ws f
      using that ok(4) keep assms(3) by auto
  qed
qed

lemma sent_hub_ok: "hub_ok_audience (send_bytes h w f) = hub_ok_audience h"
  by (simp add: send_bytes_def hub_ok_audience_def audience_ok_def hub_ok_def hub_auth_def conn_ok_def request_ok_def rooms_ok_def
      stamp_ok_def right_ok_def fresh_def gap_def evictor_def room_list_def)

lemma sent_rooms [simp]: "hb_conns (send_bytes h w f) = hb_conns h" "room_sockets (send_bytes h w f) = room_sockets h"
  "hb_revoked (send_bytes h w f) = hb_revoked h" "hb_sent (send_bytes h w f) = hb_sent h @ [(w, f)]"
  by (simp_all add: send_bytes_def room_sockets_def room_list_def fun_eq_iff)

lemma validated_session:
  "validate_execution_event J channel payload = Inr (Some (session_id, event)) \<Longrightarrow> dget event (py ''session_id'') = Some (JStr session_id)"
  by (auto simp: validate_execution_event_def Let_def split: if_splits sum.splits json.splits json_error.splits)

lemma validated_bound: "validate_execution_event J channel payload = Inr (Some (session_id, event)) \<Longrightarrow>
  encode_execution_event event = Inr f \<Longrightarrow> frame_bound session_id f"
  using validated_session unfolding frame_bound_def by blast

lemma relay_ok:
  assumes "service_ok s" "hub_ok_audience (sv_hub s')" "hb_conns (sv_hub s') = hb_conns (sv_hub s)"
    "room_sockets (sv_hub s') = room_sockets (sv_hub s)" "sv_opened s' = sv_opened s"
    and "\<And>session_id ws f. sv_relay s' = Relay_sending session_id ws f \<Longrightarrow> owned s session_id ws \<and> frame_bound session_id f"
  shows "service_ok s'"
  using assms unfolding service_ok_def owned_def by simp

lemma sockets_owned: "service_ok s \<Longrightarrow> owned s session_id (sockets_of (sv_hub s) session_id)"
  using service_okD(3) [of s] by (auto simp: sockets_of_def owned_def split: option.split)

lemma relay_revoked [simp]: "hb_revoked (sv_hub (relay_get J s)) = hb_revoked (sv_hub s)"
  "hb_revoked (sv_hub (relay_send ok s)) = hb_revoked (sv_hub s)"
  by (auto simp: relay_get_def relay_send_def split: relay_phase.split list.split)

lemma relay_get_ok:
  assumes "service_ok s"
  shows "service_ok (relay_get J s)"
proof (rule relay_ok [OF assms])
  show "hub_ok_audience (sv_hub (relay_get J s))" using service_okD(1) [OF assms]
    by (auto simp: relay_get_def split: relay_phase.split list.split)
  show "owned s session_id ws \<and> frame_bound session_id f" if "sv_relay (relay_get J s) = Relay_sending session_id ws f" for session_id ws f
    using that service_okD(4) [OF assms] sockets_owned [OF assms]
    by (auto simp: relay_get_def broadcast_execution_event_def split: relay_phase.splits list.splits sum.splits option.splits)
      (erule validated_bound; assumption)
qed (auto simp: relay_get_def split: relay_phase.split list.split)

lemma relay_send_ok:
  assumes "service_ok s"
  shows "service_ok (relay_send ok s)"
proof (rule relay_ok [OF assms])
  show "hub_ok_audience (sv_hub (relay_send ok s))" using service_okD(1) [OF assms]
    by (auto simp: relay_send_def sent_hub_ok split: relay_phase.split list.split)
  show "owned s session_id ws \<and> frame_bound session_id f" if "sv_relay (relay_send ok s) = Relay_sending session_id ws f" for session_id ws f
    using that service_okD(4) [OF assms] by (fastforce simp: relay_send_def owned_def split: relay_phase.splits list.splits)
qed (auto simp: relay_send_def split: relay_phase.split list.split)

lemma service_step_ok:
  assumes "service_ok s"
  shows "service_ok (service_step S s ev)"
proof (cases ev)
  case (Hub_event h)
  show ?thesis
  proof (cases "\<exists>w token raw. h = Ws_open w token raw \<and> w \<in> sv_opened s")
    case True
    with assms Hub_event show ?thesis by (auto simp: service_step_def)
  next
    case False
    with Hub_event show ?thesis
      by (intro hub_event_ok [OF assms, of _ "se_hub S" h]) (auto simp: service_step_def split: hub_event.split)
  qed
next
  case (Relay_send ok)
  with relay_send_ok [OF assms] show ?thesis by (simp add: service_step_def)
next
  case Relay_get
  with relay_get_ok [OF assms] show ?thesis by (simp add: service_step_def)
qed (use assms service_okD [OF assms] in \<open>auto simp: service_step_def Let_def intro!: relay_ok [OF assms]\<close>)

interpretation service: invariant_machine "service_step S" service_ok for S :: "'d service_env"
  by unfold_locales (rule service_step_ok)

lemma service_ok_new: "service_ok (new_service (new_hub db (new_manager redis database)) w)"
  using audience_new [of db redis database]
  by (auto simp: service_ok_def new_service_def owned_def new_hub_def room_sockets_def room_list_def)

section \<open>Properties\<close>

text \<open>C25: What a program prints is seen by its session only: when the relay sends an execution event to a participant's
  socket, the event names the participant's session, and the user is a member of that active
  session with the role of the connection. The exceptions are the instant between a commit that changes
  this member or session and its fence, and a connection that was open when such a request failed behind
  its commit, so that the fence was left out (\<open>hb_unfenced\<close>, written by \<open>http_lost\<close> alone).\<close>

theorem execution_events_stay_in_session:
  assumes "s = run (service_step S) (new_service (new_hub db (new_manager redis database)) x) evs"
    and "hb_sent (sv_hub (service_step S s (Relay_send ok))) = hb_sent (sv_hub s) @ [(w, f)]"
    and "hb_conns (sv_hub s) w = Some c" "in_room (cn_phase c)"
  shows "(\<exists>event. encode_execution_event event = Inr f \<and> dget event (py ''session_id'') = Some (JStr (str_of_uuid (cn_session c)))) \<and>
    (gap (sv_hub s) (cn_session c) (cn_user c) \<or> w \<in> hb_unfenced (sv_hub s) \<or>
     active_in (hb_db (sv_hub s)) (cn_session c) \<and> role_of (hb_db (sv_hub s)) (cn_session c) (cn_user c) = Some (cn_role c))"
proof -
  have "service_ok s" unfolding assms(1) by (rule service.run_inv [OF service_ok_new])
  note ok = service_okD [OF this]
  from assms(2) obtain session_id ws where r: "sv_relay s = Relay_sending session_id (w # ws) f" "hb_revoked (sv_hub s) w = None"
    by (cases "hb_revoked (sv_hub s) w") (auto simp: service_step_def relay_send_def split: relay_phase.splits list.splits if_splits)
  then have "str_of_uuid (cn_session c) = session_id" "frame_bound session_id f" using ok(4) assms(3) by (auto simp: owned_def)
  moreover have "fresh (sv_hub s) c" "hub_auth (sv_hub s)"
    using ok(1) assms(3,4) r(2) by (auto simp: hub_ok_audience_def audience_ok_def hub_ok_def)
  moreover have "knows_active (cn_phase c)" "knows_role (cn_phase c)" using assms(4) by (cases "cn_phase c"; simp)+
  ultimately show ?thesis
    using hub_authD(1) [of "sv_hub s" w c] assms(3) by (auto simp: frame_bound_def conn_ok_def right_ok_def)
qed

section \<open>Delivery\<close>

text \<open>A run in which the relay finishes the sockets \<open>ws\<close> it has captured, whatever else happens in between.\<close>
fun sends :: "service_event list \<Rightarrow> nat" where
  "sends [] = 0"
| "sends (Relay_send ok # evs) = Suc (sends evs)"
| "sends (_ # evs) = sends evs"

lemma sent_grows:
  assumes "service_ok s"
  shows "set (hb_sent (sv_hub s)) \<subseteq> set (hb_sent (sv_hub (service_step S s ev)))"
proof -
  have auth: "hub_auth (sv_hub s)" using service_okD(1) [OF assms] by (simp add: hub_ok_audience_def hub_ok_def)
  have hub: "set (hb_sent (sv_hub s)) \<subseteq> set (hb_sent (hub_step E (sv_hub s) e))" for E :: "'a hub_env" and e
    using step_sends [OF auth, of e E] by (auto simp: sends_to_def)
  show ?thesis
  proof (cases ev)
    case (Hub_event e)
    with hub show ?thesis by (auto simp: service_step_def split: hub_event.split)
  qed (auto simp: service_step_def relay_get_def relay_send_def Let_def split: relay_phase.split list.split)
qed

lemma sent_grows_run: "service_ok s \<Longrightarrow> set (hb_sent (sv_hub s)) \<subseteq> set (hb_sent (sv_hub (run (service_step S) s evs)))"
  by (induction evs arbitrary: s) (use sent_grows service_step_ok in \<open>fastforce+\<close>)

lemma relay_keeps: "sv_relay s = Relay_sending session_id ws f \<Longrightarrow> (\<And>ok. ev \<noteq> Relay_send ok) \<Longrightarrow> sv_relay (service_step S s ev) = sv_relay s"
  by (cases ev) (auto simp: service_step_def relay_get_def Let_def split: hub_event.split)

lemma delivery:
  assumes "service_ok s" "sv_relay s = Relay_sending session_id ws f" "w \<in> set ws" "Relay_send False \<notin> set evs" "length ws \<le> sends evs"
  shows "(w, f) \<in> set (hb_sent (sv_hub (run (service_step S) s evs))) \<or>
    (\<exists>n\<le>length evs. hb_revoked (sv_hub (run (service_step S) s (take n evs))) w \<noteq> None)"
  using assms
proof (induction evs arbitrary: s ws)
  case Nil
  then show ?case by auto
next
  case (Cons ev evs)
  let ?s = "service_step S s ev"
  have ok: "service_ok ?s" using Cons.prems(1) by (rule service_step_ok)
  have later: "?case" if "(w, f) \<in> set (hb_sent (sv_hub (run (service_step S) ?s evs))) \<or>
    (\<exists>n\<le>length evs. hb_revoked (sv_hub (run (service_step S) ?s (take n evs))) w \<noteq> None)"
    using that by (elim disjE exE conjE) (simp, metis Suc_le_mono length_Cons run.simps(2) take_Suc_Cons)
  show ?case
  proof (cases "\<exists>b. ev = Relay_send b")
    case False
    then have "sv_relay ?s = Relay_sending session_id ws f" using relay_keeps Cons.prems(2) by metis
    moreover have "sends (ev # evs) = sends evs" using False by (cases ev) auto
    ultimately show ?thesis using Cons.IH [OF ok] Cons.prems(3-5) by (intro later) simp
  next
    case True
    with Cons.prems(4) have ev: "ev = Relay_send True" by (metis (full_types) list.set_intros(1))
    obtain v ws' where ws: "ws = v # ws'" using Cons.prems(3) by (cases ws) auto
    have step: "sv_relay ?s = Relay_sending session_id ws' f" using ev ws Cons.prems(2) by (simp add: service_step_def relay_send_def)
    show ?thesis
    proof (cases "w = v")
      case True
      show ?thesis
      proof (cases "hb_revoked (sv_hub s) w")
        case None
        then have "(w, f) \<in> set (hb_sent (sv_hub ?s))" using ev ws Cons.prems(2) True by (simp add: service_step_def relay_send_def)
        with sent_grows_run [OF ok] show ?thesis by (intro later disjI1) blast
      next
        case (Some r)
        then show ?thesis by (intro disjI2 exI [of _ 0]) simp
      qed
    next
      case False
      with Cons.prems(3) ws have "w \<in> set ws'" by simp
      with Cons.IH [OF ok step] Cons.prems(4,5) ev ws show ?thesis by (intro later) simp
    qed
  qed
qed

text \<open>C26: What the worker publishes reaches the room: when the relay takes a status or output event of an
  execution from Redis, every socket then in the room of the execution's session is sent its frame,
  unless its access is revoked first or a send fails; whatever the users, the worker and the
  other requests do while the relay works through the room.\<close>
theorem published_events_reach_the_room:
  assumes "s = run (service_step S) (new_service (new_hub db (new_manager redis database)) x0) evs0"
    and "sv_relay s = Relay_waiting" "sv_inbox s = (event_channel x, event_text ev) # inbox"
    and "ev = status_event x \<and> row_printable x \<or> (\<exists>name data. ev = output_event x name data \<and> list_all scalar data)"
    and "0 < json_depth (he_json (se_hub S))" "encode_execution_event ev = Inr f"
    and "w \<in> set (room_sockets (sv_hub s) (x_session_id x))"
    and "Relay_send False \<notin> set evs" "length (room_sockets (sv_hub s) (x_session_id x)) \<le> sends evs"
  shows "(w, f) \<in> set (hb_sent (sv_hub (run (service_step S) s (Relay_get # evs)))) \<or>
    (\<exists>n\<le>length evs. hb_revoked (sv_hub (run (service_step S) s (Relay_get # take n evs))) w \<noteq> None)"
proof -
  have ok: "service_ok s" unfolding assms(1) by (rule service.run_inv [OF service_ok_new])
  have "validate_execution_event (he_json (se_hub S)) (Str (event_channel x)) (Str (event_text ev))
      = Inr (Some (str_of_uuid (x_session_id x), ev))"
    by (rule worker_event_arrives [OF assms(5,4)]) simp_all
  then have "sv_relay (service_step S s Relay_get)
      = Relay_sending (str_of_uuid (x_session_id x)) (room_sockets (sv_hub s) (x_session_id x)) f"
    using assms(2,3,6) by (simp add: service_step_def relay_get_def broadcast_execution_event_def sockets_of_def uuid_text_roundtrip)
  from delivery [OF service_step_ok [OF ok] this assms(7-9)] show ?thesis by simp
qed

section \<open>A run of the service\<close>

lemma quote_length: "length (quote s) \<le> 12 * length s + 2"
proof -
  have "length (escape_char c) \<le> 12" for c by (simp add: escape_char_def Let_def u_escape_def)
  then have "length (concat (map escape_char s)) \<le> 12 * length s" by (induction s) (auto intro: add_mono)
  then show ?thesis by (simp add: quote_def)
qed

lemma uuid_length: "length (str_of_uuid u) \<le> 40"
  by (simp add: str_of_uuid_def Let_def pyslice_def)

abbreviation starting_event :: "(pystr, json) dict" where
  "starting_event \<equiv> status_event (sample_job STARTING)"

lemma starting_frame: "row_printable (sample_job STARTING)" "\<exists>f. encode_execution_event starting_event = Inr f"
proof -
  show p: "row_printable (sample_job STARTING)" by (simp add: row_printable_def sample_job_def)
  let ?s = "json_dumps (py '','') (py '':'') True (JObj starting_event)"
  have a: "ascii ?s" by (rule dumps_ascii [OF status_event_fits [OF p]]) (simp_all add: py_def)
  have q: "length (quote (str_of_uuid u)) \<le> 500" for u
    using quote_length [of "str_of_uuid u"] uuid_length [of u] by linarith
  have "length ?s \<le> 3000"
    using q [of 7] q [of 9] by (simp add: status_event_def sample_job_def opt_str_def opt_int_def dumps_obj quote_def escape_char_def py_def)
  then have "int (length ?s) \<le> MAX_SAFE_INTEGER" by (simp add: MAX_SAFE_INTEGER_def)
  from encode_ascii_string [OF a this] obtain n where "encode_var_string ?s = Inr (n @ map of_nat ?s)" .
  then show "\<exists>f. encode_execution_event starting_event = Inr f"
    by (simp add: encode_execution_event_def encode_var_uint_def message_types MAX_SAFE_INTEGER_def)
qed

lemma team_room: "room_sockets (team_at role p stamped locked roster k sent) 7 = [2]"
  "hb_revoked (team_at role p stamped locked roster k sent) = Map.empty"
  by (simp add: room_sockets_def room_list_def) (simp add: team_at_def new_hub_def)

definition sample_service_env :: "sample_doc service_env" where
  "sample_service_env = \<lparr>se_hub = sample_hub_env, se_worker = sample_worker\<rparr>"

lemma sample_service_sel [simp]: "se_hub sample_service_env = sample_hub_env" "se_worker sample_service_env = sample_worker"
  by (simp_all add: sample_service_env_def)

text \<open>User 2 joins session 7, the relay subscribes, and the worker publishes that it started a job of that session.\<close>
abbreviation service_events :: "service_event list" where
  "service_events \<equiv> map Hub_event (connect @ [go 2, go 2]) @ [Relay_subscribe, Exec_event (Worker calm)]"

lemma hub_run:
  "list_all (\<lambda>ev. \<not> (\<exists>w t r. ev = Ws_open w t r)) evs \<Longrightarrow>
   run (service_step S) s (map Hub_event evs) = s\<lparr>sv_hub := run (hub_step (se_hub S)) (sv_hub s) evs\<rparr>"
proof (induction evs arbitrary: s)
  case (Cons ev evs)
  moreover from Cons.prems have "service_step S s (Hub_event ev) = s\<lparr>sv_hub := hub_step (se_hub S) (sv_hub s) ev\<rparr>"
    by (cases ev) (auto simp: service_step_def)
  ultimately show ?case by simp
qed simp

abbreviation service_at :: "bytes \<Rightarrow> (pystr \<times> pystr) list \<Rightarrow> relay_phase \<Rightarrow> sample_doc service" where
  "service_at g inbox p \<equiv> \<lparr>sv_hub = team_at editor Receiving True False roster 3 [(2, [0, 0, 0]), (2, g)],
     sv_exec = exec_step sample_worker claimed_world (Worker calm), sv_inbox = inbox, sv_relay = p, sv_opened = {2}\<rparr>"

lemma service_started:
  obtains g where "run (service_step sample_service_env) (new_service team_hub claimed_world) service_events =
     service_at g [(event_channel (sample_job STARTING), event_text starting_event)] Relay_waiting"
proof -
  obtain g where g: "run (hub_step sample_hub_env) team_hub (connect @ [go 2, go 2])
     = team_at editor Receiving True False roster 3 [(2, [0, 0, 0]), (2, g)]" by (rule connected)
  obtain rest where c: "connect @ [go 2, go 2] = Ws_open 2 (Some (str_of_uuid 2)) (Some (str_of_uuid 7)) # rest"
    and rest: "list_all (\<lambda>ev. \<not> (\<exists>w t r. ev = Ws_open w t r)) rest" by simp
  have published: "drop (length (published claimed_world)) (published (exec_step sample_worker claimed_world (Worker calm)))
      = [(event_channel (sample_job STARTING), event_text starting_event)]"
    by (simp add: published_def exec_step_def w_step_def sample_world_def new_world_def calm_def publish_status_def publish_def empty_redis_def)
  show ?thesis
    by (rule that [of g])
      (use g rest published in \<open>simp add: c run_append hub_run service_step_def new_service_def subscribed_def Let_def\<close>)
qed

theorem published_events_reach_the_room_witness:
  "\<exists>f. encode_execution_event starting_event = Inr f \<and>
     (2, f) \<in> set (hb_sent (sv_hub (run (service_step sample_service_env)
       (run (service_step sample_service_env) (new_service team_hub claimed_world) service_events) [Relay_get, Relay_send True])))"
proof -
  obtain f where f: "encode_execution_event starting_event = Inr f" using starting_frame(2) ..
  obtain g where g: "run (service_step sample_service_env) (new_service team_hub claimed_world) service_events =
     service_at g [(event_channel (sample_job STARTING), event_text starting_event)] Relay_waiting"
    by (rule service_started)
  define s where "s = run (service_step sample_service_env) (new_service team_hub claimed_world) service_events"
  have relay: "sv_relay s = Relay_waiting" "sv_inbox s = [(event_channel (sample_job STARTING), event_text starting_event)]"
    "room_sockets (sv_hub s) 7 = [2]" "hb_revoked (sv_hub s) = Map.empty"
    unfolding s_def g using team_room by simp_all
  have keep: "hb_revoked (sv_hub (run (service_step sample_service_env) s (Relay_get # take n [Relay_send True]))) = Map.empty" for n
    using relay(4) by (cases n) (simp_all add: service_step_def)
  from published_events_reach_the_room [OF s_def relay(1,2) disjI1 [OF conjI [OF refl starting_frame(1)]] _ f, of 2 "[Relay_send True]"]
  have "(2, f) \<in> set (hb_sent (sv_hub (run (service_step sample_service_env) s [Relay_get, Relay_send True])))"
    unfolding keep by (simp add: relay(3) sample_env_def)
  with f show ?thesis unfolding s_def by blast
qed

theorem execution_events_stay_in_session_witness:
  "\<exists>f event. encode_execution_event event = Inr f \<and> dget event (py ''session_id'') = Some (JStr (str_of_uuid 7)) \<and>
     active_in team_db 7 \<and> role_of team_db 7 2 = Some editor"
proof -
  obtain f where f: "encode_execution_event starting_event = Inr f" using starting_frame(2) ..
  obtain g where g: "run (service_step sample_service_env) (new_service team_hub claimed_world) service_events =
     service_at g [(event_channel (sample_job STARTING), event_text starting_event)] Relay_waiting"
    by (rule service_started)
  let ?s = "run (service_step sample_service_env) (new_service team_hub claimed_world) (service_events @ [Relay_get])"
  have "validate_execution_event sample_env (Str (event_channel (sample_job STARTING))) (Str (event_text starting_event))
      = Inr (Some (str_of_uuid 7, starting_event))"
    using worker_event_arrives [of sample_env starting_event "sample_job STARTING"] starting_frame(1) by (simp add: sample_env_def)
  then have s: "?s = service_at g [] (Relay_sending (str_of_uuid 7) [2] f)"
    unfolding run_append [of _ _ service_events "[Relay_get]"] g using f
    by (simp add: team_room service_step_def relay_get_def broadcast_execution_event_def sockets_of_def uuid_text_roundtrip)
  have "hb_sent (sv_hub (service_step sample_service_env ?s (Relay_send True))) = hb_sent (sv_hub ?s) @ [(2, f)]"
    unfolding s by (simp add: service_step_def relay_send_def team_at_def new_hub_def send_bytes_def)
  from execution_events_stay_in_session [OF refl this, of "guest editor Receiving"] show ?thesis
    unfolding s by (auto simp: gap_def team_requests)
qed

end
