(* ===== verification/Settling.thy ===== *)
theory Settling
  imports Collaboration
begin

text \<open>When everything of a session is in storage. A document is settled when Redis and the database hold all
  of its content and no suspended write holds less; that stays so while nobody edits, whatever loads,
  checkpoints, saves and evictions still run. A checkpoint that waits for the session's lock comes
  to its turn in the order of the calls, and leaves a settled document unless it fails.\<close>

section \<open>Documents that are stored\<close>

text \<open>What a suspended write is about to store.\<close>
fun captures :: "('d \<Rightarrow> 'o set) \<Rightarrow> (bytes \<Rightarrow> 'o set) \<Rightarrow> 'd task option \<Rightarrow> 'd \<Rightarrow> bool" where
  "captures content items (Some (Await_redis_set state g removing)) d \<longleftrightarrow> content d \<subseteq> items state"
| "captures content items (Some (Await_db_write state sv h ts)) d \<longleftrightarrow> content d \<subseteq> items state"
| "captures content items _ d \<longleftrightarrow> True"

definition settled_doc :: "('d \<Rightarrow> 'o set) \<Rightarrow> (bytes \<Rightarrow> 'o set) \<Rightarrow> 'd task option \<Rightarrow> 'd manager \<Rightarrow> session_id \<Rightarrow> bool" where
  "settled_doc content items t m sid \<longleftrightarrow>
     (\<forall>d. dm_docs m sid = Some d \<longrightarrow> content d \<subseteq> stored items m sid \<and> captures content items t d)"

definition task_of :: "'d progress \<Rightarrow> 'd task option" where
  "task_of p = (case p of Suspend t \<Rightarrow> Some t | Done _ \<Rightarrow> None)"

abbreviation settled_at :: "('d \<Rightarrow> 'o set) \<Rightarrow> (bytes \<Rightarrow> 'o set) \<Rightarrow> 'd manager \<Rightarrow> session_id \<Rightarrow> bool" where
  "settled_at content items m sid \<equiv> settled_doc content items (dm_tasks m sid) m sid"

lemma settled_doc_cong:
  assumes "dm_docs m' sid = dm_docs m sid" "dm_redis m' sid = dm_redis m sid" "dm_db m' sid = dm_db m sid"
  shows "settled_doc content items t m' sid = settled_doc content items t m sid"
  using assms by (simp add: settled_doc_def stored_def db_state_def)

lemma settled_same: "same_at sid m m' \<Longrightarrow> settled_at content items m' sid = settled_at content items m sid"
  using settled_doc_cong [of m' sid m content items] by (simp add: same_at_def)

lemma settled_recoverable: "settled_at content items m sid \<Longrightarrow>
  recoverable content items (new_manager (dm_redis m) (dm_db m)) sid = recoverable content items m sid"
  by (auto simp: settled_doc_def recoverable_def new_manager_def stored_def db_state_def split: option.split)

lemma settle_frames:
  "dm_docs (fst (settle sid mp)) = dm_docs (fst mp)" "dm_redis (fst (settle sid mp)) = dm_redis (fst mp)"
  "dm_db (fst (settle sid mp)) = dm_db (fst mp)" "dm_tasks (fst (settle sid mp)) sid = task_of (snd mp)"
  "dm_waiting (fst (settle sid mp)) = dm_waiting (fst mp)"
  by (cases mp; cases "snd mp"; simp add: settle_def task_of_def leave_guard_def Let_def)+

lemma settle_reply: "snd (settle sid mp) = (case snd mp of Suspend _ \<Rightarrow> None | Done r \<Rightarrow> Some r)"
  by (cases mp) (simp add: settle_def split: progress.split)

lemma settled_settle: "settled_at content items (fst (settle sid mp)) sid = settled_doc content items (task_of (snd mp)) (fst mp) sid"
  using settled_doc_cong [OF fun_cong [OF settle_frames(1)] fun_cong [OF settle_frames(2)] fun_cong [OF settle_frames(3)]]
  by (simp add: settle_frames(4))

lemma settled_begin:
  assumes laws: "crdt_laws C content items" and "settled_doc content items t m sid"
  shows "settled_doc content items (task_of (snd (begin_request C now m sid req))) (fst (begin_request C now m sid req)) sid"
  using assms(2) crdt_lawsD(3) [OF laws]
  by (cases req) (auto simp: settled_doc_def load_begin_def checkpoint_begin_def persist_begin_def task_of_def Let_def stored_def db_state_def
      split: option.splits)

text \<open>A request in the queue whose write is about to store everything there is.\<close>
lemma settled_resume:
  assumes laws: "crdt_laws C content items" and ok: "guard_ok (Some t) 1 m sid"
    and dur: "doc_durable C content items m sid" "task_durable C content items (Some t) m sid"
    and safe: "\<And>d sv h ts k b. t = Await_redis_get d sv h ts k \<Longrightarrow> outcome \<noteq> Io_failed b"
    and settled: "settled_doc content items (Some t) m sid"
  shows "settled_doc content items (task_of (snd (resume_task C now m sid t outcome))) (fst (resume_task C now m sid t outcome)) sid"
proof (cases t)
  case (Await_db_read k)
  with ok have "dm_docs m sid = None" by (simp add: guard_ok_def)
  with Await_db_read show ?thesis
    by (cases outcome) (auto simp: settled_doc_def resume_db_read_def end_loading_def Let_def)
next
  case (Await_redis_get d sv h ts k)
  with ok have none: "dm_docs m sid = None" by (simp add: guard_ok_def)
  have d: "content d = opt_items items (db_state m sid)" and w: "written C (dm_redis m sid)"
    using dur Await_redis_get by (simp_all add: doc_durable_def)
  obtain d' b where l: "apply_logged C d (dm_redis m sid) = (d', b)" by fastforce
  with apply_logged_written [OF laws w, of d] d have "content d' \<subseteq> stored items m sid" by (auto simp: stored_def)
  with none safe [OF Await_redis_get] Await_redis_get l crdt_lawsD(3) [OF laws] show ?thesis
    by (cases outcome; cases k)
      (auto simp: settled_doc_def resume_redis_get_def end_loading_def persist_begin_def task_of_def Let_def)
next
  case (Await_redis_set u g removing)
  with settled show ?thesis
    by (cases outcome) (auto simp: settled_doc_def resume_redis_set_def write_redis_def task_of_def stored_def db_state_def Let_def
        split: option.splits)
next
  case (Await_db_write u sv h ts)
  with settled show ?thesis
    by (cases outcome) (auto simp: settled_doc_def resume_db_write_def write_db_def task_of_def stored_def db_state_def Let_def
        split: option.splits)
qed

text \<open>Steps nobody's edit is part of.\<close>
definition quiet_event :: "event \<Rightarrow> bool" where
  "quiet_event ev \<longleftrightarrow> user_event (\<lambda>_. False) ev \<or> storage_event ev"

lemma quiet_sync:
  assumes "safe_event m (Sync_state_vector sid)"
  shows "fst (get_state_vector C m sid) = m" "fst (encode_state_as_update C m sid sv) = m"
  using assms by (auto simp: get_state_vector_def encode_state_as_update_def get_or_create_def split: option.split)

lemma enter_frames: "dm_docs (enter_guard m sid) = dm_docs m" "dm_redis (enter_guard m sid) = dm_redis m"
  "dm_db (enter_guard m sid) = dm_db m" "dm_tasks (enter_guard m sid) = dm_tasks m" "dm_waiting (enter_guard m sid) = dm_waiting m"
  "dm_metadata (enter_guard m sid) = dm_metadata m"
  by (simp_all add: enter_guard_def)

lemma settled_enter: "settled_doc content items t (enter_guard m sid) s = settled_doc content items t m s"
  by (rule settled_doc_cong) (simp_all add: enter_frames)

lemma settled_step:
  assumes laws: "crdt_laws C content items" and dur: "session_durable C content items m sid"
    and ev: "quiet_event ev" "safe_event m ev" and settled: "settled_at content items m sid"
  shows "settled_at content items (dm_step C m ev) sid"
proof (cases "ev_session ev = sid")
  case False
  then have "same_at sid m (dm_step C m ev)" by (intro same_at_event) simp
  with settled show ?thesis by (simp add: settled_same)
next
  case sid: True
  show ?thesis
  proof (cases ev)
    case (Call s req now)
    note fresh = settled_begin [OF laws, of None "enter_guard m sid" sid now req]
    show ?thesis
    proof (cases "dm_tasks m sid = None \<and> dm_waiting m sid = []")
      case True
      with Call sid fresh settled show ?thesis by (simp add: dm_step_def Let_def enter_frames settled_settle settled_enter)
    next
      case False
      have "settled_doc content items (dm_tasks m sid) (enter_guard m sid\<lparr>dm_waiting := x\<rparr>) sid" for x
        using settled settled_doc_cong [of "enter_guard m sid\<lparr>dm_waiting := x\<rparr>" sid m content items] by (simp add: enter_frames)
      with False Call sid show ?thesis by (auto simp: dm_step_def Let_def enter_frames)
    qed
  next
    case (Wake s now)
    have "settled_doc content items (dm_tasks m sid) (m\<lparr>dm_waiting := x\<rparr>) sid" for x
      using settled settled_doc_cong [of "m\<lparr>dm_waiting := x\<rparr>" sid m content items] by simp
    from settled_begin [OF laws this] Wake sid settled show ?thesis
      by (auto simp: dm_step_def settled_settle split: option.split list.split)
  next
    case (Resume s outcome now)
    show ?thesis
    proof (cases "dm_tasks m sid")
      case (Some t)
      have "settled_doc content items (task_of (snd (resume_task C now m sid t outcome))) (fst (resume_task C now m sid t outcome)) sid"
        by (rule settled_resume [OF laws])
          (use dur settled ev(2) Some Resume sid in \<open>auto simp: session_durable_def guards_ok_def\<close>)
      with Some Resume sid show ?thesis by (simp add: dm_step_def settled_settle)
    qed (use Resume sid settled in \<open>simp add: dm_step_def\<close>)
  qed (use sid settled ev quiet_sync [of m sid C] in \<open>auto simp: quiet_event_def dm_step_def\<close>)
qed

section \<open>A checkpoint that waits for its turn\<close>

text \<open>The operations of a session ahead of one that is called now, itself included: the lock is handed on in
  the order of the calls, and an operation that ends takes a turn.\<close>
definition turns_left :: "'d manager \<Rightarrow> session_id \<Rightarrow> nat" where
  "turns_left m sid = length (dm_waiting m sid) + (if dm_tasks m sid = None then 0 else 1)"

definition turn :: "'d crdt \<Rightarrow> 'd manager \<Rightarrow> event \<Rightarrow> session_id \<Rightarrow> reply option" where
  "turn C m ev sid =
     (case ev of
        Wake s _ \<Rightarrow> if s = sid then snd (dm_event C m ev) else None
      | Resume s _ _ \<Rightarrow> if s = sid then snd (dm_event C m ev) else None
      | _ \<Rightarrow> None)"

definition waits_at :: "'d manager \<Rightarrow> session_id \<Rightarrow> nat \<Rightarrow> bool" where
  "waits_at m sid i \<longleftrightarrow> i < length (dm_waiting m sid) \<and> dm_waiting m sid ! i = Checkpoint"

text \<open>The operation that takes the \<open>k\<close>-th turn from now is a checkpoint, and stores everything.\<close>
definition in_line :: "('d \<Rightarrow> 'o set) \<Rightarrow> (bytes \<Rightarrow> 'o set) \<Rightarrow> 'd manager \<Rightarrow> session_id \<Rightarrow> nat \<Rightarrow> bool" where
  "in_line content items m sid k \<longleftrightarrow>
     (case dm_tasks m sid of
        None \<Rightarrow> \<exists>i. k = Suc i \<and> waits_at m sid i
      | Some t \<Rightarrow>
          k = 1 \<and> (\<exists>state g. t = Await_redis_set state g None) \<and> (\<forall>d. dm_docs m sid = Some d \<longrightarrow> captures content items (Some t) d) \<or>
          (\<exists>i. k = Suc (Suc i) \<and> waits_at m sid i))"

definition failed :: "reply \<Rightarrow> bool" where
  "failed r \<longleftrightarrow> (\<exists>e. r = Failed e)"

lemma in_line_cong:
  assumes "dm_docs m' sid = dm_docs m sid" "dm_tasks m' sid = dm_tasks m sid" "dm_waiting m' sid = dm_waiting m sid"
  shows "in_line content items m' sid k = in_line content items m sid k"
  unfolding in_line_def waits_at_def assms ..

lemma in_line_same: "same_at sid m m' \<Longrightarrow> in_line content items m' sid k = in_line content items m sid k"
  by (rule in_line_cong) (simp_all add: same_at_def)

lemma in_line_append:
  assumes "in_line content items m sid k"
    and "dm_docs m' sid = dm_docs m sid" "dm_tasks m' sid = dm_tasks m sid" "dm_waiting m' sid = dm_waiting m sid @ reqs"
  shows "in_line content items m' sid k"
  using assms by (auto simp: in_line_def waits_at_def nth_append split: option.splits)

text \<open>What the step did to the place in the line.\<close>
definition moved_up :: "('d \<Rightarrow> 'o set) \<Rightarrow> (bytes \<Rightarrow> 'o set) \<Rightarrow> 'd manager \<Rightarrow> session_id \<Rightarrow> nat \<Rightarrow> reply option \<Rightarrow> bool" where
  "moved_up content items m sid k r \<longleftrightarrow>
     (case r of
        None \<Rightarrow> in_line content items m sid k
      | Some r \<Rightarrow> if k = 1 then failed r \<or> settled_at content items m sid else in_line content items m sid (k - 1))"

lemma in_line_wake:
  assumes laws: "crdt_laws C content items" and meta: "dm_docs m sid = None \<longleftrightarrow> dm_metadata m sid = None"
    and line: "in_line content items m sid k" and t: "dm_tasks m sid = None" and w: "dm_waiting m sid = req # reqs"
    and mp: "mp = begin_request C now (m\<lparr>dm_waiting := (dm_waiting m)(sid := reqs)\<rparr>) sid req"
  shows "moved_up content items (fst (settle sid mp)) sid k (snd (settle sid mp))"
proof -
  let ?m = "m\<lparr>dm_waiting := (dm_waiting m)(sid := reqs)\<rparr>"
  have reqs: "dm_waiting (fst (settle sid mp)) sid = reqs"
    unfolding mp settle_frames by (cases req) (auto simp: load_begin_def checkpoint_begin_def persist_begin_def Let_def split: option.split)
  obtain i where k: "k = Suc i" "waits_at m sid i" using line t by (auto simp: in_line_def)
  show ?thesis
  proof (cases i)
    case 0
    then have "req = Checkpoint" using k w by (simp add: waits_at_def)
    with meta k 0 t crdt_lawsD(3) [OF laws] show ?thesis
      by (cases "dm_docs m sid"; cases "dm_metadata m sid")
        (auto simp: mp checkpoint_begin_def moved_up_def in_line_def settled_doc_def settle_frames settle_reply task_of_def)
  next
    case (Suc j)
    then have "waits_at (fst (settle sid mp)) sid j" using k w reqs by (simp add: waits_at_def)
    then show ?thesis using k Suc
      by (cases "snd mp") (auto simp: moved_up_def in_line_def settle_frames settle_reply task_of_def)
  qed
qed

lemma in_line_resume:
  assumes line: "in_line content items m sid k" and t: "dm_tasks m sid = Some t"
    and mp: "mp = resume_task C now m sid t outcome"
  shows "moved_up content items (fst (settle sid mp)) sid k (snd (settle sid mp))"
proof -
  have w: "dm_waiting (fst (settle sid mp)) = dm_waiting m"
    unfolding mp settle_frames
    by (cases t; cases outcome)
      (auto simp: resume_db_read_def resume_redis_get_def resume_redis_set_def resume_db_write_def write_redis_def write_db_def
        end_loading_def persist_begin_def Let_def split: option.splits prod.splits after_load.splits)
  from line t consider
    (now) state g where "k = 1" "t = Await_redis_set state g None" "\<forall>d. dm_docs m sid = Some d \<longrightarrow> content d \<subseteq> items state"
    | (later) i where "k = Suc (Suc i)" "waits_at m sid i"
    by (auto simp: in_line_def)
  then show ?thesis
  proof cases
    case now
    then show ?thesis
      unfolding mp moved_up_def settled_settle settle_reply
      by (cases outcome) (auto simp: task_of_def failed_def resume_redis_set_def write_redis_def
          settled_doc_def stored_def db_state_def Let_def split: option.splits)
  next
    case later
    then have "waits_at (fst (settle sid mp)) sid i" using w by (simp add: waits_at_def)
    with later show ?thesis
      by (cases "snd mp") (auto simp: moved_up_def in_line_def settle_frames settle_reply task_of_def)
  qed
qed

lemma in_line_step:
  assumes laws: "crdt_laws C content items" and ok: "guards_ok m sid"
    and ev: "quiet_event ev" "safe_event m ev" and line: "in_line content items m sid k"
  shows "moved_up content items (dm_step C m ev) sid k (turn C m ev sid)"
proof (cases "ev_session ev = sid")
  case False
  then have "same_at sid m (dm_step C m ev)" by (intro same_at_event) simp
  then have "in_line content items (dm_step C m ev) sid k" using line by (simp add: in_line_same)
  moreover have "turn C m ev sid = None" using False by (cases ev) (simp_all add: turn_def)
  ultimately show ?thesis by (simp add: moved_up_def)
next
  case sid: True
  have meta: "dm_docs m sid = None \<longleftrightarrow> dm_metadata m sid = None" using ok by (simp add: guards_ok_def guard_ok_def)
  show ?thesis
  proof (cases ev)
    case (Call s req now)
    have busy: "\<not> (dm_tasks m sid = None \<and> dm_waiting m sid = [])" using line by (auto simp: in_line_def waits_at_def)
    have "in_line content items (enter_guard m sid\<lparr>dm_waiting := (dm_waiting m)(sid := dm_waiting m sid @ [req])\<rparr>) sid k"
      by (rule in_line_append [OF line]) (simp_all add: enter_frames)
    with busy Call sid show ?thesis
      by (auto simp: dm_step_def Let_def enter_frames moved_up_def turn_def)
  next
    case (Wake s now)
    show ?thesis
    proof (cases "dm_tasks m sid = None \<and> dm_waiting m sid \<noteq> []")
      case True
      then obtain req reqs where w: "dm_waiting m sid = req # reqs" by (cases "dm_waiting m sid") auto
      from in_line_wake [OF laws meta line _ w refl] True Wake sid w show ?thesis by (simp add: dm_step_def turn_def)
    next
      case False
      with Wake sid line show ?thesis
        by (auto simp: dm_step_def turn_def moved_up_def split: option.split list.split)
    qed
  next
    case (Resume s outcome now)
    show ?thesis
    proof (cases "dm_tasks m sid")
      case (Some t)
      from in_line_resume [OF line this refl] Some Resume sid show ?thesis by (simp add: dm_step_def turn_def)
    qed (use Resume sid line in \<open>simp add: dm_step_def turn_def moved_up_def\<close>)
  qed (use sid line ev quiet_sync [of m sid C] in \<open>auto simp: quiet_event_def dm_step_def turn_def moved_up_def\<close>)
qed

text \<open>A call joins the line, or is answered at once.\<close>
lemma call_joins:
  assumes laws: "crdt_laws C content items" and ok: "guards_ok m sid" and e: "dm_event C m (Call sid Checkpoint now) = (m', r)"
  shows "case r of None \<Rightarrow> in_line content items m' sid (turns_left m' sid) | Some r \<Rightarrow> settled_at content items m' sid \<and> \<not> failed r"
proof -
  have meta: "dm_docs m sid = None \<longleftrightarrow> dm_metadata m sid = None" using ok by (simp add: guards_ok_def guard_ok_def)
  show ?thesis
  proof (cases "dm_tasks m sid = None \<and> dm_waiting m sid = []")
    case True
    let ?mp = "begin_request C now (enter_guard m sid) sid Checkpoint"
    have m': "m' = fst (settle sid ?mp)" "r = snd (settle sid ?mp)" using e True by (auto simp: enter_frames Let_def prod_eq_iff)
    from True meta crdt_lawsD(3) [OF laws] show ?thesis unfolding m'
      by (cases "dm_docs m sid"; cases "dm_metadata m sid")
        (auto simp: checkpoint_begin_def settle_reply settle_frames settled_settle task_of_def enter_frames in_line_def turns_left_def
          settled_doc_def failed_def)
  next
    case False
    then have m': "m' = enter_guard m sid\<lparr>dm_waiting := (dm_waiting m)(sid := dm_waiting m sid @ [Checkpoint])\<rparr>" "r = None"
      using e by (auto simp: enter_frames Let_def)
    with False show ?thesis by (auto simp: in_line_def waits_at_def turns_left_def enter_frames nth_append split: option.split)
  qed
qed

text \<open>When storage works, a checkpoint does not fail.\<close>
lemma turn_succeeds:
  assumes ok: "guards_ok m sid" and line: "in_line content items m sid 1" and r: "turn C m ev sid = Some r"
    and works: "\<And>s outcome now. ev = Resume s outcome now \<Longrightarrow> outcome = Io_ok"
  shows "\<not> failed r"
proof (cases "dm_tasks m sid")
  case None
  then have w: "dm_waiting m sid \<noteq> []" "hd (dm_waiting m sid) = Checkpoint"
    using line by (auto simp: in_line_def waits_at_def hd_conv_nth)
  with r None obtain now where "ev = Wake sid now" by (cases ev) (auto simp: turn_def split: if_splits)
  with r None w show ?thesis
    by (cases "dm_waiting m sid") (auto simp: turn_def settle_reply checkpoint_begin_def failed_def split: option.splits progress.splits)
next
  case (Some t)
  then obtain state g where t: "t = Await_redis_set state g None" using line by (auto simp: in_line_def)
  with r Some obtain outcome now where ev: "ev = Resume sid outcome now" by (cases ev) (auto simp: turn_def split: if_splits)
  have "dm_metadata m sid \<noteq> None" using ok Some t by (auto simp: guards_ok_def guard_ok_def)
  with r ev works [OF ev] Some t show ?thesis
    by (auto simp: turn_def settle_reply resume_redis_set_def write_redis_def failed_def Let_def)
qed

end
