(* ===== verification/Lifespan.thy ===== *)
theory Lifespan
  imports Relay Settling
begin

text \<open>The application's own tasks (\<open>app/main.py\<close>): \<open>_periodic_crdt_flush\<close>, which asks the hub to maintain
  every listed document, and \<open>lifespan\<close>, which stops the flush and the relay, writes a last checkpoint of
  every active document and closes the Redis connections. Their steps interleave with those of the
  service of theory Relay. \<open>life_ok\<close> is the invariant of the shutdown: what is not on the list any more is
  settled, and the checkpoint that is waited for has its place in the line of the session's lock. A
  cancellation of the lifespan is modelled inside its own storage operation.\<close>

declare hub_step.simps [simp del]

section \<open>The periodic flush\<close>

text \<open>Where \<open>_periodic_crdt_flush\<close> is: waiting for the stop event or the interval, at the head of its loop over the
  listed sessions, in \<open>maintain_document_checkpoint\<close> (a request of the hub, then a checkpoint that has
  so many turns to wait), or returned.\<close>
datatype flush_phase =
    Flush_waiting
  | Flush_next "session_id list"
  | Flush_maintaining nat session_id "session_id list"
  | Flush_checkpointing nat session_id "session_id list"
  | Flush_over

text \<open>Where \<open>lifespan\<close> is: at its \<open>yield\<close>, in \<open>gather\<close>, at the head of the loop over the active sessions, in
  \<open>checkpoint_to_redis\<close> with so many turns to wait, in one of the two \<open>close\<close> calls, or over.\<close>
datatype life_phase =
    Serving
  | Draining
  | Saving_next "session_id list"
  | Saving nat session_id "session_id list"
  | Closing_docs
  | Closing_queue
  | Shut_down

text \<open>\<open>ap_missed\<close> are the sessions whose last checkpoint was not made: it raised, or the loop was left before it.\<close>
record 'd app =
  ap_service :: "'d service"
  ap_stop :: bool
  ap_relay_returned :: bool
  ap_flush :: flush_phase
  ap_life :: life_phase
  ap_raised :: bool
  ap_missed :: "session_id set"
  ap_docs_closed :: bool
  ap_queue_closed :: bool

definition new_app :: "'d service \<Rightarrow> 'd app" where
  "new_app s = \<lparr>ap_service = s, ap_stop = False, ap_relay_returned = False, ap_flush = Flush_waiting, ap_life = Serving,
     ap_raised = False, ap_missed = {}, ap_docs_closed = False, ap_queue_closed = False\<rparr>"

datatype app_event =
    Service service_event
  | Flush_timeout "session_id list"
  | Flush_stopped
  | Flush_go nat
  | Shutdown
  | Relay_returns
  | Drained "session_id list"
  | Save_go datetime
  | Close_step bool

text \<open>The manager's documents, and the answer an operation of a session gets in a step.\<close>
abbreviation app_hub :: "'d app \<Rightarrow> 'd hub" where
  "app_hub a \<equiv> sv_hub (ap_service a)"

abbreviation app_docs :: "'d app \<Rightarrow> 'd manager" where
  "app_docs a \<equiv> hb_docs (app_hub a)"

definition answer :: "'d service_env \<Rightarrow> 'd hub \<Rightarrow> service_event \<Rightarrow> session_id \<Rightarrow> reply option" where
  "answer S h ev sid =
     (case ev of
        Hub_event (Storage dev) \<Rightarrow> if storage_event dev then turn (he_crdt (se_hub S)) (hb_docs h) dev sid else None
      | _ \<Rightarrow> None)"

text \<open>What a step of the service means to the flush task: its checkpoint comes a turn closer or is answered; its
  request leaves the hub, with a checkpoint still to come when the room has members.\<close>
definition flush_after :: "flush_phase \<Rightarrow> (session_id \<Rightarrow> reply option) \<Rightarrow> 'd hub \<Rightarrow> 'd hub \<Rightarrow> flush_phase" where
  "flush_after p reply h h' =
     (case p of
        Flush_checkpointing k sid todo \<Rightarrow>
          (case reply sid of
             None \<Rightarrow> p
           | Some _ \<Rightarrow> if k \<le> 1 then Flush_next todo else Flush_checkpointing (k - 1) sid todo)
      | Flush_maintaining i sid todo \<Rightarrow>
          if hb_requests h' i \<noteq> None then p
          else if turns_left (hb_docs h') sid \<noteq> turns_left (hb_docs h) sid
               then Flush_checkpointing (turns_left (hb_docs h') sid) sid todo
          else Flush_next todo
      | _ \<Rightarrow> p)"

definition life_after :: "(session_id \<Rightarrow> reply option) \<Rightarrow> 'd app \<Rightarrow> 'd app" where
  "life_after reply a =
     (case ap_life a of
        Saving k sid todo \<Rightarrow>
          (case reply sid of
             None \<Rightarrow> a
           | Some r \<Rightarrow>
               if k > 1 then a\<lparr>ap_life := Saving (k - 1) sid todo\<rparr>
               else (case r of
                       Failed Cancelled_task \<Rightarrow>
                         a\<lparr>ap_life := Closing_docs, ap_raised := True, ap_missed := ap_missed a \<union> insert sid (set todo)\<rparr>
                     | Failed _ \<Rightarrow> a\<lparr>ap_life := Saving_next todo, ap_missed := insert sid (ap_missed a)\<rparr>
                     | _ \<Rightarrow> a\<lparr>ap_life := Saving_next todo\<rparr>))
      | _ \<Rightarrow> a)"

definition service_app_step :: "'d service_env \<Rightarrow> 'd app \<Rightarrow> service_event \<Rightarrow> 'd app" where
  "service_app_step S a ev =
     (let s = ap_service a;
          s' = service_step S s ev;
          reply = answer S (sv_hub s) ev
      in life_after reply (a\<lparr>ap_service := s', ap_flush := flush_after (ap_flush a) reply (sv_hub s) (sv_hub s')\<rparr>))"

definition on_hub :: "'d service_env \<Rightarrow> 'd app \<Rightarrow> hub_event \<Rightarrow> 'd app" where
  "on_hub S a ev = a\<lparr>ap_service := (ap_service a)\<lparr>sv_hub := hub_step (se_hub S) (app_hub a) ev\<rparr>\<rparr>"

definition flush_step :: "'d service_env \<Rightarrow> 'd app \<Rightarrow> app_event \<Rightarrow> 'd app" where
  "flush_step S a ev =
     (case (ap_flush a, ev) of
        (Flush_waiting, Flush_timeout sessions) \<Rightarrow> if ap_stop a then a else a\<lparr>ap_flush := Flush_next sessions\<rparr>
      | (Flush_waiting, Flush_stopped) \<Rightarrow> if ap_stop a then a\<lparr>ap_flush := Flush_over\<rparr> else a
      | (Flush_next [], Flush_go _) \<Rightarrow> a\<lparr>ap_flush := (if ap_stop a then Flush_over else Flush_waiting)\<rparr>
      | (Flush_next (sid # todo), Flush_go i) \<Rightarrow>
          if hb_requests (app_hub a) i = None
          then (on_hub S a (Http_open i 0 Maintain sid))\<lparr>ap_flush := Flush_maintaining i sid todo\<rparr>
          else a
      | _ \<Rightarrow> a)"

text \<open>\<open>gather\<close> returns when both tasks have, and raises as soon as one of them does; the flush task does not.\<close>
definition gathered :: "'d app \<Rightarrow> bool option" where
  "gathered a =
     (if sv_relay (ap_service a) = Relay_ended \<and> \<not> ap_relay_returned a then Some True
      else if sv_relay (ap_service a) = Relay_ended \<and> ap_flush a = Flush_over then Some False
      else None)"

definition lifespan_step :: "'d service_env \<Rightarrow> 'd app \<Rightarrow> app_event \<Rightarrow> 'd app" where
  "lifespan_step S a ev =
     (case (ap_life a, ev) of
        (Serving, Shutdown) \<Rightarrow> a\<lparr>ap_life := Draining, ap_stop := True\<rparr>
      | (Draining, Drained sessions) \<Rightarrow>
          (case gathered a of
             None \<Rightarrow> a
           | Some raises \<Rightarrow> a\<lparr>ap_life := Saving_next sessions, ap_raised := raises\<rparr>)
      | (Saving_next [], Save_go _) \<Rightarrow> a\<lparr>ap_life := Closing_docs\<rparr>
      | (Saving_next (sid # todo), Save_go now) \<Rightarrow>
          let (docs, reply) = dm_event (he_crdt (se_hub S)) (app_docs a) (Call sid Checkpoint now);
              a = on_hub S a (Storage (Call sid Checkpoint now))
          in a\<lparr>ap_life := (case reply of None \<Rightarrow> Saving (turns_left docs sid) sid todo | Some _ \<Rightarrow> Saving_next todo)\<rparr>
      | (Closing_docs, Close_step ok) \<Rightarrow> a\<lparr>ap_life := Closing_queue, ap_docs_closed := True, ap_raised := ap_raised a \<or> \<not> ok\<rparr>
      | (Closing_queue, Close_step ok) \<Rightarrow> a\<lparr>ap_life := Shut_down, ap_queue_closed := True, ap_raised := ap_raised a \<or> \<not> ok\<rparr>
      | _ \<Rightarrow> a)"

text \<open>\<open>gather\<close> does not wait for the flush when the relay has raised: the last checkpoints may begin while one of
  the flush is under way. Only the session's lock keeps their order.\<close>
lemma gather_does_not_drain:
  assumes "ap_life a = Draining" "sv_relay (ap_service a) = Relay_ended" "\<not> ap_relay_returned a"
  shows "lifespan_step S a (Drained sessions) = a\<lparr>ap_life := Saving_next sessions, ap_raised := True\<rparr>"
  using assms by (simp add: lifespan_step_def gathered_def)

text \<open>The relay looks at the stop event between two messages and before it reconnects.\<close>
definition relay_returns :: "'d app \<Rightarrow> 'd app" where
  "relay_returns a =
     (if ap_stop a \<and> sv_relay (ap_service a) \<in> set [Relay_down, Relay_waiting]
      then a\<lparr>ap_service := (ap_service a)\<lparr>sv_relay := Relay_ended\<rparr>, ap_relay_returned := True\<rparr> else a)"

definition app_step :: "'d service_env \<Rightarrow> 'd app \<Rightarrow> app_event \<Rightarrow> 'd app" where
  "app_step S a ev =
     (case ev of
        Service sev \<Rightarrow> service_app_step S a sev
      | Flush_timeout _ \<Rightarrow> flush_step S a ev
      | Flush_stopped \<Rightarrow> flush_step S a ev
      | Flush_go _ \<Rightarrow> flush_step S a ev
      | Relay_returns \<Rightarrow> relay_returns a
      | _ \<Rightarrow> lifespan_step S a ev)"

section \<open>The hub under the application\<close>

text \<open>The hub's event in a step of the application.\<close>
definition app_hub_event :: "'d app \<Rightarrow> app_event \<Rightarrow> hub_event option" where
  "app_hub_event a ev =
     (case ev of
        Service (Hub_event e) \<Rightarrow> Some e
      | Flush_go i \<Rightarrow> (case ap_flush a of Flush_next (sid # todo) \<Rightarrow> Some (Http_open i 0 Maintain sid) | _ \<Rightarrow> None)
      | Save_go now \<Rightarrow> (case ap_life a of Saving_next (sid # todo) \<Rightarrow> Some (Storage (Call sid Checkpoint now)) | _ \<Rightarrow> None)
      | _ \<Rightarrow> None)"

text \<open>The hub changes only as in its own machine, and by the frames the relay sends.\<close>
lemma app_hub_step:
  "(\<exists>e. app_hub_event a ev = Some e \<and> app_hub (app_step S a ev) = hub_step (se_hub S) (app_hub a) e) \<or>
   app_hub (app_step S a ev) = app_hub a \<or> (\<exists>w f. app_hub (app_step S a ev) = send_bytes (app_hub a) w f)"
proof -
  have life: "ap_service (life_after reply a) = ap_service a" for reply and a :: "'a app"
    by (simp add: life_after_def split: life_phase.split option.split reply.split document_error.split)
  show ?thesis
  proof (cases ev)
    case (Service sev)
    then show ?thesis
      by (cases sev) (auto simp: app_step_def service_app_step_def app_hub_event_def life service_step_def relay_get_def relay_send_def
          Let_def split: hub_event.split relay_phase.split list.split)
  qed (auto simp: app_step_def flush_step_def lifespan_step_def relay_returns_def app_hub_event_def on_hub_def Let_def gathered_def
      split: flush_phase.split life_phase.split list.split option.split prod.split)
qed

lemma send_bytes_ok: "hub_ok (send_bytes h w f) = hub_ok h" "hb_docs (send_bytes h w f) = hb_docs h"
  by (simp_all add: send_bytes_def hub_ok_def hub_auth_def conn_ok_def request_ok_def rooms_ok_def
      stamp_ok_def right_ok_def fresh_def gap_def evictor_def room_list_def)

definition safe_app :: "'d app \<Rightarrow> app_event \<Rightarrow> bool" where
  "safe_app a ev = (case app_hub_event a ev of None \<Rightarrow> True | Some e \<Rightarrow> hub_safe (app_hub a) e)"

text \<open>No connection acts and only maintenance requests are worked on: the server closes its connections and
  waits for its requests before it ends the lifespan.\<close>
definition unattended :: "'d hub \<Rightarrow> hub_event \<Rightarrow> bool" where
  "unattended h e =
     (case e of
        Ws_continue _ _ _ \<Rightarrow> False
      | Ws_message _ _ _ \<Rightarrow> False
      | Http_continue i _ \<Rightarrow> (case hb_requests h i of None \<Rightarrow> True | Some r \<Rightarrow> hr_op r = Maintain)
      | _ \<Rightarrow> True)"

text \<open>\<open>active_sessions\<close> lists the documents in memory.\<close>
definition quiet_app :: "'d app \<Rightarrow> app_event \<Rightarrow> bool" where
  "quiet_app a ev \<longleftrightarrow> safe_app a ev \<and>
     (case app_hub_event a ev of None \<Rightarrow> True | Some e \<Rightarrow> unattended (app_hub a) e) \<and>
     (\<forall>sessions. ev = Drained sessions \<longrightarrow> (\<forall>sid. dm_docs (app_docs a) sid \<noteq> None \<longrightarrow> sid \<in> set sessions))"

fun app_run_ok :: "('d app \<Rightarrow> app_event \<Rightarrow> bool) \<Rightarrow> 'd service_env \<Rightarrow> 'd app \<Rightarrow> app_event list \<Rightarrow> bool" where
  "app_run_ok p S a [] \<longleftrightarrow> True"
| "app_run_ok p S a (ev # evs) \<longleftrightarrow> p a ev \<and> app_run_ok p S (app_step S a ev) evs"

section \<open>Steps nobody's edit is part of\<close>

lemma maintain_by:
  assumes "hr_op r = Maintain"
  shows "docs_by (he_crdt E) may (hb_docs h) (hb_docs (http_continue E now h i r))"
  using assms by (simp add: http_continue_def http_loaded_def http_lock_def http_check_def http_fetch_def http_insert_def http_saved_def
      by_settle Let_def split: http_phase.split sum.split option.split prod.split)

lemma unattended_by:
  assumes "unattended h e" "storage_of e = None"
  shows "docs_by (he_crdt E) (\<lambda>_. False) (hb_docs h) (hb_docs (hub_step E h e))"
  using assms maintain_by
  by (cases e) (auto simp: unattended_def hub_step.simps ws_error_docs ws_open_def http_open_def Let_def split: option.splits sum.split if_splits)

lemma turn_of_user: "user_event may ev \<Longrightarrow> turn C m ev sid = None"
  by (cases ev) (simp_all add: turn_def)

text \<open>A run of such events.\<close>
lemma quiet_run:
  assumes "durable C content items m" "\<forall>ev\<in>set evs. user_event (\<lambda>_. False) ev" "safe_run C m evs"
  shows "settled_at content items m sid \<Longrightarrow> settled_at content items (run (dm_step C) m evs) sid"
    "in_line content items m sid k \<Longrightarrow> in_line content items (run (dm_step C) m evs) sid k"
  using assms
proof (induction evs arbitrary: m)
  case (Cons ev evs)
  { case 1
    with Cons.IH(1) [of "dm_step C m ev"] settled_step [of C content items m sid ev] durable_evs [of C content items m "[ev]"] show ?case
      by (simp add: durable_def quiet_event_def)
  next
    case 2
    with Cons.IH(2) [of "dm_step C m ev"] in_line_step [of C content items m sid ev k] durable_evs [of C content items m "[ev]"] show ?case
      by (simp add: durable_def session_durable_def quiet_event_def turn_of_user [where may = "\<lambda>_. False"] moved_up_def)
  }
qed simp_all

definition reply_of :: "'d crdt \<Rightarrow> 'd manager \<Rightarrow> hub_event \<Rightarrow> session_id \<Rightarrow> reply option" where
  "reply_of C m e sid = (case storage_of e of None \<Rightarrow> None | Some dev \<Rightarrow> turn C m dev sid)"

lemma answer_hub: "answer S h (Hub_event e) sid = reply_of (he_crdt (se_hub S)) (hb_docs h) e sid"
  by (cases e) (simp_all add: answer_def reply_of_def)

lemma unattended_step:
  assumes "hub_durable E content items h" "unattended h e" "hub_safe h e"
  shows "hub_durable E content items (hub_step E h e)"
    and "hub_retains content items h (hub_step E h e)"
    and "settled_at content items (hb_docs h) sid \<Longrightarrow> settled_at content items (hb_docs (hub_step E h e)) sid"
    and "in_line content items (hb_docs h) sid k \<Longrightarrow>
      moved_up content items (hb_docs (hub_step E h e)) sid k (reply_of (he_crdt E) (hb_docs h) e sid)"
proof -
  have ok: "hub_ok h" and dur: "durable (he_crdt E) content items (hb_docs h)" using assms(1) by (simp_all add: hub_durable_def)
  have laws: "crdt_laws (he_crdt E) content items" "session_durable (he_crdt E) content items (hb_docs h) sid"
    "guards_ok (hb_docs h) sid" for sid using dur by (simp_all add: durable_def session_durable_def)
  from hub_safe_step_ok [OF assms(1), of e] assms(3)
  show "hub_durable E content items (hub_step E h e)" "hub_retains content items h (hub_step E h e)"
    by (simp_all add: hub_safe_step_def)
  have "(settled_at content items (hb_docs h) sid \<longrightarrow> settled_at content items (hb_docs (hub_step E h e)) sid) \<and>
    (in_line content items (hb_docs h) sid k \<longrightarrow>
      moved_up content items (hb_docs (hub_step E h e)) sid k (reply_of (he_crdt E) (hb_docs h) e sid))"
  proof (cases "storage_of e")
    case None
    obtain evs where evs: "safe_run (he_crdt E) (hb_docs h) evs" "hb_docs (hub_step E h e) = run (dm_step (he_crdt E)) (hb_docs h) evs"
      "\<forall>ev\<in>set evs. user_event (\<lambda>_. False) ev"
      using unattended_by [OF assms(2) None, of E] by (auto simp: docs_by_def)
    from quiet_run [OF dur evs(3,1), of sid] None show ?thesis
      unfolding evs(2) by (simp add: reply_of_def moved_up_def)
  next
    case (Some dev)
    then have dev: "hb_docs (hub_step E h e) = dm_step (he_crdt E) (hb_docs h) dev" "quiet_event dev" "safe_event (hb_docs h) dev"
      using storage_step [OF Some, of E h] assms(3) by (simp_all add: quiet_event_def hub_safe_def)
    from settled_step [OF laws(1,2) dev(2,3)] in_line_step [OF laws(1,3) dev(2,3), of sid k] Some show ?thesis
      unfolding dev(1) by (simp add: reply_of_def)
  qed
  then show "settled_at content items (hb_docs h) sid \<Longrightarrow> settled_at content items (hb_docs (hub_step E h e)) sid"
    and "in_line content items (hb_docs h) sid k \<Longrightarrow>
      moved_up content items (hb_docs (hub_step E h e)) sid k (reply_of (he_crdt E) (hb_docs h) e sid)" by blast+
qed

section \<open>The invariant of the shutdown\<close>

definition kept :: "('d \<Rightarrow> 'o set) \<Rightarrow> (bytes \<Rightarrow> 'o set) \<Rightarrow> 'd app \<Rightarrow> session_id set \<Rightarrow> bool" where
  "kept content items a todo \<longleftrightarrow> (\<forall>sid. sid \<notin> todo \<union> ap_missed a \<longrightarrow> settled_at content items (app_docs a) sid)"

definition life_ok :: "'d service_env \<Rightarrow> ('d \<Rightarrow> 'o set) \<Rightarrow> (bytes \<Rightarrow> 'o set) \<Rightarrow> 'd app \<Rightarrow> bool" where
  "life_ok S content items a \<longleftrightarrow> hub_durable (se_hub S) content items (app_hub a) \<and>
     (case ap_life a of
        Saving_next todo \<Rightarrow> kept content items a (set todo)
      | Saving k sid todo \<Rightarrow> kept content items a (insert sid (set todo)) \<and> in_line content items (app_docs a) sid k
      | Closing_docs \<Rightarrow> kept content items a {}
      | Closing_queue \<Rightarrow> kept content items a {} \<and> ap_docs_closed a
      | Shut_down \<Rightarrow> kept content items a {} \<and> ap_docs_closed a \<and> ap_queue_closed a
      | _ \<Rightarrow> True)"

text \<open>The same phase over documents that went on.\<close>
lemma life_ok_moved:
  assumes "life_ok S content items a" "hub_durable (se_hub S) content items (app_hub a')"
    and "\<And>sid. settled_at content items (app_docs a) sid \<Longrightarrow> settled_at content items (app_docs a') sid"
    and "\<And>k sid todo. ap_life a = Saving k sid todo \<Longrightarrow> in_line content items (app_docs a) sid k \<Longrightarrow> in_line content items (app_docs a') sid k"
    and "ap_life a' = ap_life a" "ap_missed a' = ap_missed a" "ap_docs_closed a' = ap_docs_closed a" "ap_queue_closed a' = ap_queue_closed a"
  shows "life_ok S content items a'"
  using assms by (auto simp: life_ok_def kept_def split: life_phase.splits)

lemma life_after_ok:
  assumes "life_ok S content items a" "hub_durable (se_hub S) content items (app_hub a')"
    and settled: "\<And>sid. settled_at content items (app_docs a) sid \<Longrightarrow> settled_at content items (app_docs a') sid"
    and line: "\<And>k sid. in_line content items (app_docs a) sid k \<Longrightarrow> moved_up content items (app_docs a') sid k (reply sid)"
    and "ap_life a' = ap_life a" "ap_missed a' = ap_missed a" "ap_docs_closed a' = ap_docs_closed a" "ap_queue_closed a' = ap_queue_closed a"
  shows "life_ok S content items (life_after reply a')"
proof (cases "\<exists>k sid todo r. ap_life a = Saving k sid todo \<and> reply sid = Some r")
  case False
  then have "life_after reply a' = a'" using assms(5) by (auto simp: life_after_def split: life_phase.split option.split)
  moreover have "in_line content items (app_docs a') sid k" if "ap_life a = Saving k sid todo" "in_line content items (app_docs a) sid k" for k sid todo
    using line [OF that(2)] False that(1) by (auto simp: moved_up_def split: option.splits)
  from life_ok_moved [OF assms(1,2) settled this assms(5-8)] have "life_ok S content items a'" .
  ultimately show ?thesis by simp
next
  case True
  then obtain k sid todo r where l: "ap_life a = Saving k sid todo" "reply sid = Some r" by blast
  have k: "kept content items a' (insert sid (set todo))" "in_line content items (app_docs a) sid k"
    using assms(1,6) l settled by (auto simp: life_ok_def kept_def)
  have m: "if k = 1 then failed r \<or> settled_at content items (app_docs a') sid else in_line content items (app_docs a') sid (k - 1)"
    using line [OF k(2)] l by (simp add: moved_up_def)
  have "k \<noteq> 0" using k(2) by (auto simp: in_line_def split: option.splits)
  show ?thesis
  proof (cases "k = 1")
    case True
    with m k(1) assms(2,5) l show ?thesis
      by (auto simp: life_after_def life_ok_def kept_def failed_def split: reply.split document_error.split)
  next
    case False
    with m k(1) \<open>k \<noteq> 0\<close> assms(2,5) l show ?thesis by (auto simp: life_after_def life_ok_def kept_def)
  qed
qed

lemma hub_same_docs: "hub_durable E content items h \<Longrightarrow> h' = h \<or> (\<exists>w f. h' = send_bytes h w f) \<Longrightarrow>
  hub_durable E content items h' \<and> hb_docs h' = hb_docs h"
  by (auto simp: hub_durable_def send_bytes_ok)

lemma quiet_hub: "quiet_app a ev \<Longrightarrow> app_hub_event a ev = Some e \<Longrightarrow> unattended (app_hub a) e \<and> hub_safe (app_hub a) e"
  by (simp add: quiet_app_def safe_app_def)

text \<open>The documents of an application in a quiet step.\<close>
lemma quiet_docs:
  assumes "hub_durable (se_hub S) content items (app_hub a)" "quiet_app a ev"
  shows "hub_durable (se_hub S) content items (app_hub (app_step S a ev)) \<and>
    retains content items (app_docs a) (app_docs (app_step S a ev)) \<and>
    (settled_at content items (app_docs a) sid \<longrightarrow> settled_at content items (app_docs (app_step S a ev)) sid)"
  using app_hub_step [of a ev S]
proof
  assume "\<exists>e. app_hub_event a ev = Some e \<and> app_hub (app_step S a ev) = hub_step (se_hub S) (app_hub a) e"
  then obtain e where e: "app_hub_event a ev = Some e" "app_hub (app_step S a ev) = hub_step (se_hub S) (app_hub a) e" by blast
  have "unattended (app_hub a) e" "hub_safe (app_hub a) e" using quiet_hub [OF assms(2) e(1)] by simp_all
  from unattended_step(1-3) [OF assms(1) this] show ?thesis
    unfolding e(2) by (simp add: hub_retains_def)
next
  assume "app_hub (app_step S a ev) = app_hub a \<or> (\<exists>w f. app_hub (app_step S a ev) = send_bytes (app_hub a) w f)"
  from hub_same_docs [OF assms(1) this] show ?thesis by (simp add: retains_def)
qed

lemma service_line:
  assumes "hub_durable (se_hub S) content items (app_hub a)" "quiet_app a (Service ev)"
    and "in_line content items (app_docs a) sid k"
  shows "moved_up content items (hb_docs (sv_hub (service_step S (ap_service a) ev))) sid k (answer S (app_hub a) ev sid)"
proof (cases "\<exists>e. ev = Hub_event e \<and> sv_hub (service_step S (ap_service a) ev) = hub_step (se_hub S) (app_hub a) e")
  case True
  then obtain e where e: "ev = Hub_event e" "sv_hub (service_step S (ap_service a) ev) = hub_step (se_hub S) (app_hub a) e" by blast
  then have "unattended (app_hub a) e" "hub_safe (app_hub a) e" using quiet_hub [OF assms(2), of e] by (simp_all add: app_hub_event_def)
  from unattended_step(4) [OF assms(1) this assms(3)] show ?thesis unfolding e(2) by (simp add: e(1) answer_hub)
next
  case False
  then have "hb_docs (sv_hub (service_step S (ap_service a) ev)) = app_docs a" "answer S (app_hub a) ev sid = None"
    by (cases ev; auto simp: service_step_def relay_get_def relay_send_def send_bytes_def answer_def Let_def
        split: hub_event.splits relay_phase.split list.split if_splits)+
  with assms(3) show ?thesis by (simp add: moved_up_def)
qed

lemma life_frames: "ap_service (life_after reply a) = ap_service a"
  by (simp add: life_after_def split: life_phase.split option.split reply.split document_error.split)

lemma save_go_ok:
  assumes ok: "life_ok S content items a" and l: "ap_life a = Saving_next (sid # todo)"
    and dur: "hub_durable (se_hub S) content items (app_hub (lifespan_step S a (Save_go now)))"
    and settled: "\<And>s. settled_at content items (app_docs a) s \<Longrightarrow> settled_at content items (app_docs (lifespan_step S a (Save_go now))) s"
  shows "life_ok S content items (lifespan_step S a (Save_go now))"
proof -
  let ?a = "lifespan_step S a (Save_go now)"
  obtain docs reply where r: "dm_event (he_crdt (se_hub S)) (app_docs a) (Call sid Checkpoint now) = (docs, reply)" by fastforce
  have frames: "app_docs ?a = docs" "ap_missed ?a = ap_missed a"
    "ap_life ?a = (case reply of None \<Rightarrow> Saving (turns_left docs sid) sid todo | Some _ \<Rightarrow> Saving_next todo)"
    using r l storage_step [of "Storage (Call sid Checkpoint now)" "Call sid Checkpoint now" "se_hub S" "app_hub a"]
    by (simp_all add: lifespan_step_def on_hub_def dm_step_def del: dm_event.simps)
  have "crdt_laws (he_crdt (se_hub S)) content items" "guards_ok (app_docs a) sid"
    using ok by (simp_all add: life_ok_def hub_durable_def durable_def session_durable_def)
  note joins = call_joins [OF this r]
  have kept: "settled_at content items docs s" if "s \<notin> insert sid (set todo) \<union> ap_missed a" for s
    using ok l that settled by (simp add: life_ok_def kept_def frames)
  show ?thesis
  proof (cases reply)
    case None
    with joins kept dur show ?thesis by (simp add: life_ok_def kept_def frames)
  next
    case (Some x)
    with joins kept have "settled_at content items docs s" if "s \<notin> set todo \<union> ap_missed a" for s
      using that by (cases "s = sid") auto
    with Some dur show ?thesis by (simp add: life_ok_def kept_def frames)
  qed
qed

lemma lifespan_ok:
  assumes ok: "life_ok S content items a" and ev: "\<exists>sessions now ok. ev = Shutdown \<or> ev = Drained sessions \<or> ev = Save_go now \<or> ev = Close_step ok"
    and q: "quiet_app a ev"
    and dur: "hub_durable (se_hub S) content items (app_hub (lifespan_step S a ev))"
    and settled: "\<And>s. settled_at content items (app_docs a) s \<Longrightarrow> settled_at content items (app_docs (lifespan_step S a ev)) s"
  shows "life_ok S content items (lifespan_step S a ev)"
proof -
  note unfolds = lifespan_step_def life_ok_def kept_def
  from ev consider (stop) "ev = Shutdown" | (drained) sessions where "ev = Drained sessions" | (save) now where "ev = Save_go now"
    | (closing) b where "ev = Close_step b" by blast
  then show ?thesis
  proof cases
    case (save now)
    show ?thesis
    proof (cases "\<exists>sid todo. ap_life a = Saving_next (sid # todo)")
      case True
      then obtain sid todo where "ap_life a = Saving_next (sid # todo)" by blast
      from save_go_ok [OF ok this, of now] dur settled show ?thesis unfolding save by blast
    next
      case False
      with ok save show ?thesis by (cases "ap_life a") (auto simp: unfolds split: list.split)
    qed
  next
    case (drained sessions)
    have "settled_at content items (app_docs a) sid" if "sid \<notin> set sessions" for sid
      using q drained that by (auto simp: quiet_app_def settled_doc_def)
    with ok drained show ?thesis by (cases "ap_life a") (auto simp: unfolds split: option.split list.split)
  next
    case stop
    with ok show ?thesis by (cases "ap_life a") (auto simp: unfolds split: list.split)
  next
    case (closing b)
    with ok show ?thesis by (cases "ap_life a") (auto simp: unfolds split: list.split)
  qed
qed

lemma life_ok_step:
  assumes "life_ok S content items a" "quiet_app a ev"
  shows "life_ok S content items (app_step S a ev)"
proof -
  have dur: "hub_durable (se_hub S) content items (app_hub a)" using assms(1) by (simp add: life_ok_def)
  note docs = quiet_docs [OF dur assms(2)]
  show ?thesis
  proof (cases "\<exists>sev. ev = Service sev")
    case True
    then obtain sev where ev: "ev = Service sev" by blast
    have hub: "app_hub (app_step S a ev) = sv_hub (service_step S (ap_service a) sev)"
      by (simp add: ev app_step_def service_app_step_def life_frames Let_def)
    show ?thesis
      unfolding ev app_step_def service_app_step_def Let_def app_event.case
      by (rule life_after_ok [OF assms(1)]) (use docs service_line [OF dur assms(2) [unfolded ev]] in \<open>auto simp: hub\<close>)
  next
    case False
    have line: "in_line content items (app_docs (app_step S a ev)) sid k"
      if "in_line content items (app_docs a) sid k" "\<And>now. ev \<noteq> Save_go now" for sid k
      using app_hub_step [of a ev S]
    proof
      assume "\<exists>e. app_hub_event a ev = Some e \<and> app_hub (app_step S a ev) = hub_step (se_hub S) (app_hub a) e"
      then obtain e where e: "app_hub_event a ev = Some e" "app_hub (app_step S a ev) = hub_step (se_hub S) (app_hub a) e" by blast
      then have "storage_of e = None" using False that(2)
        by (auto simp: app_hub_event_def split: app_event.splits flush_phase.splits list.splits)
      with unattended_step(4) [OF dur _ _ that(1), of e] quiet_hub [OF assms(2) e(1)] show ?thesis
        unfolding e(2) by (simp add: reply_of_def moved_up_def)
    next
      assume "app_hub (app_step S a ev) = app_hub a \<or> (\<exists>w f. app_hub (app_step S a ev) = send_bytes (app_hub a) w f)"
      from hub_same_docs [OF dur this] that(1) show ?thesis by simp
    qed
    show ?thesis
    proof (cases "\<exists>sessions now ok. ev = Shutdown \<or> ev = Drained sessions \<or> ev = Save_go now \<or> ev = Close_step ok")
      case False
      then have "ap_life (app_step S a ev) = ap_life a \<and> ap_missed (app_step S a ev) = ap_missed a \<and>
          ap_docs_closed (app_step S a ev) = ap_docs_closed a \<and> ap_queue_closed (app_step S a ev) = ap_queue_closed a"
        using \<open>\<not> (\<exists>sev. ev = Service sev)\<close>
        by (cases ev) (auto simp: app_step_def flush_step_def relay_returns_def on_hub_def split: flush_phase.split list.split)
      then show ?thesis
        by (intro life_ok_moved [OF assms(1)]) (use docs line False in auto)
    next
      case True
      then have step: "app_step S a ev = lifespan_step S a ev" by (auto simp: app_step_def)
      show ?thesis using True unfolding step by (rule lifespan_ok [OF assms(1)]) (use docs step assms(2) in auto)
    qed
  qed
qed

section \<open>Properties\<close>

definition quiet_step :: "'d service_env \<Rightarrow> 'd app \<Rightarrow> app_event \<Rightarrow> 'd app" where
  "quiet_step S a ev = (if quiet_app a ev then app_step S a ev else a)"

interpretation shutdown: monotone_machine "quiet_step S" "life_ok S content items" "\<lambda>a b. retains content items (app_docs a) (app_docs b)"
  for S :: "'d service_env" and content :: "'d \<Rightarrow> 'o set" and items :: "bytes \<Rightarrow> 'o set"
proof unfold_locales
  show "life_ok S content items (quiet_step S a ev)" if "life_ok S content items a" for a :: "'d app" and ev
    using that life_ok_step [OF that] by (simp add: quiet_step_def)
  show "retains content items (app_docs a) (app_docs (quiet_step S a ev))" if "life_ok S content items a" for a :: "'d app" and ev
    using quiet_docs [of S content items a ev] that by (simp add: quiet_step_def life_ok_def retains_def)
qed (auto simp: retains_def)

lemma run_quiet: "app_run_ok quiet_app S a evs \<Longrightarrow> run (app_step S) a evs = run (quiet_step S) a evs"
  by (induction evs arbitrary: a) (simp_all add: quiet_step_def)

lemma safe_app_durable:
  assumes "hub_durable (se_hub S) content items (app_hub a)" "safe_app a ev"
  shows "hub_durable (se_hub S) content items (app_hub (app_step S a ev))"
  using app_hub_step [of a ev S]
proof
  assume "\<exists>e. app_hub_event a ev = Some e \<and> app_hub (app_step S a ev) = hub_step (se_hub S) (app_hub a) e"
  then obtain e where e: "app_hub_event a ev = Some e" "app_hub (app_step S a ev) = hub_step (se_hub S) (app_hub a) e" by blast
  with hub_safe_step_ok [OF assms(1), of e] assms(2) show ?thesis by (simp add: safe_app_def hub_safe_step_def)
qed (use hub_same_docs [OF assms(1)] in blast)

lemma safe_app_run:
  "hub_durable (se_hub S) content items (app_hub a) \<Longrightarrow> app_run_ok safe_app S a evs \<Longrightarrow>
   hub_durable (se_hub S) content items (app_hub (run (app_step S) a evs))"
proof (induction evs arbitrary: a)
  case (Cons ev evs)
  from Cons.IH [OF safe_app_durable [OF Cons.prems(1), of ev]] Cons.prems(2) show ?case by simp
qed simp

text \<open>No session is missed before the loop over the sessions begins.\<close>
lemma none_missed_yet:
  "(ap_life a \<in> {Serving, Draining} \<longrightarrow> ap_missed a = {}) \<Longrightarrow>
   ap_life (run (app_step S) a evs) \<in> {Serving, Draining} \<longrightarrow> ap_missed (run (app_step S) a evs) = {}"
proof (induction evs arbitrary: a)
  case (Cons ev evs)
  have "ap_life (app_step S a ev) \<in> {Serving, Draining} \<longrightarrow> ap_missed (app_step S a ev) = {}"
    using Cons.prems
    by (cases ev) (auto simp: app_step_def service_app_step_def life_after_def flush_step_def lifespan_step_def relay_returns_def
        on_hub_def Let_def split: flush_phase.splits life_phase.splits list.splits option.splits reply.splits document_error.splits
        prod.splits if_splits)
  from Cons.IH [OF this] show ?case by simp
qed simp

definition storage_works :: "app_event \<Rightarrow> bool" where
  "storage_works ev = (case ev of Service (Hub_event (Storage (Resume _ outcome _))) \<Rightarrow> outcome = Io_ok | _ \<Rightarrow> True)"

lemma nothing_missed:
  assumes "life_ok S content items a" "storage_works ev"
  shows "ap_missed (app_step S a ev) = ap_missed a"
proof (cases "\<exists>sev k sid todo r. ev = Service sev \<and> ap_life a = Saving k sid todo \<and> answer S (app_hub a) sev sid = Some r")
  case True
  then obtain sev k sid todo r where e: "ev = Service sev" "ap_life a = Saving k sid todo" "answer S (app_hub a) sev sid = Some r" by blast
  then obtain dev where dev: "sev = Hub_event (Storage dev)" "turn (he_crdt (se_hub S)) (app_docs a) dev sid = Some r"
    by (auto simp: answer_def split: service_event.splits hub_event.splits if_splits)
  have line: "in_line content items (app_docs a) sid k" "guards_ok (app_docs a) sid"
    using assms(1) e(2) by (simp_all add: life_ok_def hub_durable_def durable_def session_durable_def)
  have "\<not> failed r" if "\<not> 1 < k"
  proof -
    have "k = 1" using line(1) that by (auto simp: in_line_def split: option.splits)
    with line dev(2) show ?thesis using assms(2) e(1) dev(1) by (intro turn_succeeds) (auto simp: storage_works_def)
  qed
  with e show ?thesis
    by (auto simp: app_step_def service_app_step_def life_after_def Let_def failed_def split: reply.split document_error.split)
next
  case False
  then show ?thesis
    by (cases ev) (auto simp: app_step_def service_app_step_def life_after_def flush_step_def lifespan_step_def relay_returns_def
        on_hub_def Let_def split: flush_phase.splits life_phase.splits list.splits option.splits prod.splits)
qed

lemma nothing_missed_run:
  "life_ok S content items a \<Longrightarrow> app_run_ok quiet_app S a evs \<Longrightarrow> list_all storage_works evs \<Longrightarrow>
   ap_missed (run (app_step S) a evs) = ap_missed a"
  by (induction evs arbitrary: a) (simp_all add: nothing_missed life_ok_step)

text \<open>C16: A shutdown loses nothing: once connections and requests have ended, when the lifespan is over both Redis
  connections have been closed, whatever raised on the way, and every session whose last checkpoint
  did not fail can be restored by a new process from storage alone with all it had when the shutdown
  began; when storage works, that is every session. Saves and evictions still queued
  for a session, or an edit still unsaved, do not change that.\<close>
theorem shutdown_loses_nothing:
  fixes S :: "'d service_env"
  assumes "crdt_laws (he_crdt (se_hub S)) content items" "stored_by_program (he_crdt (se_hub S)) redis database"
    and "app_run_ok safe_app S (new_app (new_service (new_hub db (new_manager redis database)) x)) evs"
    and "a = run (app_step S) (new_app (new_service (new_hub db (new_manager redis database)) x)) evs" "ap_life a = Draining"
    and "app_run_ok quiet_app S a rest" "b = run (app_step S) a rest" "ap_life b = Shut_down"
  shows "ap_docs_closed b \<and> ap_queue_closed b \<and> (list_all storage_works rest \<longrightarrow> ap_missed b = {}) \<and>
    (sid \<notin> ap_missed b \<longrightarrow> recoverable content items (app_docs a) sid
       \<subseteq> recoverable content items (new_manager (dm_redis (app_docs b)) (dm_db (app_docs b)) :: 'd manager) sid)"
proof -
  let ?start = "new_app (new_service (new_hub db (new_manager redis database)) x) :: 'd app"
  have "hub_durable (se_hub S) content items (app_hub ?start)"
    using hub_durable_new [OF assms(1,2)] by (simp add: new_app_def new_service_def)
  from safe_app_run [OF this assms(3)] have ok: "life_ok S content items a"
    using assms(5) unfolding assms(4) by (simp add: life_ok_def)
  have b: "b = run (quiet_step S) a rest" using assms(7) run_quiet [OF assms(6)] by simp
  have "life_ok S content items b" unfolding b by (rule shutdown.run_inv [OF ok])
  then have kept: "ap_docs_closed b" "ap_queue_closed b" "sid \<notin> ap_missed b \<Longrightarrow> settled_at content items (app_docs b) sid"
    using assms(8) by (simp_all add: life_ok_def kept_def)
  have "recoverable content items (app_docs a) sid \<subseteq> recoverable content items (app_docs b) sid"
    unfolding b using shutdown.run_below [OF ok] by (simp add: retains_def)
  moreover have "ap_missed a = {}"
    using none_missed_yet [of ?start S evs] assms(5) unfolding assms(4) by (simp add: new_app_def)
  then have "list_all storage_works rest \<Longrightarrow> ap_missed b = {}"
    using nothing_missed_run [OF ok assms(6)] unfolding assms(7) by simp
  ultimately show ?thesis using kept settled_recoverable [OF kept(3)] by blast
qed

section \<open>A shutdown\<close>

text \<open>An edit is merged and its save is still being written when the server stops: the last checkpoint waits for
  it. Closing the queue's connection raises.\<close>
abbreviation stopping :: "app_event list" where
  "stopping \<equiv> map (Service \<circ> Hub_event) (sample_save @ [Http_continue 0 0]) @ [Shutdown]"

abbreviation storage :: "event \<Rightarrow> app_event" where
  "storage ev \<equiv> Service (Hub_event (Storage ev))"

abbreviation shutting_down :: "app_event list" where
  "shutting_down \<equiv> [Relay_returns, Flush_stopped, Drained [7], Save_go 0, storage (Resume 7 Io_ok 0), storage (Wake 7 0),
     storage (Resume 7 Io_ok 0), Save_go 0, Close_step True, Close_step False]"

lemmas app_eval = app_step_def service_app_step_def life_after_def flush_after_def flush_step_def lifespan_step_def relay_returns_def
  on_hub_def answer_def turn_def turns_left_def gathered_def service_step_def new_app_def new_service_def

lemma hub_runs:
  assumes "ap_life a = Serving" "ap_flush a = Flush_waiting"
    and "list_all (\<lambda>ev. \<not> (\<exists>w t r. ev = Ws_open w t r)) evs"
  shows "run (app_step S) a (map (Service \<circ> Hub_event) evs) =
      a\<lparr>ap_service := (ap_service a)\<lparr>sv_hub := run (hub_step (se_hub S)) (app_hub a) evs\<rparr>\<rparr>"
    and "app_run_ok safe_app S a (map (Service \<circ> Hub_event) evs) = hub_safe_run (se_hub S) (app_hub a) evs"
  using assms
proof (induction evs arbitrary: a)
  case (Cons ev evs)
  have step: "app_step S a (Service (Hub_event ev)) = a\<lparr>ap_service := (ap_service a)\<lparr>sv_hub := hub_step (se_hub S) (app_hub a) ev\<rparr>\<rparr>"
    if "ap_life a = Serving" "ap_flush a = Flush_waiting" "list_all (\<lambda>ev. \<not> (\<exists>w t r. ev = Ws_open w t r)) (ev # evs)" for a
    using that by (cases ev) (auto simp: app_step_def service_app_step_def life_after_def flush_after_def service_step_def Let_def)
  { case 1
    then show ?case using Cons.IH(1) [OF _ _ _] by (simp add: step)
  next
    case 2
    then show ?case using Cons.IH(2) [OF _ _ _] by (simp add: step safe_app_def app_hub_event_def)
  }
qed simp_all

lemma app_run_ok_append: "app_run_ok p S a (evs @ evs') \<longleftrightarrow> app_run_ok p S a evs \<and> app_run_ok p S (run (app_step S) a evs) evs'"
  by (induction evs arbitrary: a) simp_all

text \<open>The manager with the edit merged, when its save has been called.\<close>
abbreviation saving_docs :: "sample_doc manager" where
  "saving_docs \<equiv> \<lparr>dm_docs = [7 \<mapsto> [(0, 2)]],
     dm_metadata = [7 \<mapsto> \<lparr>md_generation = Suc 0, md_checkpointed_generation = None, md_saved_state_vector = sample_update [],
       md_saved_state_hash = map unat (sample_update []), md_saved_at = None\<rparr>],
     dm_guards = [7 \<mapsto> Suc 0], dm_loading = {},
     dm_tasks = [7 \<mapsto> Await_db_write (sample_update [(0, 2)]) (sample_update [(0, 2)]) (map unat (sample_update [(0, 2)])) 0],
     dm_waiting = (\<lambda>_. []), dm_redis = Map.empty, dm_db = Map.empty\<rparr>"

lemma saved_hub:
  "hb_docs (run (hub_step sample_hub_env) sample_hub (sample_save @ [Http_continue 0 0])) = saving_docs"
  "hub_safe_run sample_hub_env sample_hub (sample_save @ [Http_continue 0 0])"
  by (simp_all add: hub_eval dm_eval CRDT_MAX_UPDATE_BYTES_def http_loaded_def hub_safe_def)

lemma stopped:
  obtains h where "run (app_step sample_service_env) (new_app (new_service sample_hub claimed_world)) stopping =
      (new_app ((new_service sample_hub claimed_world)\<lparr>sv_hub := h\<rparr>))\<lparr>ap_life := Draining, ap_stop := True\<rparr>"
    "hb_docs h = saving_docs" "app_run_ok safe_app sample_service_env (new_app (new_service sample_hub claimed_world)) stopping"
proof
  let ?h = "run (hub_step sample_hub_env) sample_hub (sample_save @ [Http_continue 0 0])"
  let ?evs = "map (Service \<circ> Hub_event) (sample_save @ [Http_continue 0 0])"
  note runs = hub_runs [of "new_app (new_service sample_hub claimed_world)" "sample_save @ [Http_continue 0 0]" sample_service_env]
  have a: "run (app_step sample_service_env) (new_app (new_service sample_hub claimed_world)) ?evs
      = new_app ((new_service sample_hub claimed_world)\<lparr>sv_hub := ?h\<rparr>)"
    by (subst runs(1)) (simp_all add: new_app_def new_service_def)
  then show "run (app_step sample_service_env) (new_app (new_service sample_hub claimed_world)) stopping =
      (new_app ((new_service sample_hub claimed_world)\<lparr>sv_hub := ?h\<rparr>))\<lparr>ap_life := Draining, ap_stop := True\<rparr>"
    unfolding run_append [of _ _ ?evs] by (simp add: app_step_def lifespan_step_def new_app_def)
  show "hb_docs ?h = saving_docs" by (rule saved_hub(1))
  have "app_run_ok safe_app sample_service_env (new_app (new_service sample_hub claimed_world)) ?evs"
    by (subst runs(2)) (use saved_hub(2) in \<open>simp_all add: new_app_def new_service_def\<close>)
  then show "app_run_ok safe_app sample_service_env (new_app (new_service sample_hub claimed_world)) stopping"
    unfolding app_run_ok_append [of _ _ _ ?evs] a by (simp add: safe_app_def app_hub_event_def)
qed

lemma shut_down:
  assumes "hb_docs h = saving_docs"
    and "a = (new_app ((new_service sample_hub claimed_world)\<lparr>sv_hub := h\<rparr>))\<lparr>ap_life := Draining, ap_stop := True\<rparr>"
  shows "ap_life (run (app_step sample_service_env) a shutting_down) = Shut_down"
    "app_run_ok quiet_app sample_service_env a shutting_down"
  using assms(1) unfolding assms(2)
  by (simp_all add: app_eval dm_eval quiet_app_def safe_app_def app_hub_event_def unattended_def hub_safe_def hub_step.simps call_docs_def
      settle_reply sample_hub_env_def)

theorem shutdown_loses_nothing_witness:
  "\<exists>b. b = run (app_step sample_service_env) (new_app (new_service sample_hub claimed_world)) (stopping @ shutting_down) \<and>
     ap_docs_closed b \<and> ap_queue_closed b \<and> ap_missed b = {} \<and>
     (0, 2) \<in> recoverable set (set \<circ> sample_items) (new_manager (dm_redis (app_docs b)) (dm_db (app_docs b)) :: sample_doc manager) 7"
proof -
  let ?start = "new_app (new_service sample_hub claimed_world)"
  obtain h where h: "run (app_step sample_service_env) ?start stopping =
      (new_app ((new_service sample_hub claimed_world)\<lparr>sv_hub := h\<rparr>))\<lparr>ap_life := Draining, ap_stop := True\<rparr>"
    "hb_docs h = saving_docs" "app_run_ok safe_app sample_service_env ?start stopping" by (rule stopped)
  let ?a = "(new_app ((new_service sample_hub claimed_world)\<lparr>sv_hub := h\<rparr>))\<lparr>ap_life := Draining, ap_stop := True\<rparr>"
  have life: "ap_life ?a = Draining" "app_docs ?a = saving_docs" by (simp_all add: new_app_def new_service_def h(2))
  have laws: "crdt_laws (he_crdt (se_hub sample_service_env)) set (set \<circ> sample_items)"
    "stored_by_program (he_crdt (se_hub sample_service_env)) Map.empty Map.empty"
    using sample_crdt_laws by (simp_all add: sample_hub_env_def stored_by_program_empty)
  note shut = shut_down [OF h(2) refl]
  note lost = shutdown_loses_nothing [OF laws h(3) h(1) [symmetric] life(1) shut(2) refl shut(1), of 7]
  have "list_all storage_works shutting_down" by (simp add: storage_works_def)
  moreover have "(0, 2) \<in> recoverable set (set \<circ> sample_items) (app_docs ?a) 7" unfolding life(2) by (simp add: recoverable_def)
  moreover have "run (app_step sample_service_env) ?a shutting_down = run (app_step sample_service_env) ?start (stopping @ shutting_down)"
    using h(1) run_append [of "app_step sample_service_env" ?start stopping shutting_down] by (simp only:)
  ultimately show ?thesis using lost by (intro exI [of _ "run (app_step sample_service_env) ?a shutting_down"]) blast
qed

end
