(* ===== verification/Flushing.thy ===== *)
theory Flushing
  imports Lifespan
begin

text \<open>A complete round of the periodic flush (\<open>app/main.py\<close>, \<open>_periodic_crdt_flush\<close>) over the hub's
  \<open>maintain_document_checkpoint\<close>: content a session has when the round begins is on its way to storage in
  one of four forms (still on the list, in the maintenance request, in an eviction that is pending, in a checkpoint with
  so many turns to wait), and every step of the application carries it on. Anyone may act in the meantime. The definitions
  here are those forms; the code they are about is modelled in Document, Hub and Lifespan.\<close>

section \<open>Content on its way to storage\<close>

lemma begin_frames:
  "dm_redis (fst (begin_request C now m sid req)) = dm_redis m" "dm_db (fst (begin_request C now m sid req)) = dm_db m"
  "dm_waiting (fst (begin_request C now m sid req)) = dm_waiting m" "dm_docs (fst (begin_request C now m sid req)) = dm_docs m"
  by (cases req; auto simp: load_begin_def checkpoint_begin_def persist_begin_def Let_def split: option.split)+

text \<open>Operations without an await leave storage and the queue alone.\<close>
lemma bump_frames: "dm_tasks (fst (bump_generation m sid)) = dm_tasks m" "dm_waiting (fst (bump_generation m sid)) = dm_waiting m"
  "dm_redis (fst (bump_generation m sid)) = dm_redis m" "dm_db (fst (bump_generation m sid)) = dm_db m"
  by (simp_all add: bump_generation_def split: option.split)

definition same_queue :: "'d manager \<Rightarrow> 'd manager \<Rightarrow> bool" where
  "same_queue m m' \<longleftrightarrow> dm_tasks m' = dm_tasks m \<and> dm_waiting m' = dm_waiting m \<and> dm_redis m' = dm_redis m \<and> dm_db m' = dm_db m"

lemma same_queue_ops:
  "same_queue m (fst (get_or_create C m sid))" "same_queue m (fst (apply_update C m sid u))"
  "same_queue m (fst (get_state_vector C m sid))" "same_queue m (fst (encode_state_as_update C m sid sv))"
  "same_queue m (fst (restore_text_from_state C m sid u))"
proof -
  show a: "same_queue m (fst (get_or_create C m sid))" for m
    by (auto simp: get_or_create_def publish_new_doc_def same_queue_def Let_def split: option.split)
  have "same_queue m m" by (simp add: same_queue_def)
  note refl = this
  have g: "same_queue m m'" if "get_or_create C m sid = (m', r)" for m m' r using a [of m] that by simp
  have bump: "same_queue m (fst (bump_generation m' sid))" if "same_queue m m'" for m'
    using that by (simp add: same_queue_def bump_frames)
  have bump_of: "same_queue m m1" if "bump_generation (m'\<lparr>dm_docs := x\<rparr>) sid = (m1, y)" "get_or_create C m sid = (m', z)" for m' m1 x y z
    using g [OF that(2)] bump_frames [of "m'\<lparr>dm_docs := x\<rparr>" sid] that(1) by (simp add: same_queue_def)
  have bump_fst: "same_queue m (fst (bump_generation (m'\<lparr>dm_docs := x\<rparr>) sid))" if "get_or_create C m sid = (m', z)" for m' x z
    using g [OF that] by (simp add: same_queue_def bump_frames)
  have set: "same_queue m (m'\<lparr>dm_docs := x\<rparr>)" if "same_queue m m'" for m' x using that by (simp add: same_queue_def)
  show "same_queue m (fst (apply_update C m sid u))" "same_queue m (fst (get_state_vector C m sid))"
    "same_queue m (fst (encode_state_as_update C m sid sv))" "same_queue m (fst (restore_text_from_state C m sid u))"
    by (auto simp: apply_update_def get_state_vector_def encode_state_as_update_def restore_text_from_state_def Let_def
        intro: g refl bump_fst dest: bump_of split: option.split prod.split sum.split if_splits)
qed

lemma sync_frames: "user_event may ev \<Longrightarrow> (\<And>s req now. ev \<noteq> Call s req now) \<Longrightarrow> same_queue m (dm_step C m ev)"
  using same_queue_ops by (cases ev) (auto simp: dm_step_def)

text \<open>\<open>xs\<close> is content of the session; storage only gains.\<close>
lemma stored_grows:
  assumes "crdt_laws C content items" "session_durable C content items m sid" "safe_event m ev"
    and "user_event may ev \<or> storage_event ev"
  shows "stored items m sid \<subseteq> stored items (dm_step C m ev) sid"
proof (cases "ev_session ev = sid")
  case False
  then have "same_at sid m (dm_step C m ev)" by (intro same_at_event) simp
  then show ?thesis by (simp add: same_at_def stored_def db_state_def)
next
  case sid: True
  note keep = stored_def db_state_def
  show ?thesis
  proof (cases ev)
    case (Call s req now)
    with sid show ?thesis
      by (auto simp: dm_step_def keep enter_frames settle_frames begin_frames Let_def)
  next
    case (Wake s now)
    with sid show ?thesis
      by (auto simp: dm_step_def keep settle_frames begin_frames split: option.split list.split)
  next
    case (Resume s outcome now)
    show ?thesis
    proof (cases "dm_tasks m sid")
      case (Some t)
      have dur: "task_durable C content items (Some t) m sid" using assms(2) Some by (simp add: session_durable_def)
      have "stored items m sid \<subseteq> stored items (fst (resume_task C now m sid t outcome)) sid"
      proof (cases t)
        case (Await_redis_set u g removing)
        with dur assms(1) crdt_lawsD(3) [OF assms(1)] show ?thesis
          by (cases outcome) (auto simp: resume_redis_set_def write_redis_def keep Let_def split: option.splits)
      next
        case (Await_db_write u sv h ts)
        with dur crdt_lawsD(3) [OF assms(1)] show ?thesis
          by (cases outcome) (auto simp: resume_db_write_def write_db_def keep Let_def split: option.splits)
      qed (cases outcome; auto simp: resume_db_read_def resume_redis_get_def end_loading_def persist_begin_def keep Let_def
            split: option.splits prod.splits after_load.splits)+
      with Some Resume sid show ?thesis by (simp add: dm_step_def keep settle_frames)
    qed (use Resume sid in \<open>simp add: dm_step_def\<close>)
  qed (use assms(3,4) sync_frames [of may ev m C] in \<open>auto simp: keep same_queue_def\<close>)
qed

text \<open>The operation that takes the \<open>k\<close>-th turn from now is a checkpoint that stores \<open>xs\<close>.\<close>
definition on_way :: "(bytes \<Rightarrow> 'o set) \<Rightarrow> 'o set \<Rightarrow> 'd manager \<Rightarrow> session_id \<Rightarrow> nat \<Rightarrow> bool" where
  "on_way items xs m sid k \<longleftrightarrow>
     (case dm_tasks m sid of
        None \<Rightarrow> \<exists>i. k = Suc i \<and> waits_at m sid i
      | Some t \<Rightarrow>
          k = 1 \<and> (\<exists>u g. t = Await_redis_set u g None \<and> xs \<subseteq> items u) \<or>
          (\<exists>i. k = Suc (Suc i) \<and> waits_at m sid i))"

definition on_way_after :: "(bytes \<Rightarrow> 'o set) \<Rightarrow> 'o set \<Rightarrow> 'd manager \<Rightarrow> session_id \<Rightarrow> nat \<Rightarrow> reply option \<Rightarrow> bool" where
  "on_way_after items xs m sid k r \<longleftrightarrow>
     (case r of
        None \<Rightarrow> on_way items xs m sid k
      | Some _ \<Rightarrow> if k = 1 then xs \<subseteq> stored items m sid else on_way items xs m sid (k - 1))"

text \<open>Nothing fails for the session.\<close>
definition works :: "session_id \<Rightarrow> event \<Rightarrow> bool" where
  "works sid ev \<longleftrightarrow> (\<forall>outcome now. ev = Resume sid outcome now \<longrightarrow> outcome = Io_ok)"

lemma on_way_append:
  assumes "on_way items xs m sid k"
    and "dm_tasks m' sid = dm_tasks m sid" "dm_waiting m' sid = dm_waiting m sid @ reqs"
  shows "on_way items xs m' sid k"
  using assms by (auto simp: on_way_def waits_at_def nth_append split: option.splits)

lemma recoverable_live:
  assumes "session_durable C content items m sid"
  shows "dm_docs m sid = Some d \<Longrightarrow> recoverable content items m sid = content d"
    and "dm_docs m sid = None \<Longrightarrow> recoverable content items m sid = stored items m sid"
proof -
  show "recoverable content items m sid = content d" if d: "dm_docs m sid = Some d"
  proof -
    have "dm_metadata m sid \<noteq> None" using assms d by (auto simp: session_durable_def guards_ok_def guard_ok_def)
    then have "stored items m sid \<subseteq> content d" using assms d by (auto simp: session_durable_def doc_durable_def live_durable_def)
    with d show ?thesis by (auto simp: recoverable_def)
  qed
qed (simp add: recoverable_def)

lemma resume_task_waiting: "dm_waiting (fst (resume_task C now m sid t outcome)) = dm_waiting m"
  by (cases t; cases outcome)
    (auto simp: resume_db_read_def resume_redis_get_def resume_redis_set_def resume_db_write_def write_redis_def write_db_def
      end_loading_def persist_begin_def Let_def split: option.splits prod.splits after_load.splits)

lemma on_way_begin:
  assumes laws: "crdt_laws C content items" and dur: "session_durable C content items m sid"
    and xs: "xs \<subseteq> recoverable content items m sid" and line: "on_way items xs m sid k"
    and t: "dm_tasks m sid = None" and w: "dm_waiting m sid = req # reqs"
    and mp: "mp = begin_request C now (m\<lparr>dm_waiting := (dm_waiting m)(sid := reqs)\<rparr>) sid req"
  shows "on_way_after items xs (fst (settle sid mp)) sid k (snd (settle sid mp))"
proof -
  have frames: "dm_waiting (fst (settle sid mp)) sid = reqs" "stored items (fst (settle sid mp)) sid = stored items m sid"
    by (simp_all add: mp settle_frames begin_frames stored_def db_state_def)
  obtain i where k: "k = Suc i" "waits_at m sid i" using line t by (auto simp: on_way_def)
  show ?thesis
  proof (cases i)
    case 0
    then have req: "req = Checkpoint" using k w by (simp add: waits_at_def)
    have meta: "dm_docs m sid = None \<longleftrightarrow> dm_metadata m sid = None"
      using dur by (simp add: session_durable_def guards_ok_def guard_ok_def)
    show ?thesis
    proof (cases "dm_docs m sid")
      case None
      with meta req k 0 xs recoverable_live(2) [OF dur None] frames show ?thesis
        by (simp add: on_way_after_def settle_reply) (simp add: mp checkpoint_begin_def)
    next
      case (Some d)
      with meta req k 0 xs recoverable_live(1) [OF dur Some] crdt_lawsD(3) [OF laws] show ?thesis
        by (auto simp: mp checkpoint_begin_def on_way_after_def on_way_def settle_frames settle_reply task_of_def)
    qed
  next
    case (Suc j)
    then have "waits_at (fst (settle sid mp)) sid j" using k w frames by (simp add: waits_at_def)
    then show ?thesis using k Suc
      by (cases "snd mp") (auto simp: on_way_after_def on_way_def settle_frames settle_reply task_of_def)
  qed
qed

lemma on_way_resume:
  assumes line: "on_way items xs m sid k" and t: "dm_tasks m sid = Some t" and meta: "dm_metadata m sid \<noteq> None \<or> (\<forall>u g. t \<noteq> Await_redis_set u g None)"
    and mp: "mp = resume_task C now m sid t Io_ok"
  shows "on_way_after items xs (fst (settle sid mp)) sid k (snd (settle sid mp))"
proof -
  have w: "dm_waiting (fst (settle sid mp)) = dm_waiting m" unfolding mp settle_frames by (rule resume_task_waiting)
  from line t consider
    (now) u g where "k = 1" "t = Await_redis_set u g None" "xs \<subseteq> items u"
    | (later) i where "k = Suc (Suc i)" "waits_at m sid i"
    by (auto simp: on_way_def)
  then show ?thesis
  proof cases
    case now
    with meta show ?thesis
      by (auto simp: mp on_way_after_def settle_reply settle_frames stored_def db_state_def resume_redis_set_def write_redis_def Let_def)
  next
    case later
    then have "waits_at (fst (settle sid mp)) sid i" using w by (simp add: waits_at_def)
    with later show ?thesis
      by (cases "snd mp") (auto simp: on_way_after_def on_way_def settle_frames settle_reply task_of_def)
  qed
qed

lemma on_way_step:
  assumes laws: "crdt_laws C content items" and dur: "session_durable C content items m sid"
    and ev: "works sid ev" "user_event may ev \<or> storage_event ev" "safe_event m ev" and xs: "xs \<subseteq> recoverable content items m sid" and line: "on_way items xs m sid k"
  shows "on_way_after items xs (dm_step C m ev) sid k (turn C m ev sid)"
proof (cases "ev_session ev = sid")
  case False
  then have "same_at sid m (dm_step C m ev)" by (intro same_at_event) simp
  then have "on_way items xs (dm_step C m ev) sid k" using line on_way_append [of items xs m sid k _ "[]"] by (simp add: same_at_def)
  moreover have "turn C m ev sid = None" using False by (cases ev) (simp_all add: turn_def)
  ultimately show ?thesis by (simp add: on_way_after_def)
next
  case sid: True
  show ?thesis
  proof (cases "\<exists>s req now o'. ev = Call s req now \<or> ev = Wake s now \<or> ev = Resume s o' now")
    case False
    then have "on_way items xs (dm_step C m ev) sid k"
      using sync_frames [of may ev m C] ev(2,3) by (intro on_way_append [OF line, of _ "[]"]; cases ev) (auto simp: same_queue_def)
    moreover have "turn C m ev sid = None" using False by (cases ev) (auto simp: turn_def)
    ultimately show ?thesis by (simp add: on_way_after_def)
  next
    case True
    then consider (call) req now where "ev = Call sid req now" | (wake) now where "ev = Wake sid now"
      | (resume) now where "ev = Resume sid Io_ok now"
      using sid ev by (auto simp: works_def)
    then show ?thesis
    proof cases
      case call
      have busy: "\<not> (dm_tasks m sid = None \<and> dm_waiting m sid = [])" using line by (auto simp: on_way_def waits_at_def)
      have "on_way items xs (enter_guard m sid\<lparr>dm_waiting := (dm_waiting m)(sid := dm_waiting m sid @ [req])\<rparr>) sid k"
        by (rule on_way_append [OF line]) (simp_all add: enter_frames)
      with busy call show ?thesis by (auto simp: dm_step_def Let_def enter_frames on_way_after_def turn_def)
    next
      case wake
      show ?thesis
      proof (cases "dm_tasks m sid = None \<and> dm_waiting m sid \<noteq> []")
        case True
        then obtain req reqs where w: "dm_waiting m sid = req # reqs" by (cases "dm_waiting m sid") auto
        from on_way_begin [OF laws dur xs line _ w refl] True wake w show ?thesis by (simp add: dm_step_def turn_def)
      next
        case False
        with wake line show ?thesis by (auto simp: dm_step_def turn_def on_way_after_def split: option.split list.split)
      qed
    next
      case resume
      show ?thesis
      proof (cases "dm_tasks m sid")
        case (Some t)
        have "dm_metadata m sid \<noteq> None \<or> (\<forall>u g. t \<noteq> Await_redis_set u g None)"
          using dur Some by (auto simp: session_durable_def guards_ok_def guard_ok_def)
        from on_way_resume [OF line Some this refl] Some resume show ?thesis by (simp add: dm_step_def turn_def)
      qed (use resume line in \<open>simp add: dm_step_def turn_def on_way_after_def\<close>)
    qed
  qed
qed

text \<open>An eviction is pending that stores \<open>xs\<close>, or \<open>xs\<close> is stored.\<close>
definition evicting :: "(bytes \<Rightarrow> 'o set) \<Rightarrow> 'o set \<Rightarrow> 'd manager \<Rightarrow> session_id \<Rightarrow> bool" where
  "evicting items xs m sid \<longleftrightarrow> xs \<subseteq> stored items m sid \<or> Checkpoint_and_remove \<in> set (dm_waiting m sid) \<or>
     (\<exists>u g g'. dm_tasks m sid = Some (Await_redis_set u g (Some g')) \<and> xs \<subseteq> items u)"

lemma evicting_done: "evicting items xs m sid \<Longrightarrow> \<not> evict_pending m sid \<Longrightarrow> xs \<subseteq> stored items m sid"
  by (auto simp: evicting_def evict_pending_def)

lemma evicting_queue:
  assumes "evicting items xs m sid" "stored items m sid \<subseteq> stored items m' sid"
    and "dm_tasks m' sid = dm_tasks m sid" "set (dm_waiting m sid) \<subseteq> set (dm_waiting m' sid)"
  shows "evicting items xs m' sid"
  using assms by (auto simp: evicting_def)

text \<open>A request that begins: an eviction takes all there is with it.\<close>
lemma evicting_begin:
  assumes laws: "crdt_laws C content items" and dur: "session_durable C content items m sid"
    and xs: "xs \<subseteq> recoverable content items m sid" and m': "dm_docs m' = dm_docs m" "dm_metadata m' = dm_metadata m"
    "dm_redis m' = dm_redis m" "dm_db m' = dm_db m"
    and e: "xs \<subseteq> stored items m sid \<or> Checkpoint_and_remove \<in> set (dm_waiting m' sid) \<or> req = Checkpoint_and_remove"
    and mp: "mp = begin_request C now m' sid req"
  shows "evicting items xs (fst (settle sid mp)) sid"
proof -
  have frames: "dm_waiting (fst (settle sid mp)) sid = dm_waiting m' sid" "stored items (fst (settle sid mp)) sid = stored items m sid"
    by (simp_all add: mp settle_frames begin_frames stored_def db_state_def m')
  have meta: "dm_docs m sid = None \<longleftrightarrow> dm_metadata m sid = None"
    using dur by (simp add: session_durable_def guards_ok_def guard_ok_def)
  have "evicting items xs (fst (settle sid mp)) sid" if req: "req = Checkpoint_and_remove"
  proof (cases "dm_docs m sid")
    case None
    with xs recoverable_live(2) [OF dur None] frames show ?thesis by (simp add: evicting_def)
  next
    case (Some d)
    then obtain md where "dm_metadata m sid = Some md" using meta by auto
    with Some req xs recoverable_live(1) [OF dur Some] crdt_lawsD(3) [OF laws] m' show ?thesis
      by (auto simp: evicting_def mp settle_frames task_of_def checkpoint_begin_def)
  qed
  with e frames show ?thesis by (auto simp: evicting_def)
qed

lemma evicting_step:
  assumes laws: "crdt_laws C content items" and dur: "session_durable C content items m sid"
    and ev: "works sid ev" "user_event may ev \<or> storage_event ev" "safe_event m ev"
    and xs: "xs \<subseteq> recoverable content items m sid" and e: "evicting items xs m sid"
  shows "evicting items xs (dm_step C m ev) sid"
proof (cases "ev_session ev = sid")
  case False
  then have "same_at sid m (dm_step C m ev)" by (intro same_at_event) simp
  with e show ?thesis by (simp add: same_at_def evicting_def stored_def db_state_def)
next
  case sid: True
  note grows = stored_grows [OF laws dur ev(3,2)]
  show ?thesis
  proof (cases "\<exists>s req now o'. ev = Call s req now \<or> ev = Wake s now \<or> ev = Resume s o' now")
    case False
    with ev(2,3) have "user_event may ev" by (cases ev) auto
    then have "same_queue m (dm_step C m ev)" using sync_frames [of may ev m C] False by blast
    then show ?thesis by (intro evicting_queue [OF e grows]) (simp_all add: same_queue_def)
  next
    case True
    then consider (call) req now where "ev = Call sid req now" | (wake) now where "ev = Wake sid now"
      | (resume) now where "ev = Resume sid Io_ok now"
      using sid ev(1) by (auto simp: works_def)
    then show ?thesis
    proof cases
      case call
      show ?thesis
      proof (cases "dm_tasks m sid = None \<and> dm_waiting m sid = []")
        case True
        with e have "xs \<subseteq> stored items m sid" by (simp add: evicting_def)
        with evicting_begin [OF laws dur xs _ _ _ _ _ refl, of "enter_guard m sid" req now] True call show ?thesis
          by (auto simp: dm_step_def Let_def enter_frames)
      next
        case False
        have "evicting items xs (enter_guard m sid\<lparr>dm_waiting := (dm_waiting m)(sid := dm_waiting m sid @ [req])\<rparr>) sid"
          by (rule evicting_queue [OF e]) (auto simp: enter_frames stored_def db_state_def)
        with False call show ?thesis by (auto simp: dm_step_def Let_def enter_frames)
      qed
    next
      case wake
      show ?thesis
      proof (cases "dm_tasks m sid = None \<and> dm_waiting m sid \<noteq> []")
        case True
        then obtain req reqs where w: "dm_waiting m sid = req # reqs" by (cases "dm_waiting m sid") auto
        with True e have "xs \<subseteq> stored items m sid \<or> Checkpoint_and_remove \<in> set reqs \<or> req = Checkpoint_and_remove"
          by (auto simp: evicting_def)
        with evicting_begin [OF laws dur xs _ _ _ _ _ refl, of "m\<lparr>dm_waiting := (dm_waiting m)(sid := reqs)\<rparr>" req now] True wake w
        show ?thesis by (simp add: dm_step_def)
      next
        case False
        with wake e show ?thesis by (auto simp: dm_step_def split: option.split list.split)
      qed
    next
      case resume
      show ?thesis
      proof (cases "dm_tasks m sid")
        case (Some t)
        have w: "dm_waiting (dm_step C m ev) sid = dm_waiting m sid"
          using resume Some by (simp add: dm_step_def settle_frames resume_task_waiting)
        have "xs \<subseteq> stored items (dm_step C m ev) sid" if "t = Await_redis_set u g (Some g')" "xs \<subseteq> items u" for u g g'
        proof -
          have "dm_metadata m sid \<noteq> None" using dur Some that by (auto simp: session_durable_def guards_ok_def guard_ok_def)
          with that resume Some show ?thesis
            by (auto simp: dm_step_def settle_frames stored_def db_state_def resume_redis_set_def write_redis_def Let_def)
        qed
        with e grows w Some show ?thesis by (auto simp: evicting_def)
      qed (use resume e in \<open>simp add: dm_step_def\<close>)
    qed
  qed
qed

text \<open>A checkpoint or an eviction that is called now stores what can be recovered now.\<close>
lemma checkpoint_call:
  assumes laws: "crdt_laws C content items" and dur: "session_durable C content items m sid"
    and xs: "xs \<subseteq> recoverable content items m sid" and m': "m' = dm_step C m (Call sid Checkpoint now)"
  shows "if turns_left m' sid = turns_left m sid then xs \<subseteq> stored items m' sid else on_way items xs m' sid (turns_left m' sid)"
proof -
  have meta: "dm_docs m sid = None \<longleftrightarrow> dm_metadata m sid = None"
    using dur by (simp add: session_durable_def guards_ok_def guard_ok_def)
  show ?thesis
  proof (cases "dm_tasks m sid = None \<and> dm_waiting m sid = []")
    case idle: True
    show ?thesis
    proof (cases "dm_docs m sid")
      case None
      with idle meta xs recoverable_live(2) [OF dur None] show ?thesis
        by (simp add: m' dm_step_def Let_def enter_frames settle_frames checkpoint_begin_def task_of_def turns_left_def stored_def db_state_def)
    next
      case (Some d)
      then obtain md where "dm_metadata m sid = Some md" using meta by auto
      with idle Some xs recoverable_live(1) [OF dur Some] crdt_lawsD(3) [OF laws] show ?thesis
        by (simp add: m' dm_step_def Let_def enter_frames settle_frames checkpoint_begin_def task_of_def turns_left_def on_way_def)
    qed
  next
    case False
    then have "m' = enter_guard m sid\<lparr>dm_waiting := (dm_waiting m)(sid := dm_waiting m sid @ [Checkpoint])\<rparr>"
      by (auto simp: m' dm_step_def enter_frames Let_def)
    with False show ?thesis by (auto simp: on_way_def waits_at_def turns_left_def enter_frames nth_append split: option.split)
  qed
qed

lemma evict_call:
  assumes laws: "crdt_laws C content items" and dur: "session_durable C content items m sid"
    and xs: "xs \<subseteq> recoverable content items m sid"
  shows "evicting items xs (dm_step C m (Call sid Checkpoint_and_remove now)) sid"
proof (cases "dm_tasks m sid = None \<and> dm_waiting m sid = []")
  case True
  with evicting_begin [OF laws dur xs _ _ _ _ _ refl, of "enter_guard m sid" Checkpoint_and_remove now] show ?thesis
    by (simp add: dm_step_def Let_def enter_frames)
next
  case False
  then show ?thesis by (auto simp: dm_step_def Let_def enter_frames evicting_def)
qed

section \<open>The hub while the flush is at work\<close>

text \<open>What a step of the documents keeps: content on its way arrives, and what has arrived stays.\<close>
definition carried :: "('d \<Rightarrow> 'o set) \<Rightarrow> (bytes \<Rightarrow> 'o set) \<Rightarrow> 'o set \<Rightarrow> 'd manager \<Rightarrow> session_id \<Rightarrow> reply option \<Rightarrow> 'd manager \<Rightarrow> bool" where
  "carried content items xs m sid r m' \<longleftrightarrow>
     xs \<subseteq> recoverable content items m' sid \<and>
     (xs \<subseteq> stored items m sid \<longrightarrow> xs \<subseteq> stored items m' sid) \<and>
     (evicting items xs m sid \<longrightarrow> evicting items xs m' sid) \<and>
     (\<forall>k. on_way items xs m sid k \<longrightarrow> on_way_after items xs m' sid k r)"

lemma carried_refl: "xs \<subseteq> recoverable content items m sid \<Longrightarrow> carried content items xs m sid None m"
  by (simp add: carried_def on_way_after_def)

lemma carried_trans: "carried content items xs m sid None m1 \<Longrightarrow> carried content items xs m1 sid r m2 \<Longrightarrow> carried content items xs m sid r m2"
  by (auto simp: carried_def on_way_after_def)

lemma carried_step:
  assumes "durable C content items m" "xs \<subseteq> recoverable content items m sid"
    and ev: "works sid ev" "user_event may ev \<or> storage_event ev" "safe_event m ev"
  shows "carried content items xs m sid (turn C m ev sid) (dm_step C m ev)"
proof -
  have laws: "crdt_laws C content items" and dur: "session_durable C content items m sid" using assms(1) by (simp_all add: durable_def)
  have "retains content items m (dm_step C m ev)" using durable_evs [OF assms(1), of "[ev]"] ev(3) by simp
  then have "xs \<subseteq> recoverable content items (dm_step C m ev) sid" using assms(2) unfolding retains_def by blast
  with stored_grows [OF laws dur ev(3,2)] evicting_step [OF laws dur ev assms(2)] on_way_step [OF laws dur ev assms(2)] show ?thesis
    by (auto simp: carried_def)
qed

lemma carried_run:
  assumes "\<forall>ev\<in>set evs. user_event may ev" "safe_run C m evs" "durable C content items m" "xs \<subseteq> recoverable content items m sid"
  shows "carried content items xs m sid None (run (dm_step C) m evs)"
  using assms
proof (induction evs arbitrary: m)
  case (Cons ev evs)
  have user: "user_event may ev" and safe: "safe_event m ev" using Cons.prems by simp_all
  have "works sid ev" using user by (cases ev) (simp_all add: works_def)
  moreover have "turn C m ev sid = None" by (rule turn_of_user [OF user])
  ultimately have step: "carried content items xs m sid None (dm_step C m ev)"
    using carried_step [OF Cons.prems(3,4) _ disjI1 [OF user] safe] by simp
  have "durable C content items (dm_step C m ev)" using durable_evs [OF Cons.prems(3), of "[ev]"] safe by simp
  from carried_trans [OF step Cons.IH [OF _ _ this]] step Cons.prems(1,2) show ?case by (simp add: carried_def)
qed (simp add: carried_refl)

definition hub_works :: "session_id \<Rightarrow> hub_event \<Rightarrow> bool" where
  "hub_works sid e \<longleftrightarrow> (\<forall>dev. storage_of e = Some dev \<longrightarrow> works sid dev)"

lemma hub_carried:
  assumes "hub_durable E content items h" "hub_safe h e" "hub_works sid e" "xs \<subseteq> recoverable content items (hb_docs h) sid"
  shows "carried content items xs (hb_docs h) sid (reply_of (he_crdt E) (hb_docs h) e sid) (hb_docs (hub_step E h e))"
proof -
  have ok: "hub_ok h" and dur: "durable (he_crdt E) content items (hb_docs h)" using assms(1) by (simp_all add: hub_durable_def)
  show ?thesis
  proof (cases "storage_of e")
    case None
    from hub_step_by [OF ok None, of E] obtain evs may where
      "\<forall>ev\<in>set evs. user_event may ev" "safe_run (he_crdt E) (hb_docs h) evs" "hb_docs (hub_step E h e) = run (dm_step (he_crdt E)) (hb_docs h) evs"
      unfolding docs_by_def by blast
    with carried_run [OF _ _ dur assms(4)] None show ?thesis by (simp add: reply_of_def)
  next
    case (Some dev)
    note step = storage_step [OF Some, of E h]
    have "works sid dev" "safe_event (hb_docs h) dev" using assms(2,3) Some by (simp_all add: hub_works_def hub_safe_def)
    from carried_step [OF dur assms(4) this(1) disjI2 this(2)] step Some show ?thesis by (simp add: reply_of_def)
  qed
qed

text \<open>Who else acts leaves a request where it is.\<close>
lemma other_requests:
  assumes "hub_auth h" "hb_requests h i \<noteq> None" "\<And>now. e \<noteq> Http_continue i now" "e \<noteq> Http_error i"
    and "\<And>now. e \<noteq> Refresh_error i now"
  shows "hb_requests (hub_step E h e) i = hb_requests h i"
proof (cases e)
  case (Ws_open w token raw)
  then show ?thesis
    by (auto simp: hub_step.simps ws_open_def reject_def Hub.finish_def set_phase_def close_connections_def Let_def split: option.split sum.split prod.split)
next
  case (Ws_continue w now saved_now)
  show ?thesis
  proof (cases "hb_conns h w")
    case (Some c)
    show ?thesis
    proof (cases "knows_role (cn_phase c)")
      case True
      from ws_continue_moved [OF Some hub_authD(1) [OF assms(1) Some] True] Some Ws_continue show ?thesis
        by (simp add: hub_step.simps ws_moved_def ws_frame_def)
    next
      case False
      with Some Ws_continue show ?thesis
        by (cases "cn_phase c") (auto simp: hub_step.simps ws_continue_def auth_user_def auth_session_def auth_member_def
            reject_def Hub.finish_def set_phase_def close_connections_def Let_def split: option.split sum.split prod.split)
    qed
  qed (use Ws_continue in \<open>simp add: hub_step.simps\<close>)
next
  case (Ws_error w)
  show ?thesis
  proof (cases "hb_conns h w")
    case (Some c)
    from ws_error_moved [OF Some hub_authD(1) [OF assms(1) Some]] Some Ws_error show ?thesis
      by (simp add: hub_step.simps ws_moved_def ws_frame_def)
  qed (use Ws_error in \<open>simp add: hub_step.simps\<close>)
next
  case (Ws_message w msg now)
  show ?thesis
  proof (cases "hb_conns h w")
    case (Some c)
    have "cn_phase c = Receiving \<Longrightarrow> ws_moved h w c (ws_receive E now h w c msg)"
      using moved_receive [OF Some] hub_authD(1) [OF assms(1) Some] by (simp add: conn_ok_def)
    with Some Ws_message show ?thesis by (simp add: hub_step.simps ws_moved_def ws_frame_def)
  qed (use Ws_message in \<open>simp add: hub_step.simps\<close>)
next
  case (Http_open j uid op s)
  with assms(2) show ?thesis
    by (auto simp: hub_step.simps http_open_def set_request_def Let_def split: option.split sum.split)
next
  case (Http_continue j now)
  with assms(3) have "j \<noteq> i" by blast
  show ?thesis
  proof (cases "hb_requests h j")
    case (Some r)
    have "hb_requests (http_continue E now h j r) i = hb_requests h i"
    proof (cases "hr_phase r = H_mutating \<or> hr_phase r = H_committed \<or> (\<exists>state. hr_phase r = H_inserting state)")
      case True
      with \<open>j \<noteq> i\<close> show ?thesis
        by (auto simp: http_continue_def http_mutate_def http_insert_def http_evict_if_idle_def unlock_def http_broadcast_def
            end_request_def set_request_def release_def split: sum.split list.split http_op.split prod.split)
    next
      case False
      with req_moved_continue [OF Some hub_authD(2) [OF assms(1) Some]] \<open>j \<noteq> i\<close> show ?thesis by (auto simp: req_moved_def)
    qed
    with Some Http_continue show ?thesis by (simp add: hub_step.simps)
  qed (use Http_continue in \<open>simp add: hub_step.simps\<close>)
next
  case (Http_error j)
  with assms(4) have "j \<noteq> i" by blast
  show ?thesis
  proof (cases "hb_requests h j")
    case (Some r)
    with \<open>j \<noteq> i\<close> Http_error show ?thesis
      by (auto simp: hub_step.simps http_error_def unlock_def http_broadcast_def end_request_def set_request_def release_def
          split: http_phase.split list.split)
  qed (use Http_error in \<open>simp add: hub_step.simps\<close>)
next
  case (Storage dev)
  then show ?thesis by (simp add: hub_step.simps)
next
  case (Refresh_error j now)
  with assms(5) have "j \<noteq> i" by blast
  have "hb_requests (http_lost now h j r) i = hb_requests h i" for r
    by (rule http_lost_cases [of now h j r]) (use \<open>j \<noteq> i\<close> in \<open>simp_all add: unlock_rooms\<close>)
  with Refresh_error show ?thesis by (simp add: hub_step.simps split: option.split)
qed (simp_all add: hub_step.simps)

text \<open>The request of \<open>maintain_document_checkpoint\<close>.\<close>
definition maintaining :: "(bytes \<Rightarrow> 'o set) \<Rightarrow> 'o set \<Rightarrow> 'd hub \<Rightarrow> nat \<Rightarrow> session_id \<Rightarrow> bool" where
  "maintaining items xs h i sid \<longleftrightarrow>
     (\<exists>r. hb_requests h i = Some r \<and> hr_op r = Maintain \<and> hr_session r = sid \<and> hr_frames r = [] \<and>
        (hr_phase r = H_queued \<or> hr_phase r = H_evicting \<and> evicting items xs (hb_docs h) sid))"

lemma maintaining_step:
  assumes dur: "hub_durable E content items h" and safe: "hub_safe h e" "hub_works sid e"
    and xs: "xs \<subseteq> recoverable content items (hb_docs h) sid" and m: "maintaining items xs h i sid" and e: "e \<noteq> Http_error i"
    and h': "h' = hub_step E h e"
  shows "if hb_requests h' i \<noteq> None then maintaining items xs h' i sid
    else if turns_left (hb_docs h') sid \<noteq> turns_left (hb_docs h) sid then on_way items xs (hb_docs h') sid (turns_left (hb_docs h') sid)
    else xs \<subseteq> stored items (hb_docs h') sid"
proof -
  obtain r where r: "hb_requests h i = Some r" "hr_op r = Maintain" "hr_session r = sid" "hr_frames r = []"
    "hr_phase r = H_queued \<or> hr_phase r = H_evicting \<and> evicting items xs (hb_docs h) sid"
    using m by (auto simp: maintaining_def)
  have auth: "hub_auth h" and laws: "crdt_laws (he_crdt E) content items" and sd: "session_durable (he_crdt E) content items (hb_docs h) sid"
    using dur by (simp_all add: hub_durable_def hub_ok_def durable_def)
  show ?thesis
  proof (cases "\<exists>now. e = Http_continue i now")
    case False
    have same: "hb_requests h' i = Some r"
    proof (cases "\<exists>now. e = Refresh_error i now")
      case True
      then obtain now where "e = Refresh_error i now" by blast
      moreover have "http_lost now h i r = h" using r(5) by (auto simp: http_lost_def)
      ultimately show ?thesis using h' r(1) by (simp add: hub_step.simps)
    next
      case False
      then show ?thesis using other_requests [OF auth, of i e E] \<open>\<nexists>now. e = Http_continue i now\<close> r(1) e h' by simp
    qed
    have "evicting items xs (hb_docs h) sid \<longrightarrow> evicting items xs (hb_docs h') sid"
      using hub_carried [OF dur safe xs] by (simp add: carried_def h')
    with same r show ?thesis by (auto simp: maintaining_def)
  next
    case True
    then obtain now where "e = Http_continue i now" by blast
    then have h': "h' = http_continue E now h i r" using h' r(1) by (simp add: hub_step.simps)
    from r(5) show ?thesis
    proof
      assume q: "hr_phase r = H_queued"
      show ?thesis
      proof (cases "hb_locks h sid = None")
        case True
        show ?thesis
        proof (cases "room_list h sid = []")
          case True
          have h2: "h' = set_request (call_docs E (h\<lparr>hb_locks := (hb_locks h)(sid \<mapsto> Http_holder i)\<rparr>) (Call sid Checkpoint_and_remove now)) i
              (r\<lparr>hr_has_connections := False\<rparr>) H_evicting"
            using h' q \<open>hb_locks h sid = None\<close> True r(2,3) by (simp add: http_continue_def http_lock_def)
          have "evicting items xs (hb_docs h') sid" using evict_call [OF laws sd xs] by (simp add: h2 set_request_def)
          moreover have "hb_requests h' i = Some (r\<lparr>hr_has_connections := False, hr_phase := H_evicting\<rparr>)"
            by (simp add: h2 set_request_def)
          ultimately show ?thesis using r by (simp add: maintaining_def)
        next
          case False
          then have "h' = end_request (call_docs E h (Call sid Checkpoint now)) i"
            using h' q \<open>hb_locks h sid = None\<close> r(2,3) by (simp add: http_continue_def http_lock_def)
          with checkpoint_call [OF laws sd xs refl, of now] show ?thesis by (auto simp: end_request_def split: if_splits)
        qed
      next
        case False
        then have "h' = h" using h' q r(3) by (simp add: http_continue_def http_lock_def)
        with m r(1) show ?thesis by simp
      qed
    next
      assume ev: "hr_phase r = H_evicting \<and> evicting items xs (hb_docs h) sid"
      show ?thesis
      proof (cases "evict_pending (hb_docs h) sid")
        case True
        then have "h' = h" using h' ev r(3) by (simp add: http_continue_def)
        with m r(1) show ?thesis by simp
      next
        case False
        then have "h' = end_request (release h sid) i" using h' ev r(3,4) by (simp add: http_continue_def unlock_def http_broadcast_def)
        moreover have "xs \<subseteq> stored items (hb_docs h) sid" using evicting_done [OF _ False] ev by blast
        ultimately show ?thesis by (simp add: end_request_def release_def)
      qed
    qed
  qed
qed

section \<open>A round of the flush\<close>

text \<open>A step in which nothing fails for the session, and the flush's request for it does not raise.\<close>
definition flush_works :: "session_id \<Rightarrow> 'd app \<Rightarrow> app_event \<Rightarrow> bool" where
  "flush_works sid a ev \<longleftrightarrow> safe_app a ev \<and>
     (case app_hub_event a ev of None \<Rightarrow> True | Some e \<Rightarrow> hub_works sid e) \<and>
     (case ap_flush a of Flush_maintaining i _ _ \<Rightarrow> ev \<noteq> Service (Hub_event (Http_error i)) | _ \<Rightarrow> True)"

text \<open>What the flush still has to do for \<open>xs\<close>, which is content of the session, or \<open>xs\<close> is in storage.\<close>
definition flush_covers :: "(bytes \<Rightarrow> 'o set) \<Rightarrow> 'o set \<Rightarrow> session_id \<Rightarrow> flush_phase \<Rightarrow> 'd hub \<Rightarrow> bool" where
  "flush_covers items xs sid p h \<longleftrightarrow> xs \<subseteq> stored items (hb_docs h) sid \<or>
     (case p of
        Flush_next todo \<Rightarrow> sid \<in> set todo
      | Flush_maintaining i s todo \<Rightarrow> sid \<in> set todo \<or> s = sid \<and> maintaining items xs h i sid
      | Flush_checkpointing k s todo \<Rightarrow> sid \<in> set todo \<or> s = sid \<and> on_way items xs (hb_docs h) sid k
      | _ \<Rightarrow> False)"

lemma on_way_turns: "on_way items xs m sid k \<Longrightarrow> k \<noteq> 0"
  by (auto simp: on_way_def split: option.splits)

lemma flush_after_covers:
  assumes "flush_covers items xs sid p h" "carried content items xs (hb_docs h) sid (reply sid) (hb_docs h')"
    and "\<And>i. maintaining items xs h i sid \<Longrightarrow> (\<exists>todo. p = Flush_maintaining i sid todo) \<Longrightarrow>
      if hb_requests h' i \<noteq> None then maintaining items xs h' i sid
      else if turns_left (hb_docs h') sid \<noteq> turns_left (hb_docs h) sid then on_way items xs (hb_docs h') sid (turns_left (hb_docs h') sid)
      else xs \<subseteq> stored items (hb_docs h') sid"
  shows "flush_covers items xs sid (flush_after p reply h h') h'"
proof (cases "xs \<subseteq> stored items (hb_docs h) sid")
  case True
  with assms(2) show ?thesis by (simp add: carried_def flush_covers_def)
next
  case out: False
  show ?thesis
  proof (cases p)
    case (Flush_maintaining i s todo)
    with out assms(1,3) show ?thesis by (auto simp: flush_covers_def flush_after_def split: if_splits)
  next
    case (Flush_checkpointing k s todo)
    then consider "sid \<in> set todo" | "s = sid" "on_way items xs (hb_docs h) sid k" using out assms(1) by (auto simp: flush_covers_def)
    then show ?thesis
    proof cases
      case 2
      then have "k \<noteq> 0" using on_way_turns by blast
      moreover have "on_way_after items xs (hb_docs h') sid k (reply sid)" using 2 assms(2) by (simp add: carried_def)
      ultimately show ?thesis using Flush_checkpointing 2(1)
        by (auto simp: flush_covers_def flush_after_def on_way_after_def split: option.split option.splits if_splits)
    qed (use Flush_checkpointing in \<open>auto simp: flush_covers_def flush_after_def split: option.split\<close>)
  qed (use out assms(1) in \<open>auto simp: flush_covers_def flush_after_def\<close>)
qed

lemma app_carried:
  assumes "hub_durable (se_hub S) content items (app_hub a)" "flush_works sid a ev" "xs \<subseteq> recoverable content items (app_docs a) sid"
  shows "\<exists>r. carried content items xs (app_docs a) sid r (app_docs (app_step S a ev)) \<and> (r = None \<or> (\<exists>sev. ev = Service sev))"
  using app_hub_step [of a ev S]
proof
  assume "\<exists>e. app_hub_event a ev = Some e \<and> app_hub (app_step S a ev) = hub_step (se_hub S) (app_hub a) e"
  then obtain e where e: "app_hub_event a ev = Some e" "app_hub (app_step S a ev) = hub_step (se_hub S) (app_hub a) e" by blast
  then have "hub_safe (app_hub a) e" "hub_works sid e" using assms(2) by (simp_all add: flush_works_def safe_app_def)
  moreover have "reply_of (he_crdt (se_hub S)) (app_docs a) e sid = None \<or> (\<exists>sev. ev = Service sev)"
    using e(1) by (auto simp: app_hub_event_def reply_of_def turn_def split: app_event.splits flush_phase.splits life_phase.splits list.splits)
  ultimately show ?thesis using hub_carried [OF assms(1) _ _ assms(3)] unfolding e(2) by blast
next
  assume "app_hub (app_step S a ev) = app_hub a \<or> (\<exists>w f. app_hub (app_step S a ev) = send_bytes (app_hub a) w f)"
  from hub_same_docs [OF assms(1) this] carried_refl [OF assms(3)] show ?thesis by auto
qed

lemma service_covers:
  assumes dur: "hub_durable (se_hub S) content items (app_hub a)" and w: "flush_works sid a (Service ev)"
    and xs: "xs \<subseteq> recoverable content items (app_docs a) sid" and c: "flush_covers items xs sid (ap_flush a) (app_hub a)"
  shows "flush_covers items xs sid (ap_flush (app_step S a (Service ev))) (app_hub (app_step S a (Service ev)))"
proof -
  let ?h' = "sv_hub (service_step S (ap_service a) ev)"
  have flush: "ap_flush (life_after reply b) = ap_flush b" for reply and b :: "'a app"
    by (simp add: life_after_def split: life_phase.split option.split reply.split document_error.split)
  have "flush_covers items xs sid (flush_after (ap_flush a) (answer S (app_hub a) ev) (app_hub a) ?h') ?h'"
  proof (cases "\<exists>e. ev = Hub_event e \<and> ?h' = hub_step (se_hub S) (app_hub a) e")
    case True
    then obtain e where e: "ev = Hub_event e" "?h' = hub_step (se_hub S) (app_hub a) e" by blast
    then have safe: "hub_safe (app_hub a) e" "hub_works sid e" using w by (simp_all add: flush_works_def safe_app_def app_hub_event_def)
    have ne: "e \<noteq> Http_error i" if "\<exists>todo. ap_flush a = Flush_maintaining i sid todo" for i
      using that w e(1) by (auto simp: flush_works_def)
    have "carried content items xs (app_docs a) sid (answer S (app_hub a) ev sid) (hb_docs ?h')"
      unfolding e(2) unfolding e(1) answer_hub by (rule hub_carried [OF dur safe xs])
    from flush_after_covers [where reply = "answer S (app_hub a) ev" and h' = ?h', OF c this maintaining_step [OF dur safe xs _ ne e(2)]]
    show ?thesis .
  next
    case False
    then have "answer S (app_hub a) ev = (\<lambda>_. None)" "?h' = app_hub a \<or> (\<exists>w f. ?h' = send_bytes (app_hub a) w f)"
      by (cases ev; auto simp: service_step_def relay_get_def relay_send_def answer_def Let_def
          split: hub_event.splits relay_phase.split list.split if_splits)+
    with c show ?thesis
      by (auto simp: flush_covers_def flush_after_def maintaining_def send_bytes_def split: flush_phase.splits)
  qed
  then show ?thesis by (simp add: app_step_def service_app_step_def Let_def life_frames flush)
qed

lemma lifespan_frames: "ap_flush (lifespan_step S a ev) = ap_flush a" "hb_requests (app_hub (lifespan_step S a ev)) = hb_requests (app_hub a)"
proof -
  have "ap_flush (lifespan_step S a ev) = ap_flush a \<and> hb_requests (app_hub (lifespan_step S a ev)) = hb_requests (app_hub a)"
  proof (cases "\<exists>s todo now. ap_life a = Saving_next (s # todo) \<and> ev = Save_go now")
    case True
    then show ?thesis by (auto simp: lifespan_step_def on_hub_def hub_step.simps call_docs_def Let_def split: prod.split option.split reply.split)
  next
    case False
    then show ?thesis by (cases "ap_life a"; cases ev) (auto simp: lifespan_step_def split: option.split list.split)
  qed
  then show "ap_flush (lifespan_step S a ev) = ap_flush a" "hb_requests (app_hub (lifespan_step S a ev)) = hb_requests (app_hub a)" by simp_all
qed

lemma flush_step_covers:
  assumes dur: "hub_durable (se_hub S) content items (app_hub a)" and w: "flush_works sid a ev"
    and xs: "xs \<subseteq> recoverable content items (app_docs a) sid" and c: "flush_covers items xs sid (ap_flush a) (app_hub a)"
  shows "flush_covers items xs sid (ap_flush (app_step S a ev)) (app_hub (app_step S a ev))"
proof (cases "\<exists>sev. ev = Service sev")
  case True
  then show ?thesis using service_covers [OF dur _ xs c] w by blast
next
  case other: False
  from app_carried [OF dur w xs] other
  have r: "carried content items xs (app_docs a) sid None (app_docs (app_step S a ev))" by blast
  show ?thesis
  proof (cases "xs \<subseteq> stored items (app_docs a) sid")
    case True
    with r show ?thesis by (simp add: carried_def flush_covers_def)
  next
    case out: False
    show ?thesis
    proof (cases "\<exists>i sessions. ev = Flush_go i \<or> ev = Flush_timeout sessions \<or> ev = Flush_stopped")
      case True
      show ?thesis
      proof (cases "\<exists>i s todo. ev = Flush_go i \<and> ap_flush a = Flush_next (s # todo) \<and> hb_requests (app_hub a) i = None")
        case go: True
        then obtain i s todo where "ev = Flush_go i" "ap_flush a = Flush_next (s # todo)" "hb_requests (app_hub a) i = None" by blast
        with c out show ?thesis
          by (auto simp: app_step_def flush_step_def on_hub_def hub_step.simps http_open_def set_request_def Let_def
              flush_covers_def maintaining_def)
      next
        case False
        with True c out have "app_step S a ev = a"
          by (cases "ap_flush a") (auto simp: app_step_def flush_step_def flush_covers_def split: list.splits)
        with c show ?thesis by simp
      qed
    next
      case False
      then have "ap_flush (app_step S a ev) = ap_flush a" "hb_requests (app_hub (app_step S a ev)) = hb_requests (app_hub a)"
        using other by (cases ev; simp add: app_step_def relay_returns_def lifespan_frames)+
      with c out r show ?thesis
        by (cases "ap_flush a") (auto simp: flush_covers_def maintaining_def carried_def on_way_after_def)
    qed
  qed
qed

definition flush_ok :: "'d service_env \<Rightarrow> ('d \<Rightarrow> 'o set) \<Rightarrow> (bytes \<Rightarrow> 'o set) \<Rightarrow> 'o set \<Rightarrow> session_id \<Rightarrow> 'd app \<Rightarrow> bool" where
  "flush_ok S content items xs sid a \<longleftrightarrow> hub_durable (se_hub S) content items (app_hub a) \<and>
     xs \<subseteq> recoverable content items (app_docs a) sid \<and> flush_covers items xs sid (ap_flush a) (app_hub a)"

definition flush_works_step :: "session_id \<Rightarrow> 'd service_env \<Rightarrow> 'd app \<Rightarrow> app_event \<Rightarrow> 'd app" where
  "flush_works_step sid S a ev = (if flush_works sid a ev then app_step S a ev else a)"

interpretation flushing: invariant_machine "flush_works_step sid S" "flush_ok S content items xs sid"
  for S :: "'d service_env" and content :: "'d \<Rightarrow> 'o set" and items :: "bytes \<Rightarrow> 'o set" and xs sid
proof unfold_locales
  show "flush_ok S content items xs sid (flush_works_step sid S a ev)" if ok: "flush_ok S content items xs sid a" for a :: "'d app" and ev
  proof (cases "flush_works sid a ev")
    case True
    have a: "hub_durable (se_hub S) content items (app_hub a)" "xs \<subseteq> recoverable content items (app_docs a) sid"
      "flush_covers items xs sid (ap_flush a) (app_hub a)" using ok by (simp_all add: flush_ok_def)
    have "hub_durable (se_hub S) content items (app_hub (app_step S a ev))"
      using safe_app_durable [OF a(1)] True by (simp add: flush_works_def)
    moreover have "xs \<subseteq> recoverable content items (app_docs (app_step S a ev)) sid"
      using app_carried [OF a(1) True a(2)] by (auto simp: carried_def)
    ultimately show ?thesis
      using flush_step_covers [OF a(1) True a(2,3)] True by (simp add: flush_ok_def flush_works_step_def)
  qed (use ok in \<open>simp add: flush_works_step_def\<close>)
qed

lemma run_flush_works: "app_run_ok (flush_works sid) S a evs \<Longrightarrow> run (app_step S) a evs = run (flush_works_step sid S) a evs"
  by (induction evs arbitrary: a) (simp_all add: flush_works_step_def)

section \<open>Properties\<close>

text \<open>C17: One round of the periodic flush makes a session durable: when it begins, whatever the application
  has for the session, and whoever edits, saves, closes or is thrown out in the meantime, by
  the time the flush waits again (or has returned) a new process restores all of it from storage alone, provided
  storage works for this session and the flush's request for it does not raise.\<close>
theorem flush_round_saves:
  fixes S :: "'d service_env"
  assumes "crdt_laws (he_crdt (se_hub S)) content items" "stored_by_program (he_crdt (se_hub S)) redis database"
    and "app_run_ok safe_app S (new_app (new_service (new_hub db (new_manager redis database)) x)) evs"
    and "a = run (app_step S) (new_app (new_service (new_hub db (new_manager redis database)) x)) evs"
    and "ap_flush a = Flush_waiting" "\<not> ap_stop a" "dm_docs (app_docs a) sid \<noteq> None \<Longrightarrow> sid \<in> set sessions"
    and "app_run_ok (flush_works sid) S a (Flush_timeout sessions # rest)"
    and "b = run (app_step S) a (Flush_timeout sessions # rest)" "ap_flush b \<in> {Flush_waiting, Flush_over}"
  shows "recoverable content items (app_docs a) sid
    \<subseteq> recoverable content items (new_manager (dm_redis (app_docs b)) (dm_db (app_docs b)) :: 'd manager) sid"
proof -
  let ?start = "new_app (new_service (new_hub db (new_manager redis database)) x) :: 'd app"
  let ?xs = "recoverable content items (app_docs a) sid"
  let ?a = "app_step S a (Flush_timeout sessions)"
  have "hub_durable (se_hub S) content items (app_hub ?start)"
    using hub_durable_new [OF assms(1,2)] by (simp add: new_app_def new_service_def)
  from safe_app_run [OF this assms(3)] have dur: "hub_durable (se_hub S) content items (app_hub a)" unfolding assms(4) .
  have step: "?a = a\<lparr>ap_flush := Flush_next sessions\<rparr>" using assms(5,6) by (simp add: app_step_def flush_step_def)
  have "session_durable (he_crdt (se_hub S)) content items (app_docs a) sid" using dur by (simp add: hub_durable_def durable_def)
  from recoverable_live(2) [OF this] assms(7) have "flush_covers items ?xs sid (Flush_next sessions) (app_hub a)"
    by (cases "dm_docs (app_docs a) sid") (simp_all add: flush_covers_def)
  with dur have "flush_ok S content items ?xs sid ?a" by (simp add: flush_ok_def step)
  from flushing.run_inv [OF this, of rest] have "flush_ok S content items ?xs sid b"
    using run_flush_works [of sid S ?a rest] assms(8,9) by simp
  with assms(10) have "?xs \<subseteq> stored items (app_docs b) sid" by (auto simp: flush_ok_def flush_covers_def)
  then show ?thesis by (simp add: recoverable_def new_manager_def stored_def db_state_def)
qed

text \<open>An edit is merged and the write of its save fails, so it is only in memory; then a round of the flush.\<close>
abbreviation failed_save :: "hub_event list" where
  "failed_save \<equiv> sample_save @ [Http_continue 0 0, Storage (Resume 7 (Io_failed False) 0), Http_error 0]"

abbreviation sample_round :: "app_event list" where
  "sample_round \<equiv> [Flush_go 0, Service (Hub_event (Http_continue 0 0)), storage (Resume 7 Io_ok 0),
     Service (Hub_event (Http_continue 0 0)), Flush_go 0]"

lemmas failed_save_eval = hub_eval dm_eval CRDT_MAX_UPDATE_BYTES_def http_loaded_def http_error_def unlock_def http_broadcast_def
  end_request_def release_def hub_safe_def

lemma failed_save_hub:
  fixes h defines "h \<equiv> run (hub_step sample_hub_env) sample_hub failed_save"
  shows "hub_safe_run sample_hub_env sample_hub failed_save"
    and "hb_docs h = saving_docs\<lparr>dm_tasks := Map.empty, dm_guards := [7 \<mapsto> 0]\<rparr>"
    and "hb_requests h = Map.empty" "hb_locks h = Map.empty" "hb_rooms h = Map.empty"
  unfolding h_def by (simp_all add: failed_save_eval)

lemma sample_round_runs:
  assumes "hb_docs h = saving_docs\<lparr>dm_tasks := Map.empty, dm_guards := [7 \<mapsto> 0]\<rparr>"
    and "hb_requests h = Map.empty" "hb_locks h = Map.empty" "hb_rooms h = Map.empty"
    and "a = new_app ((new_service sample_hub claimed_world)\<lparr>sv_hub := h\<rparr>)"
  shows "ap_flush (run (app_step sample_service_env) a (Flush_timeout [7] # sample_round)) = Flush_waiting"
    "app_run_ok (flush_works 7) sample_service_env a (Flush_timeout [7] # sample_round)"
  using assms(1-4) unfolding assms(5)
  by (simp_all add: app_eval dm_eval flush_works_def safe_app_def app_hub_event_def hub_safe_def hub_works_def works_def hub_step.simps
      call_docs_def settle_reply sample_hub_env_def http_open_def http_continue_def http_lock_def set_request_def room_list_def
      unlock_def http_broadcast_def end_request_def release_def evict_pending_def)

theorem flush_round_saves_witness:
  "\<exists>b. b = run (app_step sample_service_env) (new_app (new_service sample_hub claimed_world))
       (map (Service \<circ> Hub_event) failed_save @ Flush_timeout [7] # sample_round) \<and>
     (0, 2) \<in> recoverable set (set \<circ> sample_items) (new_manager (dm_redis (app_docs b)) (dm_db (app_docs b)) :: sample_doc manager) 7"
proof -
  let ?start = "new_app (new_service sample_hub claimed_world)"
  let ?evs = "map (Service \<circ> Hub_event) failed_save"
  let ?h = "run (hub_step sample_hub_env) sample_hub failed_save"
  let ?a = "new_app ((new_service sample_hub claimed_world)\<lparr>sv_hub := ?h\<rparr>)"
  note runs = hub_runs [of ?start failed_save sample_service_env]
  have a: "run (app_step sample_service_env) ?start ?evs = ?a"
    by (subst runs(1)) (simp_all add: new_app_def new_service_def)
  have safe: "app_run_ok safe_app sample_service_env ?start ?evs"
    by (subst runs(2)) (use failed_save_hub(1) in \<open>simp_all add: new_app_def new_service_def\<close>)
  have laws: "crdt_laws (he_crdt (se_hub sample_service_env)) set (set \<circ> sample_items)"
    "stored_by_program (he_crdt (se_hub sample_service_env)) Map.empty Map.empty"
    using sample_crdt_laws by (simp_all add: sample_hub_env_def stored_by_program_empty)
  have waiting: "ap_flush ?a = Flush_waiting" "\<not> ap_stop ?a" by (simp_all add: new_app_def)
  note round = sample_round_runs [OF failed_save_hub(2-5) refl]
  have docs: "(0, 2) \<in> recoverable set (set \<circ> sample_items) (app_docs ?a) 7"
  proof -
    have "app_docs ?a = saving_docs\<lparr>dm_tasks := Map.empty, dm_guards := [7 \<mapsto> 0]\<rparr>"
      unfolding failed_save_hub(2) [symmetric] by (simp only: new_app_def new_service_def app.simps service.simps)
    then show ?thesis by (simp add: recoverable_def)
  qed
  let ?b = "run (app_step sample_service_env) ?a (Flush_timeout [7] # sample_round)"
  from flush_round_saves [OF laws safe a [symmetric] waiting _ round(2) refl] round(1) docs
  have "(0, 2) \<in> recoverable set (set \<circ> sample_items) (new_manager (dm_redis (app_docs ?b)) (dm_db (app_docs ?b)) :: sample_doc manager) 7"
    by auto
  moreover have "?b = run (app_step sample_service_env) ?start (?evs @ Flush_timeout [7] # sample_round)"
    using run_append [of "app_step sample_service_env" ?start ?evs "Flush_timeout [7] # sample_round"] a by (simp only:)
  ultimately show ?thesis by (intro exI [of _ ?b] conjI) (simp_all only:)
qed

end
