(* ===== verification/Saving.thy ===== *)
theory Saving
  imports Flushing
begin

text \<open>The answer of an explicit save (\<open>sessions/router.py\<close>, \<open>save_session_document\<close>; \<open>document.py\<close>, \<open>persist_to_db\<close>):
  what \<open>DocumentSaveResponse\<close> says about the database. \<open>writes_all\<close> is the invariant: a database write that
  is under way carries some content, given that the session has had it since before the write began. A client reads
  the state vector of the answer with a base64 decoder (\<open>read_base64\<close>, RFC 4648).\<close>

section \<open>Reading base64\<close>

definition base64_value :: "nat \<Rightarrow> nat option" where
  "base64_value c =
     (if 65 \<le> c \<and> c \<le> 90 then Some (c - 65) else if 97 \<le> c \<and> c \<le> 122 then Some (c - 71)
      else if 48 \<le> c \<and> c \<le> 57 then Some (c + 4) else if c = 43 then Some 62 else if c = 47 then Some 63 else None)"

lemma base64_value_char [simp]: "n < 64 \<Longrightarrow> base64_value (base64_char n) = Some n"
  by (auto simp: base64_value_def base64_char_def)

lemma base64_char_pad [simp]: "base64_char n \<noteq> 61"
  by (auto simp: base64_char_def)

fun read_base64 :: "pystr \<Rightarrow> bytes option" where
  "read_base64 [] = Some []"
| "read_base64 (p # q # r # s # rest) =
     (case (base64_value p, base64_value q) of
        (Some i, Some j) \<Rightarrow>
          if rest = [] \<and> r = 61 \<and> s = 61 then Some [of_nat (i * 4 + j div 16)]
          else (case base64_value r of
             None \<Rightarrow> None
           | Some k \<Rightarrow>
               if rest = [] \<and> s = 61 then Some [of_nat (i * 4 + j div 16), of_nat (j mod 16 * 16 + k div 4)]
               else (case base64_value s of
                  None \<Rightarrow> None
                | Some l \<Rightarrow> map_option (\<lambda>bs. [of_nat (i * 4 + j div 16), of_nat (j mod 16 * 16 + k div 4), of_nat (k mod 4 * 64 + l)] @ bs)
                    (read_base64 rest)))
      | _ \<Rightarrow> None)"
| "read_base64 _ = None"

lemma sextets:
  fixes i j k l :: nat
  assumes "n = ((i * 64 + j) * 64 + k) * 64 + l" "j < 64" "k < 64" "l < 64"
  shows "n div 262144 = i" "n div 4096 mod 64 = j" "n div 64 mod 64 = k" "n mod 64 = l"
proof -
  have "n div 64 = (i * 64 + j) * 64 + k" using assms by simp
  moreover have "n mod 64 = l" "((i * 64 + j) * 64 + k) mod 64 = k"
    by (simp_all only: assms(1) mod_mult_self3 mod_less [OF assms(4)] mod_less [OF assms(3)])
  moreover have "n div 4096 = i * 64 + j" "n div 262144 = i"
    using calculation assms div_mult2_eq [of n 64 64] div_mult2_eq [of n 64 4096] by simp_all
  ultimately show "n div 262144 = i" "n div 4096 mod 64 = j" "n div 64 mod 64 = k" "n mod 64 = l" using assms by (simp_all del: distrib_right_numeral)
qed

lemma byte_digits:
  fixes a b c :: byte
  defines "n \<equiv> unat a * 65536 + unat b * 256 + unat c"
  obtains i j k l where "n div 262144 = i" "n div 4096 mod 64 = j" "n div 64 mod 64 = k" "n mod 64 = l"
    "i < 64" "j < 64" "k < 64" "l < 64" "i * 4 + j div 16 = unat a" "j mod 16 * 16 + k div 4 = unat b" "k mod 4 * 64 + l = unat c"
proof -
  have byte: "unat x < 256" for x :: byte by transfer (simp add: take_bit_eq_mod nat_less_iff)
  note lt = byte [of a] byte [of b] byte [of c]
  define i j k l where "i = unat a div 4" and "j = unat a mod 4 * 16 + unat b div 16"
    and "k = unat b mod 16 * 4 + unat c div 64" and "l = unat c mod 64"
  note parts = this
  have less: "i < 64" "j < 64" "k < 64" "l < 64" using lt by (simp_all add: parts)
  have "unat a = unat a div 4 * 4 + unat a mod 4" "unat b = unat b div 16 * 16 + unat b mod 16"
    "unat c = unat c div 64 * 64 + unat c mod 64" by simp_all
  moreover have "(a1 * 4 + a2) * 65536 + (b1 * 16 + b2) * 256 + (c1 * 64 + c2)
      = ((a1 * 64 + (a2 * 16 + b1)) * 64 + (b2 * 4 + c1)) * 64 + c2" for a1 a2 b1 b2 c1 c2 :: nat by simp
  ultimately have "n = ((i * 64 + j) * 64 + k) * 64 + l" unfolding n_def parts by metis
  note digits = sextets [OF this less(2-4)]
  have "i * 4 + j div 16 = unat a" "j mod 16 * 16 + k div 4 = unat b" "k mod 4 * 64 + l = unat c"
    using lt by (simp_all add: parts)
  with that digits less show ?thesis by blast
qed

lemma read_base64_encode: "read_base64 (b64encode bs) = Some bs"
proof (induction bs rule: b64encode.induct)
  case (2 a)
  obtain i j k l where "unat a * 65536 div 262144 = i" "unat a * 65536 div 4096 mod 64 = j" "i < 64" "j < 64" "i * 4 + j div 16 = unat a"
    using byte_digits [of a 0 0] by (metis add_0_right mult_zero_left unsigned_0)
  then show ?case by (simp only: b64encode.simps Let_def) simp
next
  case (3 a b)
  obtain i j k where "(unat a * 65536 + unat b * 256) div 262144 = i" "(unat a * 65536 + unat b * 256) div 4096 mod 64 = j"
    "(unat a * 65536 + unat b * 256) div 64 mod 64 = k"
    "i < 64" "j < 64" "k < 64" "i * 4 + j div 16 = unat a" "j mod 16 * 16 + k div 4 = unat b"
    using byte_digits [of a b 0] by (metis add_0_right unsigned_0)
  then show ?case by (simp only: b64encode.simps Let_def) simp
next
  case (4 a b c rest)
  let ?n = "unat a * 65536 + unat b * 256 + unat c"
  obtain i j k l where d: "?n div 262144 = i" "?n div 4096 mod 64 = j" "?n div 64 mod 64 = k" "?n mod 64 = l"
    and v: "i < 64" "j < 64" "k < 64" "l < 64" "i * 4 + j div 16 = unat a" "j mod 16 * 16 + k div 4 = unat b" "k mod 4 * 64 + l = unat c"
    by (rule byte_digits)
  have "b64encode (a # b # c # rest) = base64_char i # base64_char j # base64_char k # base64_char l # b64encode rest"
    by (simp only: b64encode.simps Let_def d append.simps)
  with v 4 show ?case by simp
qed simp

section \<open>The answer\<close>

record DocumentSaveResponse =
  ds_session_id :: uuid
  ds_size_bytes :: nat
  ds_saved_at :: datetime
  ds_state_vector :: pystr
  ds_state_hash :: pystr
  ds_dirty :: bool

definition save_response :: "uuid \<Rightarrow> DocumentSaveResult \<Rightarrow> DocumentSaveResponse" where
  "save_response session_id result =
     \<lparr>ds_session_id = session_id, ds_size_bytes = sr_size_bytes result, ds_saved_at = sr_saved_at result,
      ds_state_vector = b64encode (sr_state_vector result), ds_state_hash = sr_state_hash result,
      ds_dirty = sr_dirty result\<rparr>"

section \<open>Database writes\<close>

definition writing :: "'d manager \<Rightarrow> session_id \<Rightarrow> bool" where
  "writing m sid \<longleftrightarrow> (\<exists>u sv hash ts. dm_tasks m sid = Some (Await_db_write u sv hash ts))"

text \<open>A write under way is of a document with at least \<open>xs\<close>.\<close>
definition writes_all :: "'d crdt \<Rightarrow> ('d \<Rightarrow> 'o set) \<Rightarrow> 'o set \<Rightarrow> session_id \<Rightarrow> 'd manager \<Rightarrow> bool" where
  "writes_all C content xs sid m \<longleftrightarrow>
     (\<forall>u sv hash ts. dm_tasks m sid = Some (Await_db_write u sv hash ts) \<longrightarrow>
        (\<exists>d. xs \<subseteq> content d \<and> u = doc_update C d \<and> sv = doc_state C d \<and> hash = sha256 C u))"

text \<open>A write begins with the live document.\<close>
lemma persist_begin_task:
  "persist_begin C now m d = (m', Suspend t) \<Longrightarrow> m' = m \<and> t = Await_db_write (doc_update C d) (doc_state C d) (sha256 C (doc_update C d)) now"
  by (simp add: persist_begin_def Let_def)

lemma settle_task: "dm_tasks (fst (settle sid mp)) sid = (case snd mp of Suspend t \<Rightarrow> Some t | Done r \<Rightarrow> None)"
  by (cases mp; cases "snd mp") (simp_all add: settle_def leave_guard_def Let_def)

lemma begin_write:
  "snd (begin_request C now m sid req) = Suspend (Await_db_write u sv hash ts) \<Longrightarrow>
   \<exists>d. dm_docs (fst (begin_request C now m sid req)) sid = Some d \<and> u = doc_update C d \<and> sv = doc_state C d \<and> hash = sha256 C u"
  by (cases req) (auto simp: load_begin_def checkpoint_begin_def persist_begin_def Let_def split: option.splits)

lemma resume_write:
  "snd (resume_task C now m sid t outcome) = Suspend (Await_db_write u sv hash ts) \<Longrightarrow>
   \<exists>d. dm_docs (fst (resume_task C now m sid t outcome)) sid = Some d \<and> u = doc_update C d \<and> sv = doc_state C d \<and> hash = sha256 C u"
  by (cases t; cases outcome)
    (auto simp: resume_db_read_def resume_redis_get_def resume_redis_set_def resume_db_write_def persist_begin_def end_loading_def Let_def
      split: option.splits prod.splits after_load.splits)

lemma write_begins:
  assumes "dm_tasks (dm_step C m ev) sid = Some (Await_db_write u sv hash ts)" "dm_tasks m sid \<noteq> Some (Await_db_write u sv hash ts)"
  shows "\<exists>d. dm_docs (dm_step C m ev) sid = Some d \<and> u = doc_update C d \<and> sv = doc_state C d \<and> hash = sha256 C u"
proof (cases "ev_session ev = sid")
  case False
  then have "same_at sid m (dm_step C m ev)" by (intro same_at_event) simp
  with assms show ?thesis by (simp add: same_at_def)
next
  case sid: True
  show ?thesis
  proof (cases ev)
    case (Call s req now)
    with sid assms begin_write [of C now "enter_guard m sid" sid req] show ?thesis
      by (auto simp: dm_step_def settle_task enter_frames Let_def split: if_splits progress.splits)
  next
    case (Wake s now)
    with sid assms show ?thesis
      by (auto simp: dm_step_def settle_task split: option.splits list.splits progress.splits dest!: begin_write)
  next
    case (Resume s outcome now)
    with sid assms show ?thesis
      by (auto simp: dm_step_def settle_task split: option.splits progress.splits dest!: resume_write)
  qed (use assms sync_frames [of "\<lambda>_. True" ev m C] sid in
      \<open>auto simp: same_queue_def dm_step_def remove_doc_def leave_guard_def Let_def split: option.splits if_splits prod.splits\<close>)
qed

lemma saved_write:
  assumes "dm_event C m ev = (m', Some (Saved res))" "ev_session ev = sid"
  shows "\<exists>u sv hash ts. dm_tasks m sid = Some (Await_db_write u sv hash ts) \<and> dm_db m' sid = map_option (\<lambda>_. (Some u, ts)) (dm_db m sid) \<and>
    (\<exists>d. dm_docs m' sid = Some d \<and> res = \<lparr>sr_size_bytes = length u, sr_saved_at = ts, sr_state_vector = sv, sr_state_hash = hash,
       sr_dirty = (sha256 C (doc_update C d) \<noteq> hash)\<rparr>)"
proof -
  have no_begin: "snd (settle s (begin_request C now n s req)) \<noteq> Some (Saved res)" for s now n req
    by (cases req) (auto simp: settle_reply load_begin_def checkpoint_begin_def persist_begin_def Let_def split: option.split progress.split)
  have ev: "\<exists>outcome now t. ev = Resume sid outcome now \<and> dm_tasks m sid = Some t \<and>
      settle sid (resume_task C now m sid t outcome) = (m', Some (Saved res))"
    using assms no_begin by (cases ev) (auto simp: Let_def prod_eq_iff split: if_splits option.splits list.splits prod.splits)
  then obtain outcome now t where e: "dm_tasks m sid = Some t" "settle sid (resume_task C now m sid t outcome) = (m', Some (Saved res))" by blast
  obtain n p where n: "resume_task C now m sid t outcome = (n, p)" by fastforce
  then have p: "p = Done (Saved res)" "m' = leave_guard (n\<lparr>dm_tasks := (dm_tasks n)(sid := None)\<rparr>) sid"
    using e(2) by (cases p; simp add: settle_def)+
  then show ?thesis using e(1) n
    by (cases t; cases outcome) (auto simp: resume_db_read_def resume_redis_get_def resume_redis_set_def resume_db_write_def write_db_def
        persist_begin_def leave_guard_def Let_def split: option.splits prod.splits after_load.splits if_splits)
qed

lemma db_row: "dm_db (dm_step C m ev) sid = None \<longleftrightarrow> dm_db m sid = None"
proof (cases "ev_session ev = sid")
  case False
  then have "same_at sid m (dm_step C m ev)" by (intro same_at_event) simp
  then show ?thesis by (simp add: same_at_def)
next
  case sid: True
  have "dm_db (fst (resume_task C now m sid t outcome)) sid = None \<longleftrightarrow> dm_db m sid = None" for now t outcome
    by (cases t; cases outcome) (auto simp: resume_db_read_def resume_redis_get_def resume_redis_set_def resume_db_write_def write_db_def
        write_redis_def persist_begin_def end_loading_def Let_def split: option.splits prod.splits after_load.splits)
  with sid show ?thesis
    using sync_frames [of "\<lambda>_. True" ev m C]
    by (cases ev) (auto simp: dm_step_def same_queue_def settle_frames begin_frames enter_frames remove_doc_def leave_guard_def Let_def
        split: option.split list.split prod.splits if_splits)
qed

lemma rows_stay: "dm_db (run (dm_step C) m evs) sid = None \<longleftrightarrow> dm_db m sid = None"
  by (induction evs arbitrary: m) (simp_all only: run.simps db_row)

lemma writes_all_step:
  assumes "durable C content items m" "safe_event m ev" "xs \<subseteq> recoverable content items m sid" "writes_all C content xs sid m"
  shows "writes_all C content xs sid (dm_step C m ev)"
  unfolding writes_all_def
proof (intro allI impI)
  let ?m = "dm_step C m ev"
  fix u sv hash ts
  assume t: "dm_tasks ?m sid = Some (Await_db_write u sv hash ts)"
  have ok: "durable C content items ?m" "retains content items m ?m" using durable_evs [OF assms(1), of "[ev]"] assms(2) by simp_all
  show "\<exists>d. xs \<subseteq> content d \<and> u = doc_update C d \<and> sv = doc_state C d \<and> hash = sha256 C u"
  proof (cases "dm_tasks m sid = Some (Await_db_write u sv hash ts)")
    case True
    with assms(4) show ?thesis by (simp add: writes_all_def)
  next
    case False
    from write_begins [OF t False] obtain d where
      d: "dm_docs ?m sid = Some d" "u = doc_update C d" "sv = doc_state C d" "hash = sha256 C u" by blast
    have "session_durable C content items ?m sid" using ok(1) by (simp add: durable_def)
    from recoverable_live(1) [OF this d(1)] have "xs \<subseteq> content d"
      using assms(3) ok(2) unfolding retains_def by blast
    with d show ?thesis by blast
  qed
qed

text \<open>What holds of a session from the moment it has \<open>xs\<close>.\<close>
definition saving_ok :: "'d crdt \<Rightarrow> ('d \<Rightarrow> 'o set) \<Rightarrow> (bytes \<Rightarrow> 'o set) \<Rightarrow> 'o set \<Rightarrow> session_id \<Rightarrow> 'd manager \<Rightarrow> bool" where
  "saving_ok C content items xs sid m \<longleftrightarrow> durable C content items m \<and> xs \<subseteq> recoverable content items m sid \<and>
     writes_all C content xs sid m \<and> dm_db m sid \<noteq> None"

interpretation saving: invariant_machine "safe_step C" "saving_ok C content items xs sid"
  for C :: "'d crdt" and content :: "'d \<Rightarrow> 'o set" and items :: "bytes \<Rightarrow> 'o set" and xs sid
proof unfold_locales
  show "saving_ok C content items xs sid (safe_step C m ev)" if ok: "saving_ok C content items xs sid m" for m :: "'d manager" and ev
  proof (cases "safe_event m ev")
    case True
    have m: "durable C content items m" "xs \<subseteq> recoverable content items m sid" "writes_all C content xs sid m"
      using ok by (simp_all add: saving_ok_def)
    have "durable C content items (dm_step C m ev)" "retains content items m (dm_step C m ev)"
      using durable_evs [OF m(1), of "[ev]"] True by simp_all
    with writes_all_step [OF m(1) True m(2,3)] ok True show ?thesis
      by (auto simp: saving_ok_def safe_step_def db_row retains_def)
  qed (use ok in \<open>simp add: safe_step_def\<close>)
qed

section \<open>Properties\<close>

text \<open>C8: An answered save is in the database: when \<open>persist_to_db\<close> returns, the row of the session holds a
  document with everything the session had at any earlier moment at which no other save of it was being
  written, as long as no read of a checkpoint failed during a load and no checkpoint expired before the save (\<open>safe_run\<close>,
  see \<open>Durability.accepted_updates_survive\<close>); the uploaded state that was merged before the save is part of that. The response names exactly that row: its
  size, its time, its hash, and a state vector the client decodes to the one of the stored document; and if
  it is not dirty, the hash of the live document is the stored one too.\<close>
theorem answered_save_is_stored:
  fixes C :: "'d crdt"
  assumes "crdt_laws C content items" "stored_by_program C redis database" "database sid \<noteq> None"
    and "safe_run C (new_manager redis database) evs" "m = run (dm_step C) (new_manager redis database) evs" "\<not> writing m sid"
    and "safe_run C m rest" "dm_event C (run (dm_step C) m rest) ev = (m', Some (Saved result))" "ev_session ev = sid"
  shows "\<exists>d. dm_db m' sid = Some (Some (doc_update C d), ds_saved_at (save_response session_id result)) \<and>
    recoverable content items m sid \<subseteq> items (doc_update C d) \<and>
    ds_size_bytes (save_response session_id result) = length (doc_update C d) \<and>
    ds_state_hash (save_response session_id result) = sha256 C (doc_update C d) \<and>
    read_base64 (ds_state_vector (save_response session_id result)) = Some (doc_state C d) \<and>
    (\<not> ds_dirty (save_response session_id result) \<longrightarrow>
       (\<exists>live. dm_docs m' sid = Some live \<and> sha256 C (doc_update C live) = sha256 C (doc_update C d)))"
proof -
  let ?xs = "recoverable content items m sid" and ?n = "run (dm_step C) m rest"
  have "dm_db m sid \<noteq> None" unfolding assms(5) rows_stay using assms(3) by (simp add: new_manager_def)
  moreover have "durable C content items m" unfolding assms(5) by (rule durable_run [OF assms(1,2,4)])
  ultimately have "saving_ok C content items ?xs sid m" using assms(6) by (simp add: saving_ok_def writes_all_def writing_def)
  from saving.run_inv [OF this, of rest] have ok: "saving_ok C content items ?xs sid ?n" by (simp add: run_safe [OF assms(7)])
  from saved_write [OF assms(8,9)] obtain u sv hash ts live where
    w: "dm_tasks ?n sid = Some (Await_db_write u sv hash ts)" "dm_db m' sid = map_option (\<lambda>_. (Some u, ts)) (dm_db ?n sid)"
      "dm_docs m' sid = Some live" "result = \<lparr>sr_size_bytes = length u, sr_saved_at = ts, sr_state_vector = sv, sr_state_hash = hash,
         sr_dirty = (sha256 C (doc_update C live) \<noteq> hash)\<rparr>" by blast
  then obtain d where "?xs \<subseteq> content d" "u = doc_update C d" "sv = doc_state C d" "hash = sha256 C u"
    using ok by (auto simp: saving_ok_def writes_all_def)
  with w ok crdt_lawsD(3) [OF assms(1)] show ?thesis
    by (intro exI [of _ d]) (auto simp: saving_ok_def save_response_def read_base64_encode)
qed

theorem answered_save_is_stored_witness:
  "\<exists>(m' :: sample_doc manager) result d. dm_db m' 1 = Some (Some (doc_update sample_crdt d), 5) \<and> (3, 7) \<in> set (sample_items (doc_update sample_crdt d)) \<and>
     read_base64 (ds_state_vector (save_response 1 result)) = Some (doc_state sample_crdt d)"
proof -
  let ?start = "new_manager Map.empty [1 \<mapsto> (None, 0)] :: sample_doc manager"
  let ?evs = "sample_load @ [Sync_apply 1 (sample_update [(3, 7)])]"
  let ?m = "run (dm_step sample_crdt) ?start ?evs"
  have s: "stored_by_program sample_crdt Map.empty [1 \<mapsto> (None, 0)]" by (simp add: stored_by_program_def)
  have safe: "safe_run sample_crdt ?start ?evs" "safe_run sample_crdt ?m [Call 1 Persist 5]" "\<not> writing ?m 1"
    by (simp_all add: dm_eval writing_def)
  have docs: "(3, 7) \<in> recoverable set (set \<circ> sample_items) ?m 1" by (simp add: dm_eval recoverable_def)
  obtain m' result where r: "dm_event sample_crdt (run (dm_step sample_crdt) ?m [Call 1 Persist 5]) (Resume 1 Io_ok 5) = (m', Some (Saved result))"
    "sr_saved_at result = 5"
    by (simp add: dm_eval)
  have row: "[1 \<mapsto> (None, 0)] 1 \<noteq> None" by simp
  have at: "ev_session (Resume 1 Io_ok 5) = 1" by simp
  obtain d where d: "dm_db m' 1 = Some (Some (doc_update sample_crdt d), ds_saved_at (save_response 1 result))"
    "recoverable set (set \<circ> sample_items) ?m 1 \<subseteq> (set \<circ> sample_items) (doc_update sample_crdt d)"
    "read_base64 (ds_state_vector (save_response 1 result)) = Some (doc_state sample_crdt d)"
    using answered_save_is_stored [OF sample_crdt_laws s row safe(1) refl safe(3,2) r(1) at] by blast
  then have "(3, 7) \<in> set (sample_items (doc_update sample_crdt d))" using docs by auto
  moreover have "ds_saved_at (save_response 1 result) = 5" using r(2) by (simp add: save_response_def)
  ultimately show ?thesis using d by metis
qed

end
