(* ===== verification/RunDocument.thy ===== *)
theory RunDocument
  imports Relay
begin

text \<open>Running a document: the endpoint \<open>run_document\<close> (\<open>app/execution/router.py\<close>) between the hub, where it takes
  the room lock, loads the document and reads its text, and the jobs, where it submits what it read
  after the lock is gone. The machine is that of theory Relay with the captured text of every such
  request; \<open>runs_ok\<close> traces every execution back to the moment its code was read.\<close>

section \<open>Capturing the document\<close>

text \<open>What \<open>run_document\<close> keeps after it has left the room lock.\<close>
record capture =
  cp_session :: uuid
  cp_user :: uuid
  cp_code :: pystr
  cp_language :: LanguageEnum

record 'd runs =
  rn_service :: "'d service"
  rn_captured :: "nat \<Rightarrow> capture option"

datatype run_event =
    Service_event service_event
  | Submit_run nat nat uuid datetime io

definition new_runs :: "'d service \<Rightarrow> 'd runs" where
  "new_runs s = \<lparr>rn_service = s, rn_captured = Map.empty\<rparr>"

text \<open>The code and the language, once the document is loaded: \<open>db.get(Session)\<close> answers from the request's
  identity map.\<close>
definition capture_document :: "'d crdt \<Rightarrow> 'd hub \<Rightarrow> http \<Rightarrow> capture option" where
  "capture_document C h r =
     (let sid = hr_session r
      in if hr_op r = Run_document \<and> hr_phase r = H_loading \<and> \<not> load_pending (hb_docs h) sid \<and> dm_docs (hb_docs h) sid \<noteq> None
         then (case dget (db_sessions (identity_map (hr_view r) (hb_db h))) sid of
                 None \<Rightarrow> None
               | Some session \<Rightarrow> Some \<lparr>cp_session = sid, cp_user = hr_user r, cp_code = read_text C (hb_docs h) sid,
                   cp_language = s_language session\<rparr>)
         else None)"

text \<open>A request whose identifier still stands for a captured run is not opened again, and executions are
  submitted by \<open>run_document\<close> alone.\<close>
definition run_step :: "'d service_env \<Rightarrow> 'd runs \<Rightarrow> run_event \<Rightarrow> 'd runs" where
  "run_step S s ev =
     (let h = sv_hub (rn_service s)
      in case ev of
           Service_event (Exec_event (Submit _ _ _ _ _ _ _ _)) \<Rightarrow> s
         | Service_event (Hub_event (Http_open i user_id op sid)) \<Rightarrow>
             if rn_captured s i \<noteq> None then s
             else s\<lparr>rn_service := service_step S (rn_service s) (Hub_event (Http_open i user_id op sid))\<rparr>
         | Service_event (Hub_event (Http_continue i now)) \<Rightarrow>
             let captured = (case hb_requests h i of None \<Rightarrow> None | Some r \<Rightarrow> capture_document (he_crdt (se_hub S)) h r)
             in s\<lparr>rn_service := service_step S (rn_service s) (Hub_event (Http_continue i now)),
                  rn_captured := (case captured of None \<Rightarrow> rn_captured s | Some c \<Rightarrow> (rn_captured s)(i \<mapsto> c))\<rparr>
         | Service_event ev \<Rightarrow> s\<lparr>rn_service := service_step S (rn_service s) ev\<rparr>
         | Submit_run i n new_id now io \<Rightarrow>
             (case rn_captured s i of
                None \<Rightarrow> s
              | Some c \<Rightarrow>
                  if hb_requests h i \<noteq> None then s
                  else s\<lparr>rn_service := service_step S (rn_service s)
                           (Exec_event (Submit n new_id now (cp_session c) (cp_user c) (cp_code c) (cp_language c) io)),
                         rn_captured := (rn_captured s)(i := None)\<rparr>))"

section \<open>Where executions come from\<close>

lemma continue_ids: "ew_ids (continue_request w n q io now) = ew_ids w"
  by (cases q) (auto simp: continue_request_def Let_def split: option.split sum.split)

lemma exec_ids: "ew_ids (exec_step E w ev) = ew_ids w \<or>
  (\<exists>n new_id now sid user code language io. ev = Submit n new_id now sid user code language io \<and> ew_ids (exec_step E w ev) \<subseteq> insert new_id (ew_ids w))"
proof (cases ev)
  case (Submit n new_id now sid user code language io)
  then show ?thesis by (auto simp: exec_step_def submit_def Let_def split: option.split)
next
  case (Worker i)
  then show ?thesis using w_step_moves [of w E i] by (simp add: exec_step_def worker_moves_def)
next
  case (Cancel n sid xid now io)
  then show ?thesis by (auto simp: exec_step_def cancel_def Let_def split: sum.split)
next
  case (Request n io now)
  then show ?thesis by (auto simp: exec_step_def continue_ids split: option.split)
qed (use stream_moves [of w E ev] in \<open>auto simp: exec_step_def worker_moves_def Let_def split: option.split\<close>)

lemma submitted_row:
  assumes "rows (submit w n new_id now sid user code language io) new_id = Some y" "rows w new_id = None"
  shows "x_session_id y = sid \<and> x_triggered_by y = Some user \<and> x_code y = code \<and> x_language y = language"
  using assms by (auto simp: submit_def insert_execution_def Let_def split: if_splits)

text \<open>A row is the one there was, moved on, or it was submitted in this step.\<close>
lemma row_origin:
  assumes ok: "exec_ok w" and y: "rows (exec_step E w ev) xid = Some y"
  shows "(\<exists>x. rows w xid = Some x \<and> row_below x y) \<or>
    (\<exists>n now sid user code language io. ev = Submit n xid now sid user code language io \<and> x_session_id y = sid \<and>
       x_triggered_by y = Some user \<and> x_code y = code \<and> x_language y = language)"
proof (cases "xid \<in> ew_ids w")
  case True
  with exec_step_ok [OF ok, of E ev] y show ?thesis by (cases "rows w xid") (auto simp: exec_below_def)
next
  case False
  then have none: "rows w xid = None" using exec_okD(1) [OF ok] by (cases "rows w xid") auto
  have "xid \<in> ew_ids (exec_step E w ev)" using exec_step_ok [OF ok, of E ev] exec_okD(1) y by blast
  with exec_ids [of E w ev] False obtain n now sid user code language io where ev: "ev = Submit n xid now sid user code language io"
    by auto
  with y have "rows (submit w n xid now sid user code language io) xid = Some y" by (simp add: exec_step_def)
  from submitted_row [OF this none] ev show ?thesis by blast
qed

text \<open>What a capture says of the hub it was made in.\<close>
definition shows_now :: "'d crdt \<Rightarrow> 'd hub \<Rightarrow> capture \<Rightarrow> bool" where
  "shows_now C h c \<longleftrightarrow>
     may_edit (hb_db h) (cp_session c) (cp_user c) \<and>
     (\<exists>d. dm_docs (hb_docs h) (cp_session c) = Some d \<and> cp_code c = doc_text C d) \<and>
     (\<exists>i r session. hb_requests h i = Some r \<and> hr_op r = Run_document \<and> hr_session r = cp_session c \<and> hr_user r = cp_user c \<and>
        dget (db_sessions (identity_map (hr_view r) (hb_db h))) (cp_session c) = Some session \<and> cp_language c = s_language session)"

lemma capture_shows:
  assumes "hub_auth h" "hb_requests h i = Some r" "capture_document C h r = Some c"
  shows "shows_now C h c"
proof -
  from assms(3) obtain session d where c: "hr_op r = Run_document" "hr_phase r = H_loading" "dm_docs (hb_docs h) (hr_session r) = Some d"
    "dget (db_sessions (identity_map (hr_view r) (hb_db h))) (hr_session r) = Some session"
    "c = \<lparr>cp_session = hr_session r, cp_user = hr_user r, cp_code = doc_text C d, cp_language = s_language session\<rparr>"
    by (auto simp: capture_document_def Let_def read_text_def split: if_splits option.splits)
  moreover have "may_edit (hb_db h) (hr_session r) (hr_user r)" using request_may_edit [OF assms(1,2)] c(2) by simp
  ultimately show ?thesis using assms(2) unfolding shows_now_def by auto
qed

text \<open>The moment a capture was made, in the course of a run.\<close>
definition captured_in :: "'d service_env \<Rightarrow> 'd runs \<Rightarrow> run_event list \<Rightarrow> capture \<Rightarrow> bool" where
  "captured_in S s evs c \<longleftrightarrow>
     (\<exists>n\<le>length evs. shows_now (he_crdt (se_hub S)) (sv_hub (rn_service (run (run_step S) s (take n evs)))) c)"

lemma captured_earlier: "captured_in S s evs c \<Longrightarrow> captured_in S s (evs @ evs') c"
  unfolding captured_in_def by (metis append_Nil2 diff_is_0_eq le_add1 le_trans length_append take_0 take_append)

definition row_of :: "capture \<Rightarrow> Execution \<Rightarrow> bool" where
  "row_of c x \<longleftrightarrow> x_session_id x = cp_session c \<and> x_triggered_by x = Some (cp_user c) \<and> x_code x = cp_code c \<and> x_language x = cp_language c"

lemma row_of_below: "row_of c x \<Longrightarrow> row_below x y \<Longrightarrow> row_of c y"
  by (simp add: row_of_def row_below_def)

definition runs_ok :: "'d service_env \<Rightarrow> 'd runs \<Rightarrow> run_event list \<Rightarrow> bool" where
  "runs_ok S s evs \<longleftrightarrow>
     (let t = run (run_step S) s evs
      in service_ok (rn_service t) \<and> exec_ok (sv_exec (rn_service t)) \<and>
         (\<forall>i c. rn_captured t i = Some c \<longrightarrow> captured_in S s evs c) \<and>
         (\<forall>xid x. rows (sv_exec (rn_service t)) xid = Some x \<longrightarrow> (\<exists>c. captured_in S s evs c \<and> row_of c x)))"

lemma service_exec: "sv_exec (service_step S s ev) = (case ev of Exec_event e \<Rightarrow> exec_step (se_worker S) (sv_exec s) e | _ \<Rightarrow> sv_exec s)"
  by (auto simp: service_step_def relay_get_def relay_send_def Let_def split: service_event.split hub_event.split relay_phase.split list.split)

text \<open>What a step of \<open>run_document\<close> does to the service: the event it passes on.\<close>
definition passed_on :: "'d runs \<Rightarrow> run_event \<Rightarrow> service_event option" where
  "passed_on s ev =
     (case ev of
        Service_event (Exec_event (Submit _ _ _ _ _ _ _ _)) \<Rightarrow> None
      | Service_event (Hub_event (Http_open i _ _ _)) \<Rightarrow> if rn_captured s i \<noteq> None then None else (case ev of Service_event e \<Rightarrow> Some e | _ \<Rightarrow> None)
      | Service_event e \<Rightarrow> Some e
      | Submit_run i n new_id now io \<Rightarrow>
          (case rn_captured s i of
             None \<Rightarrow> None
           | Some c \<Rightarrow> if hb_requests (sv_hub (rn_service s)) i \<noteq> None then None
               else Some (Exec_event (Submit n new_id now (cp_session c) (cp_user c) (cp_code c) (cp_language c) io))))"

lemma run_passes: "rn_service (run_step S s ev) = (case passed_on s ev of None \<Rightarrow> rn_service s | Some e \<Rightarrow> service_step S (rn_service s) e)"
  by (auto simp: run_step_def passed_on_def Let_def split: run_event.split service_event.split hub_event.split job_event.split option.split)

lemma run_captures: "rn_captured (run_step S s ev) i = Some c \<Longrightarrow> rn_captured s i = Some c \<or>
  (\<exists>r. hb_requests (sv_hub (rn_service s)) i = Some r \<and> capture_document (he_crdt (se_hub S)) (sv_hub (rn_service s)) r = Some c)"
  by (auto simp: run_step_def Let_def split: run_event.splits service_event.splits hub_event.splits job_event.splits option.splits if_splits)

lemma passed_submit: "passed_on s ev = Some (Exec_event (Submit n new_id now sid user code language io)) \<Longrightarrow>
  \<exists>i c. rn_captured s i = Some c \<and> sid = cp_session c \<and> user = cp_user c \<and> code = cp_code c \<and> language = cp_language c"
  by (auto simp: passed_on_def split: run_event.splits service_event.splits hub_event.splits job_event.splits option.splits if_splits)

lemma runs_ok_step:
  assumes "runs_ok S s evs"
  shows "runs_ok S s (evs @ [ev])"
proof -
  let ?t = "run (run_step S) s evs" and ?u = "run_step S (run (run_step S) s evs) ev"
  have ok: "service_ok (rn_service ?t)" "exec_ok (sv_exec (rn_service ?t))"
    and cap: "\<And>i c. rn_captured ?t i = Some c \<Longrightarrow> captured_in S s evs c"
    and row: "\<And>xid x. rows (sv_exec (rn_service ?t)) xid = Some x \<Longrightarrow> \<exists>c. captured_in S s evs c \<and> row_of c x"
    using assms by (simp_all add: runs_ok_def Let_def)
  have "service_ok (rn_service ?u)" using ok(1) service_step_ok by (auto simp: run_passes split: option.split)
  moreover have "exec_ok (sv_exec (rn_service ?u))" using ok(2) exec_step_ok
    by (auto simp: run_passes service_exec split: option.split service_event.split)
  moreover have "captured_in S s (evs @ [ev]) c" if "rn_captured ?u i = Some c" for i c
    using run_captures [OF that]
  proof
    assume "rn_captured ?t i = Some c"
    from captured_earlier [OF cap [OF this]] show ?thesis .
  next
    assume "\<exists>r. hb_requests (sv_hub (rn_service ?t)) i = Some r \<and> capture_document (he_crdt (se_hub S)) (sv_hub (rn_service ?t)) r = Some c"
    moreover have "hub_auth (sv_hub (rn_service ?t))" using service_okD(1) [OF ok(1)] by (simp add: hub_ok_audience_def hub_ok_def)
    ultimately have "shows_now (he_crdt (se_hub S)) (sv_hub (rn_service ?t)) c" using capture_shows by blast
    then show ?thesis unfolding captured_in_def by (intro exI [of _ "length evs"]) simp
  qed
  moreover have "\<exists>c. captured_in S s (evs @ [ev]) c \<and> row_of c y" if y: "rows (sv_exec (rn_service ?u)) xid = Some y" for xid y
  proof (cases "\<exists>e. passed_on ?t ev = Some (Exec_event e)")
    case False
    then have "sv_exec (rn_service ?u) = sv_exec (rn_service ?t)"
      by (auto simp: run_passes service_exec split: option.split service_event.split)
    with row [of xid y] y captured_earlier show ?thesis by fastforce
  next
    case True
    then obtain e where e: "passed_on ?t ev = Some (Exec_event e)" by blast
    then have "rows (exec_step (se_worker S) (sv_exec (rn_service ?t)) e) xid = Some y" using y by (simp add: run_passes service_exec)
    from row_origin [OF ok(2) this] show ?thesis
    proof
      assume "\<exists>x. rows (sv_exec (rn_service ?t)) xid = Some x \<and> row_below x y"
      with row row_of_below captured_earlier show ?thesis by blast
    next
      assume "\<exists>n now sid user code language io. e = Submit n xid now sid user code language io \<and> x_session_id y = sid \<and>
        x_triggered_by y = Some user \<and> x_code y = code \<and> x_language y = language"
      with passed_submit e obtain i c where "rn_captured ?t i = Some c" "row_of c y" unfolding row_of_def by blast
      with cap captured_earlier show ?thesis by blast
    qed
  qed
  ultimately show ?thesis by (simp add: runs_ok_def Let_def run_append)
qed

text \<open>C13: An execution runs what an editor saw: every execution there is was requested by a user who, at one
  moment of the past, was an editor or owner of its active session, and its code is the text that
  the session's live document had at that moment; nothing that happened since, to the
  document, the members or the execution, has changed it.\<close>
theorem executions_run_the_document:
  assumes "db_executions jobs_db = []"
    and "s = run (run_step S) (new_runs (new_service (new_hub db (new_manager redis database)) (new_world jobs_db))) evs"
    and "rows (sv_exec (rn_service s)) xid = Some x"
  shows "\<exists>n uid d h. n \<le> length evs \<and> x_triggered_by x = Some uid \<and>
    h = sv_hub (rn_service (run (run_step S) (new_runs (new_service (new_hub db (new_manager redis database)) (new_world jobs_db))) (take n evs))) \<and>
    may_edit (hb_db h) (x_session_id x) uid \<and>
    dm_docs (hb_docs h) (x_session_id x) = Some d \<and> x_code x = doc_text (he_crdt (se_hub S)) d"
proof -
  let ?start = "new_runs (new_service (new_hub db (new_manager redis database)) (new_world jobs_db)) :: 'a runs"
  have "exec_ok (new_world jobs_db)" by (rule exec_ok_new) (simp add: assms(1))
  then have "runs_ok S ?start []"
    using service_ok_new [of db redis database] assms(1) by (simp add: runs_ok_def new_runs_def new_service_def new_world_def Let_def)
  then have "runs_ok S ?start evs" by (induction evs rule: rev_induct) (simp_all add: runs_ok_step)
  with assms(3) obtain c where "captured_in S ?start evs c" "row_of c x" unfolding assms(2) runs_ok_def Let_def by blast
  then show ?thesis unfolding captured_in_def shows_now_def row_of_def by metis
qed

section \<open>A run of a document\<close>

text \<open>The owner runs a document that is only in its checkpoint: it is loaded, captured and evicted again.\<close>
abbreviation run_events :: "run_event list" where
  "run_events \<equiv> map (Service_event \<circ> Hub_event)
     [Http_open 0 1 Run_document 7, Http_continue 0 0, Http_continue 0 0, Storage (Resume 7 Io_ok 0), Storage (Resume 7 Io_ok 0),
      Http_continue 0 0, Storage (Resume 7 Io_ok 0), Http_continue 0 0] @ [Submit_run 0 0 9 0 Io_ok]"

abbreviation run_start :: "sample_doc runs" where
  "run_start \<equiv> new_runs (new_service (new_hub sample_db (new_manager [7 \<mapsto> sample_edit] Map.empty)) (new_world sample_db))"

lemma run_row:
  "rows (sv_exec (rn_service (run (run_step \<lparr>se_hub = sample_hub_env, se_worker = sample_worker\<rparr>) run_start run_events))) 9
     = Some ((sample_job QUEUED)\<lparr>x_code := doc_text sample_crdt [(0, 2)], x_created_at := 0\<rparr>)"
  by (simp add: run_step_def hub_eval dm_eval new_runs_def new_service_def service_step_def exec_step_def submit_def insert_execution_def
      new_world_def capture_document_def Let_def read_text_def identity_map_def http_loaded_def http_evict_if_idle_def evict_pending_def unlock_def
      http_broadcast_def end_request_def release_def sample_job_def)

theorem executions_run_the_document_witness:
  "\<exists>n h d. h = sv_hub (rn_service (run (run_step \<lparr>se_hub = sample_hub_env, se_worker = sample_worker\<rparr>) run_start (take n run_events))) \<and>
     may_edit (hb_db h) 7 1 \<and> dm_docs (hb_docs h) 7 = Some d \<and> doc_text sample_crdt [(0, 2)] = doc_text sample_crdt d"
proof -
  have "db_executions sample_db = []" "(se_hub \<lparr>se_hub = sample_hub_env, se_worker = sample_worker\<rparr>) = sample_hub_env"
    "he_crdt sample_hub_env = sample_crdt"
    by (simp_all add: sample_db_def empty_db_def sample_hub_env_def)
  note doc = executions_run_the_document [OF this(1) refl run_row, unfolded this(2,3)]
  show ?thesis using doc by (auto simp: sample_job_def simp del: map_append list.map append.simps run.simps)
qed

end
