(* ===== verification/Reading.thy ===== *)
theory Reading
  imports Jobs Authorization
begin

text \<open>The endpoints that only read: the lists and details of sessions, snapshots and executions
  (\<open>app/sessions/router.py\<close>, \<open>app/snapshots/router.py\<close>, \<open>app/execution/router.py\<close>) with the response schemas
  that select what they show, over the service functions of the theories Sessions, Snapshots and Jobs.\<close>

section \<open>Endpoints that read\<close>

text \<open>The dependencies of an endpoint for members: the token's user, with some role in the active session.\<close>
definition as_member :: "(pystr \<Rightarrow> claims option) \<Rightarrow> database \<Rightarrow> pystr \<Rightarrow> uuid \<Rightarrow> http_exception + User" where
  "as_member jwt_decode db token session_id = rbind (get_current_user jwt_decode db token) (role_checker viewer db session_id)"

text \<open>\<open>Query(ge=1, le=100)\<close> and \<open>Query(ge=0)\<close>, looked at when the dependencies have passed.\<close>
definition page_query :: "int \<Rightarrow> int \<Rightarrow> http_exception + unit" where
  "page_query limit offset = (if 1 \<le> limit \<and> limit \<le> 100 \<and> 0 \<le> offset then Inr () else Inl (HTTPException 422 ''''))"

text \<open>What a response shows of a session, a member and a snapshot: not the document. The columns \<open>created_at\<close> and
  \<open>joined_at\<close> of sessions and members are not in the tables of the model.\<close>
record SessionResponse =
  rs_id :: uuid
  rs_name :: pystr
  rs_language :: LanguageEnum
  rs_owner_id :: uuid
  rs_is_active :: bool
  rs_updated_at :: datetime

definition session_response :: "Session \<Rightarrow> SessionResponse" where
  "session_response s = \<lparr>rs_id = s_id s, rs_name = s_name s, rs_language = s_language s, rs_owner_id = s_owner_id s,
     rs_is_active = s_is_active s, rs_updated_at = s_updated_at s\<rparr>"

record MemberResponse =
  rm_user_id :: uuid
  rm_username :: pystr
  rm_role :: RoleEnum

record SnapshotResponse =
  rp_id :: uuid
  rp_session_id :: uuid
  rp_created_by :: "uuid option"
  rp_label :: pystr
  rp_size_bytes :: int
  rp_created_at :: datetime

definition snapshot_response :: "Snapshot \<Rightarrow> SnapshotResponse" where
  "snapshot_response n = \<lparr>rp_id = n_id n, rp_session_id = n_session_id n, rp_created_by = n_created_by n, rp_label = n_label n,
     rp_size_bytes = n_size_bytes n, rp_created_at = n_created_at n\<rparr>"

record 'a history_response =
  hp_items :: "'a list"
  hp_total :: nat
  hp_limit :: nat
  hp_offset :: nat

definition list_sessions :: "(pystr \<Rightarrow> claims option) \<Rightarrow> database \<Rightarrow> pystr \<Rightarrow> http_exception + SessionResponse list" where
  "list_sessions jwt_decode db token =
     rbind (get_current_user jwt_decode db token) (\<lambda>user. Inr (map session_response (list_user_sessions db (u_id user))))"

text \<open>A member without a user row would raise at \<open>m.user.username\<close>.\<close>
fun member_responses :: "(SessionMember \<times> User option) list \<Rightarrow> http_exception + MemberResponse list" where
  "member_responses [] = Inr []"
| "member_responses ((m, user) # ms) =
     (case user of
        None \<Rightarrow> Inl Internal_server_error
      | Some u \<Rightarrow> rbind (member_responses ms) (\<lambda>rs.
          Inr (\<lparr>rm_user_id = m_user_id m, rm_username = u_username u, rm_role = m_role m\<rparr> # rs)))"

definition get_session ::
    "(pystr \<Rightarrow> claims option) \<Rightarrow> database \<Rightarrow> pystr \<Rightarrow> uuid \<Rightarrow> http_exception + SessionResponse \<times> MemberResponse list" where
  "get_session jwt_decode db token session_id =
     rbind (as_member jwt_decode db token session_id) (\<lambda>_.
     case get_session_detail db session_id of
       None \<Rightarrow> Inl (HTTPException 404 ''Session not found'')
     | Some (session, members) \<Rightarrow> rbind (member_responses members) (\<lambda>ms. Inr (session_response session, ms)))"

definition list_snapshots_endpoint ::
    "(pystr \<Rightarrow> claims option) \<Rightarrow> database \<Rightarrow> pystr \<Rightarrow> uuid \<Rightarrow> int \<Rightarrow> int \<Rightarrow> http_exception + SnapshotResponse history_response" where
  "list_snapshots_endpoint jwt_decode db token session_id limit offset =
     rbind (as_member jwt_decode db token session_id) (\<lambda>_.
     rbind (page_query limit offset) (\<lambda>_.
     case list_snapshots db session_id (nat limit) (nat offset) of (items, found) \<Rightarrow>
       Inr \<lparr>hp_items = map snapshot_response items, hp_total = found, hp_limit = nat limit, hp_offset = nat offset\<rparr>))"

definition execution_history ::
    "(pystr \<Rightarrow> claims option) \<Rightarrow> database \<Rightarrow> pystr \<Rightarrow> uuid \<Rightarrow> int \<Rightarrow> int \<Rightarrow> http_exception + Execution history_response" where
  "execution_history jwt_decode db token session_id limit offset =
     rbind (as_member jwt_decode db token session_id) (\<lambda>_.
     rbind (page_query limit offset) (\<lambda>_.
     case list_executions db session_id (nat limit) (nat offset) of (items, found) \<Rightarrow>
       Inr \<lparr>hp_items = items, hp_total = found, hp_limit = nat limit, hp_offset = nat offset\<rparr>))"

definition execution_detail :: "(pystr \<Rightarrow> claims option) \<Rightarrow> database \<Rightarrow> pystr \<Rightarrow> uuid \<Rightarrow> uuid \<Rightarrow> http_exception + Execution" where
  "execution_detail jwt_decode db token session_id execution_id =
     rbind (as_member jwt_decode db token session_id) (\<lambda>_.
     case get_execution db session_id execution_id of
       Inl error \<Rightarrow> Inl (raise_execution_error error)
     | Inr x \<Rightarrow> Inr x)"

section \<open>Who reads what\<close>

definition reader :: "(pystr \<Rightarrow> claims option) \<Rightarrow> database \<Rightarrow> pystr \<Rightarrow> uuid \<Rightarrow> bool" where
  "reader jwt_decode db token sid \<longleftrightarrow>
     (\<exists>user. get_current_user jwt_decode db token = Inr user \<and> active_in db sid \<and> role_of db sid (u_id user) \<noteq> None)"

lemma as_member_Inr:
  assumes "as_member jwt_decode db token sid = Inr user"
  shows "reader jwt_decode db token sid"
proof -
  obtain u where u: "get_current_user jwt_decode db token = Inr u" "role_checker viewer db sid u = Inr user"
    using assms by (auto simp: as_member_def rbind_Inr_iff)
  from u(2) have "active_in db sid \<and> role_of db sid (u_id u) \<noteq> None"
    by (auto simp: role_checker_def active_in_def role_of_def split: option.splits if_splits)
  with u(1) show ?thesis by (auto simp: reader_def)
qed

lemma page_items: "x \<in> set (take n (drop k (rev (sort_key f (sort_key g xs))))) \<Longrightarrow> x \<in> set xs"
  by (metis in_set_dropD in_set_takeD set_rev set_sort)

lemma member_responses_roles:
  "member_responses ms = Inr rs \<Longrightarrow> map (\<lambda>r. (rm_user_id r, rm_role r)) rs = map (\<lambda>(m, u). (m_user_id m, m_role m)) ms"
  by (induction ms arbitrary: rs) (auto simp: rbind_Inr_iff split: option.splits)

lemma detail_members:
  assumes "db_ok db" "get_session_detail db sid = Some (session, ms)"
  shows "set (map (\<lambda>(m, u). (m_user_id m, m_role m)) ms) = {(uid, role). role_of db sid uid = Some role}"
proof -
  have dict: "(k, m) \<in> set (db_members db) \<longleftrightarrow> dget (db_members db) k = Some m" for k m
    using assms(1) by (auto simp: db_ok_def dict_ok_def)
  have keys: "dget (db_members db) (s, uid) = Some m \<Longrightarrow> m_session_id m = s \<and> m_user_id m = uid" for s uid m
    using assms(1) by (auto simp: db_ok_def db_keys_ok_def)
  have "set (map (\<lambda>(m, u). (m_user_id m, m_role m)) ms)
      = (\<lambda>(k, m). (m_user_id m, m_role m)) ` {(k, m). (k, m) \<in> set (db_members db) \<and> m_session_id m = sid}"
    using assms(2) by (auto simp: get_session_detail_def image_iff split: option.splits) (blast+)
  also have "\<dots> = {(uid, role). role_of db sid uid = Some role}"
    using keys by (force simp: dict role_of_def image_iff)
  finally show ?thesis .
qed

lemma listed_sessions:
  assumes "db_ok db"
  shows "rs_id ` set (map session_response (list_user_sessions db uid)) = {sid. active_in db sid \<and> role_of db sid uid \<noteq> None}"
proof -
  have dict: "(k, s) \<in> set (db_sessions db) \<longleftrightarrow> dget (db_sessions db) k = Some s" for k s
    using assms by (auto simp: db_ok_def dict_ok_def)
  have "rs_id ` set (map session_response (list_user_sessions db uid))
      = s_id ` {s. \<exists>k. (k, s) \<in> set (db_sessions db) \<and> dget (db_members db) (k, uid) \<noteq> None \<and> s_is_active s}"
    by (force simp: list_user_sessions_def map_filter_def session_response_def image_iff split: option.splits if_splits)
  also have "\<dots> = {sid. active_in db sid \<and> role_of db sid uid \<noteq> None}"
    using assms by (force simp: dict active_in_def role_of_def db_ok_def db_keys_ok_def image_iff)
  finally show ?thesis .
qed

lemma history_pages:
  "list_snapshots_endpoint jwt db token sid limit offset = Inr snapshots \<Longrightarrow> reader jwt db token sid \<and>
     length (hp_items snapshots) \<le> 100 \<and> (\<forall>n\<in>set (hp_items snapshots). rp_session_id n = sid)"
  "execution_history jwt db token sid limit offset = Inr executions \<Longrightarrow> reader jwt db token sid \<and>
     length (hp_items executions) \<le> 100 \<and> (\<forall>x\<in>set (hp_items executions). x_session_id x = sid)"
proof -
  assume "list_snapshots_endpoint jwt db token sid limit offset = Inr snapshots"
  then obtain user where r: "as_member jwt db token sid = Inr user" "limit \<le> 100"
    and s: "hp_items snapshots = map snapshot_response (fst (list_snapshots db sid (nat limit) (nat offset)))"
    by (auto simp: list_snapshots_endpoint_def rbind_Inr_iff page_query_def split: prod.splits if_splits)
  then show "reader jwt db token sid \<and> length (hp_items snapshots) \<le> 100 \<and> (\<forall>n\<in>set (hp_items snapshots). rp_session_id n = sid)"
    using as_member_Inr [OF r(1)] by (auto simp: list_snapshots_def snapshots_of_def snapshot_response_def dest!: page_items)
next
  assume "execution_history jwt db token sid limit offset = Inr executions"
  then obtain user where r: "as_member jwt db token sid = Inr user" "limit \<le> 100"
    and s: "hp_items executions = fst (list_executions db sid (nat limit) (nat offset))"
    by (auto simp: execution_history_def rbind_Inr_iff page_query_def split: prod.splits if_splits)
  then show "reader jwt db token sid \<and> length (hp_items executions) \<le> 100 \<and> (\<forall>x\<in>set (hp_items executions). x_session_id x = sid)"
    using as_member_Inr [OF r(1)] by (auto simp: list_executions_def executions_of_def dest!: page_items)
qed

lemma detail_reader: "execution_detail jwt db token sid xid = Inr x \<Longrightarrow> reader jwt db token sid \<and> x_session_id x = sid"
  using as_member_Inr by (auto simp: execution_detail_def rbind_Inr_iff get_execution_def split: option.splits sum.splits if_splits)

text \<open>C32: What an endpoint shows, it shows to members: the list of sessions holds exactly the active sessions the
  token's user is a member of; a session's details, its snapshots and its executions are shown only
  to a member of that active session, belong to that session, name exactly its members with
  their roles, and come in pages of at most a hundred.\<close>
theorem reads_need_membership:
  assumes "db_ok db"
  shows "(list_sessions jwt db token = Inr rs \<longrightarrow> (\<exists>user. get_current_user jwt db token = Inr user \<and>
       rs_id ` set rs = {sid. active_in db sid \<and> role_of db sid (u_id user) \<noteq> None})) \<and>
    (get_session jwt db token sid = Inr (session, members) \<longrightarrow> reader jwt db token sid \<and> rs_id session = sid \<and>
       (\<lambda>r. (rm_user_id r, rm_role r)) ` set members = {(uid, role). role_of db sid uid = Some role}) \<and>
    (list_snapshots_endpoint jwt db token sid limit offset = Inr snapshots \<longrightarrow> reader jwt db token sid \<and>
       length (hp_items snapshots) \<le> 100 \<and> (\<forall>n\<in>set (hp_items snapshots). rp_session_id n = sid)) \<and>
    (execution_history jwt db token sid limit offset = Inr executions \<longrightarrow> reader jwt db token sid \<and>
       length (hp_items executions) \<le> 100 \<and> (\<forall>x\<in>set (hp_items executions). x_session_id x = sid)) \<and>
    (execution_detail jwt db token sid xid = Inr x \<longrightarrow> reader jwt db token sid \<and> x_session_id x = sid)"
proof (intro conjI impI)
  assume "list_sessions jwt db token = Inr rs"
  then obtain user where u: "get_current_user jwt db token = Inr user" "rs = map session_response (list_user_sessions db (u_id user))"
    by (auto simp: list_sessions_def rbind_Inr_iff)
  then show "\<exists>user. get_current_user jwt db token = Inr user \<and> rs_id ` set rs = {sid. active_in db sid \<and> role_of db sid (u_id user) \<noteq> None}"
    using listed_sessions [OF assms, of "u_id user"] by blast
next
  assume "get_session jwt db token sid = Inr (session, members)"
  then obtain user s ms where g: "as_member jwt db token sid = Inr user" "get_session_detail db sid = Some (s, ms)"
    "member_responses ms = Inr members" "session = session_response s"
    by (auto simp: get_session_def rbind_Inr_iff split: option.splits)
  show "reader jwt db token sid" using as_member_Inr [OF g(1)] .
  show "rs_id session = sid" using g(2,4) assms
    by (auto simp: get_session_detail_def session_response_def db_ok_def db_keys_ok_def split: option.splits)
  show "(\<lambda>r. (rm_user_id r, rm_role r)) ` set members = {(uid, role). role_of db sid uid = Some role}"
    unfolding set_map [symmetric] member_responses_roles [OF g(3)] by (rule detail_members [OF assms g(2)])
qed (use history_pages [of jwt db token sid limit offset] detail_reader [of jwt db token sid xid] in blast)+

theorem reads_need_membership_witness:
  "get_session sample_jwt sample_db (str_of_uuid 1) 7 = Inr (session_response (the (dget (db_sessions sample_db) 7)), [\<lparr>rm_user_id = 1, rm_username = [], rm_role = owner\<rparr>]) \<and>
   reader sample_jwt sample_db (str_of_uuid 1) 7"
proof -
  have m: "as_member sample_jwt sample_db (str_of_uuid 1) 7 = Inr (sample_user 1)"
    by (simp add: as_member_def sample_login) (simp add: role_checker_def sample_db_def sample_user_def)
  have r: "get_session sample_jwt sample_db (str_of_uuid 1) 7
      = Inr (session_response (the (dget (db_sessions sample_db) 7)), [\<lparr>rm_user_id = 1, rm_username = [], rm_role = owner\<rparr>])"
    using m by (simp add: get_session_def get_session_detail_def sample_user_def sample_db_def empty_db_def)
  with reads_need_membership [OF sample_db_ok, of sample_jwt "str_of_uuid 1" _ 7] show ?thesis by blast
qed

end
