(* ===== verification/Logging.thy ===== *)
theory Logging
  imports Prelude
begin

text \<open>The log filter of the application (\<open>_RedactTokenQueryFilter\<close> in \<open>app/main.py\<close>): browsers pass the access
  token of a WebSocket in the query string, and the server's loggers print request lines. The
  substitution of the regular expression is written out as a recursive function; the lemmas
  characterise its output and show that it does not depend on the credentials.\<close>

section \<open>The filter\<close>

text \<open>\<open>\s\<close> of a \<open>str\<close> pattern: the characters for which \<open>str.isspace()\<close> holds.\<close>
definition is_space :: "nat \<Rightarrow> bool" where
  "is_space c \<longleftrightarrow> 9 \<le> c \<and> c \<le> 13 \<or> 28 \<le> c \<and> c \<le> 32 \<or> c = 133 \<or> c = 160 \<or> c = 5760 \<or>
     8192 \<le> c \<and> c \<le> 8202 \<or> c = 8232 \<or> c = 8233 \<or> c = 8239 \<or> c = 8287 \<or> c = 12288"

text \<open>\<open>[^&\s\"]\<close>.\<close>
definition token_char :: "nat \<Rightarrow> bool" where
  "token_char c \<longleftrightarrow> c \<noteq> 38 \<and> \<not> is_space c \<and> c \<noteq> 34"

text \<open>\<open>([?&]token=)\<close> at the start of a string.\<close>
definition token_key :: "pystr \<Rightarrow> bool" where
  "token_key s \<longleftrightarrow> take 7 s \<in> {py ''?token='', py ''&token=''}"

definition token_match :: "pystr \<Rightarrow> bool" where
  "token_match s \<longleftrightarrow> token_key s \<and> takeWhile token_char (drop 7 s) \<noteq> []"

text \<open>\<open>_TOKEN_QUERY_PATTERN.sub(r"\1[REDACTED]", value)\<close>: matches are found from left to right and the value is
  as long as can be.\<close>
function redact :: "pystr \<Rightarrow> pystr" where
  "redact s =
     (case s of
        [] \<Rightarrow> []
      | c # cs \<Rightarrow>
          if token_match s then take 7 s @ py ''[REDACTED]'' @ redact (dropWhile token_char (drop 7 s))
          else c # redact cs)"
  by pat_completeness auto
termination
proof (relation "measure length", simp, goal_cases)
  case (1 s c cs)
  have "length (dropWhile token_char (drop 6 cs)) \<le> length (drop 6 cs)" by (rule length_dropWhile_le)
  with 1 show ?case by simp
qed simp

declare redact.simps [simp del]

lemma redact_Nil [simp]: "redact [] = []"
  by (simp add: redact.simps)

lemma redact_Cons: "redact (c # cs) =
  (if token_match (c # cs) then take 7 (c # cs) @ py ''[REDACTED]'' @ redact (dropWhile token_char (drop 7 (c # cs))) else c # redact cs)"
  by (simp add: redact.simps [of "c # cs"])

text \<open>A value of \<open>record.args\<close>.\<close>
datatype 'a log_arg = Log_str pystr | Log_other 'a

datatype 'a log_args = Log_tuple "'a log_arg list" | Log_not_tuple 'a

text \<open>\<open>_RedactTokenQueryFilter.filter\<close>: the arguments it leaves in the record, and its answer.\<close>
definition redact_arg :: "'a log_arg \<Rightarrow> 'a log_arg" where
  "redact_arg a = (case a of Log_str s \<Rightarrow> Log_str (redact s) | Log_other x \<Rightarrow> Log_other x)"

definition filter_record :: "'a log_args \<Rightarrow> 'a log_args \<times> bool" where
  "filter_record args =
     ((case args of Log_tuple xs \<Rightarrow> Log_tuple (map redact_arg xs) | Log_not_tuple x \<Rightarrow> Log_not_tuple x), True)"

section \<open>Nothing of a token is left\<close>

lemma token_key_chars:
  "token_key s \<longleftrightarrow> (\<exists>c r. s = c # py ''token='' @ r \<and> c \<in> {63, 38})"
proof
  assume "token_key s"
  then have "s = take 7 s @ drop 7 s" "take 7 s \<in> {63 # py ''token='', 38 # py ''token=''}" by (auto simp: token_key_def)
  then show "\<exists>c r. s = c # py ''token='' @ r \<and> c \<in> {63, 38}" by (metis append_Cons insertE singletonD insertI1 insertI2)
qed (auto simp: token_key_def)

lemma redact_plain: "x \<notin> {63, 38} \<Longrightarrow> redact (x # s) = x # redact s"
  by (simp add: redact_Cons token_match_def token_key_def)

lemma redact_key:
  assumes "c \<in> {63, 38}"
  shows "redact (c # py ''token='' @ s) =
    c # py ''token='' @ (if takeWhile token_char s = [] then redact s else py ''[REDACTED]'' @ redact (dropWhile token_char s))"
proof -
  have "token_key (c # py ''token='' @ s)" using assms token_key_chars by blast
  then have "token_match (c # py ''token='' @ s) \<longleftrightarrow> takeWhile token_char s \<noteq> []" by (simp add: token_match_def)
  then show ?thesis using redact_Cons [of c "py ''token='' @ s"] by (simp add: redact_plain)
qed

lemma redact_hd: "s \<noteq> [] \<Longrightarrow> redact s \<noteq> [] \<and> hd (redact s) = hd s"
  by (cases s) (auto simp: redact_Cons)

lemma redact_ends: "takeWhile token_char s = [] \<Longrightarrow> takeWhile token_char (redact s) = []"
  using redact_hd [of s] by (cases s; cases "redact s") (auto split: if_splits)

lemma value_end [simp]: "takeWhile token_char (dropWhile token_char s) = []"
  by (induction s) simp_all

lemma redact_starts: "redact s = py ''token='' @ q \<Longrightarrow> \<exists>r. s = py ''token='' @ r \<and> q = redact r"
proof -
  have one: "x # q = redact s \<Longrightarrow> x \<notin> {63, 38} \<Longrightarrow> \<exists>r. s = x # r \<and> q = redact r" for s x q
    using redact_hd [of s] redact_plain [of x "tl s"] by (cases s) (simp, metis list.sel list.inject list.discI)
  assume "redact s = py ''token='' @ q"
  then have "py ''token='' @ q = redact s" by (rule sym)
  then show ?thesis by (auto dest!: one)
qed

text \<open>What follows a key in the output.\<close>
lemma redacted_values:
  "redact s = p @ c # py ''token='' @ q \<Longrightarrow> c \<in> {63, 38} \<Longrightarrow> takeWhile token_char q \<in> {[], py ''[REDACTED]''}"
proof (induction "length s" arbitrary: s p rule: less_induct)
  case less
  then obtain x cs where s: "s = x # cs" by (cases s) auto
  show ?case
  proof (cases "token_match s")
    case True
    then obtain k r where k: "s = k # py ''token='' @ r" "k \<in> {63, 38}" "takeWhile token_char r \<noteq> []"
      by (auto simp: token_match_def token_key_chars)
    let ?rest = "dropWhile token_char r"
    have out: "redact s = k # py ''token=[REDACTED]'' @ redact ?rest" using redact_key [OF k(2), of r] k(1,3) by simp
    have "takeWhile token_char (py ''[REDACTED]'' @ redact ?rest) = py ''[REDACTED]''"
      using redact_ends [of ?rest] by (simp add: token_char_def is_space_def)
    moreover have "length ?rest < length s" using length_dropWhile_le [of token_char r] k(1) by simp
    moreover have "q = py ''[REDACTED]'' @ redact ?rest \<or> (\<exists>p'. redact ?rest = p' @ c # py ''token='' @ q)"
      using less.prems out by (auto simp: append_eq_Cons_conv Cons_eq_append_conv)
    ultimately show ?thesis using less.hyps less.prems(2) by (metis insertI1 insertI2)
  next
    case False
    then have out: "redact s = x # redact cs" using s by (simp add: redact_Cons)
    show ?thesis
    proof (cases p)
      case Nil
      with out less.prems have "redact cs = py ''token='' @ q" "x = c" by auto
      with redact_starts obtain r where r: "cs = py ''token='' @ r" "q = redact r" "x = c" by blast
      have "token_key s" using r s less.prems(2) token_key_chars by blast
      with False r s have "takeWhile token_char r = []" by (simp add: token_match_def)
      with redact_ends r(2) show ?thesis by simp
    next
      case (Cons y p')
      with out less.prems s show ?thesis using less.hyps [of cs p'] by auto
    qed
  qed
qed

lemma redact_clean: "(\<And>n. \<not> token_match (drop n s)) \<Longrightarrow> redact s = s"
proof (induction s)
  case (Cons c cs)
  have "\<not> token_match (drop n cs)" for n using Cons.prems [of "Suc n"] by simp
  moreover have "\<not> token_match (c # cs)" using Cons.prems [of 0] by simp
  ultimately show ?case using Cons.IH by (simp add: redact_Cons)
qed simp

text \<open>The output does not depend on the value.\<close>
lemma redact_value:
  assumes "c \<in> {63, 38}" "v \<noteq> []" "list_all token_char v" "r = [] \<or> \<not> token_char (hd r)"
  shows "redact (c # py ''token='' @ v @ r) = c # py ''token=[REDACTED]'' @ redact r"
proof -
  have "takeWhile token_char (v @ r) \<noteq> []" using assms(2,3) by (cases v) auto
  moreover have "dropWhile token_char (v @ r) = r" using assms(3,4) by (cases r) (auto simp: list_all_iff dropWhile_append2)
  ultimately show ?thesis using redact_key [OF assms(1), of "v @ r"] by simp
qed

lemma key_position:
  assumes "token_key (p @ c # s)" "c \<in> {63, 38}" "p \<noteq> []"
  shows "7 \<le> length p"
proof (rule ccontr)
  assume short: "\<not> 7 \<le> length p"
  from assms(1) obtain k r where k: "p @ c # s = k # py ''token='' @ r" by (auto simp: token_key_chars)
  then have "(k # py ''token='' @ r) ! length p = c" by (metis nth_append_length)
  moreover have "length p \<noteq> 0" using assms(3) by simp
  with short have "length p \<in> {1, 2, 3, 4, 5, 6}" by (simp only: insert_iff empty_iff) presburger
  ultimately show False using assms(2) by auto
qed

lemma redact_independent:
  assumes "c \<in> {63, 38}" "v \<noteq> []" "list_all token_char v" "v' \<noteq> []" "list_all token_char v'" "r = [] \<or> \<not> token_char (hd r)"
  shows "redact (p @ c # py ''token='' @ v @ r) = redact (p @ c # py ''token='' @ v' @ r)"
proof (induction "length p" arbitrary: p rule: less_induct)
  case less
  let ?X = "\<lambda>v. c # py ''token='' @ v @ r"
  show ?case
  proof (cases p)
    case Nil
    then show ?thesis using assms redact_value [of c v r] redact_value [of c v' r] by simp
  next
    case (Cons x p')
    show ?thesis
    proof (cases "7 \<le> length p")
      case False
      then have "\<not> token_key (p @ ?X v)" for v using key_position [OF _ assms(1), of p] Cons by blast
      then show ?thesis using less.hyps [of p'] Cons by (simp add: redact_Cons token_match_def)
    next
      case True
      let ?q = "drop 7 p"
      have q: "take 7 (p @ ?X v) = take 7 p" "drop 7 (p @ ?X v) = ?q @ ?X v" for v using True by simp_all
      have m: "token_match (p @ ?X v) \<longleftrightarrow> token_match (p @ ?X v')"
        using q by (cases ?q) (auto simp: token_match_def token_key_def)
      have d: "redact (dropWhile token_char (?q @ ?X v)) = redact (dropWhile token_char (?q @ ?X v'))"
      proof (cases "list_all token_char ?q")
        case True
        then have drop: "dropWhile token_char (?q @ ?X v) = dropWhile token_char (?X v)" for v
          by (intro dropWhile_append2) (simp add: list_all_iff)
        show ?thesis
        proof (cases "token_char c")
          case True
          have "dropWhile token_char (?X w) = r" if "list_all token_char w" for w
          proof -
            have "list_all token_char (c # py ''token='' @ w)" using True that by (simp add: token_char_def is_space_def)
            then have "dropWhile token_char ((c # py ''token='' @ w) @ r) = dropWhile token_char r"
              by (intro dropWhile_append2) (simp only: list_all_iff)
            then show ?thesis using assms(6) by (cases r) auto
          qed
          with drop assms(3,5) show ?thesis by simp
        next
          case False
          with drop less.hyps [of "[]"] Cons show ?thesis by simp
        qed
      next
        case False
        then obtain x where x: "x \<in> set ?q" "\<not> token_char x" by (auto simp: list_all_iff)
        have drop: "dropWhile token_char (?q @ ?X v) = dropWhile token_char ?q @ ?X v" for v using x by (rule dropWhile_append1)
        have "length (dropWhile token_char ?q) < length p" using length_dropWhile_le [of token_char ?q] True by simp
        with drop less.hyps show ?thesis by simp
      qed
      have "redact (p' @ ?X v) = redact (p' @ ?X v')" using less.hyps [of p'] Cons by simp
      then show ?thesis using m d q redact_Cons [of x "p' @ ?X v"] redact_Cons [of x "p' @ ?X v'"] Cons by simp
    qed
  qed
qed

text \<open>C27: Credentials in the query string of a logged request never reach the log: the record that is emitted does
  not depend on the value of a token, wherever it stands in an argument; behind every \<open>?token=\<close>
  or \<open>&token=\<close> of an emitted argument nothing stands but the mark \<open>[REDACTED]\<close>; and text without
  such a value is logged as it is.\<close>
theorem redaction_hides_tokens:
  assumes "c \<in> {63, 38}" "v \<noteq> []" "v' \<noteq> []" "list_all (\<lambda>x. x \<notin> {38, 34} \<and> \<not> is_space x) (v @ v')"
    and "r = [] \<or> hd r \<in> {38, 34} \<or> is_space (hd r)"
  shows "filter_record (Log_tuple (xs @ Log_str (p @ c # py ''token='' @ v @ r) # ys))
       = filter_record (Log_tuple (xs @ Log_str (p @ c # py ''token='' @ v' @ r) # ys)) \<and>
     (redact s = p' @ k # py ''token='' @ q \<longrightarrow> k \<in> {63, 38} \<longrightarrow> takeWhile token_char q \<in> {[], py ''[REDACTED]''}) \<and>
     ((\<forall>n. \<not> token_match (drop n s)) \<longrightarrow> redact s = s)"
proof -
  have "list_all token_char v" "list_all token_char v'" "r = [] \<or> \<not> token_char (hd r)"
    using assms(4,5) by (auto simp: list_all_iff token_char_def)
  from redact_independent [OF assms(1,2) this(1) assms(3) this(2,3)] redacted_values [of s p' k q] redact_clean [of s] show ?thesis
    by (auto simp: filter_record_def redact_arg_def)
qed

theorem redaction_hides_tokens_witness:
  "filter_record (Log_tuple [Log_other (), Log_str (py ''/ws/7?token=abc&x=1'')])
     = filter_record (Log_tuple [Log_other (), Log_str (py ''/ws/7?token=eyJhbGciOi&x=1'')])"
  using conjunct1 [OF redaction_hides_tokens [of 63 "py ''abc''" "py ''eyJhbGciOi''" "py ''&x=1''" "[Log_other ()]" "py ''/ws/7''" "[]"]]
  by (simp add: is_space_def)

end
