(* ===== verification/Schema.thy ===== *)
theory Schema
  imports Jobs
begin

text \<open>The tables in PostgreSQL: the columns \<open>app/models.py\<close> declares, the migration
  \<open>alembic/versions/18b8dc76dee9_initial_schema.py\<close> that creates them, the request schemas that check what
  is written (\<open>app/auth/schemas.py\<close>, \<open>app/sessions/schemas.py\<close>, \<open>app/snapshots/schemas.py\<close>), and what it means
  for the rows of theory Models to fit the tables. How a declaration becomes a table is SQLAlchemy's
  documented reading of it: a mapped \<open>uuid.UUID\<close> is a \<open>Uuid\<close> column, a column is nullable as it says or else
  when its annotation is optional, a primary key never, names come from the naming convention.\<close>

section \<open>Operations of a migration\<close>

datatype sql_type =
    Uuid | String nat | Text | Integer | Boolean | LargeBinary | DateTime bool
  | Enum "string list" string

datatype on_delete = CASCADE | SET_NULL

record column =
  c_name :: string
  c_type :: sql_type
  c_nullable :: bool
  c_server_default :: "string option"

text \<open>A foreign key: its column, the table and column it refers to, its name, what a deletion does.\<close>
datatype table_constraint =
    PrimaryKeyConstraint "string list" string
  | ForeignKeyConstraint string "string \<times> string" string on_delete

datatype alembic_op =
    create_table string "column list" "table_constraint list"
  | create_index string string "string list" bool
  | drop_index string string
  | drop_table string

definition Column :: "string \<Rightarrow> sql_type \<Rightarrow> bool \<Rightarrow> column" where
  "Column name type nullable = \<lparr>c_name = name, c_type = type, c_nullable = nullable, c_server_default = None\<rparr>"

definition timestamp :: "string \<Rightarrow> column" where
  "timestamp name =
     \<lparr>c_name = name, c_type = DateTime True, c_nullable = False, c_server_default = Some ''now()''\<rparr>"

definition language_enum :: sql_type where
  "language_enum = Enum [''python'', ''cpp'', ''javascript''] ''language_enum''"

definition execution_status_enum :: sql_type where
  "execution_status_enum = Enum [''QUEUED'', ''STARTING'', ''RUNNING'', ''COMPLETED'', ''FAILED'', ''TIMEOUT'', ''CANCELLED'']
     ''execution_status_enum''"

definition role_enum :: sql_type where
  "role_enum = Enum [''viewer'', ''editor'', ''owner''] ''role_enum''"

definition users_columns :: "column list" where
  "users_columns =
     [Column ''id'' Uuid False,
      Column ''username'' (String 64) False,
      Column ''email'' (String 255) False,
      Column ''password_hash'' (String 255) False,
      timestamp ''created_at'']"

definition users_constraints :: "table_constraint list" where
  "users_constraints =
     [PrimaryKeyConstraint [''id''] ''pk_users'']"

definition sessions_columns :: "column list" where
  "sessions_columns =
     [Column ''id'' Uuid False,
      Column ''name'' (String 128) False,
      Column ''language'' language_enum False,
      Column ''owner_id'' Uuid False,
      Column ''is_active'' Boolean False,
      Column ''yjs_state'' LargeBinary True,
      timestamp ''created_at'',
      timestamp ''updated_at'']"

definition sessions_constraints :: "table_constraint list" where
  "sessions_constraints =
     [ForeignKeyConstraint ''owner_id'' (''users'', ''id'') ''fk_sessions_owner_id_users'' CASCADE,
      PrimaryKeyConstraint [''id''] ''pk_sessions'']"

definition executions_columns :: "column list" where
  "executions_columns =
     [Column ''id'' Uuid False,
      Column ''session_id'' Uuid False,
      Column ''triggered_by'' Uuid True,
      Column ''status'' execution_status_enum False,
      Column ''code'' Text False,
      Column ''language'' language_enum False,
      Column ''stdout'' Text True,
      Column ''stderr'' Text True,
      Column ''exit_code'' Integer True,
      Column ''elapsed_ms'' Integer True,
      timestamp ''created_at'',
      Column ''finished_at'' (DateTime True) True]"

definition executions_constraints :: "table_constraint list" where
  "executions_constraints =
     [ForeignKeyConstraint ''session_id'' (''sessions'', ''id'') ''fk_executions_session_id_sessions'' CASCADE,
      ForeignKeyConstraint ''triggered_by'' (''users'', ''id'') ''fk_executions_triggered_by_users'' SET_NULL,
      PrimaryKeyConstraint [''id''] ''pk_executions'']"

definition session_members_columns :: "column list" where
  "session_members_columns =
     [Column ''session_id'' Uuid False,
      Column ''user_id'' Uuid False,
      Column ''role'' role_enum False,
      timestamp ''joined_at'']"

definition session_members_constraints :: "table_constraint list" where
  "session_members_constraints =
     [ForeignKeyConstraint ''session_id'' (''sessions'', ''id'') ''fk_session_members_session_id_sessions'' CASCADE,
      ForeignKeyConstraint ''user_id'' (''users'', ''id'') ''fk_session_members_user_id_users'' CASCADE,
      PrimaryKeyConstraint [''session_id'', ''user_id''] ''pk_session_members'']"

definition snapshots_columns :: "column list" where
  "snapshots_columns =
     [Column ''id'' Uuid False,
      Column ''session_id'' Uuid False,
      Column ''created_by'' Uuid True,
      Column ''label'' (String 255) False,
      Column ''document_state'' LargeBinary False,
      Column ''size_bytes'' Integer False,
      timestamp ''created_at'']"

definition snapshots_constraints :: "table_constraint list" where
  "snapshots_constraints =
     [ForeignKeyConstraint ''created_by'' (''users'', ''id'') ''fk_snapshots_created_by_users'' SET_NULL,
      ForeignKeyConstraint ''session_id'' (''sessions'', ''id'') ''fk_snapshots_session_id_sessions'' CASCADE,
      PrimaryKeyConstraint [''id''] ''pk_snapshots'']"

definition upgrade :: "alembic_op list" where
  "upgrade = [
     create_table ''users'' users_columns users_constraints,
     create_index ''ix_users_email'' ''users'' [''email''] True,
     create_index ''ix_users_username'' ''users'' [''username''] True,
     create_table ''sessions'' sessions_columns sessions_constraints,
     create_table ''executions'' executions_columns executions_constraints,
     create_index ''ix_executions_session_id'' ''executions'' [''session_id''] False,
     create_table ''session_members'' session_members_columns session_members_constraints,
     create_table ''snapshots'' snapshots_columns snapshots_constraints,
     create_index ''ix_snapshots_session_id'' ''snapshots'' [''session_id''] False]"

definition downgrade :: "alembic_op list" where
  "downgrade = [
     drop_index ''ix_snapshots_session_id'' ''snapshots'',
     drop_table ''snapshots'',
     drop_table ''session_members'',
     drop_index ''ix_executions_session_id'' ''executions'',
     drop_table ''executions'',
     drop_table ''sessions'',
     drop_index ''ix_users_username'' ''users'',
     drop_index ''ix_users_email'' ''users'',
     drop_table ''users'']"

section \<open>Running a migration\<close>

record schema =
  sc_tables :: "(string, column list \<times> table_constraint list) dict"
  sc_indexes :: "(string, string \<times> string list \<times> bool) dict"

definition empty_schema :: schema where
  "empty_schema = \<lparr>sc_tables = [], sc_indexes = []\<rparr>"

datatype sql_error = Duplicate_table | Duplicate_index | Undefined_table | Undefined_column | Undefined_index | Dependent_objects

definition has_columns :: "schema \<Rightarrow> string \<Rightarrow> string list \<Rightarrow> bool" where
  "has_columns sch t names =
     (case dget (sc_tables sch) t of None \<Rightarrow> False | Some (cols, _) \<Rightarrow> set names \<subseteq> set (map c_name cols))"

fun well_founded_in :: "schema \<Rightarrow> column list \<Rightarrow> table_constraint \<Rightarrow> bool" where
  "well_founded_in sch cols (PrimaryKeyConstraint names _) \<longleftrightarrow> set names \<subseteq> set (map c_name cols)"
| "well_founded_in sch cols (ForeignKeyConstraint name target _ _) \<longleftrightarrow>
     name \<in> set (map c_name cols) \<and> has_columns sch (fst target) [snd target]"

fun refers_to :: "string \<Rightarrow> table_constraint \<Rightarrow> bool" where
  "refers_to t (ForeignKeyConstraint _ target _ _) \<longleftrightarrow> fst target = t"
| "refers_to t _ \<longleftrightarrow> False"

text \<open>What PostgreSQL does with an operation; a statement that fails fails the migration. The enum types a table
  uses are created with it and are left out of the state.\<close>
fun apply_op :: "schema \<Rightarrow> alembic_op \<Rightarrow> sql_error + schema" where
  "apply_op sch (create_table t cols constraints) =
     (if dget (sc_tables sch) t \<noteq> None then Inl Duplicate_table
      else if \<not> list_all (well_founded_in sch cols) constraints then Inl Undefined_column
      else Inr (sch\<lparr>sc_tables := dset t (cols, constraints) (sc_tables sch)\<rparr>))"
| "apply_op sch (create_index n t names unique) =
     (if dget (sc_indexes sch) n \<noteq> None then Inl Duplicate_index
      else if \<not> has_columns sch t names then Inl Undefined_column
      else Inr (sch\<lparr>sc_indexes := dset n (t, names, unique) (sc_indexes sch)\<rparr>))"
| "apply_op sch (drop_index n t) =
     (if dget (sc_indexes sch) n = None then Inl Undefined_index
      else Inr (sch\<lparr>sc_indexes := dpop n (sc_indexes sch)\<rparr>))"
| "apply_op sch (drop_table t) =
     (if dget (sc_tables sch) t = None then Inl Undefined_table
      else if list_ex (\<lambda>(u, _, constraints). u \<noteq> t \<and> list_ex (refers_to t) constraints) (sc_tables sch)
      then Inl Dependent_objects
      else Inr (sch\<lparr>sc_tables := dpop t (sc_tables sch),
                    sc_indexes := filter (\<lambda>(_, u, _). u \<noteq> t) (sc_indexes sch)\<rparr>))"

fun migrate :: "schema \<Rightarrow> alembic_op list \<Rightarrow> sql_error + schema" where
  "migrate sch [] = Inr sch"
| "migrate sch (op # ops) = rbind (apply_op sch op) (\<lambda>sch. migrate sch ops)"

section \<open>What the models declare\<close>

text \<open>The tokens of SQLAlchemy's naming templates the convention uses.\<close>
datatype name_token = Lit string | Column_0_label | Column_0_name | Table_name | Referred_table_name

fun convention :: "string \<Rightarrow> name_token list" where
  "convention kind =
     (if kind = ''ix'' then [Lit ''ix_'', Column_0_label]
      else if kind = ''fk'' then [Lit ''fk_'', Table_name, Lit ''_'', Column_0_name, Lit ''_'', Referred_table_name]
      else if kind = ''pk'' then [Lit ''pk_'', Table_name]
      else if kind = ''uq'' then [Lit ''uq_'', Table_name, Lit ''_'', Column_0_name]
      else [])"

definition conventional_name :: "string \<Rightarrow> string \<Rightarrow> string \<Rightarrow> string \<Rightarrow> string" where
  "conventional_name kind table column referred =
     concat (map (\<lambda>token. case token of
         Lit s \<Rightarrow> s
       | Column_0_label \<Rightarrow> table @ ''_'' @ column
       | Column_0_name \<Rightarrow> column
       | Table_name \<Rightarrow> table
       | Referred_table_name \<Rightarrow> referred) (convention kind))"

text \<open>The annotation of a mapped column, and whether it admits \<open>None\<close>. \<open>mc_index\<close> is an index and whether it is unique.
  Values that SQLAlchemy fills in on the client (\<open>default\<close>, \<open>onupdate\<close>) make no part of a table.\<close>
datatype py_type = Py_uuid | Py_str | Py_datetime | Py_bool | Py_bytes | Py_int | Py_enum

record mapped_column =
  mc_name :: string
  mc_annotation :: py_type
  mc_optional :: bool
  mc_type :: "sql_type option"
  mc_nullable :: "bool option"
  mc_primary_key :: bool
  mc_index :: "bool option"
  mc_foreign_key :: "((string \<times> string) \<times> on_delete) option"
  mc_server_default :: "string option"

definition mapped :: "string \<Rightarrow> py_type \<Rightarrow> sql_type option \<Rightarrow> mapped_column" where
  "mapped name annotation type =
     \<lparr>mc_name = name, mc_annotation = annotation, mc_optional = False, mc_type = type, mc_nullable = None,
      mc_primary_key = False, mc_index = None, mc_foreign_key = None, mc_server_default = None\<rparr>"

definition created_column :: "string \<Rightarrow> mapped_column" where
  "created_column name = (mapped name Py_datetime (Some (DateTime True)))\<lparr>mc_server_default := Some ''now()''\<rparr>"

definition User_columns :: "mapped_column list" where
  "User_columns =
     [(mapped ''id'' Py_uuid None)\<lparr>mc_primary_key := True\<rparr>,
      (mapped ''username'' Py_str (Some (String 64)))\<lparr>mc_index := Some True\<rparr>,
      (mapped ''email'' Py_str (Some (String 255)))\<lparr>mc_index := Some True\<rparr>,
      mapped ''password_hash'' Py_str (Some (String 255)),
      created_column ''created_at'']"

definition Session_columns :: "mapped_column list" where
  "Session_columns =
     [(mapped ''id'' Py_uuid None)\<lparr>mc_primary_key := True\<rparr>,
      mapped ''name'' Py_str (Some (String 128)),
      mapped ''language'' Py_enum (Some language_enum),
      (mapped ''owner_id'' Py_uuid None)\<lparr>mc_foreign_key := Some ((''users'', ''id''), CASCADE)\<rparr>,
      mapped ''is_active'' Py_bool (Some Boolean),
      (mapped ''yjs_state'' Py_bytes (Some LargeBinary))\<lparr>mc_optional := True, mc_nullable := Some True\<rparr>,
      created_column ''created_at'',
      created_column ''updated_at'']"

definition SessionMember_columns :: "mapped_column list" where
  "SessionMember_columns =
     [(mapped ''session_id'' Py_uuid None)\<lparr>mc_primary_key := True, mc_foreign_key := Some ((''sessions'', ''id''), CASCADE)\<rparr>,
      (mapped ''user_id'' Py_uuid None)\<lparr>mc_primary_key := True, mc_foreign_key := Some ((''users'', ''id''), CASCADE)\<rparr>,
      mapped ''role'' Py_enum (Some role_enum),
      created_column ''joined_at'']"

definition Execution_columns :: "mapped_column list" where
  "Execution_columns =
     [(mapped ''id'' Py_uuid None)\<lparr>mc_primary_key := True\<rparr>,
      (mapped ''session_id'' Py_uuid None)\<lparr>mc_foreign_key := Some ((''sessions'', ''id''), CASCADE), mc_index := Some False\<rparr>,
      (mapped ''triggered_by'' Py_uuid None)\<lparr>mc_foreign_key := Some ((''users'', ''id''), SET_NULL), mc_nullable := Some True\<rparr>,
      mapped ''status'' Py_enum (Some execution_status_enum),
      mapped ''code'' Py_str (Some Text),
      mapped ''language'' Py_enum (Some language_enum),
      (mapped ''stdout'' Py_str (Some Text))\<lparr>mc_optional := True, mc_nullable := Some True\<rparr>,
      (mapped ''stderr'' Py_str (Some Text))\<lparr>mc_optional := True, mc_nullable := Some True\<rparr>,
      (mapped ''exit_code'' Py_int (Some Integer))\<lparr>mc_optional := True, mc_nullable := Some True\<rparr>,
      (mapped ''elapsed_ms'' Py_int (Some Integer))\<lparr>mc_optional := True, mc_nullable := Some True\<rparr>,
      created_column ''created_at'',
      (mapped ''finished_at'' Py_datetime (Some (DateTime True)))\<lparr>mc_optional := True, mc_nullable := Some True\<rparr>]"

definition Snapshot_columns :: "mapped_column list" where
  "Snapshot_columns =
     [(mapped ''id'' Py_uuid None)\<lparr>mc_primary_key := True\<rparr>,
      (mapped ''session_id'' Py_uuid None)\<lparr>mc_foreign_key := Some ((''sessions'', ''id''), CASCADE), mc_index := Some False\<rparr>,
      (mapped ''created_by'' Py_uuid None)\<lparr>mc_foreign_key := Some ((''users'', ''id''), SET_NULL), mc_nullable := Some True\<rparr>,
      mapped ''label'' Py_str (Some (String 255)),
      mapped ''document_state'' Py_bytes (Some LargeBinary),
      mapped ''size_bytes'' Py_int (Some Integer),
      created_column ''created_at'']"

definition Base_metadata :: "(string \<times> mapped_column list) list" where
  "Base_metadata = [(''users'', User_columns), (''sessions'', Session_columns), (''session_members'', SessionMember_columns),
     (''executions'', Execution_columns), (''snapshots'', Snapshot_columns)]"

text \<open>The types the annotations stand for when none is given.\<close>
fun default_type :: "py_type \<Rightarrow> sql_type option" where
  "default_type Py_uuid = Some Uuid"
| "default_type Py_bool = Some Boolean"
| "default_type Py_bytes = Some LargeBinary"
| "default_type Py_int = Some Integer"
| "default_type Py_datetime = Some (DateTime False)"
| "default_type _ = None"

definition declared_column :: "mapped_column \<Rightarrow> column option" where
  "declared_column m =
     map_option (\<lambda>type. \<lparr>c_name = mc_name m, c_type = type,
         c_nullable = (if mc_primary_key m then False else case mc_nullable m of None \<Rightarrow> mc_optional m | Some b \<Rightarrow> b),
         c_server_default = mc_server_default m\<rparr>)
       (case mc_type m of None \<Rightarrow> default_type (mc_annotation m) | Some type \<Rightarrow> Some type)"

definition declared_constraints :: "string \<Rightarrow> mapped_column list \<Rightarrow> table_constraint list" where
  "declared_constraints t ms =
     PrimaryKeyConstraint (map mc_name (filter mc_primary_key ms)) (conventional_name ''pk'' t [] []) #
     List.map_filter (\<lambda>m. map_option (\<lambda>(target, on_delete).
         ForeignKeyConstraint (mc_name m) target (conventional_name ''fk'' t (mc_name m) (fst target)) on_delete) (mc_foreign_key m)) ms"

definition declared_indexes :: "string \<Rightarrow> mapped_column list \<Rightarrow> (string, string \<times> string list \<times> bool) dict" where
  "declared_indexes t ms =
     List.map_filter (\<lambda>m. map_option (\<lambda>unique.
         (conventional_name ''ix'' t (mc_name m) [], t, [mc_name m], unique)) (mc_index m)) ms"

definition declared_schema :: schema where
  "declared_schema =
     \<lparr>sc_tables = map (\<lambda>(t, ms). (t, List.map_filter declared_column ms, declared_constraints t ms)) Base_metadata,
      sc_indexes = concat (map (\<lambda>(t, ms). declared_indexes t ms) Base_metadata)\<rparr>"

text \<open>Equal up to the order of tables, constraints and indexes.\<close>
definition same_elements :: "'a list \<Rightarrow> 'a list \<Rightarrow> bool" where
  "same_elements xs ys \<longleftrightarrow> list_all (\<lambda>x. x \<in> set ys) xs \<and> list_all (\<lambda>y. y \<in> set xs) ys"

definition same_schema :: "schema \<Rightarrow> schema \<Rightarrow> bool" where
  "same_schema a b \<longleftrightarrow>
     same_elements (map fst (sc_tables a)) (map fst (sc_tables b)) \<and> same_elements (sc_indexes a) (sc_indexes b) \<and>
     list_all (\<lambda>(t, cols, constraints).
         case dget (sc_tables b) t of
           None \<Rightarrow> False
         | Some (cols', constraints') \<Rightarrow> cols = cols' \<and> same_elements constraints constraints') (sc_tables a)"

lemma same_elements_iff: "same_elements xs ys \<longleftrightarrow> set xs = set ys"
  by (auto simp: same_elements_def list_all_iff)

text \<open>What the migration leaves behind.\<close>
definition migrated :: schema where
  "migrated = (case migrate empty_schema upgrade of Inl _ \<Rightarrow> empty_schema | Inr sch \<Rightarrow> sch)"

lemmas table_defs = users_columns_def users_constraints_def sessions_columns_def sessions_constraints_def
  executions_columns_def executions_constraints_def session_members_columns_def session_members_constraints_def
  snapshots_columns_def snapshots_constraints_def Column_def timestamp_def language_enum_def execution_status_enum_def role_enum_def

lemmas declared_defs = mapped_def created_column_def User_columns_def Session_columns_def SessionMember_columns_def
  Execution_columns_def Snapshot_columns_def Base_metadata_def declared_schema_def declared_column_def
  declared_constraints_def declared_indexes_def conventional_name_def List.map_filter_def

lemma migrated_eq:
  "migrated = \<lparr>
     sc_tables = [(''users'', users_columns, users_constraints), (''sessions'', sessions_columns, sessions_constraints),
       (''executions'', executions_columns, executions_constraints),
       (''session_members'', session_members_columns, session_members_constraints),
       (''snapshots'', snapshots_columns, snapshots_constraints)],
     sc_indexes = [(''ix_users_email'', ''users'', [''email''], True), (''ix_users_username'', ''users'', [''username''], True),
       (''ix_executions_session_id'', ''executions'', [''session_id''], False),
       (''ix_snapshots_session_id'', ''snapshots'', [''session_id''], False)]\<rparr>"
  by (simp add: migrated_def upgrade_def empty_schema_def has_columns_def table_defs)

lemma migrate_upgrade: "migrate empty_schema upgrade = Inr migrated"
proof -
  have "\<exists>sch. migrate empty_schema upgrade = Inr sch"
    by (simp add: upgrade_def empty_schema_def has_columns_def table_defs)
  then show ?thesis by (auto simp: migrated_def)
qed

text \<open>Migrating an empty database succeeds and creates the tables, columns, constraints and indexes that
  the models declare, under the names the naming convention gives them; the downgrade succeeds and
  leaves none of them.\<close>

lemma migration_creates_the_models:
  "\<exists>sch. migrate empty_schema upgrade = Inr sch \<and> same_schema sch declared_schema \<and>
     migrate sch downgrade = Inr empty_schema"
  by (simp add: upgrade_def downgrade_def empty_schema_def has_columns_def table_defs declared_defs same_schema_def
      same_elements_def all_bool_eq ex_bool_eq)

end
