(* ===== verification/Conformance.thy ===== *)
theory Conformance
  imports Schema
begin

text \<open>Rows and tables: what it means for the rows of theory Models to fit a schema of theory Schema, the
  requests that \<open>auth/schemas.py\<close>, \<open>sessions/schemas.py\<close> and \<open>snapshots/schemas.py\<close> let through, and every write
  of the program to its tables as one machine. Its invariant \<open>rows_ok\<close> gives that all rows fit the
  migrated tables for ever; text with a NUL is what the checks do not stop.\<close>

section \<open>Values, rows and tables\<close>

datatype sql_value =
    Null | V_uuid uuid | V_text pystr | V_int int | V_bool bool | V_bytes bytes | V_time datetime | V_enum string

text \<open>PostgreSQL stores text in UTF-8 without NUL, and an \<open>Integer\<close> in four bytes.\<close>
definition pg_text :: "pystr \<Rightarrow> bool" where
  "pg_text s \<longleftrightarrow> list_all (\<lambda>c. c \<noteq> 0 \<and> scalar c) s"

definition pg_int :: "int \<Rightarrow> bool" where
  "pg_int i \<longleftrightarrow> - (2 ^ 31) \<le> i \<and> i < 2 ^ 31"

fun has_type :: "sql_type \<Rightarrow> sql_value \<Rightarrow> bool" where
  "has_type Uuid (V_uuid _) \<longleftrightarrow> True"
| "has_type (String n) (V_text s) \<longleftrightarrow> length s \<le> n \<and> pg_text s"
| "has_type Text (V_text s) \<longleftrightarrow> pg_text s"
| "has_type Integer (V_int i) \<longleftrightarrow> pg_int i"
| "has_type Boolean (V_bool _) \<longleftrightarrow> True"
| "has_type LargeBinary (V_bytes _) \<longleftrightarrow> True"
| "has_type (DateTime _) (V_time _) \<longleftrightarrow> True"
| "has_type (Enum values _) (V_enum v) \<longleftrightarrow> v \<in> set values"
| "has_type _ _ \<longleftrightarrow> False"

type_synonym sql_row = "(string \<times> sql_value) list"

text \<open>A column the row leaves out takes its server default.\<close>
definition fits_column :: "column \<Rightarrow> sql_row \<Rightarrow> bool" where
  "fits_column c row =
     (case map_of row (c_name c) of
        None \<Rightarrow> c_nullable c \<or> c_server_default c \<noteq> None
      | Some v \<Rightarrow> if v = Null then c_nullable c else has_type (c_type c) v)"

definition fits_row :: "column list \<Rightarrow> sql_row \<Rightarrow> bool" where
  "fits_row cols row \<longleftrightarrow> list_all (\<lambda>c. fits_column c row) cols \<and> set (map fst row) \<subseteq> set (map c_name cols)"

definition key :: "string list \<Rightarrow> sql_row \<Rightarrow> sql_value option list" where
  "key names row = map (map_of row) names"

fun holds :: "(string \<Rightarrow> sql_row list) \<Rightarrow> sql_row list \<Rightarrow> table_constraint \<Rightarrow> bool" where
  "holds content rows (PrimaryKeyConstraint names _) \<longleftrightarrow> distinct (map (key names) rows)"
| "holds content rows (ForeignKeyConstraint name target _ _) \<longleftrightarrow>
     list_all (\<lambda>row. map_of row name = Some Null \<or>
       map_of row name \<in> set (map (\<lambda>r. map_of r (snd target)) (content (fst target)))) rows"

text \<open>\<open>content t\<close> are the rows of table \<open>t\<close>.\<close>
definition table_fits :: "(string \<Rightarrow> sql_row list) \<Rightarrow> string \<Rightarrow> column list \<Rightarrow> table_constraint list \<Rightarrow> bool" where
  "table_fits content t cols constraints \<longleftrightarrow>
     list_all (fits_row cols) (content t) \<and> list_all (holds content (content t)) constraints"

definition fits_schema :: "schema \<Rightarrow> (string \<Rightarrow> sql_row list) \<Rightarrow> bool" where
  "fits_schema sch content \<longleftrightarrow>
     list_all (\<lambda>(t, cols, constraints). table_fits content t cols constraints) (sc_tables sch) \<and>
     list_all (\<lambda>(_, t, names, unique). unique \<longrightarrow> distinct (map (key names) (content t))) (sc_indexes sch)"

section \<open>The rows of the models\<close>

fun language_value :: "LanguageEnum \<Rightarrow> string" where
  "language_value python = ''python''"
| "language_value cpp = ''cpp''"
| "language_value javascript = ''javascript''"

definition or_null :: "('a \<Rightarrow> sql_value) \<Rightarrow> 'a option \<Rightarrow> sql_value" where
  "or_null f x = (case x of None \<Rightarrow> Null | Some v \<Rightarrow> f v)"

definition user_row :: "User \<Rightarrow> sql_row" where
  "user_row u = [(''id'', V_uuid (u_id u)), (''username'', V_text (u_username u)), (''email'', V_text (u_email u)),
     (''password_hash'', V_text (u_password_hash u))]"

definition session_row :: "Session \<Rightarrow> sql_row" where
  "session_row s = [(''id'', V_uuid (s_id s)), (''name'', V_text (s_name s)), (''language'', V_enum (language_value (s_language s))),
     (''owner_id'', V_uuid (s_owner_id s)), (''is_active'', V_bool (s_is_active s)),
     (''yjs_state'', or_null V_bytes (s_yjs_state s)), (''updated_at'', V_time (s_updated_at s))]"

definition member_row :: "SessionMember \<Rightarrow> sql_row" where
  "member_row m = [(''session_id'', V_uuid (m_session_id m)), (''user_id'', V_uuid (m_user_id m)),
     (''role'', V_enum (role_value (m_role m)))]"

definition execution_row :: "Execution \<Rightarrow> sql_row" where
  "execution_row x = [(''id'', V_uuid (x_id x)), (''session_id'', V_uuid (x_session_id x)),
     (''triggered_by'', or_null V_uuid (x_triggered_by x)), (''status'', V_enum (status_value (x_status x))),
     (''code'', V_text (x_code x)), (''language'', V_enum (language_value (x_language x))),
     (''stdout'', or_null V_text (x_stdout x)), (''stderr'', or_null V_text (x_stderr x)),
     (''exit_code'', or_null V_int (x_exit_code x)), (''elapsed_ms'', or_null V_int (x_elapsed_ms x)),
     (''created_at'', V_time (x_created_at x)), (''finished_at'', or_null V_time (x_finished_at x))]"

definition snapshot_row :: "Snapshot \<Rightarrow> sql_row" where
  "snapshot_row n = [(''id'', V_uuid (n_id n)), (''session_id'', V_uuid (n_session_id n)),
     (''created_by'', or_null V_uuid (n_created_by n)), (''label'', V_text (n_label n)),
     (''document_state'', V_bytes (n_document_state n)), (''size_bytes'', V_int (n_size_bytes n)),
     (''created_at'', V_time (n_created_at n))]"

definition rows_of :: "database \<Rightarrow> string \<Rightarrow> sql_row list" where
  "rows_of db t =
     (if t = ''users'' then map (user_row \<circ> snd) (db_users db)
      else if t = ''sessions'' then map (session_row \<circ> snd) (db_sessions db)
      else if t = ''session_members'' then map (member_row \<circ> snd) (db_members db)
      else if t = ''executions'' then map (execution_row \<circ> snd) (db_executions db)
      else if t = ''snapshots'' then map (snapshot_row \<circ> snd) (db_snapshots db)
      else [])"

section \<open>What the request schemas let through\<close>

definition field_length :: "nat \<Rightarrow> nat \<Rightarrow> pystr \<Rightarrow> bool" where
  "field_length least most s \<longleftrightarrow> least \<le> length s \<and> length s \<le> most"

text \<open>\<open>EmailStr\<close> answers the normalised address, or refuses it.\<close>
definition register_request :: "(pystr \<Rightarrow> pystr option) \<Rightarrow> pystr \<Rightarrow> pystr \<Rightarrow> pystr \<Rightarrow> RegisterRequest option" where
  "register_request email_str username email password =
     (if field_length 3 64 username \<and> field_length 6 128 password
      then map_option (\<lambda>email. \<lparr>rr_username = username, rr_email = email, rr_password = password\<rparr>) (email_str email)
      else None)"

definition session_create :: "pystr \<Rightarrow> LanguageEnum \<Rightarrow> (pystr \<times> LanguageEnum) option" where
  "session_create name language = (if field_length 1 128 name then Some (name, language) else None)"

text \<open>Pydantic strips the label (in its own way) before it measures it.\<close>
definition snapshot_create :: "(pystr \<Rightarrow> pystr) \<Rightarrow> pystr \<Rightarrow> pystr option" where
  "snapshot_create strip label = (if field_length 1 255 (strip label) then Some (strip label) else None)"

definition add_member_request :: "uuid option \<Rightarrow> pystr option \<Rightarrow> RoleEnum option \<Rightarrow> (invitee \<times> RoleEnum) option" where
  "add_member_request user_id username role =
     (let role = (case role of None \<Rightarrow> viewer | Some r \<Rightarrow> r)
      in case (user_id, username) of
           (Some i, None) \<Rightarrow> Some (By_id i, role)
         | (None, Some name) \<Rightarrow> if field_length 3 64 name then Some (By_username name, role) else None
         | _ \<Rightarrow> None)"

section \<open>Every write of the program\<close>

record write_env =
  we_hash_password :: "pystr \<Rightarrow> pystr"
  we_email_str :: "pystr \<Rightarrow> pystr option"
  we_strip :: "pystr \<Rightarrow> pystr"

text \<open>The operations of the services with what the requests bring, the worker's updates, and the explicit save
  of a document.\<close>
datatype db_write =
    Write_user uuid pystr pystr pystr
  | Write_session session_op
  | Write_snapshot uuid datetime uuid uuid pystr bytes
  | Write_execution uuid datetime uuid uuid pystr LanguageEnum
  | Move_execution uuid ExecutionStatus ExecutionStatus
  | Finish_execution uuid ExecutionStatus pystr pystr "int option" int datetime
  | Cancel_execution uuid datetime
  | Recover_execution uuid datetime
  | Drop_execution uuid
  | Write_document uuid bytes datetime

text \<open>The \<open>UPDATE\<close> of an explicit save.\<close>
definition save_document_row :: "uuid \<Rightarrow> bytes \<Rightarrow> datetime \<Rightarrow> database \<Rightarrow> database" where
  "save_document_row sid state saved_at db =
     (case dget (db_sessions db) sid of
        None \<Rightarrow> db
      | Some s \<Rightarrow> db\<lparr>db_sessions := dset sid (s\<lparr>s_yjs_state := Some state, s_updated_at := saved_at\<rparr>) (db_sessions db)\<rparr>)"

definition on_execution :: "uuid \<Rightarrow> database \<Rightarrow> (Execution \<Rightarrow> 'e + Execution \<times> database) \<Rightarrow> database" where
  "on_execution i db f =
     (case dget (db_executions db) i of
        None \<Rightarrow> db
      | Some x \<Rightarrow> (case f x of Inl _ \<Rightarrow> db | Inr (_, db') \<Rightarrow> db'))"

definition if_written :: "database \<Rightarrow> 'e + (Execution \<times> database) option \<Rightarrow> database" where
  "if_written db r = (case r of Inr (Some (_, db')) \<Rightarrow> db' | _ \<Rightarrow> db)"

fun write_step :: "write_env \<Rightarrow> database \<Rightarrow> db_write \<Rightarrow> database" where
  "write_step env db (Write_user i username email password) =
     (case register_request (we_email_str env) username email password of
        None \<Rightarrow> db
      | Some body \<Rightarrow> account_step (we_hash_password env) db (i, body))"
| "write_step env db (Write_session op) =
     (case op of
        Create i now name language creator \<Rightarrow>
          if session_create name language = None then db else session_step db op
      | _ \<Rightarrow> session_step db op)"
| "write_step env db (Write_snapshot i now sid created_by label state) =
     (case snapshot_create (we_strip env) label of
        None \<Rightarrow> db
      | Some label \<Rightarrow>
          committed db (rbind (create_snapshot i now db sid created_by label state) (\<lambda>(_, db). Inr db)))"
| "write_step env db (Write_execution i now sid triggered_by code language) =
     (case insert_execution i now db sid triggered_by code language of None \<Rightarrow> db | Some (_, db') \<Rightarrow> db')"
| "write_step env db (Move_execution i expected target) = if_written db (transition_row db i expected target)"
| "write_step env db (Finish_execution i target stdout stderr exit_code elapsed now) =
     if_written db (finish_row db i target stdout stderr exit_code elapsed now)"
| "write_step env db (Cancel_execution i now) = on_execution i db (\<lambda>x. commit_cancel now x db)"
| "write_step env db (Recover_execution i now) = on_execution i db (\<lambda>x. recover_row db x now)"
| "write_step env db (Drop_execution i) = delete_execution i db"
| "write_step env db (Write_document sid state now) = save_document_row sid state now db"

section \<open>Rows that fit\<close>

lemma distinct_values:
  assumes "dict_ok d" "\<And>i j u v. dget d i = Some u \<Longrightarrow> dget d j = Some v \<Longrightarrow> f u = f v \<Longrightarrow> i = j"
  shows "distinct (map (f \<circ> snd) d)"
proof -
  have "distinct d" using assms(1) by (simp add: dict_ok_def distinct_map)
  moreover have "inj_on (f \<circ> snd) (set d)"
  proof (rule inj_onI)
    fix x y
    assume xy: "x \<in> set d" "y \<in> set d" "(f \<circ> snd) x = (f \<circ> snd) y"
    obtain i u j v where *: "x = (i, u)" "y = (j, v)" by fastforce
    have uv: "dget d i = Some u" "dget d j = Some v"
      using xy(1,2) assms(1) unfolding * dict_ok_def by simp_all
    moreover have "i = j" using assms(2) [OF uv] xy(3) by (simp add: *)
    ultimately show "x = y" by (simp add: *)
  qed
  ultimately show ?thesis by (simp add: distinct_map)
qed

lemma value_listed: "dict_ok d \<Longrightarrow> v \<in> snd ` set d \<longleftrightarrow> (\<exists>i. dget d i = Some v)"
  by (auto simp: dict_ok_def image_iff intro: bexI [of _ "(_, v)"])

lemma all_values: "dict_ok d \<Longrightarrow> list_all P (map (f \<circ> snd) d) \<longleftrightarrow> (\<forall>i v. dget d i = Some v \<longrightarrow> P (f v))"
  by (auto simp: dict_ok_def list_all_iff)

lemma in_values: "dict_ok d \<Longrightarrow> x \<in> (\<lambda>e. g (snd e)) ` set d \<longleftrightarrow> (\<exists>i v. dget d i = Some v \<and> x = g v)"
  by (force simp: dict_ok_def image_iff)

lemma distinct_ids:
  assumes "dict_ok d" "\<And>i v. dget d i = Some v \<Longrightarrow> ident v = i" "\<And>u v. f u = f v \<Longrightarrow> ident u = ident v"
  shows "distinct (map (f \<circ> snd) d)"
  using assms(1)
proof (rule distinct_values)
  fix i j u v
  assume "dget d i = Some u" "dget d j = Some v" "f u = f v"
  then show "i = j" using assms(2) [of i u] assms(2) [of j v] assms(3) [of u v] by simp
qed

text \<open>Rows in terms of the models.\<close>
definition user_fits :: "User \<Rightarrow> bool" where
  "user_fits u \<longleftrightarrow> has_type (String 64) (V_text (u_username u)) \<and> has_type (String 255) (V_text (u_email u)) \<and>
     has_type (String 255) (V_text (u_password_hash u))"

definition execution_fits :: "Execution \<Rightarrow> bool" where
  "execution_fits x \<longleftrightarrow> pg_text (x_code x) \<and>
     (\<forall>s. x_stdout x = Some s \<or> x_stderr x = Some s \<longrightarrow> pg_text s) \<and>
     (\<forall>i. x_exit_code x = Some i \<or> x_elapsed_ms x = Some i \<longrightarrow> pg_int i)"

definition snapshot_fits :: "Snapshot \<Rightarrow> bool" where
  "snapshot_fits n \<longleftrightarrow> has_type (String 255) (V_text (n_label n)) \<and> pg_int (n_size_bytes n)"

text \<open>The references of an execution or a snapshot: its session, and the user unless it is \<open>None\<close>.\<close>
definition refers :: "database \<Rightarrow> uuid \<Rightarrow> uuid option \<Rightarrow> bool" where
  "refers db sid user \<longleftrightarrow> dget (db_sessions db) sid \<noteq> None \<and> (\<forall>i. user = Some i \<longrightarrow> dget (db_users db) i \<noteq> None)"

definition rows_ok :: "database \<Rightarrow> bool" where
  "rows_ok db \<longleftrightarrow> db_ok db \<and> users_ok db \<and> dict_ok (db_executions db) \<and> dict_ok (db_snapshots db) \<and>
     (\<forall>i u. dget (db_users db) i = Some u \<longrightarrow> user_fits u) \<and>
     (\<forall>i s. dget (db_sessions db) i = Some s \<longrightarrow> has_type (String 128) (V_text (s_name s))) \<and>
     (\<forall>i x. dget (db_executions db) i = Some x \<longrightarrow> x_id x = i \<and> execution_fits x \<and> refers db (x_session_id x) (x_triggered_by x)) \<and>
     (\<forall>i n. dget (db_snapshots db) i = Some n \<longrightarrow> n_id n = i \<and> snapshot_fits n \<and> refers db (n_session_id n) (n_created_by n))"

lemma language_listed [simp]: "language_value l = ''python'' \<or> language_value l = ''cpp'' \<or> language_value l = ''javascript''"
  by (cases l) simp_all

lemma role_listed [simp]: "role_value r = ''viewer'' \<or> role_value r = ''editor'' \<or> role_value r = ''owner''"
  by (cases r) simp_all

lemma status_listed [simp]: "has_type execution_status_enum (V_enum (status_value st))"
  by (cases st) (simp_all add: execution_status_enum_def)

lemma or_null_simps [simp]: "or_null f None = Null" "or_null f (Some v) = f v"
  by (simp_all add: or_null_def)

lemma fits_or_null: "(\<And>v. f v \<noteq> Null) \<Longrightarrow> (if or_null f x = Null then True else P (or_null f x)) \<longleftrightarrow> (\<forall>v. x = Some v \<longrightarrow> P (f v))"
  by (cases x) simp_all

lemmas row_defs = user_row_def session_row_def member_row_def execution_row_def snapshot_row_def

lemma user_columns: "user_fits u \<Longrightarrow> fits_row users_columns (user_row u)"
  by (simp add: fits_row_def fits_column_def user_row_def table_defs user_fits_def)

lemma session_columns: "has_type (String 128) (V_text (s_name s)) \<Longrightarrow> fits_row sessions_columns (session_row s)"
  by (cases "s_yjs_state s") (simp_all add: fits_row_def fits_column_def session_row_def table_defs)

lemma member_columns: "fits_row session_members_columns (member_row m)"
  by (simp add: fits_row_def fits_column_def member_row_def table_defs)

lemma execution_columns: "execution_fits x \<Longrightarrow> fits_row executions_columns (execution_row x)"
  by (auto simp: fits_row_def fits_column_def execution_row_def executions_columns_def Column_def timestamp_def language_enum_def
      execution_fits_def or_null_def split: option.split)

lemma snapshot_columns: "snapshot_fits n \<Longrightarrow> fits_row snapshots_columns (snapshot_row n)"
  by (cases "n_created_by n") (simp_all add: fits_row_def fits_column_def snapshot_row_def table_defs snapshot_fits_def)

lemma rows_okD:
  assumes "rows_ok db"
  shows "db_ok db" "users_ok db" "dict_ok (db_executions db)" "dict_ok (db_snapshots db)"
    "dict_ok (db_sessions db)" "dict_ok (db_members db)" "dict_ok (db_users db)"
proof -
  show ok: "db_ok db" "users_ok db" "dict_ok (db_executions db)" "dict_ok (db_snapshots db)"
    using assms by (simp_all add: rows_ok_def)
  show "dict_ok (db_sessions db)" "dict_ok (db_members db)" using ok(1) by (simp_all add: db_ok_def)
  show "dict_ok (db_users db)" using ok(2) by (simp add: users_ok_def)
qed

lemma keys_distinct:
  assumes "rows_ok db"
  shows "distinct (map (key [''id''] \<circ> user_row \<circ> snd) (db_users db))"
    "distinct (map (key [''username''] \<circ> user_row \<circ> snd) (db_users db))"
    "distinct (map (key [''email''] \<circ> user_row \<circ> snd) (db_users db))"
    "distinct (map (key [''id''] \<circ> session_row \<circ> snd) (db_sessions db))"
    "distinct (map (key [''session_id'', ''user_id''] \<circ> member_row \<circ> snd) (db_members db))"
    "distinct (map (key [''id''] \<circ> execution_row \<circ> snd) (db_executions db))"
    "distinct (map (key [''id''] \<circ> snapshot_row \<circ> snd) (db_snapshots db))"
proof -
  note ok = rows_okD [OF assms]
  have ids: "\<And>i x. dget (db_executions db) i = Some x \<Longrightarrow> x_id x = i"
    "\<And>i n. dget (db_snapshots db) i = Some n \<Longrightarrow> n_id n = i"
    using assms by (simp_all add: rows_ok_def)
  have session: "s_id s = i" if "dget (db_sessions db) i = Some s" for i s
    using ok(1) that by (simp add: db_ok_def db_keys_ok_def)
  have member: "(m_session_id m, m_user_id m) = i" if "dget (db_members db) i = Some m" for i m
    using db_ok_member_of [OF ok(1), of "fst i" "snd i" m] that by (cases i) simp
  have names: "i = j" if "dget (db_users db) i = Some u" "dget (db_users db) j = Some v"
    "u_username u = u_username v \<or> u_email u = u_email v" for i j u v
    using ok(2) that unfolding users_ok_def by blast
  show "distinct (map (key [''id''] \<circ> user_row \<circ> snd) (db_users db))"
    by (rule distinct_ids [OF ok(7), of u_id]) (simp_all add: users_okD(2) [OF ok(2)] key_def user_row_def)
  show "distinct (map (key [''username''] \<circ> user_row \<circ> snd) (db_users db))"
    "distinct (map (key [''email''] \<circ> user_row \<circ> snd) (db_users db))"
    by (rule distinct_values [OF ok(7)]; auto simp: key_def user_row_def intro: names)+
  show "distinct (map (key [''id''] \<circ> session_row \<circ> snd) (db_sessions db))"
    by (rule distinct_ids [OF ok(5), of s_id]) (simp_all add: session key_def session_row_def)
  show "distinct (map (key [''session_id'', ''user_id''] \<circ> member_row \<circ> snd) (db_members db))"
    by (rule distinct_ids [OF ok(6), of "\<lambda>m. (m_session_id m, m_user_id m)"]) (simp_all add: member key_def member_row_def)
  show "distinct (map (key [''id''] \<circ> execution_row \<circ> snd) (db_executions db))"
    by (rule distinct_ids [OF ok(3), of x_id]) (simp_all add: ids(1) key_def execution_row_def)
  show "distinct (map (key [''id''] \<circ> snapshot_row \<circ> snd) (db_snapshots db))"
    by (rule distinct_ids [OF ok(4), of n_id]) (simp_all add: ids(2) key_def snapshot_row_def)
qed

text \<open>References point to rows.\<close>
lemma reference_listed:
  assumes "dict_ok d" "dget d i \<noteq> None" "\<And>v. dget d i = Some v \<Longrightarrow> g v = x"
  shows "x \<in> (\<lambda>e. g (snd e)) ` set d"
  using assms by (auto simp: in_values)

lemma references:
  assumes "rows_ok db"
  shows "dget (db_users db) i \<noteq> None \<Longrightarrow> Some (V_uuid i) \<in> (\<lambda>x. map_of (user_row (snd x)) ''id'') ` set (db_users db)"
    "dget (db_sessions db) i \<noteq> None \<Longrightarrow> Some (V_uuid i) \<in> (\<lambda>x. map_of (session_row (snd x)) ''id'') ` set (db_sessions db)"
proof -
  note ok = rows_okD [OF assms]
  show "Some (V_uuid i) \<in> (\<lambda>x. map_of (user_row (snd x)) ''id'') ` set (db_users db)" if "dget (db_users db) i \<noteq> None"
    by (rule reference_listed [OF ok(7) that]) (simp add: user_row_def users_okD(2) [OF ok(2)])
  show "Some (V_uuid i) \<in> (\<lambda>x. map_of (session_row (snd x)) ''id'') ` set (db_sessions db)" if "dget (db_sessions db) i \<noteq> None"
    using ok(1) by (intro reference_listed [OF ok(5) that]) (simp add: session_row_def db_ok_def db_keys_ok_def)
qed

lemma rows_fit:
  assumes "rows_ok db"
  shows "dget (db_users db) i = Some u \<Longrightarrow> fits_row users_columns (user_row u)"
    and "dget (db_sessions db) i = Some s \<Longrightarrow> fits_row sessions_columns (session_row s)"
    and "dget (db_executions db) i = Some x \<Longrightarrow> fits_row executions_columns (execution_row x)"
    and "dget (db_snapshots db) i = Some n \<Longrightarrow> fits_row snapshots_columns (snapshot_row n)"
  using assms user_columns session_columns execution_columns snapshot_columns unfolding rows_ok_def by blast+

lemma rows_refer:
  fixes db
  defines "users \<equiv> (\<lambda>x. map_of (user_row (snd x)) ''id'') ` set (db_users db)"
    and "sessions \<equiv> (\<lambda>x. map_of (session_row (snd x)) ''id'') ` set (db_sessions db)"
  assumes "rows_ok db"
  shows "dget (db_sessions db) i = Some s \<Longrightarrow> map_of (session_row s) ''owner_id'' \<in> users"
    and "dget (db_members db) k = Some m \<Longrightarrow> map_of (member_row m) ''session_id'' \<in> sessions \<and> map_of (member_row m) ''user_id'' \<in> users"
    and "dget (db_executions db) i = Some x \<Longrightarrow> map_of (execution_row x) ''session_id'' \<in> sessions \<and>
      (map_of (execution_row x) ''triggered_by'' = Some Null \<or> map_of (execution_row x) ''triggered_by'' \<in> users)"
    and "dget (db_snapshots db) i = Some n \<Longrightarrow> map_of (snapshot_row n) ''session_id'' \<in> sessions \<and>
      (map_of (snapshot_row n) ''created_by'' = Some Null \<or> map_of (snapshot_row n) ''created_by'' \<in> users)"
proof -
  note listed = references [OF assms(3), folded users_def sessions_def]
  have db: "db_ok db" and refs: "dget (db_executions db) i = Some x \<Longrightarrow> refers db (x_session_id x) (x_triggered_by x)"
    "dget (db_snapshots db) i = Some n \<Longrightarrow> refers db (n_session_id n) (n_created_by n)"
    using assms(3) by (simp_all add: rows_ok_def)
  show "map_of (session_row s) ''owner_id'' \<in> users" if "dget (db_sessions db) i = Some s"
    using listed(1) db that by (simp add: session_row_def db_ok_def db_keys_ok_def)
  show "map_of (member_row m) ''session_id'' \<in> sessions \<and> map_of (member_row m) ''user_id'' \<in> users" if "dget (db_members db) k = Some m"
    using listed db_ok_member_of [OF db, of "fst k" "snd k" m] that by (simp add: member_row_def)
  show "map_of (execution_row x) ''session_id'' \<in> sessions \<and>
      (map_of (execution_row x) ''triggered_by'' = Some Null \<or> map_of (execution_row x) ''triggered_by'' \<in> users)"
    if "dget (db_executions db) i = Some x"
    using listed refs(1) [OF that] by (cases "x_triggered_by x") (simp_all add: execution_row_def refers_def)
  show "map_of (snapshot_row n) ''session_id'' \<in> sessions \<and>
      (map_of (snapshot_row n) ''created_by'' = Some Null \<or> map_of (snapshot_row n) ''created_by'' \<in> users)"
    if "dget (db_snapshots db) i = Some n"
    using listed refs(2) [OF that] by (cases "n_created_by n") (simp_all add: snapshot_row_def refers_def)
qed

lemma rows_ok_fit:
  assumes "rows_ok db"
  shows "fits_schema migrated (rows_of db)"
proof -
  note facts = table_fits_def rows_of_def all_values rows_okD [OF assms] member_columns
    rows_fit [OF assms] rows_refer [OF assms] keys_distinct [OF assms, unfolded comp_assoc]
  have "table_fits (rows_of db) ''users'' users_columns users_constraints"
    by (simp add: facts users_constraints_def)
  moreover have "table_fits (rows_of db) ''sessions'' sessions_columns sessions_constraints"
    by (simp add: facts sessions_constraints_def)
  moreover have "table_fits (rows_of db) ''executions'' executions_columns executions_constraints"
    by (simp add: facts executions_constraints_def)
  moreover have "table_fits (rows_of db) ''session_members'' session_members_columns session_members_constraints"
    by (simp add: facts session_members_constraints_def)
  moreover have "table_fits (rows_of db) ''snapshots'' snapshots_columns snapshots_constraints"
    by (simp add: facts snapshots_constraints_def)
  ultimately show ?thesis
    by (simp add: fits_schema_def migrated_eq rows_of_def keys_distinct [OF assms, unfolded comp_assoc])
qed

section \<open>Every write keeps the rows fitting\<close>

text \<open>Text without NUL, and numbers of four bytes.\<close>
fun clean :: "db_write \<Rightarrow> bool" where
  "clean (Write_user _ username _ _) \<longleftrightarrow> pg_text username"
| "clean (Write_session op) \<longleftrightarrow> (case op of Create _ _ name _ _ \<Rightarrow> pg_text name | _ \<Rightarrow> True)"
| "clean (Write_snapshot _ _ _ _ label state) \<longleftrightarrow> pg_text label \<and> int (length state) < 2 ^ 31"
| "clean (Write_execution _ _ _ _ code _) \<longleftrightarrow> pg_text code"
| "clean (Finish_execution _ _ stdout stderr exit_code elapsed _) \<longleftrightarrow> pg_text stdout \<and> pg_text stderr \<and>
     (\<forall>i. exit_code = Some i \<longrightarrow> pg_int i) \<and> pg_int elapsed"
| "clean _ \<longleftrightarrow> True"

text \<open>Hashes and addresses are short text, and stripping only takes characters away.\<close>
definition env_ok :: "write_env \<Rightarrow> bool" where
  "env_ok env \<longleftrightarrow> (\<forall>p. length (we_hash_password env p) \<le> 255 \<and> pg_text (we_hash_password env p)) \<and>
     (\<forall>e e'. we_email_str env e = Some e' \<longrightarrow> length e' \<le> 254 \<and> pg_text e') \<and>
     (\<forall>s. set (we_strip env s) \<subseteq> set s)"

lemma pg_text_mono: "pg_text s \<Longrightarrow> set t \<subseteq> set s \<Longrightarrow> pg_text t"
  by (auto simp: pg_text_def list_all_iff)

lemma py_strip_part: "set (py_strip s) \<subseteq> set s" "length (py_strip s) \<le> length s"
proof -
  show "set (py_strip s) \<subseteq> set s" by (auto simp: py_strip_def dest!: set_dropWhileD)
  show "length (py_strip s) \<le> length s"
    using length_dropWhile_le [of py_whitespace "rev (dropWhile py_whitespace s)"] length_dropWhile_le [of py_whitespace s]
    by (simp add: py_strip_def)
qed

text \<open>The invariants of sessions and users look at their own tables.\<close>
lemma other_tables [simp]:
  "db_ok (db\<lparr>db_executions := e\<rparr>) = db_ok db" "users_ok (db\<lparr>db_executions := e\<rparr>) = users_ok db"
  "db_ok (db\<lparr>db_snapshots := n\<rparr>) = db_ok db" "users_ok (db\<lparr>db_snapshots := n\<rparr>) = users_ok db"
  "refers (db\<lparr>db_executions := e\<rparr>) = refers db" "refers (db\<lparr>db_snapshots := n\<rparr>) = refers db"
  by (simp_all add: db_ok_def db_keys_ok_def single_owner_def role_of_def users_ok_def refers_def fun_eq_iff)

lemma users_ok_cong: "db_users db' = db_users db \<Longrightarrow> users_ok db' = users_ok db"
  by (simp add: users_ok_def)

lemma refers_mono:
  assumes "refers db sid user" "\<And>i. dget (db_users db) i \<noteq> None \<Longrightarrow> dget (db_users db') i \<noteq> None"
    "\<And>i. dget (db_sessions db) i \<noteq> None \<Longrightarrow> dget (db_sessions db') i \<noteq> None"
  shows "refers db' sid user"
  using assms unfolding refers_def by blast

lemma rows_ok_set_execution:
  assumes "rows_ok db" "execution_fits x" "refers db (x_session_id x) (x_triggered_by x)"
  shows "rows_ok (set_execution x db)"
  using assms by (simp add: rows_ok_def)

lemma rows_ok_execution:
  assumes "rows_ok db" "dget (db_executions db) i = Some x"
  shows "x_id x = i" "execution_fits x" "refers db (x_session_id x) (x_triggered_by x)"
  using assms by (simp_all add: rows_ok_def)

text \<open>An update of an execution row that keeps its references.\<close>
lemma rows_ok_update:
  assumes "rows_ok db" "dget (db_executions db) i = Some x" "execution_fits y" "x_session_id y = x_session_id x" "x_triggered_by y = x_triggered_by x"
  shows "rows_ok (set_execution y db)"
  using rows_ok_set_execution [OF assms(1,3)] rows_ok_execution(3) [OF assms(1,2)] assms(4,5) by simp

lemma rows_ok_drop: "rows_ok db \<Longrightarrow> rows_ok (delete_execution i db)"
  by (simp add: rows_ok_def delete_execution_def)

lemma rows_ok_set_snapshot:
  assumes "rows_ok db" "snapshot_fits n" "refers db (n_session_id n) (n_created_by n)"
  shows "rows_ok (db\<lparr>db_snapshots := dset (n_id n) n (db_snapshots db)\<rparr>)"
  using assms by (simp add: rows_ok_def)

text \<open>The tables of users and sessions grow.\<close>
lemma rows_ok_grow:
  assumes "rows_ok db" "db_ok db'" "users_ok db'" "db_executions db' = db_executions db" "db_snapshots db' = db_snapshots db"
    and "\<And>i. dget (db_users db) i \<noteq> None \<Longrightarrow> dget (db_users db') i \<noteq> None"
    and "\<And>i. dget (db_sessions db) i \<noteq> None \<Longrightarrow> dget (db_sessions db') i \<noteq> None"
    and "\<And>i u. dget (db_users db') i = Some u \<Longrightarrow> user_fits u"
    and "\<And>i s. dget (db_sessions db') i = Some s \<Longrightarrow> has_type (String 128) (V_text (s_name s))"
  shows "rows_ok db'"
proof -
  have "refers db sid user \<Longrightarrow> refers db' sid user" for sid user
    by (rule refers_mono [OF _ assms(6,7)])
  with assms(1-5,8,9) show ?thesis unfolding rows_ok_def by auto
qed

lemma rows_ok_names: "rows_ok db \<Longrightarrow> dget (db_sessions db) i = Some s \<Longrightarrow> has_type (String 128) (V_text (s_name s))"
  unfolding rows_ok_def by blast

lemma rows_ok_users: "rows_ok db \<Longrightarrow> dget (db_users db) i = Some u \<Longrightarrow> user_fits u"
  unfolding rows_ok_def by blast

text \<open>What a session operation leaves alone.\<close>
definition session_frame :: "database \<Rightarrow> session_op \<Rightarrow> database \<Rightarrow> bool" where
  "session_frame db op db' \<longleftrightarrow> db_users db' = db_users db \<and> db_executions db' = db_executions db \<and> db_snapshots db' = db_snapshots db \<and>
     (\<forall>i s'. dget (db_sessions db') i = Some s' \<longrightarrow>
        (\<exists>s. dget (db_sessions db) i = Some s \<and> s_name s = s_name s') \<or>
        (\<exists>j now name l c. op = Create j now name l c \<and> s_name s' = name))"

lemma session_step_frame: "session_frame db op (session_step db op)"
proof -
  have refl: "session_frame db op db" by (auto simp: session_frame_def)
  show ?thesis
  proof (cases op)
    case (Create i now name l c)
    then show ?thesis unfolding Create session_step.simps
      by (intro committed_cases [where P = "session_frame db (Create i now name l c)"])
        (use refl in \<open>auto simp: rbind_Inr_iff create_session_Inr session_frame_def\<close>)
  next
    case (Add sid uid role)
    show ?thesis unfolding Add session_step.simps
      by (intro committed_cases [where P = "session_frame db (Add sid uid role)"])
        (auto simp: rbind_Inr_iff add_member_Inr session_frame_def)
  next
    case (Update_role sid uid role)
    show ?thesis unfolding Update_role session_step.simps
      by (intro committed_cases [where P = "session_frame db (Update_role sid uid role)"])
        (auto simp: rbind_Inr_iff update_member_role_Inr session_frame_def split: if_splits)
  next
    case (Remove sid uid)
    show ?thesis unfolding Remove session_step.simps
      by (intro committed_cases [where P = "session_frame db (Remove sid uid)"])
        (auto simp: remove_member_Inr session_frame_def)
  next
    case (Close now sid)
    show ?thesis unfolding Close session_step.simps
      by (intro committed_cases [where P = "session_frame db (Close now sid)"])
        (auto simp: rbind_Inr_iff close_session_Inr session_frame_def split: if_splits)
  qed
qed

lemma rows_ok_session:
  assumes "rows_ok db" "\<And>j now name l c. op = Create j now name l c \<Longrightarrow> has_type (String 128) (V_text name)"
  shows "rows_ok (session_step db op)"
proof (rule rows_ok_grow [OF assms(1)])
  note ok = rows_okD [OF assms(1)]
  note frame = session_step_frame [of db op, unfolded session_frame_def]
  show "db_ok (session_step db op)" by (rule session_step_ok [OF ok(1)])
  show "users_ok (session_step db op)" using frame ok(2) users_ok_cong [of "session_step db op" db] by simp
  show "db_executions (session_step db op) = db_executions db" "db_snapshots (session_step db op) = db_snapshots db"
    using frame by simp_all
  show "dget (db_users db) i \<noteq> None \<Longrightarrow> dget (db_users (session_step db op)) i \<noteq> None" for i using frame by simp
  show "dget (db_sessions db) i \<noteq> None \<Longrightarrow> dget (db_sessions (session_step db op)) i \<noteq> None" for i
    using session_step_below [of db op] by (force simp: db_below_def)
  show "user_fits u" if "dget (db_users (session_step db op)) i = Some u" for i u
    using rows_ok_users [OF assms(1), of i u] frame that by simp
  show "has_type (String 128) (V_text (s_name s))" if s: "dget (db_sessions (session_step db op)) i = Some s" for i s
  proof -
    from frame s consider (old) s0 where "dget (db_sessions db) i = Some s0" "s_name s0 = s_name s"
      | (new) j now l c where "op = Create j now (s_name s) l c" by blast
    then show ?thesis
    proof cases
      case old
      with rows_ok_names [OF assms(1) old(1)] show ?thesis by simp
    next
      case new
      then show ?thesis by (rule assms(2))
    qed
  qed
qed

lemma rows_ok_user:
  assumes "rows_ok db" "length (rr_username body) \<le> 64" "pg_text (rr_username body)" "length (rr_email body) \<le> 255" "pg_text (rr_email body)"
    and "\<And>p. length (hashpw p) \<le> 255 \<and> pg_text (hashpw p)"
  shows "rows_ok (account_step hashpw db (i, body))"
proof (cases "register hashpw i db body")
  case (Inr r)
  obtain user db' where r: "r = (user, db')" by fastforce
  note reg = register_ok [OF rows_okD(2) [OF assms(1)] Inr [unfolded r]] register_Inr [OF Inr [unfolded r]]
  have tables: "db_executions db' = db_executions db" "db_snapshots db' = db_snapshots db" "db_sessions db' = db_sessions db"
    "db_members db' = db_members db" "db_users db' = dset i user (db_users db)"
    using reg(5) by simp_all
  have "rows_ok db'"
  proof (rule rows_ok_grow [OF assms(1) _ reg(1) tables(1,2)])
    show "db_ok db'"
      using rows_okD(1) [OF assms(1)] tables by (auto simp: db_ok_def db_keys_ok_def single_owner_def role_of_def)
    show "user_fits u" if "dget (db_users db') j = Some u" for j u
    proof (cases "j = i")
      case True
      with that tables(5) have "u = user" by simp
      with reg(4) assms(2-6) show ?thesis by (simp add: user_fits_def)
    next
      case False
      with that tables(5) have "dget (db_users db) j = Some u" by simp
      then show ?thesis by (rule rows_ok_users [OF assms(1)])
    qed
    show "has_type (String 128) (V_text (s_name s))" if "dget (db_sessions db') j = Some s" for j s
      using rows_ok_names [OF assms(1), of j s] that tables(3) by simp
  qed (use tables in auto)
  with Inr r show ?thesis by (simp add: account_step_def)
qed (use assms(1) in \<open>simp add: account_step_def\<close>)

lemma rows_ok_save:
  assumes "rows_ok db"
  shows "rows_ok (save_document_row sid state now db)"
proof (cases "dget (db_sessions db) sid")
  case (Some s)
  let ?s = "s\<lparr>s_yjs_state := Some state, s_updated_at := now\<rparr>"
  let ?db = "db\<lparr>db_sessions := dset sid ?s (db_sessions db)\<rparr>"
  note ok = rows_okD [OF assms]
  have "s_id s = sid" using ok(1) Some by (simp add: db_ok_def db_keys_ok_def)
  then have "db_ok ?db" by (intro db_ok_set_session [OF ok(1) Some]) simp_all
  then have "rows_ok ?db"
  proof (rule rows_ok_grow [OF assms])
    show "users_ok ?db" using ok(2) users_ok_cong [of ?db db] by simp
    show "user_fits u" if "dget (db_users ?db) j = Some u" for j u
      using rows_ok_users [OF assms, of j u] that by simp
    show "has_type (String 128) (V_text (s_name t))" if t: "dget (db_sessions ?db) j = Some t" for j t
    proof (cases "j = sid")
      case True
      with t have "s_name t = s_name s" by auto
      with rows_ok_names [OF assms Some] show ?thesis by simp
    next
      case False
      with t have "dget (db_sessions db) j = Some t" by simp
      then show ?thesis by (rule rows_ok_names [OF assms])
    qed
  qed simp_all
  with Some show ?thesis by (simp add: save_document_row_def)
qed (use assms in \<open>simp add: save_document_row_def\<close>)

lemma transitioned: "transition_to x st = Inr y \<Longrightarrow> y = x\<lparr>x_status := st\<rparr>"
  by (simp add: transition_to_Inr)

lemma pg_text_py: "pg_text (py ''Execution worker restarted before completion.'')"
  by (simp add: pg_text_def scalar_def)

lemma write_step_rows_ok:
  assumes "env_ok env" "rows_ok db" "clean w"
  shows "rows_ok (write_step env db w)"
proof (cases w)
  case (Write_user i username email password)
  show ?thesis
  proof (cases "register_request (we_email_str env) username email password")
    case (Some body)
    then obtain e where "we_email_str env email = Some e"
      and body: "body = \<lparr>rr_username = username, rr_email = e, rr_password = password\<rparr>" "field_length 3 64 username"
      by (auto simp: register_request_def split: if_splits)
    then have "length e \<le> 254 \<and> pg_text e" using assms(1) unfolding env_ok_def by blast
    with body assms(1,3) Write_user rows_ok_user [OF assms(2), of body "we_hash_password env" i] Some show ?thesis
      by (simp add: field_length_def env_ok_def)
  qed (use assms(2) Write_user in simp)
next
  case (Write_session op)
  have "rows_ok (session_step db op)" if "\<And>j now name l c. op = Create j now name l c \<Longrightarrow> session_create name l \<noteq> None"
    using assms(3) that Write_session
    by (intro rows_ok_session [OF assms(2)]) (fastforce simp: session_create_def field_length_def split: if_splits)
  with Write_session assms(2) show ?thesis by (auto split: session_op.split)
next
  case (Write_snapshot i now sid created_by label state)
  show ?thesis
  proof (cases "snapshot_create (we_strip env) label")
    case (Some l)
    then have l: "l = we_strip env label" "length l \<le> 255" by (auto simp: snapshot_create_def field_length_def split: if_splits)
    have "set l \<subseteq> set label" using assms(1) unfolding l(1) env_ok_def by blast
    then have "set (py_strip l) \<subseteq> set label" using py_strip_part(1) [of l] by blast
    then have "pg_text (py_strip l)" "length (py_strip l) \<le> 255"
      using pg_text_mono assms(3) Write_snapshot py_strip_part(2) [of l] l(2) by auto
    moreover have "rows_ok db'" if "create_snapshot i now db sid created_by l state = Inr (n, db')" for n db'
      using that rows_ok_set_snapshot [OF assms(2), of n] assms(3) Write_snapshot calculation
      by (auto simp: create_snapshot_def Let_def snapshot_fits_def refers_def pg_int_def split: if_splits)
    ultimately show ?thesis
      using Write_snapshot Some assms(2) by (auto intro!: committed_cases [where P = rows_ok] simp: rbind_Inr_iff)
  qed (use assms(2) Write_snapshot in simp)
next
  case (Write_execution i now sid triggered_by code language)
  have "rows_ok db'" if "insert_execution i now db sid triggered_by code language = Some (x, db')" for x db'
    using that rows_ok_set_execution [OF assms(2), of x] assms(3) Write_execution
    by (auto simp: insert_execution_def Let_def execution_fits_def refers_def split: if_splits)
  with Write_execution assms(2) show ?thesis by (simp split: option.split)
next
  case (Move_execution i expected target)
  have "rows_ok db'" if "transition_row db i expected target = Inr (Some (y, db'))" for y db'
  proof -
    from that obtain x where x: "dget (db_executions db) i = Some x" "y = x\<lparr>x_status := target\<rparr>" "db' = set_execution y db"
      by (auto simp: transition_row_def rbind_Inr_iff split: option.splits if_splits dest: transitioned)
    with rows_ok_update [OF assms(2) x(1), of y] rows_ok_execution(2) [OF assms(2) x(1)] show ?thesis
      by (simp add: execution_fits_def)
  qed
  with Move_execution assms(2) show ?thesis by (auto simp: if_written_def split: sum.split option.split)
next
  case (Finish_execution i target stdout stderr exit_code elapsed now)
  have "rows_ok db'" if "finish_row db i target stdout stderr exit_code elapsed now = Inr (Some (y, db'))" for y db'
  proof -
    from that obtain x where x: "dget (db_executions db) i = Some x" "db' = set_execution y db"
      "x_session_id y = x_session_id x" "x_triggered_by y = x_triggered_by x" "x_code y = x_code x"
      "x_stdout y = Some stdout" "x_stderr y = Some stderr" "x_exit_code y = exit_code" "x_elapsed_ms y = Some elapsed"
      by (auto simp: finish_row_def rbind_Inr_iff Let_def split: option.splits if_splits dest!: transitioned)
    with rows_ok_execution(2) [OF assms(2) x(1)] assms(3) Finish_execution have "execution_fits y"
      by (auto simp: execution_fits_def)
    with rows_ok_update [OF assms(2) x(1), of y] x show ?thesis by simp
  qed
  with Finish_execution assms(2) show ?thesis by (auto simp: if_written_def split: sum.split option.split)
next
  case (Cancel_execution i now)
  have "rows_ok db'" if "dget (db_executions db) i = Some x" "commit_cancel now x db = Inr (y, db')" for x y db'
    using that rows_ok_update [OF assms(2) that(1), of y] rows_ok_execution(2) [OF assms(2) that(1)]
    by (auto simp: commit_cancel_def rbind_Inr_iff Let_def execution_fits_def dest!: transitioned)
  with Cancel_execution assms(2) show ?thesis by (auto simp: on_execution_def split: option.split sum.split)
next
  case (Recover_execution i now)
  have "rows_ok db'" if "dget (db_executions db) i = Some x" "recover_row db x now = Inr (y, db')" for x y db'
    using that rows_ok_update [OF assms(2) that(1), of y] rows_ok_execution(2) [OF assms(2) that(1)] pg_text_py
    by (auto simp: recover_row_def rbind_Inr_iff Let_def execution_fits_def simp del: py_simps dest!: transitioned)
  with Recover_execution assms(2) show ?thesis by (auto simp: on_execution_def split: option.split sum.split)
next
  case (Drop_execution i)
  with rows_ok_drop [OF assms(2)] show ?thesis by simp
next
  case (Write_document sid state now)
  with rows_ok_save [OF assms(2)] show ?thesis by simp
qed

interpretation writes: invariant_machine "\<lambda>db w. if clean w then write_step env db w else db" "\<lambda>db. env_ok env \<longrightarrow> rows_ok db"
  for env
  by unfold_locales (simp add: write_step_rows_ok)

lemma rows_ok_empty: "rows_ok empty_db"
  by (simp add: rows_ok_def empty_db_def db_ok_def db_keys_ok_def single_owner_def role_of_def users_ok_def dict_ok_def)

lemma run_clean: "\<forall>w\<in>set ws. clean w \<Longrightarrow> run (write_step env) db ws = run (\<lambda>db w. if clean w then write_step env db w else db) db ws"
  by (induction ws arbitrary: db) simp_all

text \<open>C19: Starting from the freshly migrated, empty database, whatever accounts, sessions, members, snapshots,
  executions and saved documents the program writes, every row fits its table: the columns' types,
  lengths and NULLs, the primary and foreign keys and the unique indexes hold, provided the texts have
  no NUL and the numbers four bytes. The lengths need no proviso: the request schemas see to them.\<close>
theorem rows_fit_the_schema:
  assumes "env_ok env" "\<forall>w\<in>set ws. clean w"
  shows "\<exists>sch. migrate empty_schema upgrade = Inr sch \<and> fits_schema sch (rows_of (run (write_step env) empty_db ws))"
proof -
  have "rows_ok (run (write_step env) empty_db ws)"
    using writes.run_inv [of env empty_db ws] assms rows_ok_empty by (simp add: run_clean)
  moreover have "migrate empty_schema upgrade = Inr migrated"
    using migrate_upgrade .
  ultimately show ?thesis using rows_ok_fit by blast
qed

definition sample_write_env :: write_env where
  "sample_write_env = \<lparr>we_hash_password = (\<lambda>_. [36]), we_email_str = (\<lambda>e. Some [97, 64, 98]), we_strip = id\<rparr>"

definition sample_writes :: "db_write list" where
  "sample_writes =
     [Write_user 1 [97, 98, 99] [] [112, 113, 114, 115, 116, 117],
      Write_session (Create 7 0 [110] python (sample_user 1)),
      Write_execution 9 0 7 1 [120] python,
      Finish_execution 9 STARTING [111] [] None 5 3]"

theorem rows_fit_the_schema_witness:
  "\<exists>sch. migrate empty_schema upgrade = Inr sch \<and> fits_schema sch (rows_of (run (write_step sample_write_env) empty_db sample_writes)) \<and>
     map_of (execution_row (the (dget (db_executions (run (write_step sample_write_env) empty_db sample_writes)) 9))) ''stdout''
       = Some (V_text [111])"
proof -
  have "env_ok sample_write_env" by (simp add: env_ok_def sample_write_env_def pg_text_def scalar_def)
  moreover have "\<forall>w\<in>set sample_writes. clean w"
    by (simp add: sample_writes_def pg_text_def scalar_def pg_int_def)
  moreover have "map_of (execution_row (the (dget (db_executions (run (write_step sample_write_env) empty_db sample_writes)) 9))) ''stdout''
       = Some (V_text [111])"
    by (simp add: sample_writes_def sample_write_env_def register_request_def field_length_def session_create_def account_step_def
        register_def empty_db_def scalar_one_or_none_def Let_def create_session_def committed_def sample_user_def insert_execution_def
        finish_row_def transition_to_def if_written_def execution_row_def)
  ultimately show ?thesis using rows_fit_the_schema by blast
qed

section \<open>Text with a NUL\<close>

lemma replace_keeps_nul: "0 \<in> set bs \<Longrightarrow> 0 \<in> set (utf8_replace_nat bs)"
proof (induction bs rule: utf8_replace_nat.induct)
  case (1 bs)
  show ?case
  proof (cases "utf8_next bs")
    case None
    then obtain a r where bs: "bs = a # r" "128 \<le> a" using 1(3) by (cases bs) (auto split: if_splits)
    have "0 \<notin> set (take (bad_length bs) bs)"
      using bs by (auto simp: bad_length_def second_ok_def cont_def split: list.split if_splits)
    moreover have "set bs = set (take (bad_length bs) bs) \<union> set (drop (bad_length bs) bs)"
      by (metis append_take_drop_id set_append)
    ultimately have "0 \<in> set (drop (bad_length bs) bs)" using 1(3) by blast
    with 1(1) bs None show ?thesis by (subst utf8_replace_nat.simps) simp
  next
    case (Some p)
    obtain c r where p: "p = (c, r)" by fastforce
    obtain b where "utf8_char c = Some b" "bs = b @ r" using Some unfolding p by (rule utf8_next_canonical)
    moreover have "c = 0" if "utf8_char c = Some b" "0 \<in> set b" for b
      using that by (auto simp: utf8_char_def split: if_splits)
    ultimately have "c = 0 \<or> 0 \<in> set r" using 1(3) by auto
    moreover have "bs \<noteq> []" using 1(3) by auto
    moreover from this have "utf8_replace_nat bs = c # utf8_replace_nat r"
      using Some p by (subst utf8_replace_nat.simps) simp
    ultimately show ?thesis using 1(2) [OF _ Some, of c r] p by auto
  qed
qed

text \<open>C40: A program that prints a NUL byte, which every language the sandbox runs can do, has an output that does not fit
  the \<open>executions\<close> table: PostgreSQL refuses the row \<open>_finish\<close> writes, whatever the exit code.\<close>
theorem nul_output_is_refused:
  assumes "finish_row db i target (bounded limit data) stderr exit_code elapsed now = Inr (Some (x, db'))"
    and "0 \<in> set data" "length data \<le> limit"
  shows "\<not> fits_row executions_columns (execution_row x)"
proof -
  have "bounded limit data = utf8_replace_nat (map unat data)"
    using assms(3) by (simp add: bounded_def bounded_bytes_def utf8_decode_replace_def)
  moreover have "0 \<in> set (map unat data)" using assms(2) by force
  ultimately have "\<not> pg_text (bounded limit data)"
    using replace_keeps_nul by (auto simp: pg_text_def list_all_iff)
  moreover have "x_stdout x = Some (bounded limit data)"
    using assms(1) by (auto simp: finish_row_def rbind_Inr_iff Let_def split: option.splits)
  ultimately show ?thesis
    by (simp add: fits_row_def fits_column_def executions_columns_def Column_def timestamp_def execution_row_def)
qed

theorem nul_output_is_refused_witness:
  "\<exists>x db'. finish_row (empty_db\<lparr>db_executions := [(1, sample_execution\<lparr>x_status := RUNNING\<rparr>)]\<rparr>) 1 COMPLETED (bounded 8 [0]) [] (Some 0) 5 3
       = Inr (Some (x, db')) \<and> \<not> fits_row executions_columns (execution_row x)"
proof -
  obtain x db' where f: "finish_row (empty_db\<lparr>db_executions := [(1, sample_execution\<lparr>x_status := RUNNING\<rparr>)]\<rparr>) 1 COMPLETED
      (bounded 8 [0]) [] (Some 0) 5 3 = Inr (Some (x, db'))"
    by (simp add: finish_row_def transition_to_def sample_execution_def Let_def)
  from nul_output_is_refused [OF f] f show ?thesis by auto
qed

end
