(* ===== verification/Streaming.thy ===== *)
theory Streaming
  imports Jobs
begin

text \<open>The live output of a running program (\<open>execution/worker.py\<close>, \<open>_stream_output\<close>): a thread reads the
  container's output and puts it into a bounded queue, a coroutine takes it out, publishes it and keeps count. Theory
  Worker has the coroutine's side as events; here both sides and the queue between them are one machine.\<close>

section \<open>Producer, queue and consumer\<close>

text \<open>The thread: in its loop (with what it still has to put of the current pair), at the \<open>put(None)\<close> of its \<open>finally\<close>,
  or returned. The coroutine: at \<open>queue.get\<close>, left by an exception of a publish, or out of its loop.\<close>
datatype producer = Producing | Ending | Produced

datatype consumer = Consuming | Broken | Consumed

definition QUEUE_SIZE :: nat where "QUEUE_SIZE = 32"

text \<open>\<open>pi_read\<close> and \<open>pi_taken\<close> record what the container yielded and what was taken from the queue.\<close>
record pipe =
  pi_read :: "(bytes option \<times> bytes option) list"
  pi_putting :: "(stream_name \<times> bytes) list"
  pi_producer :: producer
  pi_queue :: "(stream_name \<times> bytes) option list"
  pi_taken :: "(stream_name \<times> bytes) list"
  pi_emitted :: stream
  pi_texts :: "(stream_name \<times> pystr) list"
  pi_consumer :: consumer

definition new_pipe :: pipe where
  "new_pipe = \<lparr>pi_read = [], pi_putting = [], pi_producer = Producing, pi_queue = [], pi_taken = [], pi_emitted = new_stream,
     pi_texts = [], pi_consumer = Consuming\<rparr>"

text \<open>\<open>for stream, chunk in (("stdout", stdout), ("stderr", stderr)): if chunk\<close>.\<close>
definition chunks_of :: "bytes option \<times> bytes option \<Rightarrow> (stream_name \<times> bytes) list" where
  "chunks_of out =
     (case fst out of None \<Rightarrow> [] | Some chunk \<Rightarrow> if chunk = [] then [] else [(Stdout, chunk)]) @
     (case snd out of None \<Rightarrow> [] | Some chunk \<Rightarrow> if chunk = [] then [] else [(Stderr, chunk)])"

text \<open>The container yields output, or its stream ends or raises; a \<open>put\<close> finds room; an item is taken and its
  texts are published, or a publish raises.\<close>
datatype pipe_event = Yield "bytes option \<times> bytes option" | Attach_over | Put | Get bool

definition put_step :: "pipe \<Rightarrow> pipe" where
  "put_step p =
     (if length (pi_queue p) \<ge> QUEUE_SIZE then p
      else case pi_producer p of
             Producing \<Rightarrow>
               (case pi_putting p of
                  [] \<Rightarrow> p
                | item # rest \<Rightarrow> p\<lparr>pi_putting := rest, pi_queue := pi_queue p @ [Some item]\<rparr>)
           | Ending \<Rightarrow> p\<lparr>pi_producer := Produced, pi_queue := pi_queue p @ [None]\<rparr>
           | Produced \<Rightarrow> p)"

definition get_step :: "nat \<Rightarrow> bool \<Rightarrow> pipe \<Rightarrow> pipe" where
  "get_step limit published p =
     (case (pi_consumer p, pi_queue p) of
        (Consuming, None # rest) \<Rightarrow> p\<lparr>pi_queue := rest, pi_consumer := Consumed\<rparr>
      | (Consuming, Some (name, chunk) # rest) \<Rightarrow>
          let (s, texts) = stream_chunk limit name chunk (pi_emitted p);
              p = p\<lparr>pi_queue := rest, pi_taken := pi_taken p @ [(name, chunk)], pi_emitted := s\<rparr>
          in if published \<or> texts = [] then p\<lparr>pi_texts := pi_texts p @ map (Pair name) texts\<rparr>
             else p\<lparr>pi_consumer := Broken\<rparr>
      | _ \<Rightarrow> p)"

definition pipe_step :: "nat \<Rightarrow> pipe \<Rightarrow> pipe_event \<Rightarrow> pipe" where
  "pipe_step limit p ev =
     (case ev of
        Yield out \<Rightarrow>
          if pi_producer p = Producing \<and> pi_putting p = []
          then p\<lparr>pi_read := pi_read p @ [out], pi_putting := chunks_of out\<rparr> else p
      | Attach_over \<Rightarrow> if pi_producer p = Producing \<and> pi_putting p = [] then p\<lparr>pi_producer := Ending\<rparr> else p
      | Put \<Rightarrow> put_step p
      | Get published \<Rightarrow> get_step limit published p)"

section \<open>The invariant\<close>

lemma stream_chunks_snoc:
  "stream_chunks limit cs s = (s1, ts) \<Longrightarrow> stream_chunk limit name chunk s1 = (s2, texts) \<Longrightarrow>
   stream_chunks limit (cs @ [(name, chunk)]) s = (s2, ts @ map (Pair name) texts)"
  by (induction cs arbitrary: s ts) (auto split: prod.splits)

text \<open>Everything read is taken, in the queue or about to be put, in order; the end mark is the last item; and
  while no publish has failed, the texts are those of the chunks taken.\<close>
definition pipe_ok :: "nat \<Rightarrow> pipe \<Rightarrow> bool" where
  "pipe_ok limit p \<longleftrightarrow> length (pi_queue p) \<le> QUEUE_SIZE \<and>
     (\<exists>items. pi_queue p = map Some items @ (if pi_producer p = Produced \<and> pi_consumer p \<noteq> Consumed then [None] else []) \<and>
        concat (map chunks_of (pi_read p)) = pi_taken p @ items @ pi_putting p \<and>
        (pi_consumer p = Consumed \<longrightarrow> items = [] \<and> pi_producer p = Produced)) \<and>
     (pi_producer p \<noteq> Producing \<longrightarrow> pi_putting p = []) \<and>
     (pi_consumer p \<noteq> Broken \<longrightarrow> stream_chunks limit (pi_taken p) new_stream = (pi_emitted p, pi_texts p))"

lemma pipe_ok_new: "pipe_ok limit new_pipe"
  by (simp add: pipe_ok_def new_pipe_def)

lemma pipe_ok_put: "pipe_ok limit p \<Longrightarrow> pipe_ok limit (put_step p)"
  by (auto simp: pipe_ok_def put_step_def split: producer.split list.split)

lemma pipe_ok_get:
  assumes ok: "pipe_ok limit p"
  shows "pipe_ok limit (get_step limit published p)"
proof (cases "pi_consumer p = Consuming \<and> pi_queue p \<noteq> []")
  case True
  obtain items where items: "pi_queue p = map Some items @ (if pi_producer p = Produced then [None] else [])"
    "concat (map chunks_of (pi_read p)) = pi_taken p @ items @ pi_putting p"
    using ok True by (auto simp: pipe_ok_def)
  show ?thesis
  proof (cases items)
    case Nil
    with items True have "pi_queue p = [None]" "pi_producer p = Produced" by (auto split: if_splits)
    with ok True show ?thesis by (auto simp: pipe_ok_def get_step_def)
  next
    case (Cons item rest)
    obtain name chunk s texts where e: "item = (name, chunk)" "stream_chunk limit name chunk (pi_emitted p) = (s, texts)" by fastforce
    have "stream_chunks limit (pi_taken p) new_stream = (pi_emitted p, pi_texts p)" using ok True by (simp add: pipe_ok_def)
    note texts = stream_chunks_snoc [OF this e(2)]
    show ?thesis
      using ok True items texts unfolding Cons e(1) by (auto simp: pipe_ok_def get_step_def e(2) Let_def)
  qed
qed (use ok in \<open>auto simp: get_step_def split: consumer.split list.split\<close>)

interpretation pipe: invariant_machine "pipe_step limit" "pipe_ok limit" for limit :: nat
proof unfold_locales
  show "pipe_ok limit (pipe_step limit p ev)" if "pipe_ok limit p" for p ev
    using that pipe_ok_put [OF that] pipe_ok_get [OF that] by (cases ev) (auto simp: pipe_step_def pipe_ok_def)
qed

text \<open>As long as the consumer lives, somebody can go on unless both wait for the container.\<close>
lemma pipe_goes_on:
  assumes "pipe_ok limit p" "pi_consumer p = Consuming"
  shows "pi_queue (pipe_step limit p (Get True)) \<noteq> pi_queue p \<or> pi_queue (pipe_step limit p Put) \<noteq> pi_queue p \<or>
    pi_producer p = Producing \<and> pi_putting p = [] \<and> pi_queue p = []"
proof (cases "pi_queue p")
  case Nil
  with assms show ?thesis
    by (cases "pi_producer p") (auto simp: pipe_ok_def pipe_step_def put_step_def QUEUE_SIZE_def split: list.split)
next
  case (Cons item rest)
  with assms(2) show ?thesis by (auto simp: pipe_step_def get_step_def Let_def split: option.split prod.split)
qed

section \<open>The stored output\<close>

lemma suffix_bytes: "map unat truncation_suffix = truncation_marker" "length truncation_suffix = 20"
  by (simp_all add: truncation_suffix_def truncation_marker_def py_def)

lemma bounded_cut:
  "bounded limit data = (if length data \<le> limit then utf8_decode_replace data
     else utf8_decode_replace (take (limit - 20) data) @ truncation_marker)"
proof -
  have "utf8_replace_nat truncation_marker = truncation_marker"
    using utf8_replace_ascii [of truncation_marker] by (simp add: truncation_marker_def py_def)
  moreover have "hd truncation_marker < 0x80" by (simp add: truncation_marker_def py_def)
  ultimately show ?thesis
    using utf8_replace_append [of truncation_marker "map unat (take (limit - 20) data)"]
    by (auto simp: bounded_def bounded_bytes_def utf8_decode_replace_def suffix_bytes take_map [symmetric])
qed

text \<open>What \<open>_bounded\<close> returns is text; it has at most \<open>limit\<close> characters, and encoded again at most three times as
  many bytes, but at most \<open>limit\<close> bytes if the program wrote ASCII.\<close>
lemma bounded_size:
  assumes "20 \<le> limit"
  shows "\<exists>out. utf8_encode (bounded limit data) = Some out \<and> length out \<le> 3 * limit \<and>
    ((\<forall>b\<in>set data. b < 0x80) \<longrightarrow> length out \<le> limit)"
proof -
  let ?ns = "map unat (bounded_bytes limit data)"
  have len: "length ?ns \<le> limit" using assms by (auto simp: bounded_bytes_def suffix_bytes)
  obtain out where out: "utf8_encode_nat (utf8_replace_nat ?ns) = Some out" "length out \<le> 3 * length ?ns" using utf8_replace_size by blast
  have "length out \<le> limit" if "\<forall>b\<in>set data. b < 0x80"
  proof -
    have "\<forall>n\<in>set (map unat data). n < 0x80" using that by (auto simp: word_less_nat_alt)
    moreover have "\<forall>n\<in>set truncation_marker. n < 0x80" by (simp add: truncation_marker_def py_def)
    ultimately have "\<forall>n\<in>set ?ns. n < 0x80"
      by (auto simp: bounded_bytes_def suffix_bytes(1) [symmetric] dest: in_set_takeD)
    with utf8_replace_ascii [of ?ns] out(1) len show ?thesis by simp
  qed
  with out len show ?thesis by (auto simp: bounded_def utf8_decode_replace_def bytes_encode)
qed

text \<open>The factor is reached: bytes that are not UTF-8 are stored as three bytes each.\<close>
lemma replacement_triples:
  "\<exists>out. utf8_encode (bounded limit (replicate limit 0xFF)) = Some out \<and> length out = 3 * limit"
proof -
  have "utf8_replace_nat (replicate n 0xFF) = replicate n 0xFFFD" for n
  proof (induction n)
    case (Suc n)
    then show ?case by (subst utf8_replace_nat.simps) (cases n; simp add: bad_length_def)
  qed (simp add: utf8_replace_nat.simps)
  moreover have "utf8_encode_nat (replicate n 0xFFFD) = Some (concat (replicate n [0xEF, 0xBF, 0xBD]))" for n
    by (induction n) (simp_all add: utf8_char_def)
  moreover have "length (concat (replicate n [0xEF, 0xBF, 0xBD :: nat])) = 3 * n" for n by (induction n) simp_all
  ultimately show ?thesis by (simp add: bounded_def bounded_bytes_def utf8_decode_replace_def bytes_encode)
qed

section \<open>Properties\<close>

text \<open>C29: Live output is complete, in order and bounded: at no time are more than 32 chunks queued, and when the
  consumer is done, the texts published for a stream decode, chunk by chunk, the first \<open>limit\<close> bytes of all
  the thread read of that stream (up to the end of the attachment, or to its error), with one truncation marker exactly if
  there was more. The output stored for the execution is decoded as a whole: it is the program's text if that is UTF-8 and
  fits; what is longer than \<open>limit\<close> bytes is cut and ends in the marker; it is always text that can be
  encoded, of at most \<open>limit\<close> characters, which are at most \<open>limit\<close> bytes if the program wrote ASCII
  and at most three times as many otherwise, since every byte that is not UTF-8 becomes a three-byte character.\<close>
theorem live_output_is_complete:
  assumes "20 \<le> limit" "p = run (pipe_step limit) new_pipe evs"
  shows "length (pi_queue p) \<le> 32 \<and>
    (pi_consumer p = Consumed \<longrightarrow>
      (let written = bytes_of name (concat (map chunks_of (pi_read p)))
       in \<exists>parts. concat parts = take limit written \<and>
            texts_of name (pi_texts p) = map utf8_decode_replace parts @ (if limit < length written then [truncation_marker] else []))) \<and>
    (\<forall>printed. utf8_encode printed = Some data \<and> length data \<le> limit \<longrightarrow> bounded limit data = printed) \<and>
    (limit < length data \<longrightarrow> bounded limit data = utf8_decode_replace (take (limit - 20) data) @ truncation_marker) \<and>
    length (bounded limit data) \<le> limit \<and>
    (\<exists>out. utf8_encode (bounded limit data) = Some out \<and> length out \<le> 3 * limit \<and> ((\<forall>b\<in>set data. b < 0x80) \<longrightarrow> length out \<le> limit))"
proof -
  have ok: "pipe_ok limit p" unfolding assms(2) by (rule pipe.run_inv [OF pipe_ok_new])
  note bounded = output_is_bounded [OF assms(1)]
  have "stream_chunks limit (concat (map chunks_of (pi_read p))) new_stream = (pi_emitted p, pi_texts p)" if "pi_consumer p = Consumed"
    using ok that by (auto simp: pipe_ok_def)
  then have texts: "pi_texts p = snd (stream_chunks limit (concat (map chunks_of (pi_read p))) new_stream)" if "pi_consumer p = Consumed"
    using that by simp
  have "length (pi_queue p) \<le> 32" using ok by (simp add: pipe_ok_def QUEUE_SIZE_def)
  moreover have "limit < length data \<longrightarrow> bounded limit data = utf8_decode_replace (take (limit - 20) data) @ truncation_marker"
    using bounded_cut [of limit data] by auto
  ultimately show ?thesis using bounded texts bounded_size [OF assms(1), of data] by (simp add: Let_def)
qed

text \<open>C39: A failed publish strands the thread: once the coroutine has been left by the exception, nobody takes from
  the queue, so a program that still prints fills it and the thread stays in \<open>put\<close> for ever, whatever the container
  does, although the execution is finished and its container removed.\<close>
theorem failed_publish_strands_thread:
  assumes "pi_consumer p = Broken" "length (pi_queue p) = 32" "pi_producer p \<noteq> Produced"
  shows "pi_producer (run (pipe_step limit) p evs) \<noteq> Produced"
proof -
  have "pi_consumer q = Broken \<Longrightarrow> length (pi_queue q) = 32 \<Longrightarrow> pi_producer q \<noteq> Produced \<Longrightarrow>
      pi_producer (run (pipe_step limit) q evs) \<noteq> Produced" for q
    by (induction evs arbitrary: q)
      (auto simp: pipe_step_def put_step_def get_step_def QUEUE_SIZE_def split: pipe_event.split)
  with assms show ?thesis by blast
qed

abbreviation printed_line :: pipe_event where
  "printed_line \<equiv> Yield (Some [104, 105, 10], None)"

lemma printing_fills:
  assumes "pi_consumer p = Broken" "pi_producer p = Producing" "pi_putting p = []" "length (pi_queue p) + n \<le> QUEUE_SIZE"
    and "q = run (pipe_step limit) p (concat (replicate n [printed_line, Put]))"
  shows "pi_consumer q = Broken \<and> pi_producer q = Producing \<and> length (pi_queue q) = length (pi_queue p) + n"
  using assms
proof (induction n arbitrary: p)
  case (Suc n)
  let ?p = "pipe_step limit (pipe_step limit p printed_line) Put"
  have "pi_consumer ?p = Broken" "pi_producer ?p = Producing" "pi_putting ?p = []" "length (pi_queue ?p) = Suc (length (pi_queue p))"
    using Suc.prems(1-4) by (simp_all add: pipe_step_def put_step_def chunks_of_def)
  with Suc.IH [of ?p] Suc.prems(4,5) show ?case by simp
qed simp

theorem failed_publish_strands_thread_witness:
  "\<exists>p. p = run (pipe_step 100) new_pipe ([printed_line, Put, Get False] @ concat (replicate 32 [printed_line, Put])) \<and>
     pi_producer (run (pipe_step 100) p (Attach_over # replicate 1000 Put)) \<noteq> Produced"
proof -
  let ?q = "run (pipe_step 100) new_pipe [printed_line, Put, Get False]"
  let ?p = "run (pipe_step 100) new_pipe ([printed_line, Put, Get False] @ concat (replicate 32 [printed_line, Put]))"
  have q: "pi_consumer ?q = Broken" "pi_producer ?q = Producing" "pi_putting ?q = []" "pi_queue ?q = []"
    by (simp_all add: pipe_step_def put_step_def get_step_def new_pipe_def chunks_of_def QUEUE_SIZE_def stream_chunk_def
        new_stream_def Let_def)
  have "?p = run (pipe_step 100) ?q (concat (replicate 32 [printed_line, Put]))" by (rule run_append)
  from printing_fills [OF q(1-3) _ this] q(4)
  have p: "pi_consumer ?p = Broken" "pi_producer ?p = Producing" "length (pi_queue ?p) = 32"
    by (simp_all only: QUEUE_SIZE_def list.size)
  have "pi_producer ?p \<noteq> Produced" unfolding p(2) by simp
  from failed_publish_strands_thread [OF p(1,3) this]
  have "pi_producer (run (pipe_step 100) ?p (Attach_over # replicate 1000 Put)) \<noteq> Produced" .
  then show ?thesis by blast
qed

text \<open>Two writes and the end, with the consumer behind.\<close>
abbreviation sample_output :: "bytes \<Rightarrow> bytes \<Rightarrow> bytes \<Rightarrow> pipe_event list" where
  "sample_output a b c \<equiv> [Yield (Some a, Some b), Put, Get True, Put, Yield (Some c, None), Put, Attach_over, Get True, Put, Get True, Get True]"

lemma sample_output_consumed:
  assumes "a \<noteq> []" "b \<noteq> []" "c \<noteq> []"
  shows "pi_consumer (run (pipe_step limit) new_pipe (sample_output a b c)) = Consumed"
    "pi_read (run (pipe_step limit) new_pipe (sample_output a b c)) = [(Some a, Some b), (Some c, None)]"
  using assms
  by (simp_all add: pipe_step_def put_step_def get_step_def new_pipe_def chunks_of_def QUEUE_SIZE_def Let_def case_prod_beta)

theorem live_output_is_complete_witness:
  "\<exists>p parts. p = run (pipe_step 20) new_pipe (sample_output (replicate 15 65) [66] (replicate 15 67)) \<and>
     concat parts = take 20 (replicate 15 65 @ replicate 15 67) \<and>
     texts_of Stdout (pi_texts p) = map utf8_decode_replace parts @ [truncation_marker]"
proof -
  let ?p = "run (pipe_step 20) new_pipe (sample_output (replicate 15 65) [66] (replicate 15 67))"
  have consumed: "pi_consumer ?p = Consumed" and read: "pi_read ?p = [(Some (replicate 15 65), Some [66]), (Some (replicate 15 67), None)]"
    by (rule sample_output_consumed; simp)+
  have "bytes_of Stdout (concat (map chunks_of (pi_read ?p))) = replicate 15 65 @ replicate 15 67"
    unfolding read by (simp add: chunks_of_def bytes_of_def)
  moreover have "length (replicate 15 (65 :: byte) @ replicate 15 67) = 30" by simp
  ultimately show ?thesis
    using live_output_is_complete [of 20 ?p, OF _ refl, where name = Stdout and data = "[]"] consumed by (simp only: Let_def) simp
qed

text \<open>A character that falls on a chunk boundary does not survive the chunk-by-chunk decoding; in the stored output it does.\<close>
lemma split_character:
  "snd (stream_chunks 100 [(Stdout, [0xC3]), (Stdout, [0xA9])] new_stream) = [(Stdout, [0xFFFD]), (Stdout, [0xFFFD])]"
  "bounded 100 [0xC3, 0xA9] = [0xE9]"
proof -
  have "utf8_decode_replace [0xC3] = [0xFFFD]" "utf8_decode_replace [0xA9] = [0xFFFD]"
    by (simp_all add: utf8_decode_replace_def utf8_replace_nat.simps bad_length_def)
  then show "snd (stream_chunks 100 [(Stdout, [0xC3]), (Stdout, [0xA9])] new_stream) = [(Stdout, [0xFFFD]), (Stdout, [0xFFFD])]"
    by (simp add: stream_chunk_def new_stream_def)
  have "utf8_encode [0xE9] = Some [0xC3, 0xA9]" by (simp add: utf8_encode_def utf8_char_def)
  then show "bounded 100 [0xC3, 0xA9] = [0xE9]" using output_is_bounded [of 100 "[0xC3, 0xA9]"] by simp
qed

end
