(* ===== verification/Spec2Isabelle.thy ===== *)
theory Spec2Isabelle
  imports Shell RunDocument Reading Logging Conformance Streaming
begin

text \<open>
  A verification development for the backend of Concord, a collaborative code editor that also
  runs what is written in it. The code is \<open>src/backend/app\<close>; every path below is relative to it.

  \<^bold>\<open>The program.\<close> A user logs in (\<open>auth\<close>) and works in sessions, where each member is owner, editor or
  viewer (\<open>sessions\<close>). The text of a session is a CRDT document. \<open>collaboration/document.py\<close> keeps the
  live documents, loads them from PostgreSQL and Redis, checkpoints them to Redis and saves them to
  PostgreSQL. \<open>collaboration/websocket.py\<close> is the hub: one coroutine per WebSocket and per HTTP request,
  rooms of connections, room locks, fences that stop a connection when its authorization changes.
  Frames are binary (\<open>collaboration/protocol.py\<close>); cursors are ephemeral states with clocks
  (\<open>collaboration/presence.py\<close>). Snapshots of a document can be taken and restored (\<open>snapshots\<close>). Running a
  document (\<open>execution\<close>) captures its text, queues it in Redis and lets one worker process run it in a
  container; its events come back through Redis and the hub to the room. \<open>main.py\<close> ties it together and
  shuts it down.

  \<^bold>\<open>The theories\<close>, in the order of their imports:

  \<^item> \<open>Prelude\<close>: Python values (strings as code points, dictionaries as association lists in insertion
    order, slices), raising code as sums, and the interfaces: \<open>decoder\<close> and \<open>codec\<close> over byte frames,
    \<open>invariant_machine\<close> and \<open>monotone_machine\<close> for components with a step function.
  \<^item> \<open>Utf8\<close>, \<open>Json\<close>, \<open>Printing\<close>: the UTF-8 codec and the JSON reader and writer of the standard library as far
    as the program relies on them, and that what is written is read back.
  \<^item> \<open>Models\<close> (\<open>models.py\<close>): enums, tables, the transitions of an execution.
  \<^item> \<open>Protocol\<close> (\<open>protocol.py\<close>): every encoder and decoder of frames; \<open>Awareness\<close> (\<open>presence.py\<close>): the awareness
    store and the presence manager.
  \<^item> \<open>Sessions\<close>, \<open>Snapshots\<close> (the services), \<open>Access\<close> and \<open>Identity\<close> (\<open>auth\<close>, the role checks, the endpoints for
    members and accounts), \<open>Reading\<close> (the endpoints that only read).
  \<^item> \<open>Document\<close>, \<open>Durability\<close>, \<open>Settling\<close> (\<open>document.py\<close>): the document manager as a state machine, what it
    never loses, and when everything is in storage.
  \<^item> \<open>Hub\<close>, \<open>Authorization\<close>, \<open>Rooms\<close>, \<open>Collaboration\<close>, \<open>Audience\<close>, \<open>Guarantees\<close> (\<open>websocket.py\<close> and the endpoints that
    take its room locks): the hub as a state machine, its invariants, and what they give together.
  \<^item> \<open>Schema\<close> (\<open>models.py\<close>, the migration under \<open>alembic/versions\<close>), \<open>Conformance\<close> (the request schemas): the tables of
    PostgreSQL, and that everything the program writes fits them.
  \<^item> \<open>Jobs\<close> (\<open>execution/service.py\<close>, \<open>queue.py\<close>, \<open>events.py\<close> and the pure parts of \<open>worker.py\<close>), \<open>Worker\<close> (every
    coroutine of the worker), \<open>JobOrder\<close>, \<open>JobPlaces\<close>, \<open>JobSafety\<close>, \<open>JobProgress\<close>: the order in which an execution
    moves, where it is, that it is not lost, that it ends. \<open>Streaming\<close> (\<open>_stream_output\<close>): the live output of a run
    between the thread that reads it and the coroutine that publishes it.
  \<^item> \<open>Relay\<close> (\<open>run_execution_event_relay\<close>): hub, jobs and the relay between them as one machine; \<open>RunDocument\<close>
    (\<open>run_document\<close>): the way from the live document to the queue; \<open>Lifespan\<close> (\<open>main.py\<close>): that machine under
    the periodic flush and the shutdown; \<open>Flushing\<close>: a complete round of the flush; \<open>Saving\<close> (\<open>save_session_document\<close>):
    the answer of an explicit save; \<open>Logging\<close> (\<open>main.py\<close>): the log filter; \<open>Shell\<close> (\<open>config.py\<close>): settings and Redis keys.

  \<^bold>\<open>State and steps.\<close> Python's event loop runs a coroutine without interruption up to its next \<open>await\<close>. Every
  coroutine is therefore a phase (\<open>ws_phase\<close>, \<open>http_phase\<close>, \<open>task\<close>, \<open>w_phase\<close>, \<open>j_phase\<close>, \<open>relay_phase\<close>, \<open>flush_phase\<close>,
  \<open>life_phase\<close>) that says at which \<open>await\<close> it is suspended, with the values it has captured, and an event is one
  such uninterrupted stretch. A run is any list of events: an event whose coroutine cannot go on does
  nothing, so the runs are all interleavings. What storage, Docker or a send answers, a failure or a
  cancellation included, is an argument of the event. Locks are part of the state and are first
  come, first served. A property of a run holds for every list of events; no fuel is used there. Loops of
  the code without an \<open>await\<close> are structural recursions, or have a measure: the varint decoder reads at most eight
  bytes, the JSON reader carries the depth the interpreter allows, the log filter shortens its text.

  \<^bold>\<open>Parameters.\<close> \<open>pycrdt\<close> and SHA-256 are the record \<open>crdt\<close> with the laws \<open>crdt_laws\<close> and \<open>crdt_text_laws\<close> (merging is a
  union of operations, a full update carries the whole document, equal contents show equal text); \<open>sample_crdt\<close> is
  an instance. Decoding and signing tokens, password hashes and \<open>isoformat\<close> are functions; the recursion limit of JSON
  is a number. \<open>stored_by_program\<close> says that storage holds what some earlier run of the program wrote.

  \<^bold>\<open>What is shown.\<close>
  \<^item> Authorization: a document changes only by a step of a user who is an editor or owner of the active
    session at that moment; frames and execution events reach members of their session only. Excepted are the
    connections that miss a fence because the request that changes their access fails behind its commit
    (\<open>Refresh_error\<close>, \<open>hb_unfenced\<close>); that they keep their access is shown too. The read
    endpoints show a session to its members only. The hub's tables stay consistent with one owner.
  \<^item> Durability: an accepted edit stays recoverable through everything but two events that \<open>safe_run\<close> leaves out, a failing
    read of the checkpoint during a load and the expiry of a checkpoint in Redis (after seven days by default); a reload restores it, an eviction does not
    drop a concurrent edit, a clean status means saved, an answered save is in the database with all that was uploaded, a crash after
    a checkpoint and a shutdown lose nothing, and a round of the flush makes every listed session durable
    while others work.
  \<^item> Tables: the migration creates what the models declare, and every row the program writes fits it.
  \<^item> Executions: they run the text an editor saw, only move forward, are never stranded (apart from the named
    failures) and end within a bounded number of turns if the worker is not killed, none of the calls named by \<open>careful\<close>
    fails, the clock is sound and the schedule is fair to the worker; their output is bounded (in characters; in bytes it can be
    three times the limit, \<open>replacement_triples\<close>), complete and in order, and what the worker publishes reaches the room.
  \<^item> Data: frames, varints and JSON round trip; a frame is complete and bounded; awareness clocks never go back and
    replicas agree; pages of the history are complete; credentials do not reach the log.
  \<^item> Failures the code does not handle, proved on the model: a failed checkpoint read while loading
    (\<open>failed_checkpoint_read_discards\<close>), a refresh that fails behind the commit of a role change
    (\<open>failed_refresh_keeps_access\<close>), a failed publish behind the first transition (\<open>publish_failure_strands\<close>), an
    event with an unhashable type (\<open>unhashable_type_ends_relay\<close>), two accounts matching one registration
    (\<open>register_two_matches_fails\<close>), a shutdown that does not drain the flush (\<open>gather_does_not_drain\<close>), output with a NUL
    (\<open>nul_output_is_refused\<close>), a failed publish of live output (\<open>failed_publish_strands_thread\<close>), a character on a
    chunk boundary (\<open>split_character\<close>).

  \<^bold>\<open>Not modelled.\<close> The wiring of FastAPI (routers, CORS, health), the database engine and \<open>alembic/env.py\<close>, which only
  hand settings to libraries; benchmarks, scripts, the tests and the frontend. Of the tables, the enum types PostgreSQL
  keeps beside them (the downgrade leaves them behind) and the values SQLAlchemy fills in on the client. Relationship loading is not modelled except for the
  identity map of Hub, the tar archive and the image pull only as calls that succeed or raise. Pydantic's field
  checks appear where a handler relies on them. Registering reads and inserts in one step, so of two racing registrations the model
  refuses the second by the test, the database by its unique index. Wall-clock waits are arbitrary; the worker's deadline is modelled with
  the clock values it reads. The hub and the jobs keep their tables in two states: of what the
  other writes, the jobs read only the foreign keys of a submission; Conformance has all writes on one. Log lines are
  left out. In Worker the chunks of live output arrive as events; Streaming has the thread and the queue they come from.
\<close>

end
